(* ===== verification/Prelude.thy ===== *)
theory Prelude
  imports Main "HOL-Library.Word" "HOL-Library.List_Lexorder" "HOL-Library.Char_ord"
    "HOL-Library.Sublist"
begin

text \<open>
  The shared ground of the development: the result type that stands for Rust's
  \<open>Result\<close>, ordered maps (\<open>BTreeMap\<close>), decimal numbers as text, the pieces of
  \<open>str\<close> the sources use, fixed-width integers read as numbers, and a locale of
  transition systems in which every state machine of the later theories gets its
  reachable states and its invariant rule.

  A Rust \<open>String\<close> is a \<^typ>\<open>string\<close>, the list of the bytes of its UTF-8 form, so its
  length is \<open>str::len\<close> and its order is the bytewise order \<open>str\<close> has.
\<close>

named_theorems rust_simps \<open>evaluation rules for the modelled operations\<close>
named_theorems inv_intros \<open>one-step preservation lemmas of component invariants\<close>

section \<open>Results\<close>

datatype ('a, 'e) result = Ok 'a | Err 'e

definition is_ok :: "('a, 'e) result \<Rightarrow> bool" where
  "is_ok r = (case r of Ok _ \<Rightarrow> True | Err _ \<Rightarrow> False)"

definition map_err :: "('e \<Rightarrow> 'f) \<Rightarrow> ('a, 'e) result \<Rightarrow> ('a, 'f) result" where
  "map_err f r = (case r of Ok a \<Rightarrow> Ok a | Err e \<Rightarrow> Err (f e))"

definition result_bind :: "('a, 'e) result \<Rightarrow> ('a \<Rightarrow> ('b, 'e) result) \<Rightarrow> ('b, 'e) result" where
  "result_bind r f = (case r of Ok a \<Rightarrow> f a | Err e \<Rightarrow> Err e)"

definition result_ok :: "('a, 'e) result \<Rightarrow> 'a option" where
  "result_ok r = (case r of Ok a \<Rightarrow> Some a | Err _ \<Rightarrow> None)"

lemma is_ok_simps [simp]: "is_ok (Ok a)" "\<not> is_ok (Err e)"
  by (simp_all add: is_ok_def)

lemma map_err_simps [simp]: "map_err f (Ok a) = Ok a" "map_err f (Err e) = Err (f e)"
  by (simp_all add: map_err_def)

lemma result_bind_simps [simp]: "result_bind (Ok a) f = f a" "result_bind (Err e) f = Err e"
  by (simp_all add: result_bind_def)

lemma result_ok_simps [simp]: "result_ok (Ok a) = Some a" "result_ok (Err e) = None"
  by (simp_all add: result_ok_def)

lemma map_err_eq_Ok [simp]: "map_err f r = Ok a \<longleftrightarrow> r = Ok a"
  by (cases r) simp_all

lemma result_ok_eq_Some [simp]: "result_ok r = Some a \<longleftrightarrow> r = Ok a"
  by (cases r) simp_all

lemma is_ok_iff: "is_ok r \<longleftrightarrow> (\<exists>a. r = Ok a)"
  by (cases r) simp_all

lemma result_bind_eq_Ok: "result_bind r f = Ok b \<longleftrightarrow> (\<exists>a. r = Ok a \<and> f a = Ok b)"
  by (cases r) simp_all

section \<open>Lists\<close>

lemma find_Some_in: "find P xs = Some x \<Longrightarrow> x \<in> set xs \<and> P x"
  by (induction xs) (auto split: if_splits)

lemma find_None_all: "find P xs = None \<longleftrightarrow> (\<forall>x\<in>set xs. \<not> P x)"
  by (induction xs) auto

lemma find_not_None: "x \<in> set xs \<Longrightarrow> P x \<Longrightarrow> \<exists>y. find P xs = Some y"
  by (induction xs) auto

lemma filter_eq_Cons_in: "filter P xs = y # ys \<Longrightarrow> y \<in> set xs \<and> P y"
  by (auto dest!: Cons_eq_filterD [OF sym])

lemma set_map_filter: "y \<in> set (List.map_filter f xs) \<longleftrightarrow> (\<exists>x\<in>set xs. f x = Some y)"
  by (force simp: List.map_filter_def)

text \<open>\<open>Iterator::max_by_key\<close>: the last of the elements with the greatest key.\<close>

fun max_by_key :: "('a \<Rightarrow> 'k::linorder) \<Rightarrow> 'a list \<Rightarrow> 'a option" where
  "max_by_key f [] = None"
| "max_by_key f (x # xs) =
     (case max_by_key f xs of
        None \<Rightarrow> Some x
      | Some y \<Rightarrow> Some (if f y < f x then x else y))"

text \<open>\<open>Iterator::min_by_key\<close>: the first of the elements with the least key.\<close>

fun min_by_key :: "('a \<Rightarrow> 'k::linorder) \<Rightarrow> 'a list \<Rightarrow> 'a option" where
  "min_by_key f [] = None"
| "min_by_key f (x # xs) =
     (case min_by_key f xs of
        None \<Rightarrow> Some x
      | Some y \<Rightarrow> Some (if f y < f x then y else x))"

lemma max_by_key_None [simp]: "max_by_key f xs = None \<longleftrightarrow> xs = []"
  by (cases xs) (auto split: option.splits)

lemma min_by_key_None [simp]: "min_by_key f xs = None \<longleftrightarrow> xs = []"
  by (cases xs) (auto split: option.splits)

lemma max_by_key_Some:
  "max_by_key f xs = Some x \<Longrightarrow> x \<in> set xs \<and> (\<forall>y\<in>set xs. f y \<le> f x)"
proof (induction xs arbitrary: x)
  case Nil
  then show ?case by simp
next
  case (Cons a xs)
  show ?case
  proof (cases "max_by_key f xs")
    case None
    with Cons.prems show ?thesis by auto
  next
    case (Some y)
    with Cons.IH have "y \<in> set xs" "\<forall>z\<in>set xs. f z \<le> f y" by auto
    with Some Cons.prems show ?thesis by (fastforce split: if_splits)
  qed
qed

lemma min_by_key_Some:
  "min_by_key f xs = Some x \<Longrightarrow> x \<in> set xs \<and> (\<forall>y\<in>set xs. f x \<le> f y)"
proof (induction xs arbitrary: x)
  case Nil
  then show ?case by simp
next
  case (Cons a xs)
  show ?case
  proof (cases "min_by_key f xs")
    case None
    with Cons.prems show ?thesis by auto
  next
    case (Some y)
    with Cons.IH have "y \<in> set xs" "\<forall>z\<in>set xs. f y \<le> f z" by auto
    with Some Cons.prems show ?thesis by (fastforce split: if_splits)
  qed
qed

definition max_opt :: "'a::linorder list \<Rightarrow> 'a option" where
  "max_opt xs = max_by_key (\<lambda>x. x) xs"

lemma max_opt_Nil [simp]: "max_opt [] = None"
  by (simp add: max_opt_def)

lemma max_opt_None [simp]: "max_opt xs = None \<longleftrightarrow> xs = []"
  by (simp add: max_opt_def)

lemma max_opt_Some: "max_opt xs = Some x \<Longrightarrow> x \<in> set xs \<and> (\<forall>y\<in>set xs. y \<le> x)"
  unfolding max_opt_def by (drule max_by_key_Some) auto

section \<open>Ordered maps\<close>

text \<open>
  A \<open>BTreeMap\<close> is the association list of its entries in key order, which is the
  order its iterators visit them in.
\<close>

type_synonym ('k, 'v) btree = "('k \<times> 'v) list"

fun bt_insert :: "'k::linorder \<Rightarrow> 'v \<Rightarrow> ('k, 'v) btree \<Rightarrow> ('k, 'v) btree" where
  "bt_insert k v [] = [(k, v)]"
| "bt_insert k v ((k', v') # m) =
     (if k < k' then (k, v) # (k', v') # m
      else if k = k' then (k, v) # m
      else (k', v') # bt_insert k v m)"

definition bt_get :: "('k, 'v) btree \<Rightarrow> 'k \<Rightarrow> 'v option" where
  "bt_get m k = map_of m k"

definition bt_remove :: "'k \<Rightarrow> ('k, 'v) btree \<Rightarrow> ('k, 'v) btree" where
  "bt_remove k m = filter (\<lambda>e. fst e \<noteq> k) m"

definition bt_ok :: "('k::linorder, 'v) btree \<Rightarrow> bool" where
  "bt_ok m = sorted_wrt (<) (map fst m)"

definition bt_of_list :: "('k::linorder \<times> 'v) list \<Rightarrow> ('k, 'v) btree" where
  "bt_of_list kvs = foldl (\<lambda>m kv. bt_insert (fst kv) (snd kv) m) [] kvs"

definition bt_extend :: "('k::linorder, 'v) btree \<Rightarrow> ('k \<times> 'v) list \<Rightarrow> ('k, 'v) btree" where
  "bt_extend m kvs = foldl (\<lambda>m kv. bt_insert (fst kv) (snd kv) m) m kvs"

text \<open>What the maps promise their clients, whatever their representation.\<close>

locale ordered_map =
  fixes empty :: "'m"
    and insert :: "'k \<Rightarrow> 'v \<Rightarrow> 'm \<Rightarrow> 'm"
    and remove :: "'k \<Rightarrow> 'm \<Rightarrow> 'm"
    and get :: "'m \<Rightarrow> 'k \<Rightarrow> 'v option"
    and invar :: "'m \<Rightarrow> bool"
  assumes get_empty: "get empty k = None"
    and get_insert: "get (insert k v m) k' = (if k' = k then Some v else get m k')"
    and get_remove: "get (remove k m) k' = (if k' = k then None else get m k')"
    and invar_empty: "invar empty"
    and invar_insert: "invar m \<Longrightarrow> invar (insert k v m)"
    and invar_remove: "invar m \<Longrightarrow> invar (remove k m)"
begin

lemma get_extend_notin:
  "k \<notin> fst ` set kvs \<Longrightarrow> get (foldl (\<lambda>m kv. insert (fst kv) (snd kv) m) m kvs) k = get m k"
  by (induction kvs arbitrary: m) (auto simp: get_insert)

lemma get_extend_in:
  "k \<in> fst ` set kvs \<Longrightarrow>
     \<exists>v. (k, v) \<in> set kvs \<and> get (foldl (\<lambda>m kv. insert (fst kv) (snd kv) m) m kvs) k = Some v"
proof (induction kvs arbitrary: m)
  case Nil
  then show ?case by simp
next
  case (Cons kv kvs)
  show ?case
  proof (cases "k \<in> fst ` set kvs")
    case True
    from Cons.IH [OF True, of "insert (fst kv) (snd kv) m"] show ?thesis by auto
  next
    case False
    with Cons.prems have "fst kv = k" by auto
    with False show ?thesis
      by (intro exI [of _ "snd kv"]) (auto simp: get_extend_notin get_insert)
  qed
qed

lemma invar_extend: "invar m \<Longrightarrow> invar (foldl (\<lambda>m kv. insert (fst kv) (snd kv) m) m kvs)"
  by (induction kvs arbitrary: m) (auto intro: invar_insert)

end

lemma map_of_bt_insert: "map_of (bt_insert k v m) k' = (if k' = k then Some v else map_of m k')"
  by (induction k v m rule: bt_insert.induct) auto

lemma bt_insert_keys: "set (map fst (bt_insert k v m)) = insert k (set (map fst m))"
  by (induction k v m rule: bt_insert.induct) auto

lemma bt_ok_insert: "bt_ok m \<Longrightarrow> bt_ok (bt_insert k v m)"
proof (induction k v m rule: bt_insert.induct)
  case (1 k v)
  then show ?case by (simp add: bt_ok_def)
next
  case (2 k v k' v' m)
  have keys: "set (map fst (bt_insert k v m)) = insert k (set (map fst m))"
    by (rule bt_insert_keys)
  from "2" keys show ?case
    by (auto simp: bt_ok_def dest: order.strict_trans)
qed

lemma bt_ok_remove: "bt_ok m \<Longrightarrow> bt_ok (bt_remove k m)"
  unfolding bt_ok_def bt_remove_def
  by (induction m) auto

lemma map_of_bt_remove: "map_of (bt_remove k m) k' = (if k' = k then None else map_of m k')"
  unfolding bt_remove_def by (induction m) auto

interpretation bt: ordered_map "[]" bt_insert bt_remove bt_get bt_ok
  by unfold_locales
    (auto simp: bt_get_def map_of_bt_insert map_of_bt_remove bt_ok_insert bt_ok_remove
       bt_ok_def [of "[]"])

lemmas bt_simps = bt.get_empty bt.get_insert bt.get_remove

declare bt_simps [simp]

lemma bt_ok_of_list: "bt_ok (bt_of_list kvs)"
  unfolding bt_of_list_def by (rule bt.invar_extend) (rule bt.invar_empty)

lemma bt_of_list_None: "bt_get (bt_of_list kvs) k = None \<longleftrightarrow> k \<notin> fst ` set kvs"
  using bt.get_extend_in [of k kvs "[]"] bt.get_extend_notin [of k kvs "[]"]
  unfolding bt_of_list_def by fastforce

lemma bt_of_list_Some: "bt_get (bt_of_list kvs) k = Some v \<Longrightarrow> (k, v) \<in> set kvs"
  using bt.get_extend_in [of k kvs "[]"] bt.get_extend_notin [of k kvs "[]"]
  unfolding bt_of_list_def by fastforce

lemma bt_ok_distinct: "bt_ok m \<Longrightarrow> distinct (map fst m)"
  unfolding bt_ok_def by (induction m) auto

lemma bt_get_iff: "bt_ok m \<Longrightarrow> bt_get m k = Some v \<longleftrightarrow> (k, v) \<in> set m"
  by (simp add: bt_get_def bt_ok_distinct)

lemma bt_get_in: "bt_get m k = Some v \<Longrightarrow> (k, v) \<in> set m"
  by (simp add: bt_get_def map_of_SomeD)

lemma bt_get_None: "bt_get m k = None \<longleftrightarrow> k \<notin> fst ` set m"
  by (simp add: bt_get_def map_of_eq_None_iff)

section \<open>Text\<close>

subsection \<open>Characters\<close>

definition byte_of :: "char \<Rightarrow> nat" where
  "byte_of c = of_char c"

definition is_ascii_digit :: "char \<Rightarrow> bool" where
  "is_ascii_digit c = (48 \<le> byte_of c \<and> byte_of c \<le> 57)"

definition is_ascii_lowercase :: "char \<Rightarrow> bool" where
  "is_ascii_lowercase c = (97 \<le> byte_of c \<and> byte_of c \<le> 122)"

definition is_ascii_uppercase :: "char \<Rightarrow> bool" where
  "is_ascii_uppercase c = (65 \<le> byte_of c \<and> byte_of c \<le> 90)"

definition is_ascii_alphanumeric :: "char \<Rightarrow> bool" where
  "is_ascii_alphanumeric c = (is_ascii_digit c \<or> is_ascii_lowercase c \<or> is_ascii_uppercase c)"

definition to_ascii_lowercase :: "char \<Rightarrow> char" where
  "to_ascii_lowercase c = (if is_ascii_uppercase c then char_of (byte_of c + 32) else c)"

lemma byte_of_lt [simp]: "byte_of c < 256"
  by (simp add: byte_of_def)

lemma byte_of_char_of: "n < 256 \<Longrightarrow> byte_of (char_of n) = n"
  by (simp add: byte_of_def)

lemma byte_of_inj: "byte_of c = byte_of d \<Longrightarrow> c = d"
  by (simp add: byte_of_def of_char_eq_iff)

subsection \<open>Decimal numbers\<close>

fun show_nat :: "nat \<Rightarrow> string" where
  "show_nat n = (if n < 10 then [char_of (48 + n)] else show_nat (n div 10) @ [char_of (48 + n mod 10)])"

declare show_nat.simps [simp del]

definition show_int :: "int \<Rightarrow> string" where
  "show_int i = (if i < 0 then ''-'' @ show_nat (nat (- i)) else show_nat (nat i))"

fun read_digits :: "nat \<Rightarrow> string \<Rightarrow> nat option" where
  "read_digits n [] = Some n"
| "read_digits n (c # cs) =
     (if is_ascii_digit c then read_digits (10 * n + (byte_of c - 48)) cs else None)"

text \<open>\<open>str::parse\<close> at an unsigned type of the given width: an optional \<open>+\<close>, then one digit or
  more, and no value past the type's last.\<close>

definition parse_unsigned :: "nat \<Rightarrow> string \<Rightarrow> nat option" where
  "parse_unsigned w s =
     (let ds = (case s of c # cs \<Rightarrow> if c = CHR ''+'' then cs else s | [] \<Rightarrow> s) in
      if ds = [] then None
      else (case read_digits 0 ds of
              None \<Rightarrow> None
            | Some n \<Rightarrow> if n < 2 ^ w then Some n else None))"

lemma show_nat_ne [simp]: "show_nat n \<noteq> []"
  by (subst show_nat.simps) simp

lemma read_digits_append:
  "read_digits a (xs @ ys) = (case read_digits a xs of None \<Rightarrow> None | Some b \<Rightarrow> read_digits b ys)"
  by (induction a xs rule: read_digits.induct) auto

lemma read_digits_digit:
  "d < 10 \<Longrightarrow> read_digits a [char_of (48 + d)] = Some (10 * a + d)"
  by (simp add: is_ascii_digit_def byte_of_char_of)

lemma read_show_nat: "read_digits 0 (show_nat n) = Some n"
proof (induction n rule: show_nat.induct)
  case (1 n)
  show ?case
  proof (cases "n < 10")
    case True
    with read_digits_digit [of n 0] show ?thesis by (simp add: show_nat.simps [of n])
  next
    case False
    with "1" have "read_digits 0 (show_nat (n div 10)) = Some (n div 10)" by simp
    with False read_digits_digit [of "n mod 10" "n div 10"] show ?thesis
      by (simp add: show_nat.simps [of n] read_digits_append)
  qed
qed

lemma show_nat_digits: "c \<in> set (show_nat n) \<Longrightarrow> is_ascii_digit c"
proof (induction n rule: show_nat.induct)
  case (1 n)
  then show ?case
    by (subst (asm) (2) show_nat.simps)
      (auto simp: is_ascii_digit_def byte_of_char_of split: if_splits)
qed

lemma digit_not_plus: "is_ascii_digit c \<Longrightarrow> c \<noteq> CHR ''+''"
  by (auto simp: is_ascii_digit_def byte_of_def)

lemma parse_show_nat [simp]: "n < 2 ^ w \<Longrightarrow> parse_unsigned w (show_nat n) = Some n"
proof -
  assume n: "n < 2 ^ w"
  obtain c cs where s: "show_nat n = c # cs" by (cases "show_nat n") auto
  then have "c \<noteq> CHR ''+''"
    using show_nat_digits [of c n] digit_not_plus [of c] by simp
  with s read_show_nat [of n] n show ?thesis by (simp add: parse_unsigned_def)
qed

lemma show_nat_inj: "show_nat m = show_nat n \<Longrightarrow> m = n"
  by (metis read_show_nat option.inject)

subsection \<open>Unicode characters\<close>

text \<open>
  \<open>str::chars\<close>: the text cut into characters, each the bytes of its UTF-8 form. The first byte
  of a character says how many bytes follow it.
\<close>

definition utf8_extra :: "char \<Rightarrow> nat" where
  "utf8_extra c =
     (if byte_of c < 192 then 0 else if byte_of c < 224 then 1 else if byte_of c < 240 then 2 else 3)"

fun str_chars :: "string \<Rightarrow> string list" where
  "str_chars [] = []"
| "str_chars (c # cs) = (c # take (utf8_extra c) cs) # str_chars (drop (utf8_extra c) cs)"

text \<open>\<open>char::is_control\<close>: the blocks C0 and C1 and DEL.\<close>

definition char_is_control :: "string \<Rightarrow> bool" where
  "char_is_control ch =
     (case map byte_of ch of
        [a] \<Rightarrow> a < 32 \<or> a = 127
      | [a, b] \<Rightarrow> a = 194 \<and> 128 \<le> b \<and> b < 160
      | _ \<Rightarrow> False)"

text \<open>\<open>char::is_whitespace\<close>: the characters of Unicode's property \<open>White_Space\<close>.\<close>

definition char_is_whitespace :: "string \<Rightarrow> bool" where
  "char_is_whitespace ch =
     (case map byte_of ch of
        [a] \<Rightarrow> 9 \<le> a \<and> a \<le> 13 \<or> a = 32
      | [a, b] \<Rightarrow> a = 194 \<and> (b = 133 \<or> b = 160)
      | [a, b, c] \<Rightarrow>
          a = 225 \<and> b = 154 \<and> c = 128 \<or>
          a = 226 \<and> b = 128 \<and> (c \<le> 138 \<or> c = 168 \<or> c = 169 \<or> c = 175) \<or>
          a = 226 \<and> b = 129 \<and> c = 159 \<or>
          a = 227 \<and> b = 128 \<and> c = 128
      | _ \<Rightarrow> False)"

definition str_trim :: "string \<Rightarrow> string" where
  "str_trim s =
     concat (rev (dropWhile char_is_whitespace (rev (dropWhile char_is_whitespace (str_chars s)))))"

lemma concat_str_chars [simp]: "concat (str_chars s) = s"
  by (induction s rule: str_chars.induct) auto

definition is_ascii :: "char \<Rightarrow> bool" where
  "is_ascii c = (byte_of c < 128)"

lemma str_chars_ascii: "\<forall>c\<in>set s. is_ascii c \<Longrightarrow> str_chars s = map (\<lambda>c. [c]) s"
  by (induction s rule: str_chars.induct) (auto simp: utf8_extra_def is_ascii_def)

lemma str_chars_Nil [simp]: "str_chars s = [] \<longleftrightarrow> s = []"
  by (cases s) auto

section \<open>Transition systems\<close>

inductive reachable :: "('s \<Rightarrow> bool) \<Rightarrow> ('s \<Rightarrow> 's \<Rightarrow> bool) \<Rightarrow> 's \<Rightarrow> bool" for init step where
  reach_init: "init s \<Longrightarrow> reachable init step s"
| reach_step: "reachable init step s \<Longrightarrow> step s t \<Longrightarrow> reachable init step t"

text \<open>A component whose initial states and steps keep an invariant.\<close>

locale invariant_system =
  fixes init :: "'s \<Rightarrow> bool"
    and step :: "'s \<Rightarrow> 's \<Rightarrow> bool"
    and inv :: "'s \<Rightarrow> bool"
  assumes inv_init: "init s \<Longrightarrow> inv s"
    and inv_step: "inv s \<Longrightarrow> step s t \<Longrightarrow> inv t"
begin

lemma reachable_inv: "reachable init step s \<Longrightarrow> inv s"
  by (induction rule: reachable.induct) (auto intro: inv_init inv_step)

end

end
