(* ===== verification/Protocol.thy ===== *)
theory Protocol
  imports Prelude
begin

text \<open>
  The vocabulary of \<open>crates/metralectl-protocol\<close>: node ids and the other fixed-width hex ids,
  recipe ids, links and addresses, what a node says of itself, the values a client may set on a
  launch with the bounds they are checked against, the agent's refusals, and the control verbs
  with their answers. The theorems are the boundary facts the rest relies on: an id written
  as hex reads back as itself, a parsed recipe id is safe as a file name and as an argument, and
  no value passes a bound that the bound does not name.

  A \<open>NodeId\<close> is its 32 bytes; \<open>node_id_ok\<close> is the array length that the Rust type fixes. A
  \<open>char\<close> that an error carries is the bytes of its UTF-8 form.
\<close>

section \<open>Hexadecimal\<close>

definition hex_digit :: "nat \<Rightarrow> char" where
  "hex_digit n = (if n < 10 then char_of (48 + n) else char_of (87 + n))"

text \<open>\<open>write!(f, "{b:02x}")\<close>.\<close>

definition hex_byte :: "8 word \<Rightarrow> string" where
  "hex_byte b = [hex_digit (unat b div 16), hex_digit (unat b mod 16)]"

definition hex_val :: "char \<Rightarrow> 8 word option" where
  "hex_val c =
     (let b = byte_of c in
      if 48 \<le> b \<and> b \<le> 57 then Some (of_nat (b - 48))
      else if 97 \<le> b \<and> b \<le> 102 then Some (of_nat (b - 97 + 10))
      else if 65 \<le> b \<and> b \<le> 70 then Some (of_nat (b - 65 + 10))
      else None)"

lemma hex_val_lt: "hex_val c = Some v \<Longrightarrow> unat v < 16"
  by (auto simp: hex_val_def Let_def unat_of_nat simp del: of_nat_diff of_nat_add split: if_splits)

lemma byte_of_hex_digit: "n < 16 \<Longrightarrow> byte_of (hex_digit n) = (if n < 10 then 48 + n else 87 + n)"
  by (simp add: hex_digit_def byte_of_char_of)

lemma hex_val_digit: "n < 16 \<Longrightarrow> hex_val (hex_digit n) = Some (of_nat n)"
  by (simp add: hex_val_def byte_of_hex_digit Let_def)

lemma hex_digit_val:
  "hex_val c = Some v \<Longrightarrow> hex_digit (unat v) = to_ascii_lowercase c"
  by (rule byte_of_inj)
    (auto simp: hex_val_def hex_digit_def Let_def unat_of_nat to_ascii_lowercase_def
       is_ascii_uppercase_def byte_of_char_of simp del: of_nat_diff of_nat_add split: if_splits)

definition byte_of_nibbles :: "8 word \<Rightarrow> 8 word \<Rightarrow> 8 word" where
  "byte_of_nibbles hi lo = or (push_bit 4 hi) lo"

lemma nibbles_disjoint:
  assumes "unat lo < 16"
  shows "and (push_bit 4 hi) lo = (0 :: 8 word)"
proof -
  from assms have "take_bit 4 lo = lo"
    by (simp add: word_unat_eq_iff unsigned_take_bit_eq take_bit_eq_mod unat_mod_distrib)
  then have "bit lo n \<Longrightarrow> n < 4" for n by (metis bit_take_bit_iff)
  then show ?thesis by (intro bit_word_eqI) (fastforce simp: bit_simps)
qed

lemma unat_byte_of_nibbles:
  assumes "unat hi < 16" and "unat lo < 16"
  shows "unat (byte_of_nibbles hi lo) = 16 * unat hi + unat lo"
proof -
  have "byte_of_nibbles hi lo = push_bit 4 hi + lo"
    unfolding byte_of_nibbles_def
    using nibbles_disjoint [OF assms(2)] by (simp add: disjunctive_add_eq_or)
  moreover have "push_bit 4 hi = 16 * hi" by (simp add: push_bit_eq_mult)
  ultimately have "byte_of_nibbles hi lo = of_nat (16 * unat hi + unat lo)" by simp
  moreover have "16 * unat hi + unat lo < 2 ^ LENGTH(8)" using assms by simp
  ultimately show ?thesis by (metis unat_of_nat mod_less)
qed

lemma byte_of_nibbles_split:
  "byte_of_nibbles (of_nat (unat b div 16)) (of_nat (unat b mod 16)) = b"
proof -
  have b: "unat b < 256" using unsigned_less [of b, where ?'a = nat] by simp
  then have "unat b div 16 < 16" by (simp add: div_less_iff_less_mult)
  with b have "unat (byte_of_nibbles (of_nat (unat b div 16)) (of_nat (unat b mod 16))) = unat b"
    by (subst unat_byte_of_nibbles) (simp_all add: unat_of_nat)
  then show ?thesis by (simp only: word_unat_eq_iff)
qed

section \<open>Node ids\<close>

datatype node_id = NodeId (node_bytes: "8 word list")

text \<open>The array length that \<open>[u8; 32]\<close> fixes.\<close>

definition node_id_ok :: "node_id \<Rightarrow> bool" where
  "node_id_ok n = (length (node_bytes n) = 32)"

instantiation node_id :: linorder
begin

definition less_eq_node_id :: "node_id \<Rightarrow> node_id \<Rightarrow> bool" where
  "less_eq_node_id a b = (node_bytes a \<le> node_bytes b)"

definition less_node_id :: "node_id \<Rightarrow> node_id \<Rightarrow> bool" where
  "less_node_id a b = (node_bytes a < node_bytes b)"

instance
  by standard (auto simp: less_eq_node_id_def less_node_id_def node_id.expand)

end

datatype node_id_error = NodeIdLength nat | NodeIdNotHex nat

definition hex_encode :: "8 word list \<Rightarrow> string" where
  "hex_encode bytes = concat (map hex_byte bytes)"

definition node_id_to_string :: "node_id \<Rightarrow> string" where
  "node_id_to_string n = hex_encode (node_bytes n)"

text \<open>The loop over \<open>s.as_bytes().chunks_exact(2).enumerate()\<close>, from chunk \<open>i\<close> on.\<close>

fun parse_hex_pairs :: "nat \<Rightarrow> string \<Rightarrow> (8 word list, node_id_error) result" where
  "parse_hex_pairs i (a # b # cs) =
     (case hex_val a of
        None \<Rightarrow> Err (NodeIdNotHex (i * 2))
      | Some hi \<Rightarrow>
          (case hex_val b of
             None \<Rightarrow> Err (NodeIdNotHex (i * 2 + 1))
           | Some lo \<Rightarrow>
               result_bind (parse_hex_pairs (i + 1) cs) (\<lambda>bs. Ok (byte_of_nibbles hi lo # bs))))"
| "parse_hex_pairs i _ = Ok []"

definition node_id_parse :: "string \<Rightarrow> (node_id, node_id_error) result" where
  "node_id_parse s =
     (if length s \<noteq> 64 then Err (NodeIdLength (length s))
      else result_bind (parse_hex_pairs 0 s) (\<lambda>bs. Ok (NodeId bs)))"

fun chunks4 :: "string \<Rightarrow> string list" where
  "chunks4 [] = []"
| "chunks4 (c # cs) = (c # take 3 cs) # chunks4 (drop 3 cs)"

fun str_join :: "string \<Rightarrow> string list \<Rightarrow> string" where
  "str_join sep [] = []"
| "str_join sep [s] = s"
| "str_join sep (s # t # ts) = s @ sep @ str_join sep (t # ts)"

definition node_id_short :: "node_id \<Rightarrow> string" where
  "node_id_short n = str_join ''-'' (take 4 (chunks4 (node_id_to_string n)))"

lemma length_hex_encode [simp]: "length (hex_encode bs) = 2 * length bs"
  by (induction bs) (simp_all add: hex_encode_def hex_byte_def)

lemma parse_hex_pairs_encode: "parse_hex_pairs i (hex_encode bs) = Ok bs"
proof (induction bs arbitrary: i)
  case Nil
  then show ?case by (simp add: hex_encode_def)
next
  case (Cons b bs)
  have "unat b < 256" using unsigned_less [of b, where ?'a = nat] by simp
  then have "unat b div 16 < 16" by (simp add: div_less_iff_less_mult)
  moreover have "hex_encode (b # bs) = hex_byte b @ hex_encode bs" by (simp add: hex_encode_def)
  ultimately show ?case
    using Cons.IH byte_of_nibbles_split [of b] by (simp add: hex_byte_def hex_val_digit)
qed

lemma hex_byte_nibbles:
  assumes "hex_val a = Some hi" and "hex_val b = Some lo"
  shows "hex_byte (byte_of_nibbles hi lo) = [to_ascii_lowercase a, to_ascii_lowercase b]"
  using hex_val_lt [OF assms(1)] hex_val_lt [OF assms(2)]
  by (simp add: hex_byte_def unat_byte_of_nibbles hex_digit_val [OF assms(1)]
      hex_digit_val [OF assms(2)])

lemma encode_parse_hex_pairs:
  "parse_hex_pairs i s = Ok bs \<Longrightarrow> even (length s) \<Longrightarrow>
     hex_encode bs = map to_ascii_lowercase s"
  by (induction i s arbitrary: bs rule: parse_hex_pairs.induct)
    (auto simp: hex_encode_def hex_byte_nibbles result_bind_eq_Ok split: option.splits)

lemma node_id_parse_Ok:
  "node_id_parse s = Ok n \<longleftrightarrow>
     length s = 64 \<and> (\<exists>bs. parse_hex_pairs 0 s = Ok bs \<and> n = NodeId bs)"
  by (auto simp: node_id_parse_def result_bind_eq_Ok split: if_splits)

lemma node_id_parse_to_string: "node_id_ok n \<Longrightarrow> node_id_parse (node_id_to_string n) = Ok n"
  by (cases n) (simp add: node_id_parse_def node_id_to_string_def node_id_ok_def
      parse_hex_pairs_encode)

lemma node_id_to_string_parse:
  assumes "node_id_parse s = Ok n"
  shows "node_id_to_string n = map to_ascii_lowercase s" and "node_id_ok n"
proof -
  from assms obtain bs where bs: "parse_hex_pairs 0 s = Ok bs" "n = NodeId bs" "length s = 64"
    by (auto simp: node_id_parse_Ok)
  then have "hex_encode bs = map to_ascii_lowercase s" by (intro encode_parse_hex_pairs) auto
  then show "node_id_to_string n = map to_ascii_lowercase s"
    using bs(2) by (simp add: node_id_to_string_def)
  have "length (hex_encode bs) = 64" using \<open>hex_encode bs = _\<close> bs(3) by simp
  then show "node_id_ok n" using bs(2) by (simp add: node_id_ok_def)
qed

section \<open>Fixed-width hex ids\<close>

definition to_digit16 :: "char \<Rightarrow> nat option" where
  "to_digit16 c = map_option unat (hex_val c)"

text \<open>\<open>hexid::decode\<close>, its loop from pair \<open>i\<close> on.\<close>

fun decode_pairs :: "nat \<Rightarrow> string \<Rightarrow> (8 word list, string) result" where
  "decode_pairs i (a # b # cs) =
     (case (to_digit16 a, to_digit16 b) of
        (Some hi, Some lo) \<Rightarrow>
          result_bind (decode_pairs (i + 1) cs) (\<lambda>bs. Ok (of_nat (hi * 16 + lo) # bs))
      | _ \<Rightarrow> Err (''character '' @ show_nat (i * 2) @ '' is not hexadecimal''))"
| "decode_pairs i _ = Ok []"

definition hexid_decode :: "nat \<Rightarrow> string \<Rightarrow> (8 word list, string) result" where
  "hexid_decode n s =
     (if length s \<noteq> 2 * n
      then Err (''expected '' @ show_nat (2 * n) @ '' hex characters, got '' @ show_nat (length s))
      else decode_pairs 0 s)"

definition refuse_zero :: "bool \<Rightarrow> 8 word list \<Rightarrow> string \<Rightarrow> (unit, string) result" where
  "refuse_zero nonzero bytes name =
     (if nonzero \<and> list_all (\<lambda>b. b = 0) bytes then Err (name @ '' is never all zero'') else Ok ())"

definition hex_id_from_bytes :: "string \<Rightarrow> bool \<Rightarrow> 8 word list \<Rightarrow> (8 word list, string) result" where
  "hex_id_from_bytes name nz bytes = result_bind (refuse_zero nz bytes name) (\<lambda>_. Ok bytes)"

definition hex_id_parse :: "string \<Rightarrow> nat \<Rightarrow> bool \<Rightarrow> string \<Rightarrow> (8 word list, string) result" where
  "hex_id_parse name n nz s =
     result_bind (map_err (\<lambda>e. name @ '': '' @ e) (hexid_decode n s)) (hex_id_from_bytes name nz)"

lemma decode_pairs_encode: "decode_pairs i (hex_encode bs) = Ok bs"
proof (induction bs arbitrary: i)
  case Nil
  then show ?case by (simp add: hex_encode_def)
next
  case (Cons b bs)
  have "unat b < 256" using unsigned_less [of b, where ?'a = nat] by simp
  then have b: "unat b div 16 < 16" by (simp add: div_less_iff_less_mult)
  have "hex_encode (b # bs) = hex_byte b @ hex_encode bs" by (simp add: hex_encode_def)
  moreover have "to_digit16 (hex_digit (unat b div 16)) = Some (unat b div 16)"
    using b by (simp add: to_digit16_def hex_val_digit unat_of_nat)
  moreover have "to_digit16 (hex_digit (unat b mod 16)) = Some (unat b mod 16)"
    by (simp add: to_digit16_def hex_val_digit unat_of_nat)
  moreover have "(word_of_nat (unat b div 16 * 16 + unat b mod 16) :: 8 word) = b"
    by (simp only: div_mult_mod_eq of_nat_unat ucast_id)
  ultimately show ?case using Cons.IH by (simp add: hex_byte_def)
qed

lemma hex_id_parse_encode:
  "length bs = n \<Longrightarrow> \<not> (nz \<and> list_all (\<lambda>b. b = 0) bs) \<Longrightarrow>
     hex_id_parse name n nz (hex_encode bs) = Ok bs"
  by (auto simp: hex_id_parse_def hexid_decode_def decode_pairs_encode hex_id_from_bytes_def
      refuse_zero_def)

lemma hex_id_parse_zero:
  "hex_id_parse name n True s = Ok bs \<Longrightarrow> \<exists>b\<in>set bs. b \<noteq> 0"
  by (auto simp: hex_id_parse_def result_bind_eq_Ok hex_id_from_bytes_def refuse_zero_def
      list_all_iff split: if_splits)

section \<open>Recipe ids\<close>

datatype recipe_id = RecipeId (recipe_str: string)

datatype recipe_id_error =
    RecipeIdLength nat
  | RecipeIdCharset string
  | RecipeIdPunctuation string

definition recipe_char :: "char \<Rightarrow> bool" where
  "recipe_char c = (is_ascii_lowercase c \<or> is_ascii_digit c \<or> c = CHR ''.'' \<or> c = CHR ''-'')"

definition recipe_ch :: "string \<Rightarrow> bool" where
  "recipe_ch ch = (case ch of [c] \<Rightarrow> recipe_char c | _ \<Rightarrow> False)"

fun str_contains :: "string \<Rightarrow> string \<Rightarrow> bool" where
  "str_contains pat [] = (pat = [])"
| "str_contains pat (c # cs) = (prefix pat (c # cs) \<or> str_contains pat cs)"

definition recipe_id_parse :: "string \<Rightarrow> (recipe_id, recipe_id_error) result" where
  "recipe_id_parse s =
     (if s = [] \<or> 64 < length s then Err (RecipeIdLength (length s))
      else case find (\<lambda>ch. \<not> recipe_ch ch) (str_chars s) of
        Some ch \<Rightarrow> Err (RecipeIdCharset ch)
      | None \<Rightarrow>
          (if \<not> (is_ascii_lowercase (hd s) \<or> is_ascii_digit (hd s))
           then Err (RecipeIdPunctuation ''must start with a letter or digit'')
           else if last s = CHR ''.'' \<or> last s = CHR ''-''
           then Err (RecipeIdPunctuation ''must not end with `.` or `-`'')
           else if str_contains ''..'' s
           then Err (RecipeIdPunctuation ''must not contain `..`'')
           else Ok (RecipeId s)))"

lemma str_contains_sublist: "str_contains pat s \<longleftrightarrow> sublist pat s"
  by (induction s) (auto simp: sublist_Cons_right)

lemma recipe_chars:
  "find (\<lambda>ch. \<not> recipe_ch ch) (str_chars s) = None \<Longrightarrow> c \<in> set s \<Longrightarrow> recipe_char c"
proof -
  assume "find (\<lambda>ch. \<not> recipe_ch ch) (str_chars s) = None" and c: "c \<in> set s"
  then have all: "\<forall>ch\<in>set (str_chars s). recipe_ch ch" by (simp add: find_None_all)
  from c have "c \<in> set (concat (str_chars s))" by simp
  then obtain ch where "ch \<in> set (str_chars s)" "c \<in> set ch"
    unfolding set_concat by blast
  with all have "recipe_ch ch" by blast
  with \<open>c \<in> set ch\<close> show "recipe_char c"
    unfolding recipe_ch_def by (cases ch rule: list.exhaust) (auto split: list.splits)
qed

lemma recipe_id_parse_Ok:
  "recipe_id_parse s = Ok r \<Longrightarrow>
     r = RecipeId s \<and> s \<noteq> [] \<and> length s \<le> 64 \<and> (\<forall>c\<in>set s. recipe_char c) \<and>
     (is_ascii_lowercase (hd s) \<or> is_ascii_digit (hd s)) \<and>
     last s \<noteq> CHR ''.'' \<and> last s \<noteq> CHR ''-'' \<and> \<not> sublist ''..'' s"
  using recipe_chars [of s]
  by (auto simp: recipe_id_parse_def str_contains_sublist split: if_splits option.splits)

section \<open>Links and addresses\<close>

datatype link_class =
    Roce
  | InfiniBand
  | Ethernet
  | Wireless
  | Virtual
  | Loopback
  | Unverified

definition link_rank :: "link_class \<Rightarrow> nat" where
  "link_rank c = (case c of
     InfiniBand \<Rightarrow> 5 | Roce \<Rightarrow> 4 | Ethernet \<Rightarrow> 3 | Wireless \<Rightarrow> 2 | Unverified \<Rightarrow> 1
   | Virtual \<Rightarrow> 0 | Loopback \<Rightarrow> 0)"

definition usable_for_cluster :: "link_class \<Rightarrow> bool" where
  "usable_for_cluster c = (c = InfiniBand \<or> c = Roce \<or> c = Ethernet \<or> c = Unverified)"

definition usable_for_control :: "link_class \<Rightarrow> bool" where
  "usable_for_control c = (\<not> (c = Loopback \<or> c = Virtual))"

definition link_warns :: "link_class \<Rightarrow> bool" where
  "link_warns c = (\<not> (c = InfiniBand \<or> c = Roce \<or> c = Unverified))"

definition link_label :: "link_class \<Rightarrow> string" where
  "link_label c = (case c of
     Roce \<Rightarrow> ''RoCE'' | InfiniBand \<Rightarrow> ''InfiniBand'' | Ethernet \<Rightarrow> ''Ethernet'' | Wireless \<Rightarrow> ''Wi-Fi''
   | Virtual \<Rightarrow> ''virtual'' | Loopback \<Rightarrow> ''loopback'' | Unverified \<Rightarrow> ''link unverified'')"

record node_address =
  na_iface :: string
  na_addr :: string
  na_prefix_len :: "8 word"
  na_class :: link_class
  na_speed_mbps :: "32 word option"
  na_rdma :: bool

section \<open>What a node says of itself\<close>

datatype display_name = DisplayName (display_str: string)

definition display_name_new :: "string \<Rightarrow> display_name" where
  "display_name_new raw =
     (let trimmed = str_trim (concat (take 63 (filter (\<lambda>ch. \<not> char_is_control ch) (str_chars raw))))
      in if trimmed = [] then DisplayName ''unnamed'' else DisplayName trimmed)"

record launchability =
  la_can_launch :: bool
  la_reason :: string

definition launchability_yes :: launchability where
  "launchability_yes = \<lparr>la_can_launch = True, la_reason = []\<rparr>"

definition launchability_no :: "string \<Rightarrow> launchability" where
  "launchability_no reason = \<lparr>la_can_launch = False, la_reason = reason\<rparr>"

datatype pairing_state = Discovered | Pairing | Paired | Unreachable | Vouched

text \<open>The fields of \<open>NodeDescriptor\<close> that decide something; the ones that are only drawn
  (\<open>agent_version\<close>, \<open>accelerator\<close>, \<open>os\<close>, \<open>vitals\<close>, \<open>alerts\<close>) are left out.\<close>

record node_descriptor =
  nd_id :: node_id
  nd_name :: display_name
  nd_is_local :: bool
  nd_pairing :: pairing_state
  nd_addresses :: "node_address list"
  nd_launchability :: launchability
  nd_running :: "string option"
  nd_vouched_by :: "node_id option"
  nd_reached_via :: "node_id option"

definition preferred_address :: "node_descriptor \<Rightarrow> node_address option" where
  "preferred_address d =
     max_by_key
       (\<lambda>a. [link_rank (na_class a), case na_speed_mbps a of None \<Rightarrow> 0 | Some s \<Rightarrow> unat s])
       (filter (\<lambda>a. usable_for_cluster (na_class a)) (nd_addresses d))"

section \<open>Doubles\<close>

text \<open>
  A finite \<open>f64\<close> is named by the shortest decimal that reads back to it, which is what its
  \<open>Display\<close> writes: a sign, the digits as a number, and how many of them stand after the
  point. Two doubles compare as these decimals do, because the shortest decimals of
  different doubles lie in the doubles' own rounding intervals, which do not meet.
\<close>

datatype f64 = F64NaN | F64Inf bool | F64 bool nat nat

definition f64_is_finite :: "f64 \<Rightarrow> bool" where
  "f64_is_finite x = (case x of F64 _ _ _ \<Rightarrow> True | _ \<Rightarrow> False)"

definition dec_int :: "bool \<Rightarrow> nat \<Rightarrow> int" where
  "dec_int neg m = (if neg then - int m else int m)"

fun f64_lt :: "f64 \<Rightarrow> f64 \<Rightarrow> bool" where
  "f64_lt F64NaN _ = False"
| "f64_lt _ F64NaN = False"
| "f64_lt (F64Inf n) (F64Inf n') = (n \<and> \<not> n')"
| "f64_lt (F64Inf n) (F64 _ _ _) = n"
| "f64_lt (F64 _ _ _) (F64Inf n) = (\<not> n)"
| "f64_lt (F64 n m k) (F64 n' m' k') =
     (dec_int n (m * 10 ^ k') < dec_int n' (m' * 10 ^ k))"

definition pad_zeros :: "nat \<Rightarrow> string \<Rightarrow> string" where
  "pad_zeros k s = replicate (k - length s) CHR ''0'' @ s"

fun f64_to_string :: "f64 \<Rightarrow> string" where
  "f64_to_string F64NaN = ''NaN''"
| "f64_to_string (F64Inf n) = (if n then ''-inf'' else ''inf'')"
| "f64_to_string (F64 n m k) =
     (if n then ''-'' else []) @ show_nat (m div 10 ^ k) @
     (if k = 0 then [] else ''.'' @ pad_zeros k (show_nat (m mod 10 ^ k)))"

text \<open>\<open>i64 as f64\<close>: exact up to 53 bits, to the nearest double with ties to even above.\<close>

fun excess_bits :: "nat \<Rightarrow> nat" where
  "excess_bits n = (if n < 2 ^ 53 then 0 else Suc (excess_bits (n div 2)))"

declare excess_bits.simps [simp del]

definition round53 :: "nat \<Rightarrow> nat" where
  "round53 n =
     (let e = excess_bits n; q = n div 2 ^ e; r = 2 * (n mod 2 ^ e) in
      if e = 0 then n
      else if 2 ^ e < r \<or> r = 2 ^ e \<and> odd q then (q + 1) * 2 ^ e else q * 2 ^ e)"

text \<open>The shortest digits of a whole double, rounded at the \<open>j\<close>-th decimal place.\<close>

fun shortest_int :: "nat \<Rightarrow> nat \<Rightarrow> nat" where
  "shortest_int 0 n = n"
| "shortest_int (Suc j) n =
     (let p = 10 ^ Suc j; lo = n div p * p; hi = lo + p in
      if round53 lo = n \<and> (2 * (n - lo) < p \<or> round53 hi \<noteq> n) then lo
      else if round53 hi = n then hi
      else shortest_int j n)"

definition f64_of_i64 :: "int \<Rightarrow> f64" where
  "f64_of_i64 i =
     (let a = nat \<bar>i\<bar> in F64 (i < 0) (if a < 2 ^ 53 then a else shortest_int 19 (round53 a)) 0)"

section \<open>Settings\<close>

datatype setting_value =
    VBool bool
  | VInt int
  | VFloat f64
  | VStr string

datatype bound =
    BInt int int
  | BFloat f64 f64
  | BEnum "string list"
  | BToggle
  | BBoolValue
  | BIntOrAuto int int

datatype setting_group = GServer | GPerformance | GMemoryKv | GSpeculative | GToolsChat | GTopology

datatype setting_error =
    UnknownKey string
  | Denied string string
  | OutOfRange string string string
  | NotAVariant string "string list"
  | WrongType string string

definition bound_check :: "bound \<Rightarrow> string \<Rightarrow> setting_value \<Rightarrow> (setting_value, setting_error) result" where
  "bound_check b key value =
     (case b of
        BInt mn mx \<Rightarrow>
          (case value of
             VInt n \<Rightarrow>
               if n < mn \<or> mx < n then Err (OutOfRange key (show_int mn) (show_int mx)) else Ok (VInt n)
           | _ \<Rightarrow> Err (WrongType key ''a whole number''))
      | BFloat mn mx \<Rightarrow>
          (case (case value of VFloat f \<Rightarrow> Some f | VInt i \<Rightarrow> Some (f64_of_i64 i) | _ \<Rightarrow> None) of
             None \<Rightarrow> Err (WrongType key ''a number'')
           | Some n \<Rightarrow>
               if \<not> f64_is_finite n \<or> f64_lt n mn \<or> f64_lt mx n
               then Err (OutOfRange key (f64_to_string mn) (f64_to_string mx))
               else Ok (VFloat n))
      | BEnum variants \<Rightarrow>
          (case value of
             VStr s \<Rightarrow>
               (case find (\<lambda>v. v = s) variants of
                  Some v \<Rightarrow> Ok (VStr v)
                | None \<Rightarrow> Err (NotAVariant key variants))
           | _ \<Rightarrow> Err (NotAVariant key variants))
      | BToggle \<Rightarrow> (case value of VBool x \<Rightarrow> Ok (VBool x) | _ \<Rightarrow> Err (WrongType key ''true or false''))
      | BBoolValue \<Rightarrow> (case value of VBool x \<Rightarrow> Ok (VBool x) | _ \<Rightarrow> Err (WrongType key ''true or false''))
      | BIntOrAuto mn mx \<Rightarrow>
          (case value of
             VStr s \<Rightarrow>
               if s = ''auto'' then Ok (VStr ''auto'')
               else Err (WrongType key ''`auto` or a whole number'')
           | VInt n \<Rightarrow>
               if mn \<le> n \<and> n \<le> mx then Ok (VInt n)
               else Err (OutOfRange key (show_int mn) (show_int mx))
           | _ \<Rightarrow> Err (WrongType key ''`auto` or a whole number'')))"

text \<open>What a bound names: the values that a launch can see of a setting with this bound.\<close>

definition bound_admits :: "bound \<Rightarrow> setting_value \<Rightarrow> bool" where
  "bound_admits b v =
     (case b of
        BInt mn mx \<Rightarrow> (case v of VInt n \<Rightarrow> mn \<le> n \<and> n \<le> mx | _ \<Rightarrow> False)
      | BFloat mn mx \<Rightarrow>
          (case v of VFloat x \<Rightarrow> f64_is_finite x \<and> \<not> f64_lt x mn \<and> \<not> f64_lt mx x | _ \<Rightarrow> False)
      | BEnum vs \<Rightarrow> (case v of VStr s \<Rightarrow> s \<in> set vs | _ \<Rightarrow> False)
      | BToggle \<Rightarrow> (case v of VBool _ \<Rightarrow> True | _ \<Rightarrow> False)
      | BBoolValue \<Rightarrow> (case v of VBool _ \<Rightarrow> True | _ \<Rightarrow> False)
      | BIntOrAuto mn mx \<Rightarrow>
          (case v of VStr s \<Rightarrow> s = ''auto'' | VInt n \<Rightarrow> mn \<le> n \<and> n \<le> mx | _ \<Rightarrow> False))"

lemma bound_check_admits: "bound_check b key v = Ok v' \<Longrightarrow> bound_admits b v'"
  by (auto simp: bound_check_def bound_admits_def dest: find_Some_in
      split: bound.splits setting_value.splits if_splits option.splits)

lemma bound_check_complete: "bound_admits b v \<Longrightarrow> bound_check b key v = Ok v"
  by (auto simp: bound_check_def bound_admits_def find_None_all dest!: find_Some_in
      split: bound.splits setting_value.splits if_splits option.splits)

section \<open>Refusals\<close>

datatype agent_error =
    UnsupportedProtocol "32 word" "32 word" "32 word"
  | NotPaired
  | NotReady
  | InvalidMessage string
  | UnknownRecipe string
  | NotLaunchable recipe_id string
  | BadSettings "setting_error list"
  | AlreadyRunning recipe_id
  | DockerUnavailable string
  | LaunchFailed string
  | NotRoutable node_id string
  | RelayRefused node_id "node_id option" string bool
  | ControlRefused node_id string

section \<open>Control verbs\<close>

type_synonym settings = "(string, setting_value) btree"

datatype control_req =
    RqListRecipes
  | RqPreview recipe_id settings
  | RqLaunch recipe_id settings
  | RqStop recipe_id
  | RqStatus
  | RqStats recipe_id
  | RqLogs recipe_id "32 word"

record recipe_info =
  ri_id :: recipe_id
  ri_model :: string
  ri_nodes :: "32 word"
  ri_runnable :: bool
  ri_reason :: "string option"
  ri_defaults :: settings

record running_launch =
  rl_container :: string
  rl_recipe :: "recipe_id option"
  rl_status :: string

text \<open>A \<open>LaunchReading\<close> is a set of measurements that the control plane only carries: the type
  of readings is the parameter \<open>'r\<close>.\<close>

datatype 'r control_rep =
    RpRecipes "recipe_info list"
  | RpPreviewed string "string list"
  | RpStarted recipe_id string "string option"
  | RpStopped recipe_id
  | RpStatus "running_launch list"
  | RpStats recipe_id 'r
  | RpLogs recipe_id string "string list" bool
  | RpRefused node_id agent_error

end
