(* ===== verification/Retry.thy ===== *)
theory Retry
  imports Protocol
begin

text \<open>
  The bounded retry of one control request (\<open>metralectl-control/src/control/retry.rs\<close>):
  \<open>ControlRun\<close> as a record with its two entry points \<open>start\<close> and \<open>record\<close>, the report of an
  outcome to the session, and the loop \<open>drive\<close> over a transport and a clock. A \<open>Duration\<close> is its
  number of nanoseconds. The transport and the clock are the parameters \<open>attempt\<close> and \<open>wait\<close>,
  which act on a world of type \<open>'w\<close>; nothing is assumed of them.

  The theorems: a run never makes more sends than its budget and its counter never wraps, the loop
  always ends, a refusal is never retried, and a \<open>Launch\<close> is sent a second time only right after a
  \<open>Status\<close> of the target that does not show the recipe running.
\<close>

section \<open>The run\<close>

record retry_budget =
  rb_attempts :: "32 word"
  rb_pause :: nat

text \<open>\<open>NonZeroU32\<close>.\<close>

definition budget_ok :: "retry_budget \<Rightarrow> bool" where
  "budget_ok b = (rb_attempts b \<noteq> 0)"

datatype 'r attempt =
    Answered "'r control_rep" "node_id option"
  | Lost agent_error

record lost_send =
  ls_by :: "node_id option"
  ls_error :: agent_error
  ls_via :: "node_id option"

datatype 'r outcome =
    OutAnswered "'r control_rep" "node_id option" "32 word"
  | OutRefused node_id agent_error "node_id option" "32 word"
  | OutAlreadyRunning recipe_id running_launch "node_id option" "32 word"
  | OutExhausted "32 word" "node_id option" lost_send

datatype 'r retry_step = Send control_req nat | Done "'r outcome"

record control_run =
  cr_target :: node_id
  cr_req :: control_req
  cr_budget :: retry_budget
  cr_sent :: "32 word"
  cr_probing :: bool
  cr_last_responder :: "node_id option"
  cr_last_lost :: "lost_send option"

definition launched_recipe :: "control_run \<Rightarrow> recipe_id option" where
  "launched_recipe run = (case cr_req run of RqLaunch recipe _ \<Rightarrow> Some recipe | _ \<Rightarrow> None)"

definition run_send :: "control_req \<Rightarrow> control_run \<Rightarrow> 'r retry_step \<times> control_run" where
  "run_send req run =
     (let pause = (if cr_sent run = 0 then 0 else rb_pause (cr_budget run)) in
      (Send req pause,
       run\<lparr>cr_probing := (req = RqStatus \<and> launched_recipe run \<noteq> None),
           cr_sent := cr_sent run + 1\<rparr>))"

definition run_exhausted :: "lost_send \<Rightarrow> control_run \<Rightarrow> 'r retry_step" where
  "run_exhausted lost run = Done (OutExhausted (cr_sent run) (cr_last_responder run) lost)"

definition run_lost :: "lost_send \<Rightarrow> control_run \<Rightarrow> 'r retry_step \<times> control_run" where
  "run_lost lost run =
     (if rb_attempts (cr_budget run) \<le> cr_sent run then (run_exhausted lost run, run)
      else let run = run\<lparr>cr_last_lost := Some lost\<rparr> in
        if launched_recipe run \<noteq> None then run_send RqStatus run
        else run_send (cr_req run) run)"

definition run_probed ::
    "recipe_id \<Rightarrow> running_launch list \<Rightarrow> node_id option \<Rightarrow> control_run \<Rightarrow> 'r retry_step \<times> control_run"
  where
  "run_probed recipe running via run =
     (case find (\<lambda>l. rl_recipe l = Some recipe) running of
        Some launch \<Rightarrow> (Done (OutAlreadyRunning recipe launch via (cr_sent run)), run)
      | None \<Rightarrow>
          (let taken = cr_last_lost run; run = run\<lparr>cr_last_lost := None\<rparr> in
           case taken of
             Some lost \<Rightarrow>
               if rb_attempts (cr_budget run) \<le> cr_sent run then (run_exhausted lost run, run)
               else run_send (cr_req run) run
           | None \<Rightarrow> run_send (cr_req run) run))"

definition run_start :: "node_id \<Rightarrow> control_req \<Rightarrow> retry_budget \<Rightarrow> control_run \<times> 'r retry_step" where
  "run_start target req budget =
     (let run = \<lparr>cr_target = target, cr_req = req, cr_budget = budget, cr_sent = 0,
                 cr_probing = False, cr_last_responder = None, cr_last_lost = None\<rparr>;
          (first, run) = run_send req run
      in (run, first))"

definition run_record :: "'r attempt \<Rightarrow> control_run \<Rightarrow> 'r retry_step \<times> control_run" where
  "run_record att run =
     (case att of
        Lost error \<Rightarrow> run_lost \<lparr>ls_by = None, ls_error = error, ls_via = None\<rparr> run
      | Answered rep via \<Rightarrow>
          (case rep of
             RpRefused by error \<Rightarrow>
               (case error of
                  RelayRefused _ _ _ True \<Rightarrow>
                    run_lost \<lparr>ls_by = Some by, ls_error = error, ls_via = via\<rparr>
                      (run\<lparr>cr_last_responder := Some by\<rparr>)
                | _ \<Rightarrow> (Done (OutRefused by error via (cr_sent run)), run))
           | _ \<Rightarrow>
               (let run = run\<lparr>cr_last_responder := Some (cr_target run)\<rparr> in
                case (rep, launched_recipe run) of
                  (RpStatus running, Some recipe) \<Rightarrow>
                    if cr_probing run then run_probed recipe running via run
                    else (Done (OutAnswered rep via (cr_sent run)), run)
                | _ \<Rightarrow> (Done (OutAnswered rep via (cr_sent run)), run))))"

section \<open>The report\<close>

definition noted :: "agent_error \<Rightarrow> 32 word \<Rightarrow> node_id option \<Rightarrow> agent_error" where
  "noted error attempts last_responder =
     (let note =
        (case last_responder of
           Some n \<Rightarrow> '' (gave up after '' @ show_nat (unat attempts) @ '' attempts; last answer from ''
                       @ node_id_short n @ '')''
         | None \<Rightarrow> '' (gave up after '' @ show_nat (unat attempts) @ '' attempts; no machine answered)'')
      in case error of
           NotRoutable node reason \<Rightarrow> NotRoutable node (reason @ note)
         | RelayRefused node via detail transient \<Rightarrow> RelayRefused node via (detail @ note) transient
         | other \<Rightarrow> other)"

definition into_relay :: "'r outcome \<Rightarrow> ('r control_rep \<times> node_id option, agent_error) result" where
  "into_relay out =
     (case out of
        OutAnswered rep via _ \<Rightarrow> Ok (rep, via)
      | OutRefused by error via _ \<Rightarrow> Ok (RpRefused by error, via)
      | OutAlreadyRunning recipe _ _ _ \<Rightarrow> Err (AlreadyRunning recipe)
      | OutExhausted attempts last_responder lost \<Rightarrow>
          (let error = noted (ls_error lost) attempts last_responder in
           case ls_by lost of
             Some by \<Rightarrow> Ok (RpRefused by error, ls_via lost)
           | None \<Rightarrow> Err error))"

section \<open>The loop\<close>

partial_function (option) drive_loop ::
    "(control_req \<Rightarrow> 'w \<Rightarrow> ('r attempt, agent_error) result \<times> 'w) \<Rightarrow> (nat \<Rightarrow> 'w \<Rightarrow> 'w) \<Rightarrow>
     control_run \<Rightarrow> 'r retry_step \<Rightarrow> 'w \<Rightarrow> (('r outcome, agent_error) result \<times> 'w) option"
  where
  "drive_loop attempt wait run step w =
     (case step of
        Done out \<Rightarrow> Some (Ok out, w)
      | Send req pause \<Rightarrow>
          (let w = (if pause \<noteq> 0 then wait pause w else w);
               (res, w) = attempt req w
           in case res of
                Err e \<Rightarrow> Some (Err e, w)
              | Ok a \<Rightarrow> (let (step, run) = run_record a run in drive_loop attempt wait run step w)))"

definition drive ::
    "(control_req \<Rightarrow> 'w \<Rightarrow> ('r attempt, agent_error) result \<times> 'w) \<Rightarrow> (nat \<Rightarrow> 'w \<Rightarrow> 'w) \<Rightarrow>
     node_id \<Rightarrow> control_req \<Rightarrow> retry_budget \<Rightarrow> 'w \<Rightarrow> (('r outcome, agent_error) result \<times> 'w) option"
  where
  "drive attempt wait target req budget w =
     (let (run, step) = run_start target req budget in drive_loop attempt wait run step w)"

declare drive_loop.simps [code]

section \<open>Histories\<close>

text \<open>
  The same transport and clock with a record of every send and what it produced. The record is
  only written: \<open>drive_logged\<close> below says the run is the same without it.
\<close>

type_synonym 'r sent_log = "(control_req \<times> ('r attempt, agent_error) result) list"

definition logged ::
    "(control_req \<Rightarrow> 'w \<Rightarrow> ('r attempt, agent_error) result \<times> 'w) \<Rightarrow>
     control_req \<Rightarrow> 'w \<times> 'r sent_log \<Rightarrow> ('r attempt, agent_error) result \<times> ('w \<times> 'r sent_log)"
  where
  "logged attempt req wh =
     (let (r, w) = attempt req (fst wh) in (r, (w, snd wh @ [(req, r)])))"

definition logged_wait :: "(nat \<Rightarrow> 'w \<Rightarrow> 'w) \<Rightarrow> nat \<Rightarrow> 'w \<times> 'r sent_log \<Rightarrow> 'w \<times> 'r sent_log" where
  "logged_wait wait d wh = (wait d (fst wh), snd wh)"

text \<open>A send whose fate is unknown: nobody answered, or a relay lost its leg to the target.\<close>

definition is_lost :: "('r attempt, agent_error) result \<Rightarrow> bool" where
  "is_lost r =
     (case r of
        Ok (Lost _) \<Rightarrow> True
      | Ok (Answered (RpRefused _ (RelayRefused _ _ _ transient)) _) \<Rightarrow> transient
      | _ \<Rightarrow> False)"

text \<open>A \<open>Status\<close> of the target that does not show \<open>recipe\<close> running.\<close>

definition shows_absent :: "recipe_id \<Rightarrow> control_req \<times> ('r attempt, agent_error) result \<Rightarrow> bool" where
  "shows_absent recipe e =
     (case e of
        (RqStatus, Ok (Answered (RpStatus running) _)) \<Rightarrow>
          list_all (\<lambda>l. rl_recipe l \<noteq> Some recipe) running
      | _ \<Rightarrow> False)"

definition req_recipe :: "control_req \<Rightarrow> recipe_id option" where
  "req_recipe req = (case req of RqLaunch recipe _ \<Rightarrow> Some recipe | _ \<Rightarrow> None)"

text \<open>Why a send was followed by another one.\<close>

definition retried_ok :: "control_req \<Rightarrow> control_req \<times> ('r attempt, agent_error) result \<Rightarrow> bool" where
  "retried_ok req e =
     (is_lost (snd e) \<or> (case req_recipe req of None \<Rightarrow> False | Some recipe \<Rightarrow> shows_absent recipe e))"

text \<open>
  What may be sent after the send \<open>e\<close>: a request that is not a launch is only repeated; after a
  lost send of a launch comes \<open>Status\<close>, and the launch itself comes only after a \<open>Status\<close> that
  shows the recipe absent.
\<close>

definition may_follow ::
    "control_req \<Rightarrow> control_req \<times> ('r attempt, agent_error) result \<Rightarrow> control_req \<Rightarrow> bool" where
  "may_follow req e next =
     (case req_recipe req of
        None \<Rightarrow> is_lost (snd e) \<and> next = req
      | Some recipe \<Rightarrow>
          is_lost (snd e) \<and> next = RqStatus \<or> shows_absent recipe e \<and> next = req)"

fun well_sent :: "control_req \<Rightarrow> 'r sent_log \<Rightarrow> bool" where
  "well_sent req (e # e' # h) = (may_follow req e (fst e') \<and> well_sent req (e' # h))"
| "well_sent req _ = True"

text \<open>
  What an outcome promises of the send that ended the run: an answer is the target's, a refusal is
  a decision, a launch is reported as running on the word of a \<open>Status\<close> that lists it, and
  only a spent budget is reported as such.
\<close>

fun outcome_attempts :: "'r outcome \<Rightarrow> 32 word" where
  "outcome_attempts (OutAnswered _ _ n) = n"
| "outcome_attempts (OutRefused _ _ _ n) = n"
| "outcome_attempts (OutAlreadyRunning _ _ _ n) = n"
| "outcome_attempts (OutExhausted n _ _) = n"

definition outcome_spec ::
    "control_req \<Rightarrow> retry_budget \<Rightarrow> control_req \<times> ('r attempt, agent_error) result \<Rightarrow> 'r outcome \<Rightarrow> bool"
  where
  "outcome_spec req budget e out =
     (case out of
        OutAnswered rep via _ \<Rightarrow>
          snd e = Ok (Answered rep via) \<and> (\<forall>by err. rep \<noteq> RpRefused by err) \<and>
          (fst e = req \<or> \<not> (\<exists>running. rep = RpStatus running))
      | OutRefused by err via _ \<Rightarrow>
          snd e = Ok (Answered (RpRefused by err) via) \<and> \<not> is_lost (snd e)
      | OutAlreadyRunning recipe launch via _ \<Rightarrow>
          req_recipe req = Some recipe \<and> rl_recipe launch = Some recipe \<and>
          (\<exists>running. e = (RqStatus, Ok (Answered (RpStatus running) via)) \<and> launch \<in> set running)
      | OutExhausted n _ _ \<Rightarrow>
          rb_attempts budget \<le> n \<and> retried_ok req e)"

text \<open>The loop as a transition system over the run, its step and the sends so far.\<close>

type_synonym 'r retry_state = "control_run \<times> 'r retry_step \<times> 'r sent_log"

definition retry_init :: "node_id \<Rightarrow> control_req \<Rightarrow> retry_budget \<Rightarrow> 'r retry_state \<Rightarrow> bool" where
  "retry_init target req budget s =
     (case run_start target req budget of (run, step) \<Rightarrow> s = (run, step, []))"

inductive retry_trans :: "'r retry_state \<Rightarrow> 'r retry_state \<Rightarrow> bool" where
  "run_record a run = (step', run') \<Longrightarrow>
     retry_trans (run, Send rq p, h) (run', step', h @ [(rq, Ok a)])"

inductive_cases retry_transE: "retry_trans s t"

definition retry_inv :: "node_id \<Rightarrow> control_req \<Rightarrow> retry_budget \<Rightarrow> 'r retry_state \<Rightarrow> bool" where
  "retry_inv target req budget s =
     (case s of (run, step, h) \<Rightarrow>
        cr_target run = target \<and> cr_req run = req \<and> cr_budget run = budget \<and>
        unat (cr_sent run) \<le> unat (rb_attempts budget) \<and>
        well_sent req h \<and> (h \<noteq> [] \<longrightarrow> fst (hd h) = req) \<and>
        (case step of
           Send rq _ \<Rightarrow>
             unat (cr_sent run) = Suc (length h) \<and>
             cr_probing run = (rq = RqStatus \<and> req_recipe req \<noteq> None) \<and>
             (cr_probing run \<longrightarrow> cr_last_lost run \<noteq> None) \<and>
             (if h = [] then rq = req else may_follow req (last h) rq)
         | Done out \<Rightarrow>
             unat (cr_sent run) = length h \<and> outcome_attempts out = cr_sent run \<and>
             h \<noteq> [] \<and> outcome_spec req budget (last h) out))"

lemma req_recipe_simps [simp]:
  "req_recipe (RqLaunch recipe ss) = Some recipe"
  "req_recipe RqStatus = None"
  by (simp_all add: req_recipe_def)

lemma launched_recipe_req: "launched_recipe run = req_recipe (cr_req run)"
  by (simp add: launched_recipe_def req_recipe_def)

lemma well_sent_snoc:
  "well_sent req (h @ [e]) \<longleftrightarrow> well_sent req h \<and> (h = [] \<or> may_follow req (last h) (fst e))"
  by (induction req h rule: well_sent.induct) auto

lemma unat_Suc_lt:
  fixes a b :: "32 word"
  shows "a < b \<Longrightarrow> unat (a + 1) = Suc (unat a)"
  using unsigned_less [of b, where ?'a = nat]
  by (simp add: word_less_nat_alt unat_word_ariths)

text \<open>One answer: the run keeps what it is, and it sends again only where it may.\<close>

lemma run_record_step:
  assumes "run_record a run = (step', run')"
    and "cr_probing run = (rq = RqStatus \<and> req_recipe (cr_req run) \<noteq> None)"
    and "cr_probing run \<longrightarrow> cr_last_lost run \<noteq> None"
    and "cr_probing run \<or> rq = cr_req run"
  shows "cr_target run' = cr_target run \<and> cr_req run' = cr_req run \<and> cr_budget run' = cr_budget run \<and>
    (case step' of
       Done out \<Rightarrow>
         cr_sent run' = cr_sent run \<and> outcome_attempts out = cr_sent run \<and>
         outcome_spec (cr_req run) (cr_budget run) (rq, Ok a) out
     | Send rq' _ \<Rightarrow>
         cr_sent run < rb_attempts (cr_budget run) \<and> cr_sent run' = cr_sent run + 1 \<and>
         cr_probing run' = (rq' = RqStatus \<and> req_recipe (cr_req run) \<noteq> None) \<and>
         (cr_probing run' \<longrightarrow> cr_last_lost run' \<noteq> None) \<and>
         may_follow (cr_req run) (rq, Ok a) rq')"
proof (cases a)
  case (Lost e)
  with assms show ?thesis
    by (auto simp: run_record_def run_lost_def run_exhausted_def run_send_def launched_recipe_req
        may_follow_def is_lost_def outcome_spec_def retried_ok_def Let_def not_le
        split: if_splits option.splits)
next
  case (Answered rep via)
  show ?thesis
  proof (cases "is_lost (Ok a)")
    case True
    with Answered assms show ?thesis
      by (auto simp: run_record_def run_lost_def run_exhausted_def run_send_def launched_recipe_req
          may_follow_def is_lost_def outcome_spec_def retried_ok_def Let_def not_le
          split: if_splits option.splits control_rep.splits agent_error.splits bool.splits)
  next
    case False
    with Answered assms show ?thesis
      by (auto simp: run_record_def run_probed_def run_exhausted_def run_send_def launched_recipe_req
          may_follow_def is_lost_def shows_absent_def list_all_iff find_None_all outcome_spec_def
          retried_ok_def Let_def not_le dest: find_Some_in
          split: if_splits option.splits control_rep.splits agent_error.splits bool.splits)
  qed
qed

lemma run_start_eq:
  "run_start target req budget =
     (\<lparr>cr_target = target, cr_req = req, cr_budget = budget, cr_sent = 1,
       cr_probing = (req = RqStatus \<and> req_recipe req \<noteq> None), cr_last_responder = None,
       cr_last_lost = None\<rparr>, Send req 0)"
  by (simp add: run_start_def run_send_def launched_recipe_req)

lemma retry_inv_init: "budget_ok budget \<Longrightarrow> retry_init target req budget s \<Longrightarrow> retry_inv target req budget s"
proof -
  assume b: "budget_ok budget" and s: "retry_init target req budget s"
  from b have "1 \<le> unat (rb_attempts budget)"
    by (simp add: budget_ok_def unat_gt_0 Suc_le_eq)
  moreover have "\<not> (req = RqStatus \<and> (\<exists>y. req_recipe req = Some y))" by auto
  ultimately show ?thesis using s by (auto simp: retry_init_def retry_inv_def run_start_eq)
qed

lemma retry_inv_trans:
  assumes "retry_inv target req budget s" and "retry_trans s t"
  shows "retry_inv target req budget t"
  using assms(2)
proof (cases rule: retry_trans.cases)
  case (1 a run step' run' rq p h)
  from assms(1) 1(1) have inv:
    "cr_target run = target" "cr_req run = req" "cr_budget run = budget"
    "unat (cr_sent run) \<le> unat (rb_attempts budget)" "well_sent req h"
    "h \<noteq> [] \<Longrightarrow> fst (hd h) = req" "unat (cr_sent run) = Suc (length h)"
    "cr_probing run = (rq = RqStatus \<and> req_recipe req \<noteq> None)"
    "cr_probing run \<longrightarrow> cr_last_lost run \<noteq> None"
    "if h = [] then rq = req else may_follow req (last h) rq"
    by (auto simp: retry_inv_def)
  have pending: "cr_probing run \<or> rq = req"
    using inv(8,10) by (auto simp: may_follow_def split: if_splits option.splits)
  note step = run_record_step [OF 1(3), of rq, unfolded inv(2), OF inv(8) inv(9) pending]
  have sent: "cr_sent run < rb_attempts budget \<Longrightarrow>
      unat (cr_sent run + 1) = Suc (unat (cr_sent run)) \<and>
      Suc (unat (cr_sent run)) \<le> unat (rb_attempts budget)"
    using unat_Suc_lt [of "cr_sent run" "rb_attempts budget"]
    by (auto simp: word_less_nat_alt)
  have "well_sent req (h @ [(rq, Ok a)])" using inv(5,10) by (auto simp: well_sent_snoc split: if_splits)
  moreover have "fst (hd (h @ [(rq, Ok a)])) = req" using inv(6,10) by (cases h) auto
  ultimately show ?thesis
    using 1(2) step sent inv by (cases step') (auto simp: retry_inv_def)
qed

text \<open>The invariant belongs to the runs of a budget that allows a send at all; without one the
  system has no initial state.\<close>

interpretation rs: invariant_system
  "\<lambda>s. budget_ok budget \<and> retry_init target req budget s" retry_trans "retry_inv target req budget"
  for target req budget
  by unfold_locales (auto intro: retry_inv_init retry_inv_trans)

lemma retry_inv_sends:
  "retry_inv target req budget (run, Send rq p, h) \<Longrightarrow> length h < unat (rb_attempts budget)"
  by (simp add: retry_inv_def)

text \<open>Who is blamed: a kept loss, a reported loss and a reported refusal are all in the log.\<close>

definition lost_in :: "lost_send \<Rightarrow> 'r sent_log \<Rightarrow> bool" where
  "lost_in l h =
     ((case ls_by l of
         None \<Rightarrow> Ok (Lost (ls_error l))
       | Some by \<Rightarrow> Ok (Answered (RpRefused by (ls_error l)) (ls_via l))) \<in> snd ` set h)"

definition blame_inv :: "'r retry_state \<Rightarrow> bool" where
  "blame_inv s =
     (case s of (run, step, h) \<Rightarrow>
        (case cr_last_lost run of None \<Rightarrow> True | Some l \<Rightarrow> lost_in l h) \<and>
        (case step of
           Done (OutExhausted _ _ l) \<Rightarrow> lost_in l h
         | Done (OutRefused by err via _) \<Rightarrow> Ok (Answered (RpRefused by err) via) \<in> snd ` set h
         | _ \<Rightarrow> True))"

lemma lost_in_snoc: "lost_in l h \<Longrightarrow> lost_in l (h @ [e])"
  by (auto simp: lost_in_def)

lemma lost_in_new:
  "lost_in \<lparr>ls_by = None, ls_error = e, ls_via = v\<rparr> (h @ [(rq, Ok (Lost e))])"
  "lost_in \<lparr>ls_by = Some by, ls_error = e, ls_via = via\<rparr>
     (h @ [(rq, Ok (Answered (RpRefused by e) via))])"
  by (simp_all add: lost_in_def)

lemma blame_inv_init: "retry_init target req budget s \<Longrightarrow> blame_inv s"
  by (auto simp: retry_init_def blame_inv_def run_start_eq)

lemma blame_inv_trans:
  assumes "blame_inv s" and "retry_trans s t"
  shows "blame_inv t"
  using assms(2)
proof (cases rule: retry_trans.cases)
  case (1 a run step' run' rq p h)
  have kept: "cr_last_lost run = Some l \<Longrightarrow> lost_in l (h @ [(rq, Ok a)])" for l
    using assms(1) 1(1) by (auto simp: blame_inv_def intro: lost_in_snoc)
  show ?thesis
  proof (cases a)
    case (Lost e)
    with 1 kept show ?thesis
      by (auto simp: blame_inv_def run_record_def run_lost_def run_exhausted_def run_send_def
          lost_in_new Let_def split: if_splits option.splits)
  next
    case (Answered rep via)
    show ?thesis
    proof (cases rep)
      case (RpRefused who err)
      with 1 kept Answered show ?thesis
        by (auto simp: blame_inv_def run_record_def run_lost_def run_exhausted_def run_send_def
            lost_in_new Let_def split: if_splits option.splits agent_error.splits bool.splits)
    next
      case (RpStatus running)
      with 1 kept Answered show ?thesis
        by (auto simp: blame_inv_def run_record_def run_probed_def run_exhausted_def run_send_def
            Let_def split: if_splits option.splits)
    qed (use 1 kept Answered in
      \<open>auto simp: blame_inv_def run_record_def Let_def split: option.splits\<close>)
  qed
qed

interpretation rb: invariant_system
  "\<lambda>s. budget_ok budget \<and> retry_init target req budget s" retry_trans blame_inv
  for target req budget
  by unfold_locales (auto intro: blame_inv_init blame_inv_trans)

text \<open>The loop from any reachable state: it ends, and it ends in a state that the steps reach, or
  one local refusal after one.\<close>

abbreviation retry_reach :: "node_id \<Rightarrow> control_req \<Rightarrow> retry_budget \<Rightarrow> 'r retry_state \<Rightarrow> bool" where
  "retry_reach target req budget \<equiv>
     reachable (\<lambda>s. budget_ok budget \<and> retry_init target req budget s) retry_trans"

definition drive_end ::
    "node_id \<Rightarrow> control_req \<Rightarrow> retry_budget \<Rightarrow> ('r outcome, agent_error) result \<Rightarrow> 'r sent_log \<Rightarrow> bool"
  where
  "drive_end target req budget res h =
     (case res of
        Ok out \<Rightarrow> \<exists>run. retry_reach target req budget (run, Done out, h)
      | Err e \<Rightarrow> \<exists>run rq p h0.
          retry_reach target req budget (run, Send rq p, h0) \<and> h = h0 @ [(rq, Err e)])"

lemma drive_loop_ends:
  assumes "retry_reach target req budget (run, step, h)"
  shows "\<exists>res w' h'.
    drive_loop (logged attempt) (logged_wait wait) run step (w, h) = Some (res, (w', h')) \<and>
    drive_loop attempt wait run step w = Some (res, w') \<and>
    drive_end target req budget res h'"
  using assms
proof (induction "unat (rb_attempts budget) - length h" arbitrary: run step w h rule: less_induct)
  case less
  show ?case
  proof (cases step)
    case (Done out)
    with less.prems show ?thesis
      by (auto simp: drive_loop.simps [of _ _ run] drive_end_def)
  next
    case (Send rq p)
    define w1 where "w1 = (if p \<noteq> 0 then wait p w else w)"
    obtain r w2 where r: "attempt rq w1 = (r, w2)" by fastforce
    have lw: "(if p \<noteq> 0 then logged_wait wait p (w, h) else (w, h)) = (w1, h)"
      by (simp add: w1_def logged_wait_def)
    have la: "logged attempt rq (w1, h) = (r, (w2, h @ [(rq, r)]))"
      by (simp add: logged_def r)
    show ?thesis
    proof (cases r)
      case (Err e)
      with less.prems Send r lw la show ?thesis
        by (auto simp: drive_loop.simps [of _ _ run] drive_end_def w1_def Let_def)
    next
      case (Ok a)
      obtain step' run' where s: "run_record a run = (step', run')" by fastforce
      have "retry_trans (run, step, h) (run', step', h @ [(rq, Ok a)])"
        unfolding Send using s by (rule retry_trans.intros)
      with less.prems have reach': "retry_reach target req budget (run', step', h @ [(rq, Ok a)])"
        by (rule reach_step)
      have "length h < unat (rb_attempts budget)"
        using rs.reachable_inv [OF less.prems] Send by (simp add: retry_inv_sends)
      then have "unat (rb_attempts budget) - length (h @ [(rq, Ok a)]) <
          unat (rb_attempts budget) - length h" by simp
      from less.hyps [OF this reach'] s r lw la Send Ok show ?thesis
        by (simp add: drive_loop.simps [of _ _ run] w1_def Let_def)
    qed
  qed
qed

lemma drive_ends:
  fixes attempt :: "control_req \<Rightarrow> 'w \<Rightarrow> ('r attempt, agent_error) result \<times> 'w"
  assumes "budget_ok budget"
  shows "\<exists>res w' h.
    drive (logged attempt) (logged_wait wait) target req budget (w, []) = Some (res, (w', h)) \<and>
    drive attempt wait target req budget w = Some (res, w') \<and>
    drive_end target req budget res h"
proof -
  obtain run and step :: "'r retry_step" where rs: "run_start target req budget = (run, step)"
    by fastforce
  have "retry_reach target req budget (run, step, [])"
    using assms rs by (intro reach_init) (auto simp: retry_init_def)
  from drive_loop_ends [OF this] show ?thesis unfolding drive_def rs prod.case by simp
qed

lemma drive_logged_end:
  assumes "budget_ok budget"
    and "drive (logged attempt) (logged_wait wait) target req budget (w, []) = Some (res, (w', h))"
  shows "drive_end target req budget res h"
  using drive_ends [OF assms(1), of attempt wait target req w] assms(2) by auto

text \<open>Every log of a run is well sent, and is the run's prefix of the budget.\<close>

lemma drive_end_sends:
  assumes "drive_end target req budget res h"
  shows "well_sent req h" and "h \<noteq> []" and "fst (hd h) = req"
    and "length h \<le> unat (rb_attempts budget)"
proof -
  have "well_sent req h \<and> h \<noteq> [] \<and> fst (hd h) = req \<and> length h \<le> unat (rb_attempts budget)"
  proof (cases res)
    case (Ok out)
    with assms obtain run where "retry_reach target req budget (run, Done out, h)"
      by (auto simp: drive_end_def)
    from rs.reachable_inv [OF this] show ?thesis by (auto simp: retry_inv_def)
  next
    case (Err e)
    with assms obtain run rq p h0 where h: "h = h0 @ [(rq, Err e)]"
      and "retry_reach target req budget (run, Send rq p, h0)"
      by (auto simp: drive_end_def)
    from rs.reachable_inv [OF this(2)] h show ?thesis
      by (auto simp: retry_inv_def well_sent_snoc hd_append split: if_splits)
  qed
  then show "well_sent req h" and "h \<noteq> []" and "fst (hd h) = req"
    and "length h \<le> unat (rb_attempts budget)" by auto
qed

lemma well_sent_nth:
  "well_sent req h \<Longrightarrow> Suc i < length h \<Longrightarrow> may_follow req (h ! i) (fst (h ! Suc i))"
proof (induction req h arbitrary: i rule: well_sent.induct)
  case (1 req e e' h)
  then show ?case by (cases i) auto
qed auto

section \<open>Claims\<close>

text \<open>
  C1. Bounded and live: whatever the transport and the clock do, a run with a non-zero budget
  returns. It makes at least one send and no more than the budget allows, the first is the request
  itself, the attempt count it reports is the number of sends it made (so the 32-bit counter has
  not wrapped), and the run of the bare transport is the run of the logged one.
\<close>

theorem drive_within_budget:
  assumes "budget_ok budget"
  shows "\<exists>res w' h.
    drive (logged attempt) (logged_wait wait) target req budget (w, []) = Some (res, (w', h)) \<and>
    drive attempt wait target req budget w = Some (res, w') \<and>
    h \<noteq> [] \<and> fst (hd h) = req \<and> length h \<le> unat (rb_attempts budget) \<and>
    (case res of Ok out \<Rightarrow> unat (outcome_attempts out) = length h
     | Err e \<Rightarrow> snd (last h) = Err e)"
proof -
  from drive_ends [OF assms, of attempt wait target req w] obtain res w' h where d:
    "drive (logged attempt) (logged_wait wait) target req budget (w, []) = Some (res, (w', h))"
    "drive attempt wait target req budget w = Some (res, w')"
    "drive_end target req budget res h" by blast
  have "case res of Ok out \<Rightarrow> unat (outcome_attempts out) = length h | Err e \<Rightarrow> snd (last h) = Err e"
    using d(3) by (auto simp: drive_end_def retry_inv_def dest: rs.reachable_inv split: result.splits)
  with d drive_end_sends [OF d(3)] show ?thesis by blast
qed

text \<open>
  At most once without evidence: in a run of \<open>Launch\<close>, every send after the first is either a
  \<open>Status\<close> that follows a lost send, or the launch again right after an answered \<open>Status\<close> in which
  no launch of the recipe is running.
\<close>

lemma drive_second_launch_guarded:
  assumes "budget_ok budget"
    and "drive (logged attempt) (logged_wait wait) target (RqLaunch recipe settings) budget (w, []) =
      Some (res, (w', h))"
    and "Suc i < length h"
  shows "fst (h ! Suc i) = RqStatus \<and> is_lost (snd (h ! i)) \<or>
    fst (h ! Suc i) = RqLaunch recipe settings \<and> shows_absent recipe (h ! i)"
  using drive_end_sends(1) [OF drive_logged_end [OF assms(1,2)]] assms(3)
  by (auto dest: well_sent_nth simp: may_follow_def)

text \<open>
  A refusal is an answer: when a send draws a refusal that is not a lost leg, it is the last
  send of the run, and the outcome is that refusal, by whoever made it, unchanged.
\<close>

lemma drive_refusal_final:
  assumes "budget_ok budget"
    and "drive (logged attempt) (logged_wait wait) target req budget (w, []) = Some (res, (w', h))"
    and "i < length h"
    and "snd (h ! i) = Ok (Answered (RpRefused by err) via)"
    and "\<not> is_lost (snd (h ! i))"
  shows "Suc i = length h \<and> res = Ok (OutRefused by err via (of_nat (length h)))"
proof -
  note fin = drive_logged_end [OF assms(1,2)]
  have not_absent: "\<not> shows_absent r (h ! i)" for r
    using assms(4) by (auto simp: shows_absent_def split: prod.splits control_req.splits)
  have "\<not> Suc i < length h"
  proof
    assume "Suc i < length h"
    from well_sent_nth [OF drive_end_sends(1) [OF fin] this] show False
      using assms(5) not_absent by (auto simp: may_follow_def split: option.splits)
  qed
  with assms(3) have i: "Suc i = length h" by simp
  then have "last h = h ! i" by (metis diff_Suc_1 last_conv_nth length_0_conv nat.distinct(1))
  with assms(4,5) not_absent have l:
    "snd (last h) = Ok (Answered (RpRefused by err) via)" "\<not> retried_ok req (last h)"
    by (auto simp: retried_ok_def split: option.splits)
  from fin l(1) obtain out run where out: "res = Ok out"
    and "retry_reach target req budget (run, Done out, h)"
    by (auto simp: drive_end_def split: result.splits)
  from rs.reachable_inv [OF this(2)] have "outcome_spec req budget (last h) out"
    and "unat (outcome_attempts out) = length h" by (auto simp: retry_inv_def)
  with l have "out = OutRefused by err via (outcome_attempts out)"
    by (cases out) (auto simp: outcome_spec_def)
  moreover have "outcome_attempts out = of_nat (length h)"
    using \<open>unat (outcome_attempts out) = length h\<close> by (metis of_nat_unat ucast_id)
  ultimately show ?thesis using out i by simp
qed

text \<open>
  The outcome tells the truth about the send that ended the run (\<open>outcome_spec\<close>), and a run is
  reported as exhausted only when exactly the whole budget was spent.
\<close>

lemma drive_outcome_sound:
  assumes "budget_ok budget"
    and "drive (logged attempt) (logged_wait wait) target req budget (w, []) =
      Some (Ok out, (w', h))"
  shows "outcome_spec req budget (last h) out \<and>
    (case out of OutExhausted n _ _ \<Rightarrow> n = rb_attempts budget | _ \<Rightarrow> True)"
proof -
  from drive_logged_end [OF assms] obtain run where
    "retry_reach target req budget (run, Done out, h)" by (auto simp: drive_end_def)
  from rs.reachable_inv [OF this] show ?thesis
    by (auto simp: retry_inv_def outcome_spec_def word_le_nat_alt word_unat_eq_iff split: outcome.splits)
qed

text \<open>
  No one is put words in the mouth of: when the session's relay port answers with a refusal by
  some machine, that machine sent a refusal during this run, through the relay that the answer
  names, with the same error up to the note on how hard the agent tried.
\<close>

lemma relay_refusal_was_sent:
  assumes "budget_ok budget"
    and "drive (logged attempt) (logged_wait wait) target req budget (w, []) =
      Some (Ok out, (w', h))"
    and "into_relay out = Ok (RpRefused by err, via)"
  shows "\<exists>err'. Ok (Answered (RpRefused by err') via) \<in> snd ` set h \<and>
    (err = err' \<or> (\<exists>n who. err = noted err' n who))"
proof -
  from drive_logged_end [OF assms(1,2)] obtain run where
    r: "retry_reach target req budget (run, Done out, h)" by (auto simp: drive_end_def)
  from rs.reachable_inv [OF r] have "outcome_spec req budget (last h) out"
    by (auto simp: retry_inv_def)
  with rb.reachable_inv [OF r] assms(3) show ?thesis
    by (cases out)
      (auto simp: blame_inv_def into_relay_def outcome_spec_def lost_in_def Let_def
        split: option.splits)
qed

section \<open>A run\<close>

text \<open>
  A transport that plays a script of answers and then refuses locally, and the run in which the
  first launch is lost, the \<open>Status\<close> shows nothing running, and the second launch is refused.
\<close>

definition scripted :: "control_req \<Rightarrow> 'r attempt list \<Rightarrow> ('r attempt, agent_error) result \<times> 'r attempt list" where
  "scripted req w = (case w of [] \<Rightarrow> (Err NotReady, []) | a # w \<Rightarrow> (Ok a, w))"

definition run_target :: node_id where
  "run_target = NodeId (replicate 32 7)"

definition run_launch :: control_req where
  "run_launch = RqLaunch (RecipeId ''a'') []"

definition run_budget :: retry_budget where
  "run_budget = \<lparr>rb_attempts = 3, rb_pause = 5\<rparr>"

definition run_script :: "unit attempt list" where
  "run_script =
     [Lost NotReady, Answered (RpStatus []) None,
      Answered (RpRefused run_target (LaunchFailed ''x'')) None]"

definition run_log :: "unit sent_log" where
  "run_log =
     [(run_launch, Ok (Lost NotReady)), (RqStatus, Ok (Answered (RpStatus []) None)),
      (run_launch, Ok (Answered (RpRefused run_target (LaunchFailed ''x'')) None))]"

definition run_outcome :: "unit outcome" where
  "run_outcome = OutRefused run_target (LaunchFailed ''x'') None 3"

lemmas run_defs = run_launch_def run_budget_def run_script_def run_log_def run_outcome_def

lemma run_budget_ok: "budget_ok run_budget"
  by (simp add: budget_ok_def run_budget_def)

lemma run_example:
  "drive (logged scripted) (logged_wait (\<lambda>_ w. w)) run_target run_launch run_budget (run_script, []) =
     Some (Ok run_outcome, ([], run_log))"
  unfolding drive_def run_start_eq run_defs
  by (simp add: drive_loop.simps logged_def logged_wait_def scripted_def run_record_def run_lost_def
      run_probed_def run_send_def launched_recipe_req Let_def word_le_nat_alt)

theorem drive_within_budget_witness:
  "\<exists>res w' h.
     drive (logged scripted) (logged_wait (\<lambda>_ w. w)) run_target run_launch run_budget (run_script, []) =
       Some (res, (w', h)) \<and> length h \<le> 3"
  using drive_within_budget [OF run_budget_ok, of scripted "\<lambda>_ w. w" run_target run_launch run_script]
  by (auto simp: run_budget_def)

end
