(* ===== verification/Net.thy ===== *)
theory Net
  imports Protocol
begin

text \<open>
  Addresses and reachability: \<open>metralectl-agent/src/rendezvous.rs\<close>, over the standard library's
  \<open>Ipv4Addr\<close> and \<open>IpAddr\<close> parsers, which are written out. An IPv4 address is its 32-bit number; an
  IPv6 address is its eight groups. The one piece of I/O, a TCP connect, is the parameter
  \<open>connect\<close>.

  The theorems: the subnet test is exactly agreement on the network bits and an
  equivalence, a text that parses as an address has no character an option or a shell could use, and
  the address chosen for a peer is one of the peer's, on a shared subnet whenever it has one there.
\<close>

section \<open>Parsing addresses\<close>

type_synonym ipv4 = "32 word"

datatype ip_addr = V4 ipv4 | V6 "16 word list"

text \<open>\<open>Parser::read_number\<close>: the digits in front, at most \<open>maxd\<close> of them.\<close>

definition is_digit_in :: "nat \<Rightarrow> char \<Rightarrow> bool" where
  "is_digit_in radix c = (case hex_val c of None \<Rightarrow> False | Some v \<Rightarrow> unat v < radix)"

definition digits_value :: "nat \<Rightarrow> string \<Rightarrow> nat" where
  "digits_value radix ds =
     foldl (\<lambda>n c. n * radix + (case hex_val c of None \<Rightarrow> 0 | Some v \<Rightarrow> unat v)) 0 ds"

definition read_number :: "nat \<Rightarrow> nat \<Rightarrow> bool \<Rightarrow> nat \<Rightarrow> string \<Rightarrow> (nat \<times> string) option" where
  "read_number radix maxd allow_zero_prefix width s =
     (let ds = takeWhile (is_digit_in radix) s; rest = dropWhile (is_digit_in radix) s in
      if maxd < length ds \<or> ds = [] then None
      else if \<not> allow_zero_prefix \<and> hd ds = CHR ''0'' \<and> 1 < length ds then None
      else if digits_value radix ds < 2 ^ width then Some (digits_value radix ds, rest)
      else None)"

definition read_char :: "char \<Rightarrow> string \<Rightarrow> string option" where
  "read_char c s = (case s of d # ds \<Rightarrow> if d = c then Some ds else None | [] \<Rightarrow> None)"

definition read_octet :: "string \<Rightarrow> (nat \<times> string) option" where
  "read_octet s = read_number 10 3 False 8 s"

definition read_dot_octet :: "string \<Rightarrow> (nat \<times> string) option" where
  "read_dot_octet s = Option.bind (read_char CHR ''.'' s) read_octet"

definition read_ipv4 :: "string \<Rightarrow> (ipv4 \<times> string) option" where
  "read_ipv4 s =
     Option.bind (read_octet s) (\<lambda>(a, s).
     Option.bind (read_dot_octet s) (\<lambda>(b, s).
     Option.bind (read_dot_octet s) (\<lambda>(c, s).
     Option.bind (read_dot_octet s) (\<lambda>(d, s).
       Some (((of_nat a * 256 + of_nat b) * 256 + of_nat c) * 256 + of_nat d, s)))))"

definition ipv4_parse :: "string \<Rightarrow> ipv4 option" where
  "ipv4_parse s =
     (case read_ipv4 s of Some (a, rest) \<Rightarrow> if rest = [] then Some a else None | None \<Rightarrow> None)"

definition after_sep :: "bool \<Rightarrow> (string \<Rightarrow> ('a \<times> string) option) \<Rightarrow> string \<Rightarrow> ('a \<times> string) option" where
  "after_sep first rd s = (if first then rd s else Option.bind (read_char CHR '':'' s) rd)"

text \<open>\<open>read_groups\<close> with \<open>n\<close> slots left, from the first slot or behind another group.\<close>

fun read_groups :: "nat \<Rightarrow> bool \<Rightarrow> string \<Rightarrow> 16 word list \<times> bool \<times> string" where
  "read_groups 0 first s = ([], False, s)"
| "read_groups (Suc n) first s =
     (case (if 1 \<le> n then after_sep first read_ipv4 s else None) of
        Some (a, rest) \<Rightarrow> ([of_nat (unat a div 65536), of_nat (unat a mod 65536)], True, rest)
      | None \<Rightarrow>
          (case after_sep first (read_number 16 4 True 16) s of
             None \<Rightarrow> ([], False, s)
           | Some (g, rest) \<Rightarrow>
               (let (gs, v4, rest') = read_groups n False rest in (of_nat g # gs, v4, rest'))))"

definition read_ipv6 :: "string \<Rightarrow> (16 word list \<times> string) option" where
  "read_ipv6 s =
     (let (head, head4, rest) = read_groups 8 True s in
      if length head = 8 then Some (head, rest)
      else if head4 then None
      else Option.bind (read_char CHR '':'' rest) (\<lambda>rest.
           Option.bind (read_char CHR '':'' rest) (\<lambda>rest.
             let (tail, _, rest) = read_groups (8 - (length head + 1)) True rest in
             Some (head @ replicate (8 - length head - length tail) 0 @ tail, rest))))"

definition ip_parse :: "string \<Rightarrow> ip_addr option" where
  "ip_parse s =
     (case read_ipv4 s of
        Some (a, rest) \<Rightarrow> if rest = [] then Some (V4 a) else None
      | None \<Rightarrow>
          (case read_ipv6 s of
             Some (g, rest) \<Rightarrow> if rest = [] then Some (V6 g) else None
           | None \<Rightarrow> None))"

section \<open>Rendezvous\<close>

definition same_network :: "ipv4 \<Rightarrow> ipv4 \<Rightarrow> 8 word \<Rightarrow> bool" where
  "same_network a b plen =
     (if plen = 0 \<or> 32 < plen then False
      else
        let mask = (if plen = 32 then - 1 else push_bit (32 - unat plen) (- 1)) in
        and a mask = and b mask)"

definition on_local_subnet :: "string \<Rightarrow> node_address list \<Rightarrow> bool" where
  "on_local_subnet target local =
     (case ipv4_parse target of
        None \<Rightarrow> False
      | Some t \<Rightarrow>
          list_ex (\<lambda>a.
            if na_prefix_len a = 0 \<or> 32 < na_prefix_len a then False
            else case ipv4_parse (na_addr a) of
              None \<Rightarrow> False
            | Some host \<Rightarrow> same_network host t (na_prefix_len a)) local)"

definition shares_network :: "string \<Rightarrow> 8 word \<Rightarrow> string \<Rightarrow> bool" where
  "shares_network host plen other =
     (case (ipv4_parse host, ipv4_parse other) of
        (Some h, Some o') \<Rightarrow> same_network h o' plen
      | _ \<Rightarrow> False)"

datatype io_error_kind = ConnectionRefused | ConnectionReset | TimedOut | OtherKind string

definition is_an_answer :: "(unit, io_error_kind) result \<Rightarrow> bool" where
  "is_an_answer outcome =
     (case outcome of Ok _ \<Rightarrow> True | Err k \<Rightarrow> k = ConnectionRefused \<or> k = ConnectionReset)"

text \<open>\<open>connect_outcome\<close>, over what \<open>TcpStream::connect_timeout\<close> answers.\<close>

definition connect_outcome ::
    "(ip_addr \<Rightarrow> 16 word \<Rightarrow> (unit, io_error_kind) result) \<Rightarrow> ip_addr \<Rightarrow> 16 word \<Rightarrow>
     (unit, io_error_kind) result option" where
  "connect_outcome connect ip port =
     (case connect ip port of
        Ok _ \<Rightarrow> Some (Ok ())
      | Err e \<Rightarrow> if e = TimedOut then None else Some (Err e))"

definition answers ::
    "(ip_addr \<Rightarrow> 16 word \<Rightarrow> (unit, io_error_kind) result) \<Rightarrow> string \<Rightarrow> 16 word \<Rightarrow> bool" where
  "answers connect target port =
     (case ip_parse target of
        None \<Rightarrow> False
      | Some ip \<Rightarrow>
          (case connect_outcome connect ip port of None \<Rightarrow> False | Some r \<Rightarrow> is_an_answer r))"

text \<open>The key of \<open>max_by_key\<close> here: link class first, then speed.\<close>

definition link_key :: "node_address \<Rightarrow> nat list" where
  "link_key a = [link_rank (na_class a), case na_speed_mbps a of None \<Rightarrow> 0 | Some s \<Rightarrow> unat s]"

definition best_reachable :: "node_address list \<Rightarrow> node_address list \<Rightarrow> node_address option" where
  "best_reachable candidates local =
     (let usable = filter (\<lambda>a. usable_for_cluster (na_class a)) candidates in
      case max_by_key link_key (filter (\<lambda>a. on_local_subnet (na_addr a) local) usable) of
        Some a \<Rightarrow> Some a
      | None \<Rightarrow> max_by_key link_key usable)"

definition rendezvous_explain :: "string \<Rightarrow> node_address list \<Rightarrow> string" where
  "rendezvous_explain target local =
     (let links = remdups_adj (sort (map (\<lambda>a. na_addr a @ ''/'' @ show_nat (unat (na_prefix_len a))
                    @ '' on '' @ na_iface a) (filter (\<lambda>a. 0 < na_prefix_len a) local))) in
      if links = []
      then ''this node cannot reach the rendezvous address '' @ target @ '', and reports ''
           @ ''no subnets of its own to compare it against''
      else ''this node cannot reach the rendezvous address '' @ target @ ''. It is attached to ''
           @ str_join '', '' links
           @ ''. The head offered an address on a link this machine is not on -- a DGX Spark ''
           @ ''carries several point-to-point RoCE links, and only one of them reaches here.'')"

section \<open>What parses\<close>

definition ip_char :: "char \<Rightarrow> bool" where
  "ip_char c = (hex_val c \<noteq> None \<or> c = CHR ''.'' \<or> c = CHR '':'')"

lemma read_number_chars:
  "read_number radix maxd z w s = Some (n, rest) \<Longrightarrow>
     \<exists>ds. s = ds @ rest \<and> list_all ip_char ds \<and> ds \<noteq> []"
proof -
  assume a: "read_number radix maxd z w s = Some (n, rest)"
  let ?ds = "takeWhile (is_digit_in radix) s"
  have "rest = dropWhile (is_digit_in radix) s" "?ds \<noteq> []"
    using a by (auto simp: read_number_def Let_def split: if_splits)
  moreover have "list_all ip_char ?ds"
    by (auto simp: list_all_iff ip_char_def is_digit_in_def dest!: set_takeWhileD split: option.splits)
  ultimately show ?thesis by (metis takeWhile_dropWhile_id)
qed

lemma read_char_Some [simp]: "read_char c s = Some rest \<longleftrightarrow> s = c # rest"
  by (cases s) (auto simp: read_char_def)

lemma read_octet_chars:
  "read_octet s = Some (n, rest) \<Longrightarrow> \<exists>ds. s = ds @ rest \<and> list_all ip_char ds \<and> ds \<noteq> []"
  unfolding read_octet_def by (rule read_number_chars)

lemma read_dot_octet_chars:
  "read_dot_octet s = Some (n, rest) \<Longrightarrow> \<exists>ds. s = ds @ rest \<and> list_all ip_char ds"
  by (auto simp: read_dot_octet_def bind_eq_Some_conv ip_char_def dest!: read_octet_chars
      intro: exI [of _ "CHR ''.'' # _"])

lemma read_ipv4_chars:
  assumes "read_ipv4 s = Some (a, rest)"
  shows "\<exists>ds. s = ds @ rest \<and> list_all ip_char ds \<and> ds \<noteq> []"
proof -
  from assms obtain x b c s1 s2 s3 d where
    "read_octet s = Some (x, s1)" "read_dot_octet s1 = Some (b, s2)"
    "read_dot_octet s2 = Some (c, s3)" "read_dot_octet s3 = Some (d, rest)"
    by (auto simp: read_ipv4_def bind_eq_Some_conv)
  with read_octet_chars [of s x s1] read_dot_octet_chars [of s1 b s2]
    read_dot_octet_chars [of s2 c s3] read_dot_octet_chars [of s3 d rest]
  obtain d1 d2 d3 d4 where "s = (d1 @ d2 @ d3 @ d4) @ rest" "d1 \<noteq> []"
    "list_all ip_char (d1 @ d2 @ d3 @ d4)" by auto
  then show ?thesis by blast
qed

lemma after_sep_chars:
  assumes "after_sep first rd s = Some (x, rest)"
    and "\<And>s x rest. rd s = Some (x, rest) \<Longrightarrow> \<exists>ds. s = ds @ rest \<and> list_all ip_char ds \<and> ds \<noteq> []"
  shows "\<exists>ds. s = ds @ rest \<and> list_all ip_char ds"
proof (cases first)
  case True
  with assms(1) have "rd s = Some (x, rest)" by (simp add: after_sep_def)
  from assms(2) [OF this] show ?thesis by blast
next
  case False
  with assms(1) obtain s' where s: "s = CHR '':'' # s'" "rd s' = Some (x, rest)"
    by (auto simp: after_sep_def bind_eq_Some_conv)
  from assms(2) [OF this(2)] obtain ds where "s' = ds @ rest" "list_all ip_char ds" by blast
  with s show ?thesis by (intro exI [of _ "CHR '':'' # ds"]) (simp add: ip_char_def)
qed

lemma read_groups_chars:
  "read_groups n first s = (gs, v4, rest) \<Longrightarrow> \<exists>ds. s = ds @ rest \<and> list_all ip_char ds"
proof (induction n first s arbitrary: gs v4 rest rule: read_groups.induct)
  case (1 first s)
  then show ?case by simp
next
  case (2 n first s)
  show ?case
  proof (cases "if 1 \<le> n then after_sep first read_ipv4 s else None")
    case (Some p)
    with 2(2) show ?thesis
      using after_sep_chars [of first read_ipv4 s "fst p" "snd p"] read_ipv4_chars
      by (auto split: if_splits prod.splits)
  next
    case None
    note outer = None
    show ?thesis
    proof (cases "after_sep first (read_number 16 4 True 16) s")
      case None
      with outer 2(2) show ?thesis by auto
    next
      case (Some p)
      obtain g r where p: "p = (g, r)" by fastforce
      obtain gs' v' r' where rg: "read_groups n False r = (gs', v', r')" by (cases "read_groups n False r") auto
      from 2(1) [OF outer Some p [symmetric] rg] obtain d2 where "r = d2 @ r'" "list_all ip_char d2" by blast
      moreover from after_sep_chars [OF Some [unfolded p]] read_number_chars
      obtain d1 where "s = d1 @ r" "list_all ip_char d1" by blast
      moreover have "rest = r'" using 2(2) outer Some p rg by auto
      ultimately show ?thesis by (intro exI [of _ "d1 @ d2"]) simp
    qed
  qed
qed

lemma read_ipv6_chars:
  assumes "read_ipv6 s = Some (g, rest)"
  shows "\<exists>ds. s = ds @ rest \<and> list_all ip_char ds"
proof -
  obtain h h4 r where h: "read_groups 8 True s = (h, h4, r)" by (cases "read_groups 8 True s") auto
  from read_groups_chars [OF h] obtain d1 where d1: "s = d1 @ r" "list_all ip_char d1" by blast
  show ?thesis
  proof (cases "length h = 8")
    case True
    with assms h d1 show ?thesis by (auto simp: read_ipv6_def)
  next
    case False
    with assms h obtain r2 where r2: "r = '':'' @ '':'' @ r2"
      "rest = snd (snd (read_groups (8 - (length h + 1)) True r2))"
      by (auto simp: read_ipv6_def bind_eq_Some_conv case_prod_beta Let_def split: if_splits)
    obtain t t4 r3 where t: "read_groups (8 - (length h + 1)) True r2 = (t, t4, r3)"
      by (cases "read_groups (8 - (length h + 1)) True r2") auto
    from read_groups_chars [OF t] obtain d2 where "r2 = d2 @ r3" "list_all ip_char d2" by blast
    with d1 r2 t show ?thesis
      by (intro exI [of _ "d1 @ '':'' @ '':'' @ d2"]) (auto simp: ip_char_def)
  qed
qed

lemma ip_parse_chars: "ip_parse s = Some ip \<Longrightarrow> list_all ip_char s"
  by (auto simp: ip_parse_def dest!: read_ipv4_chars read_ipv6_chars split: option.splits if_splits)

section \<open>Networks\<close>

lemma and_eq_and_iff:
  "and a m = and b m \<longleftrightarrow> (\<forall>n. bit m n \<longrightarrow> bit a n = bit b n)" for a b m :: "'a::len word"
  by (auto simp: bit_eq_iff bit_and_iff) (blast dest: bit_imp_le_length)+

lemma same_network_bits:
  "same_network a b p \<longleftrightarrow>
     p \<noteq> 0 \<and> unat p \<le> 32 \<and> (\<forall>n. 32 - unat p \<le> n \<longrightarrow> n < 32 \<longrightarrow> bit a n = bit b n)"
proof -
  have le: "\<not> 32 < p \<longleftrightarrow> unat p \<le> 32" by (simp add: word_less_nat_alt not_less)
  have mask: "(if p = 32 then - 1 else push_bit (32 - unat p) (- 1)) = push_bit (32 - unat p) (- 1 :: ipv4)"
    by simp
  have "bit (push_bit k (- 1 :: ipv4)) n \<longleftrightarrow> k \<le> n \<and> n < 32" for k n
    by (auto simp: bit_simps)
  then show ?thesis
    unfolding same_network_def mask Let_def and_eq_and_iff using le by auto
qed

text \<open>
  The subnet test means what it says: two addresses share a network of length \<open>p\<close> exactly when
  \<open>p\<close> is from 1 to 32 and they agree on their first \<open>p\<close> bits; it is an equivalence for each such \<open>p\<close>,
  and a shorter prefix only ever joins networks.
\<close>

lemma same_network_is_prefix_agreement:
  "(same_network a b p \<longleftrightarrow>
      p \<noteq> 0 \<and> unat p \<le> 32 \<and> (\<forall>n. 32 - unat p \<le> n \<longrightarrow> n < 32 \<longrightarrow> bit a n = bit b n)) \<and>
   (same_network a b p \<longrightarrow> same_network b a p) \<and>
   (same_network a b p \<and> same_network b c p \<longrightarrow> same_network a c p) \<and>
   (same_network a b p \<and> q \<le> p \<and> q \<noteq> 0 \<longrightarrow> same_network a b q)"
  by (auto simp: same_network_bits word_le_nat_alt)

text \<open>
  The only value of a rank's command line that comes from another machine is harmless text: a
  string that parses as an address is non-empty and made of hexadecimal digits, dots and colons,
  so it is no option, has no space and nothing a shell would act on.
\<close>

lemma ip_parse_harmless:
  assumes "ip_parse s = Some ip"
  shows "s \<noteq> [] \<and> (\<forall>c\<in>set s. hex_val c \<noteq> None \<or> c = CHR ''.'' \<or> c = CHR '':'') \<and> \<not> prefix ''-'' s"
proof -
  have "ip_parse [] = None" by code_simp
  with assms have "s \<noteq> []" by auto
  moreover from ip_parse_chars [OF assms] have all: "\<forall>c\<in>set s. ip_char c" by (simp add: list_all_iff)
  moreover have "\<not> ip_char CHR ''-''" by code_simp
  with all have "\<not> prefix ''-'' s" by (auto simp: prefix_def)
  ultimately show ?thesis by (auto simp: ip_char_def)
qed

text \<open>
  The address dialled is the peer's best from here: it is one of the candidates and usable for a
  cluster; when some usable candidate is on a subnet this machine is attached to, so is the chosen
  one, and none of those is on a better link; a choice is made whenever one can be.
\<close>

lemma best_reachable_spec:
  "(case best_reachable candidates local of
      None \<Rightarrow> \<not> list_ex (\<lambda>a. usable_for_cluster (na_class a)) candidates
    | Some a \<Rightarrow>
        a \<in> set candidates \<and> usable_for_cluster (na_class a) \<and>
        list_all (\<lambda>b. usable_for_cluster (na_class b) \<longrightarrow> on_local_subnet (na_addr b) local \<longrightarrow>
           on_local_subnet (na_addr a) local \<and> link_key b \<le> link_key a) candidates)"
proof -
  let ?u = "filter (\<lambda>a. usable_for_cluster (na_class a)) candidates"
  let ?l = "filter (\<lambda>a. on_local_subnet (na_addr a) local) ?u"
  show ?thesis
  proof (cases "max_by_key link_key ?l")
    case (Some a)
    with max_by_key_Some [OF Some] show ?thesis by (simp add: best_reachable_def Let_def list_all_iff)
  next
    case None
    then have l: "?l = []" by (simp only: max_by_key_None)
    then have none: "b \<in> set ?u \<Longrightarrow> \<not> on_local_subnet (na_addr b) local" for b
      by (simp add: filter_empty_conv)
    have eq: "best_reachable candidates local = max_by_key link_key ?u"
      using None by (simp add: best_reachable_def Let_def)
    show ?thesis
    proof (cases "max_by_key link_key ?u")
      case None
      then have "?u = []" by (simp only: max_by_key_None)
      then show ?thesis unfolding eq None by (auto simp: list_ex_iff filter_empty_conv)
    next
      case (Some a)
      from max_by_key_Some [OF this] none show ?thesis
        unfolding eq Some by (auto simp: list_all_iff)
    qed
  qed
qed

section \<open>Examples\<close>

end
