(* ===== verification/Cluster.thy ===== *)
theory Cluster
  imports Net "HOL-Library.Multiset"
begin

text \<open>
  Planning a launch that spans several machines, and the gate before its commit
  (\<open>metralectl-agent/src/cluster.rs\<close>): which node gets which rank, the address the ranks meet
  at, the refusals of a planner and of a rank, and the tracker that counts the replies of a prepare.
\<close>

section \<open>Plans\<close>

definition CLUSTER_MASTER_PORT :: "16 word" where
  "CLUSTER_MASTER_PORT = 29500"

record rank_assignment =
  ra_node :: node_id
  ra_rank :: "16 word"
  ra_world_size :: "16 word"
  ra_master_addr :: string
  ra_master_port :: "16 word"
  ra_recipe :: string
  ra_recipe_hash :: string
  ra_settings :: settings

record cluster_plan =
  cp_epoch :: string
  cp_recipe :: string
  cp_ranks :: "rank_assignment list"
  cp_link :: link_class
  cp_link_warning :: "string option"

datatype plan_error =
    PlanNodeCount string "32 word" nat
  | PlanNotLaunchable string string
  | PlanNotPaired string
  | PlanNoUsableLink string
  | PlanHeadNotSelected
  | PlanDuplicateNode

text \<open>The addresses of the head that every worker shares a network with.\<close>

definition shared_addresses :: "node_descriptor \<Rightarrow> node_descriptor list \<Rightarrow> node_address list" where
  "shared_addresses head selected =
     (let workers = filter (\<lambda>n. nd_id n \<noteq> nd_id head) selected in
      filter (\<lambda>candidate. list_all (\<lambda>w. list_ex (\<lambda>a.
          usable_for_cluster (na_class a) \<and>
          shares_network (na_addr candidate) (na_prefix_len candidate) (na_addr a))
        (nd_addresses w)) workers)
      (filter (\<lambda>a. usable_for_cluster (na_class a) \<and> 0 < na_prefix_len a) (nd_addresses head)))"

definition rendezvous_address ::
    "node_descriptor \<Rightarrow> node_descriptor list \<Rightarrow> node_address option" where
  "rendezvous_address head selected =
     (case max_by_key link_key (shared_addresses head selected) of
        Some a \<Rightarrow> Some a
      | None \<Rightarrow> preferred_address head)"

text \<open>The loop over the selected nodes; \<open>seen\<close> is the set of the ids before.\<close>

fun check_selected :: "node_id set \<Rightarrow> node_descriptor list \<Rightarrow> (unit, plan_error) result" where
  "check_selected seen [] = Ok ()"
| "check_selected seen (n # ns) =
     (if nd_id n \<in> seen then Err PlanDuplicateNode
      else if nd_pairing n \<noteq> Paired \<and> \<not> nd_is_local n then Err (PlanNotPaired (display_str (nd_name n)))
      else if \<not> la_can_launch (nd_launchability n)
      then Err (PlanNotLaunchable (display_str (nd_name n)) (la_reason (nd_launchability n)))
      else check_selected (insert (nd_id n) seen) ns)"

text \<open>\<open>u16::try_from(n).unwrap_or(u16::MAX)\<close>.\<close>

definition u16_of :: "nat \<Rightarrow> 16 word" where
  "u16_of n = (if n < 65536 then of_nat n else - 1)"

definition worst_link :: "node_descriptor list \<Rightarrow> link_class" where
  "worst_link selected =
     (case min_by_key link_rank
        (List.map_filter (\<lambda>n. map_option na_class (preferred_address n)) selected) of
        Some c \<Rightarrow> c
      | None \<Rightarrow> Ethernet)"

definition link_warning :: "link_class \<Rightarrow> string option" where
  "link_warning worst =
     (if link_warns worst
      then Some (''this cluster would run over '' @ link_label worst
        @ '', not RDMA. EP=2 decode is all-reduce bound, so expect several times lower throughput ''
        @ ''than the published numbers.'')
      else None)"

text \<open>Head first, then the rest by id.\<close>

definition rank_order :: "node_descriptor \<Rightarrow> node_id \<Rightarrow> node_descriptor list \<Rightarrow> node_descriptor list" where
  "rank_order head_node head selected =
     head_node # sort_key nd_id (filter (\<lambda>n. nd_id n \<noteq> head) selected)"

definition assign_ranks ::
    "string \<Rightarrow> string \<Rightarrow> settings \<Rightarrow> string \<Rightarrow> node_descriptor list \<Rightarrow> rank_assignment list" where
  "assign_ranks recipe recipe_hash settings master_addr ordered =
     map (\<lambda>(i, n). \<lparr>ra_node = nd_id n, ra_rank = u16_of i, ra_world_size = u16_of (length ordered),
           ra_master_addr = master_addr, ra_master_port = CLUSTER_MASTER_PORT, ra_recipe = recipe,
           ra_recipe_hash = recipe_hash, ra_settings = settings\<rparr>)
       (enumerate 0 ordered)"

definition cluster_plan_for ::
    "string \<Rightarrow> string \<Rightarrow> 32 word \<Rightarrow> node_descriptor list \<Rightarrow> node_id \<Rightarrow> settings \<Rightarrow> string \<Rightarrow>
     (cluster_plan, plan_error) result" where
  "cluster_plan_for recipe recipe_hash required_nodes selected head settings epoch =
     (if of_nat (length selected) \<noteq> required_nodes
      then Err (PlanNodeCount recipe required_nodes (length selected))
      else
      result_bind (check_selected {} selected) (\<lambda>_.
      case find (\<lambda>n. nd_id n = head) selected of
        None \<Rightarrow> Err PlanHeadNotSelected
      | Some head_node \<Rightarrow>
          (case rendezvous_address head_node selected of
             None \<Rightarrow> Err (PlanNoUsableLink (display_str (nd_name head_node)))
           | Some master \<Rightarrow>
               let worst = worst_link selected in
               Ok \<lparr>cp_epoch = epoch, cp_recipe = recipe,
                   cp_ranks = assign_ranks recipe recipe_hash settings (na_addr master)
                     (rank_order head_node head selected),
                   cp_link = worst, cp_link_warning = link_warning worst\<rparr>)))"

text \<open>A fresh epoch, from the 16 bytes the system's entropy source gave.\<close>

definition new_epoch :: "8 word list \<Rightarrow> string" where
  "new_epoch bytes = hex_encode bytes"

section \<open>Prepare replies\<close>

datatype prepare_reply = Prepared | Refused string

datatype prepare_refusal =
    PrUnknownRecipe string
  | PrRecipeMismatch string string string
  | PrAlreadyRunning string
  | PrReserved string nat
  | PrRendezvousUnreachable string
  | PrDockerUnavailable
  | PrNotLaunchable string

definition prepare_refusal_to_string :: "prepare_refusal \<Rightarrow> string" where
  "prepare_refusal_to_string r = (case r of
     PrUnknownRecipe recipe \<Rightarrow> ''this node does not ship recipe '' @ recipe
   | PrRecipeMismatch recipe head local \<Rightarrow>
       ''recipe '' @ recipe @ '' differs between nodes: head has '' @ head @ '', this node has ''
       @ local @ ''. Update both to the same metralectl before launching.''
   | PrAlreadyRunning recipe \<Rightarrow> recipe @ '' is already running on this node''
   | PrReserved recipe expires_in_s \<Rightarrow>
       ''this node is already reserved for a launch of '' @ recipe @ ''; abort that launch, or wait ''
       @ show_nat expires_in_s @ ''s for the reservation to lapse, before starting another''
   | PrRendezvousUnreachable why \<Rightarrow> why
   | PrDockerUnavailable \<Rightarrow> ''the container runtime is not answering on this node''
   | PrNotLaunchable why \<Rightarrow> ''this node cannot run models: '' @ why)"

section \<open>The commit gate\<close>

record prepare_tracker =
  pt_epoch :: string
  pt_expected :: "node_id list"
  pt_replies :: "(node_id, prepare_reply) btree"

definition tracker_new :: "cluster_plan \<Rightarrow> prepare_tracker" where
  "tracker_new plan = \<lparr>pt_epoch = cp_epoch plan, pt_expected = map ra_node (cp_ranks plan), pt_replies = []\<rparr>"

definition tracker_record ::
    "string \<Rightarrow> node_id \<Rightarrow> prepare_reply \<Rightarrow> prepare_tracker \<Rightarrow> bool \<times> prepare_tracker" where
  "tracker_record epoch node reply t =
     (if epoch \<noteq> pt_epoch t \<or> node \<notin> set (pt_expected t) then (False, t)
      else (True, t\<lparr>pt_replies := bt_insert node reply (pt_replies t)\<rparr>))"

definition tracker_complete :: "prepare_tracker \<Rightarrow> bool" where
  "tracker_complete t = list_all (\<lambda>n. bt_get (pt_replies t) n \<noteq> None) (pt_expected t)"

definition tracker_refusals :: "prepare_tracker \<Rightarrow> (node_id \<times> string) list" where
  "tracker_refusals t = List.map_filter
     (\<lambda>(n, r). case r of Refused reason \<Rightarrow> Some (n, reason) | Prepared \<Rightarrow> None) (pt_replies t)"

definition tracker_prepared :: "prepare_tracker \<Rightarrow> node_id list" where
  "tracker_prepared t = map fst (filter (\<lambda>(n, r). r = Prepared) (pt_replies t))"

definition may_commit :: "prepare_tracker \<Rightarrow> bool" where
  "may_commit t = (tracker_complete t \<and> tracker_refusals t = [])"

text \<open>A tracker after a sequence of replies, each with the epoch it names.\<close>

definition tracker_run ::
    "prepare_tracker \<Rightarrow> (string \<times> node_id \<times> prepare_reply) list \<Rightarrow> prepare_tracker" where
  "tracker_run t msgs = foldl (\<lambda>t (e, n, r). snd (tracker_record e n r t)) t msgs"

section \<open>Lemmas on plans\<close>

definition node_admissible :: "node_descriptor \<Rightarrow> bool" where
  "node_admissible n = ((nd_pairing n = Paired \<or> nd_is_local n) \<and> la_can_launch (nd_launchability n))"

lemma check_selected_Ok:
  "check_selected seen ns = Ok () \<longleftrightarrow>
     distinct (map nd_id ns) \<and> nd_id ` set ns \<inter> seen = {} \<and> list_all node_admissible ns"
  by (induction seen ns rule: check_selected.induct) (auto simp: node_admissible_def)

lemma unat_u16_of: "unat (u16_of n) = min n 65535"
proof (cases "n < 65536")
  case True
  then show ?thesis by (simp add: u16_of_def unat_of_nat)
next
  case False
  then show ?thesis by (simp add: u16_of_def unsigned_minus_1_eq_mask mask_eq_exp_minus_1)
qed

lemma find_id_unique:
  assumes "distinct (map nd_id ns)" and "n \<in> set ns" and "nd_id n = head"
  shows "find (\<lambda>n. nd_id n = head) ns = Some n"
  using assms by (induction ns) auto

lemma cluster_plan_Ok:
  assumes "cluster_plan_for recipe h required selected head settings epoch = Ok p"
  obtains n a where
    "of_nat (length selected) = required"
    "distinct (map nd_id selected)" "list_all node_admissible selected"
    "n \<in> set selected" "nd_id n = head" "rendezvous_address n selected = Some a"
    "p = \<lparr>cp_epoch = epoch, cp_recipe = recipe,
       cp_ranks = assign_ranks recipe h settings (na_addr a) (rank_order n head selected),
       cp_link = worst_link selected, cp_link_warning = link_warning (worst_link selected)\<rparr>"
  using assms
  by (auto simp: cluster_plan_for_def result_bind_eq_Ok check_selected_Ok Let_def
      dest!: find_Some_in split: if_splits option.splits)

lemma cluster_plan_OkI:
  assumes "of_nat (length selected) = required"
    and "distinct (map nd_id selected)" and "list_all node_admissible selected"
    and "n \<in> set selected" and "nd_id n = head" and "rendezvous_address n selected = Some a"
  shows "cluster_plan_for recipe h required selected head settings epoch =
    Ok \<lparr>cp_epoch = epoch, cp_recipe = recipe,
       cp_ranks = assign_ranks recipe h settings (na_addr a) (rank_order n head selected),
       cp_link = worst_link selected, cp_link_warning = link_warning (worst_link selected)\<rparr>"
  using assms check_selected_Ok [of "{}" selected] find_id_unique [of selected n head]
  by (simp add: cluster_plan_for_def Let_def)

lemma length_assign_ranks [simp]: "length (assign_ranks r h s m ns) = length ns"
  by (simp add: assign_ranks_def)

lemma assign_ranks_nth:
  "i < length ns \<Longrightarrow> assign_ranks r h s m ns ! i =
     \<lparr>ra_node = nd_id (ns ! i), ra_rank = u16_of i, ra_world_size = u16_of (length ns),
      ra_master_addr = m, ra_master_port = CLUSTER_MASTER_PORT, ra_recipe = r,
      ra_recipe_hash = h, ra_settings = s\<rparr>"
  by (simp add: assign_ranks_def nth_enumerate_eq)

lemma assign_ranks_nodes: "map ra_node (assign_ranks r h s m ns) = map nd_id ns"
  by (rule nth_equalityI) (simp_all add: assign_ranks_nth)

lemma rank_order_mset:
  assumes "distinct (map nd_id ns)" and "n \<in> set ns" and "nd_id n = head"
  shows "mset (rank_order n head ns) = mset ns"
proof -
  have "filter (\<lambda>x. nd_id x = head) ns = [n]"
    using assms
  proof (induction ns)
    case (Cons x xs)
    show ?case
    proof (cases "nd_id x = head")
      case True
      with Cons.prems have "n = x" by (auto simp: inj_on_def)
      moreover have "filter (\<lambda>x. nd_id x = head) xs = []"
        using True Cons.prems(1) by (auto simp: filter_empty_conv image_iff)
      ultimately show ?thesis using True by simp
    next
      case False
      with Cons show ?thesis by auto
    qed
  qed simp
  moreover have "mset ns = mset (filter (\<lambda>x. nd_id x = head) ns) + mset (filter (\<lambda>x. nd_id x \<noteq> head) ns)"
    by (simp add: mset_filter multiset_partition)
  ultimately show ?thesis by (simp add: rank_order_def)
qed

lemma shared_addresses_sound:
  "a \<in> set (shared_addresses head selected) \<longleftrightarrow>
     a \<in> set (nd_addresses head) \<and> usable_for_cluster (na_class a) \<and> 0 < na_prefix_len a \<and>
     (\<forall>w\<in>set selected. nd_id w \<noteq> nd_id head \<longrightarrow> (\<exists>b\<in>set (nd_addresses w).
        usable_for_cluster (na_class b) \<and> shares_network (na_addr a) (na_prefix_len a) (na_addr b)))"
  by (auto simp: shared_addresses_def list_all_iff list_ex_iff)

lemma preferred_address_sound:
  "preferred_address n = Some a \<Longrightarrow> a \<in> set (nd_addresses n) \<and> usable_for_cluster (na_class a)"
  by (auto simp: preferred_address_def dest!: max_by_key_Some)

lemma rendezvous_address_sound:
  assumes "rendezvous_address head selected = Some a"
  shows "a \<in> set (nd_addresses head)" and "usable_for_cluster (na_class a)"
    and "shared_addresses head selected \<noteq> [] \<Longrightarrow>
      a \<in> set (shared_addresses head selected) \<and>
      (\<forall>b\<in>set (shared_addresses head selected). link_key b \<le> link_key a)"
  using assms
  by (auto simp: rendezvous_address_def shared_addresses_sound dest!: max_by_key_Some preferred_address_sound
      split: option.splits)

lemma rendezvous_address_cong:
  "set selected = set selected' \<Longrightarrow> rendezvous_address head selected = rendezvous_address head selected'"
  by (simp add: rendezvous_address_def shared_addresses_def list_all_iff)

lemma link_rank_inj:
  "usable_for_cluster c \<Longrightarrow> usable_for_cluster d \<Longrightarrow> link_rank c = link_rank d \<Longrightarrow> c = d"
  by (cases c; cases d) (simp_all add: usable_for_cluster_def link_rank_def)

lemma min_by_key_unique:
  assumes "set xs = set ys" and "inj_on f (set xs)"
  shows "min_by_key f xs = min_by_key f ys"
proof (cases "min_by_key f xs")
  case None
  with assms(1) show ?thesis by auto
next
  case (Some x)
  with assms(1) obtain y where y: "min_by_key f ys = Some y" by (cases "min_by_key f ys") auto
  from min_by_key_Some [OF Some] min_by_key_Some [OF y] assms(1) have
    "x \<in> set xs" "y \<in> set xs" "f x \<le> f y" "f y \<le> f x" by auto
  with assms(2) have "x = y" by (auto dest: inj_onD)
  with Some y show ?thesis by simp
qed

lemma worst_link_cong:
  assumes "set selected = set selected'"
  shows "worst_link selected = worst_link selected'"
proof -
  let ?f = "\<lambda>n. map_option na_class (preferred_address n)"
  have "usable_for_cluster c" if "c \<in> set (List.map_filter ?f selected)" for c
    using that by (auto simp: set_map_filter dest: preferred_address_sound)
  then have "inj_on link_rank (set (List.map_filter ?f selected))"
    by (intro inj_onI) (blast intro: link_rank_inj)
  moreover have "set (List.map_filter ?f selected) = set (List.map_filter ?f selected')"
    unfolding set_eq_iff set_map_filter assms by simp
  ultimately have "min_by_key link_rank (List.map_filter ?f selected) =
      min_by_key link_rank (List.map_filter ?f selected')" by (rule min_by_key_unique [rotated])
  then show ?thesis by (simp only: worst_link_def)
qed

lemma sort_key_unique:
  assumes "mset xs = mset ys" and "distinct (map f xs)"
  shows "sort_key f xs = sort_key f ys"
  by (rule sort_key_inj_key_eq) (use assms in \<open>simp_all add: distinct_map\<close>)

lemma cluster_plan_is_ok:
  "is_ok (cluster_plan_for recipe h required selected head settings epoch) \<longleftrightarrow>
     of_nat (length selected) = required \<and> distinct (map nd_id selected) \<and>
     list_all node_admissible selected \<and>
     (\<exists>n\<in>set selected. nd_id n = head \<and> list_ex (\<lambda>a. usable_for_cluster (na_class a)) (nd_addresses n))"
  (is "is_ok ?p \<longleftrightarrow> ?R")
proof
  assume "is_ok ?p"
  then obtain p where "?p = Ok p" by (auto simp: is_ok_iff)
  then show ?R
    by (rule cluster_plan_Ok) (auto simp: list_ex_iff dest: rendezvous_address_sound(1,2))
next
  assume a: ?R
  then obtain n where n: "n \<in> set selected" "nd_id n = head"
    "\<exists>a\<in>set (nd_addresses n). usable_for_cluster (na_class a)" by (auto simp: list_ex_iff)
  then have "preferred_address n \<noteq> None" by (auto simp: preferred_address_def filter_empty_conv)
  then obtain m where "rendezvous_address n selected = Some m"
    by (cases "max_by_key link_key (shared_addresses n selected)") (auto simp: rendezvous_address_def)
  with cluster_plan_OkI [OF _ _ _ n(1,2) this, of required] a show "is_ok ?p" by simp
qed

lemma rank_order_shape:
  assumes "distinct (map nd_id selected)" and "n \<in> set selected" and "nd_id n = head"
  shows "length (rank_order n head selected) = length selected"
    and "mset (map nd_id (rank_order n head selected)) = mset (map nd_id selected)"
    and "distinct (map nd_id (rank_order n head selected))"
    and "hd (map nd_id (rank_order n head selected)) = head"
    and "sorted (tl (map nd_id (rank_order n head selected)))"
proof -
  have m: "mset (rank_order n head selected) = mset selected" by (rule rank_order_mset [OF assms])
  then show "length (rank_order n head selected) = length selected" by (metis size_mset)
  show "mset (map nd_id (rank_order n head selected)) = mset (map nd_id selected)" using m by simp
  then show "distinct (map nd_id (rank_order n head selected))"
    using assms(1) by (metis mset_eq_imp_distinct_iff)
  show "hd (map nd_id (rank_order n head selected)) = head"
    "sorted (tl (map nd_id (rank_order n head selected)))"
    using assms(3) by (simp_all add: rank_order_def)
qed

section \<open>Claims\<close>

text \<open>
  C8. What a plan is: planning succeeds exactly when the number of nodes is the required one, no
  node is chosen twice, each is paired or local and able to launch, the head is among them and has a
  usable link; the plan then gives rank \<open>i\<close> to the \<open>i\<close>-th of them, the head being rank 0 and the
  others in the order of their ids, each node exactly once, and every rank the same world size,
  meeting point, recipe, revision and settings.
\<close>

theorem cluster_plan_correct:
  "(is_ok (cluster_plan_for recipe h required selected head settings epoch) \<longleftrightarrow>
      of_nat (length selected) = required \<and> distinct (map nd_id selected) \<and>
      list_all (\<lambda>n. (nd_pairing n = Paired \<or> nd_is_local n) \<and> la_can_launch (nd_launchability n)) selected \<and>
      (\<exists>n\<in>set selected. nd_id n = head \<and> list_ex (\<lambda>a. usable_for_cluster (na_class a)) (nd_addresses n))) \<and>
   (\<forall>p. cluster_plan_for recipe h required selected head settings epoch = Ok p \<longrightarrow>
      length (cp_ranks p) = length selected \<and>
      mset (map ra_node (cp_ranks p)) = mset (map nd_id selected) \<and>
      distinct (map ra_node (cp_ranks p)) \<and> hd (map ra_node (cp_ranks p)) = head \<and>
      sorted (tl (map ra_node (cp_ranks p))) \<and>
      (\<exists>n a. n \<in> set selected \<and> nd_id n = head \<and> a \<in> set (nd_addresses n) \<and> usable_for_cluster (na_class a) \<and>
         (\<forall>i<length selected.
            let r = cp_ranks p ! i in
            unat (ra_rank r) = min i 65535 \<and> unat (ra_world_size r) = min (length selected) 65535 \<and>
            ra_master_addr r = na_addr a \<and> ra_master_port r = 29500 \<and> ra_recipe r = recipe \<and>
            ra_recipe_hash r = h \<and> ra_settings r = settings)))"
proof (intro conjI allI impI)
  fix p
  assume "cluster_plan_for recipe h required selected head settings epoch = Ok p"
  then obtain n a where d: "distinct (map nd_id selected)" and n: "n \<in> set selected" "nd_id n = head"
    and a: "rendezvous_address n selected = Some a"
    and p: "cp_ranks p = assign_ranks recipe h settings (na_addr a) (rank_order n head selected)"
    by (rule cluster_plan_Ok) auto
  note shape = rank_order_shape [OF d n]
  show "length (cp_ranks p) = length selected"
    "mset (map ra_node (cp_ranks p)) = mset (map nd_id selected)"
    "distinct (map ra_node (cp_ranks p))" "hd (map ra_node (cp_ranks p)) = head"
    "sorted (tl (map ra_node (cp_ranks p)))"
    using shape by (simp_all only: p assign_ranks_nodes length_assign_ranks)
  show "\<exists>n a. n \<in> set selected \<and> nd_id n = head \<and> a \<in> set (nd_addresses n) \<and> usable_for_cluster (na_class a) \<and>
     (\<forall>i<length selected.
        let r = cp_ranks p ! i in
        unat (ra_rank r) = min i 65535 \<and> unat (ra_world_size r) = min (length selected) 65535 \<and>
        ra_master_addr r = na_addr a \<and> ra_master_port r = 29500 \<and> ra_recipe r = recipe \<and>
        ra_recipe_hash r = h \<and> ra_settings r = settings)"
    using n rendezvous_address_sound(1,2) [OF a] shape(1)
    by (auto simp: p assign_ranks_nth unat_u16_of CLUSTER_MASTER_PORT_def Let_def
        intro!: exI [of _ n] exI [of _ a])
qed (simp add: cluster_plan_is_ok node_admissible_def [abs_def])

text \<open>
  Two planners agree: the plan does not depend on the order in which the nodes were selected.
\<close>

lemma cluster_plan_order_irrelevant:
  assumes "mset selected = mset selected'"
    and "cluster_plan_for recipe h required selected head settings epoch = Ok p"
  shows "cluster_plan_for recipe h required selected' head settings epoch = Ok p"
proof -
  from assms(1) have s: "set selected = set selected'" "length selected = length selected'"
    by (auto dest: mset_eq_setD mset_eq_length)
  have ids: "mset (map nd_id selected) = mset (map nd_id selected')" using assms(1) by simp
  from assms(2) show ?thesis
  proof (rule cluster_plan_Ok)
    fix n a
    assume l: "of_nat (length selected) = required" and d: "distinct (map nd_id selected)"
      and adm: "list_all node_admissible selected" and n: "n \<in> set selected" "nd_id n = head"
      and a: "rendezvous_address n selected = Some a"
      and p: "p = \<lparr>cp_epoch = epoch, cp_recipe = recipe,
        cp_ranks = assign_ranks recipe h settings (na_addr a) (rank_order n head selected),
        cp_link = worst_link selected, cp_link_warning = link_warning (worst_link selected)\<rparr>"
    have "rank_order n head selected = rank_order n head selected'"
      unfolding rank_order_def using assms(1) d
      by (auto intro!: sort_key_unique simp: mset_filter distinct_map inj_on_def)
    moreover have "distinct (map nd_id selected')" using d ids by (metis mset_eq_imp_distinct_iff)
    ultimately show ?thesis
      using p cluster_plan_OkI [of selected' required n head a recipe h settings epoch] l adm n a s
        rendezvous_address_cong [OF s(1), of n] worst_link_cong [OF s(1)]
      by (simp add: list_all_iff)
  qed
qed

text \<open>
  The meeting point is one every worker can see, when there is one: the address chosen is a
  usable link of the head; if some usable address of the head is on a network of every worker, the
  chosen one is such an address and none of them is on a better link.
\<close>

lemma rendezvous_address_best:
  assumes "rendezvous_address head selected = Some a"
  shows "a \<in> set (nd_addresses head) \<and> usable_for_cluster (na_class a) \<and>
    (\<forall>b\<in>set (nd_addresses head).
       usable_for_cluster (na_class b) \<and> 0 < na_prefix_len b \<and>
       (\<forall>w\<in>set selected. nd_id w \<noteq> nd_id head \<longrightarrow> (\<exists>c\<in>set (nd_addresses w).
          usable_for_cluster (na_class c) \<and> shares_network (na_addr b) (na_prefix_len b) (na_addr c))) \<longrightarrow>
       (\<forall>w\<in>set selected. nd_id w \<noteq> nd_id head \<longrightarrow> (\<exists>c\<in>set (nd_addresses w).
          usable_for_cluster (na_class c) \<and> shares_network (na_addr a) (na_prefix_len a) (na_addr c))) \<and>
       link_rank (na_class b) \<le> link_rank (na_class a))"
proof (intro conjI ballI impI)
  note sound = rendezvous_address_sound [OF assms]
  show "a \<in> set (nd_addresses head)" "usable_for_cluster (na_class a)" by (rule sound)+
  fix b
  assume "b \<in> set (nd_addresses head)" and "usable_for_cluster (na_class b) \<and> 0 < na_prefix_len b \<and>
     (\<forall>w\<in>set selected. nd_id w \<noteq> nd_id head \<longrightarrow> (\<exists>c\<in>set (nd_addresses w).
        usable_for_cluster (na_class c) \<and> shares_network (na_addr b) (na_prefix_len b) (na_addr c)))"
  then have b: "b \<in> set (shared_addresses head selected)" by (simp add: shared_addresses_sound)
  then have a: "a \<in> set (shared_addresses head selected)" "link_key b \<le> link_key a"
    using sound(3) by (metis list.set(1) empty_iff)+
  from a(2) show "link_rank (na_class b) \<le> link_rank (na_class a)" by (auto simp: link_key_def)
  fix w
  assume "w \<in> set selected" "nd_id w \<noteq> nd_id head"
  with a(1) show "\<exists>c\<in>set (nd_addresses w).
      usable_for_cluster (na_class c) \<and> shares_network (na_addr a) (na_prefix_len a) (na_addr c)"
    unfolding shared_addresses_sound by blast
qed

text \<open>The reply that counts for a node: the last one it sent under the plan's epoch.\<close>

definition last_reply ::
    "string \<Rightarrow> (string \<times> node_id \<times> prepare_reply) list \<Rightarrow> node_id \<Rightarrow> prepare_reply option" where
  "last_reply epoch msgs node =
     map_option (\<lambda>(e, n, r). r) (find (\<lambda>(e, n, r). e = epoch \<and> n = node) (rev msgs))"

lemma last_reply_snoc:
  "last_reply epoch (msgs @ [(e, n, r)]) node =
     (if e = epoch \<and> n = node then Some r else last_reply epoch msgs node)"
  by (simp add: last_reply_def)

lemma tracker_record_frame:
  "pt_epoch (snd (tracker_record e n r t)) = pt_epoch t"
  "pt_expected (snd (tracker_record e n r t)) = pt_expected t"
  by (simp_all add: tracker_record_def)

lemma tracker_run_snoc:
  "tracker_run t (msgs @ [(e, n, r)]) = snd (tracker_record e n r (tracker_run t msgs))"
  by (simp add: tracker_run_def)

lemma tracker_run_inv:
  fixes p msgs
  defines "t \<equiv> tracker_run (tracker_new p) msgs"
  shows "pt_epoch t = cp_epoch p \<and> pt_expected t = map ra_node (cp_ranks p) \<and> bt_ok (pt_replies t) \<and>
    (\<forall>node. bt_get (pt_replies t) node =
       (if node \<in> set (map ra_node (cp_ranks p)) then last_reply (cp_epoch p) msgs node else None))"
  unfolding t_def
proof (induction msgs rule: rev_induct)
  case Nil
  then show ?case
    by (simp add: tracker_run_def tracker_new_def last_reply_def bt.invar_empty)
next
  case (snoc m msgs)
  obtain e n r where m: "m = (e, n, r)" by (cases m)
  from snoc show ?case
    unfolding m tracker_run_snoc
    by (auto simp: tracker_record_def last_reply_snoc intro: bt.invar_insert)
qed

lemma tracker_refusals_set:
  "bt_ok (pt_replies t) \<Longrightarrow> set (tracker_refusals t) = {(n, why). bt_get (pt_replies t) n = Some (Refused why)}"
  by (force simp: tracker_refusals_def set_map_filter bt_get_iff split: prepare_reply.splits)

lemma tracker_prepared_set:
  "bt_ok (pt_replies t) \<Longrightarrow> set (tracker_prepared t) = {n. bt_get (pt_replies t) n = Some Prepared}"
  by (force simp: tracker_prepared_def bt_get_iff)

lemma prepared_iff: "r = Some Prepared \<longleftrightarrow> r \<noteq> None \<and> (\<forall>why. r \<noteq> Some (Refused why))"
  by (cases r) (auto intro: prepare_reply.exhaust)

text \<open>
  There is never a partial commit: after any sequence of replies, late and misdirected ones
  included, the commit may go ahead exactly when the last reply of every rank of the plan under the
  plan's epoch is that it is prepared; and the nodes to release on an abandoned launch are exactly
  those ranks whose last reply is that.
\<close>

lemma may_commit_iff_all_prepared:
  "(may_commit (tracker_run (tracker_new p) msgs) \<longleftrightarrow>
      list_all (\<lambda>a. last_reply (cp_epoch p) msgs (ra_node a) = Some Prepared) (cp_ranks p)) \<and>
   set (tracker_prepared (tracker_run (tracker_new p) msgs)) =
     {n \<in> set (map ra_node (cp_ranks p)). last_reply (cp_epoch p) msgs n = Some Prepared} \<and>
   set (tracker_refusals (tracker_run (tracker_new p) msgs)) =
     {(n, why). n \<in> set (map ra_node (cp_ranks p)) \<and> last_reply (cp_epoch p) msgs n = Some (Refused why)}"
proof -
  define t where "t = tracker_run (tracker_new p) msgs"
  from tracker_run_inv [of p msgs, folded t_def] have
    ex: "pt_expected t = map ra_node (cp_ranks p)" and ok: "bt_ok (pt_replies t)"
    and get: "\<And>n. bt_get (pt_replies t) n =
      (if n \<in> set (map ra_node (cp_ranks p)) then last_reply (cp_epoch p) msgs n else None)" by auto
  have r: "set (tracker_refusals t) =
     {(n, why). n \<in> set (map ra_node (cp_ranks p)) \<and> last_reply (cp_epoch p) msgs n = Some (Refused why)}"
    unfolding tracker_refusals_set [OF ok] get by (auto split: if_splits)
  have "tracker_refusals t = [] \<longleftrightarrow> set (tracker_refusals t) = {}" by simp
  then have "tracker_refusals t = [] \<longleftrightarrow>
      (\<forall>a\<in>set (cp_ranks p). \<forall>why. last_reply (cp_epoch p) msgs (ra_node a) \<noteq> Some (Refused why))"
    unfolding r by auto
  moreover have "tracker_complete t \<longleftrightarrow>
      (\<forall>a\<in>set (cp_ranks p). last_reply (cp_epoch p) msgs (ra_node a) \<noteq> None)"
    by (simp add: tracker_complete_def ex list_all_iff get)
  ultimately have "may_commit t \<longleftrightarrow>
      list_all (\<lambda>a. last_reply (cp_epoch p) msgs (ra_node a) = Some Prepared) (cp_ranks p)"
    unfolding may_commit_def list_all_iff prepared_iff by blast
  moreover have "set (tracker_prepared t) =
     {n \<in> set (map ra_node (cp_ranks p)). last_reply (cp_epoch p) msgs n = Some Prepared}"
    unfolding tracker_prepared_set [OF ok] get by (auto split: if_splits)
  ultimately show ?thesis using r unfolding t_def by blast
qed

section \<open>An example\<close>

definition ex_node :: "8 word \<Rightarrow> string \<Rightarrow> node_descriptor" where
  "ex_node b addr = \<lparr>nd_id = NodeId (replicate 32 b), nd_name = DisplayName ''spark'', nd_is_local = (b = 1),
     nd_pairing = Paired,
     nd_addresses = [\<lparr>na_iface = ''enp1'', na_addr = addr, na_prefix_len = 24, na_class = Roce,
       na_speed_mbps = None, na_rdma = True\<rparr>],
     nd_launchability = launchability_yes, nd_running = None, nd_vouched_by = None, nd_reached_via = None\<rparr>"

definition ex_fleet :: "node_descriptor list" where
  "ex_fleet = [ex_node 2 ''10.0.0.2'', ex_node 1 ''10.0.0.1'']"

definition ex_plan_of :: "node_descriptor list \<Rightarrow> (cluster_plan, plan_error) result" where
  "ex_plan_of ns = cluster_plan_for ''r'' ''h'' 2 ns (NodeId (replicate 32 2)) [] ''e''"

lemma ex_plan_ok: "is_ok (ex_plan_of ex_fleet)"
  unfolding ex_plan_of_def cluster_plan_is_ok by code_simp

theorem cluster_plan_correct_witness:
  "\<exists>p. ex_plan_of ex_fleet = Ok p \<and> length (cp_ranks p) = 2 \<and>
     hd (map ra_node (cp_ranks p)) = NodeId (replicate 32 2)"
proof -
  obtain p where p: "ex_plan_of ex_fleet = Ok p" using ex_plan_ok by (auto simp: is_ok_iff)
  from cluster_plan_correct [of "''r''" "''h''" 2 ex_fleet "NodeId (replicate 32 2)" "[]" "''e''",
      folded ex_plan_of_def]
  have "length (cp_ranks p) = length ex_fleet" "hd (map ra_node (cp_ranks p)) = NodeId (replicate 32 2)"
    using p by blast+
  with p show ?thesis by (auto simp: ex_fleet_def)
qed

lemma ex_rendezvous:
  "rendezvous_address (ex_node 2 ''10.0.0.2'') ex_fleet = Some (hd (nd_addresses (ex_node 2 ''10.0.0.2'')))"
  by code_simp

end
