(* ===== verification/Reconcile.thy ===== *)
theory Reconcile
  imports Protocol
begin

text \<open>
  Per-generation convergence of one deployment, the pure half:
  \<open>metralectl-control/src/reconcile.rs\<close>, its contract \<open>reconcile/contract.rs\<close> and the hardware
  classes of \<open>metralectl-core/src/hardware.rs\<close>. \<open>decide\<close> reads the desired state and what runs and
  names the one next step.

  The theorems: a stop never reaches a workload that is not the deployment's, a launch
  never duplicates or adopts one, an older generation is never applied over a newer one, nothing
  that serves is torn down for a generation that cannot start here, \<open>Converged\<close> is
  answered exactly when the desired state is in place, and, on a node where launches and stops
  do what they say, repeating \<open>decide\<close> reaches \<open>Converged\<close> or a refusal in a bounded number of steps.
\<close>

section \<open>Hardware classes\<close>

datatype hardware_class = HardwareClass (class_str: string)

definition is_dns_label :: "string \<Rightarrow> bool" where
  "is_dns_label s =
     (1 \<le> length s \<and> length s \<le> 63 \<and>
      list_all (\<lambda>c. is_ascii_lowercase c \<or> is_ascii_digit c \<or> c = CHR ''-'') s \<and>
      hd s \<noteq> CHR ''-'' \<and> last s \<noteq> CHR ''-'')"

text \<open>\<open>HardwareClass::parse\<close>, without the text of its error.\<close>

definition hardware_class_parse :: "string \<Rightarrow> hardware_class option" where
  "hardware_class_parse s = (if is_dns_label s then Some (HardwareClass s) else None)"

definition GB10 :: string where
  "GB10 = ''gb10''"

definition hw_classify :: "string \<Rightarrow> hardware_class option" where
  "hw_classify accelerator =
     (let a = map to_ascii_lowercase accelerator in
      if str_contains ''gb10'' a \<or> str_contains ''grace blackwell'' a
      then Some (HardwareClass GB10) else None)"

definition hw_check :: "hardware_class \<Rightarrow> string \<Rightarrow> (unit, string) result" where
  "hw_check required accelerator =
     (case hw_classify accelerator of
        Some here \<Rightarrow>
          if here = required then Ok ()
          else Err (''it requires '' @ class_str required @ '' hardware and this machine is ''
                    @ class_str here @ '' ('' @ accelerator @ '')'')
      | None \<Rightarrow>
          if str_trim accelerator = []
          then Err (''it requires '' @ class_str required
                    @ '' hardware and this machine reported no accelerator'')
          else Err (''it requires '' @ class_str required @ '' hardware and this machine''
                    @ [CHR 0x27] @ ''s accelerator ('' @ accelerator
                    @ '') is not a class this build recognises''))"

section \<open>The contract\<close>

datatype deployment_name = DeploymentName (deployment_str: string)

definition deployment_name_parse :: "string \<Rightarrow> deployment_name option" where
  "deployment_name_parse s = (if is_dns_label s then Some (DeploymentName s) else None)"

datatype generation = Generation (generation_get: "64 word")

definition generation_new :: "64 word \<Rightarrow> generation option" where
  "generation_new n = (if n = 0 then None else Some (Generation n))"

instantiation generation :: linorder
begin

definition less_eq_generation :: "generation \<Rightarrow> generation \<Rightarrow> bool" where
  "less_eq_generation a b = (generation_get a \<le> generation_get b)"

definition less_generation :: "generation \<Rightarrow> generation \<Rightarrow> bool" where
  "less_generation a b = (generation_get a < generation_get b)"

instance
  by standard (auto simp: less_eq_generation_def less_generation_def generation.expand)

end

record owner =
  ow_deployment :: deployment_name
  ow_generation :: generation

datatype placement = PlacedOn hardware_class | ThisNode

datatype intent = Run recipe_id string placement | Stopped

record desired =
  de_deployment :: deployment_name
  de_generation :: generation
  de_intent :: intent

record run_instance =
  in_recipe :: recipe_id
  in_owner :: "owner option"

record observed =
  ob_instances :: "run_instance list"
  ob_accelerator :: string
  ob_recipe_model :: "string option"

datatype refusal =
    StaleGeneration generation
  | IdempotencyConflict recipe_id
  | ReleaseUnverified string
  | HardwareIncompatible string
  | Busy recipe_id "owner option"

datatype step =
    Converged
  | Launch recipe_id
  | Stop recipe_id
  | Refuse refusal

section \<open>The decision\<close>

definition is_ours :: "deployment_name \<Rightarrow> run_instance \<Rightarrow> bool" where
  "is_ours ours i = (case in_owner i of None \<Rightarrow> False | Some o' \<Rightarrow> ow_deployment o' = ours)"

definition foreign :: "recipe_id \<Rightarrow> run_instance list \<Rightarrow> deployment_name \<Rightarrow> run_instance option" where
  "foreign recipe instances ours = find (\<lambda>i. in_recipe i = recipe \<and> \<not> is_ours ours i) instances"

definition stop_step :: "recipe_id \<Rightarrow> run_instance list \<Rightarrow> deployment_name \<Rightarrow> step" where
  "stop_step recipe instances ours =
     (case foreign recipe instances ours of
        Some other \<Rightarrow> Refuse (Busy recipe (in_owner other))
      | None \<Rightarrow> Stop recipe)"

definition launch_blocked ::
    "recipe_id \<Rightarrow> string \<Rightarrow> placement \<Rightarrow> observed \<Rightarrow> deployment_name \<Rightarrow> refusal option" where
  "launch_blocked recipe model placement ob ours =
     (case (case placement of
              PlacedOn class \<Rightarrow>
                (case hw_check class (ob_accelerator ob) of Err reason \<Rightarrow> Some reason | Ok _ \<Rightarrow> None)
            | ThisNode \<Rightarrow> None) of
        Some reason \<Rightarrow> Some (HardwareIncompatible reason)
      | None \<Rightarrow>
          (let busy = map_option (\<lambda>other. Busy recipe (in_owner other))
                        (foreign recipe (ob_instances ob) ours) in
           case ob_recipe_model ob of
             None \<Rightarrow> Some (ReleaseUnverified (''this node has no recipe '' @ recipe_str recipe))
           | Some here \<Rightarrow>
               if here \<noteq> model
               then Some (ReleaseUnverified
                      (''the release says '' @ recipe_str recipe @ '' serves '' @ model
                       @ ''; this node'' @ [CHR 0x27] @ ''s '' @ recipe_str recipe @ '' serves '' @ here))
               else busy))"

definition generation_of :: "run_instance \<Rightarrow> generation option" where
  "generation_of i = map_option ow_generation (in_owner i)"

text \<open>The \<open>match &desired.intent\<close> of \<open>decide\<close>, once no newer generation runs.\<close>

definition decide_intent :: "desired \<Rightarrow> observed \<Rightarrow> run_instance list \<Rightarrow> step" where
  "decide_intent d ob mine =
     (case de_intent d of
        Stopped \<Rightarrow>
          (case mine of
             own # _ \<Rightarrow> stop_step (in_recipe own) (ob_instances ob) (de_deployment d)
           | [] \<Rightarrow> Converged)
      | Run recipe model placement \<Rightarrow>
          (let current = filter (\<lambda>i. generation_of i = Some (de_generation d)) mine;
               older = filter (\<lambda>i. generation_of i \<noteq> Some (de_generation d)) mine in
           case find (\<lambda>i. in_recipe i \<noteq> recipe) current of
             Some other \<Rightarrow> Refuse (IdempotencyConflict (in_recipe other))
           | None \<Rightarrow>
               (case (if current = []
                      then launch_blocked recipe model placement ob (de_deployment d) else None) of
                  Some refusal \<Rightarrow> Refuse refusal
                | None \<Rightarrow>
                    (case older of
                       old # _ \<Rightarrow> stop_step (in_recipe old) (ob_instances ob) (de_deployment d)
                     | [] \<Rightarrow> if current = [] then Launch recipe else Converged))))"

definition decide :: "desired \<Rightarrow> observed \<Rightarrow> step" where
  "decide d ob =
     (let mine = filter (is_ours (de_deployment d)) (ob_instances ob) in
      case max_opt (List.map_filter generation_of mine) of
        Some running \<Rightarrow>
          if de_generation d < running then Refuse (StaleGeneration running)
          else decide_intent d ob mine
      | None \<Rightarrow> decide_intent d ob mine)"

definition step_request :: "step \<Rightarrow> control_req option" where
  "step_request s =
     (case s of
        Launch recipe \<Rightarrow> Some (RqLaunch recipe [])
      | Stop recipe \<Rightarrow> Some (RqStop recipe)
      | Converged \<Rightarrow> None
      | Refuse _ \<Rightarrow> None)"

datatype refusal_reason =
    RStaleGeneration
  | RIdempotencyConflict
  | RReleaseUnverified
  | RReceiptMissing
  | RHardwareIncompatible
  | RNotHere
  | RBusy
  | RCordoned
  | RDraining

definition refusal_to_reason :: "refusal \<Rightarrow> refusal_reason" where
  "refusal_to_reason r =
     (case r of
        StaleGeneration _ \<Rightarrow> RStaleGeneration
      | IdempotencyConflict _ \<Rightarrow> RIdempotencyConflict
      | ReleaseUnverified _ \<Rightarrow> RReleaseUnverified
      | HardwareIncompatible _ \<Rightarrow> RHardwareIncompatible
      | Busy _ _ \<Rightarrow> RBusy)"

section \<open>What the decision may touch\<close>

text \<open>The deployment's own workloads, and its newest generation here.\<close>

definition ours_of :: "desired \<Rightarrow> run_instance list \<Rightarrow> run_instance list" where
  "ours_of d is = filter (is_ours (de_deployment d)) is"

definition no_newer :: "desired \<Rightarrow> run_instance list \<Rightarrow> bool" where
  "no_newer d is =
     list_all (\<lambda>i. case generation_of i of None \<Rightarrow> True | Some g \<Rightarrow> g \<le> de_generation d) (ours_of d is)"

text \<open>The desired state holds: what the deployment runs here is what it should run.\<close>

definition in_place :: "desired \<Rightarrow> run_instance list \<Rightarrow> bool" where
  "in_place d is =
     (case de_intent d of
        Stopped \<Rightarrow> ours_of d is = []
      | Run recipe _ _ \<Rightarrow>
          ours_of d is \<noteq> [] \<and>
          list_all (\<lambda>i. in_recipe i = recipe \<and> generation_of i = Some (de_generation d)) (ours_of d is))"

lemma foreign_None: "foreign r is ours = None \<longleftrightarrow> (\<forall>i\<in>set is. in_recipe i = r \<longrightarrow> is_ours ours i)"
  by (auto simp: foreign_def find_None_all)

lemma ours_has_generation: "is_ours ours i \<Longrightarrow> \<exists>g. generation_of i = Some g"
  by (auto simp: is_ours_def generation_of_def split: option.splits)

lemma no_newer_max:
  "no_newer d is \<longleftrightarrow>
     (case max_opt (List.map_filter generation_of (ours_of d is)) of
        None \<Rightarrow> True | Some g \<Rightarrow> \<not> de_generation d < g)"
proof (cases "max_opt (List.map_filter generation_of (ours_of d is))")
  case None
  then have "\<forall>i\<in>set (ours_of d is). generation_of i = None"
    using set_map_filter [of _ generation_of "ours_of d is"] by (simp, metis not_None_eq)
  with None show ?thesis by (auto simp: no_newer_def list_all_iff)
next
  case (Some g)
  have all: "i \<in> set (ours_of d is) \<Longrightarrow> generation_of i = Some h \<Longrightarrow> h \<le> g" for i h
    using max_opt_Some [OF Some] set_map_filter [of h generation_of "ours_of d is"] by blast
  obtain i where "i \<in> set (ours_of d is)" "generation_of i = Some g"
    using max_opt_Some [OF Some] by (auto simp: set_map_filter)
  with all show ?thesis unfolding Some
    by (force simp: no_newer_def list_all_iff not_less split: option.splits dest: order_trans)
qed

lemma decide_eq:
  "decide d ob =
     (if no_newer d (ob_instances ob) then decide_intent d ob (ours_of d (ob_instances ob))
      else Refuse (StaleGeneration
             (the (max_opt (List.map_filter generation_of (ours_of d (ob_instances ob)))))))"
  unfolding decide_def no_newer_max ours_of_def Let_def
  by (cases "max_opt (List.map_filter generation_of
      (filter (is_ours (de_deployment d)) (ob_instances ob)))" rule: option.exhaust)
    (simp_all del: max_opt_None)

lemma stop_step_Stop: "stop_step r is ours = Stop r' \<longleftrightarrow> r' = r \<and> foreign r is ours = None"
  by (auto simp: stop_step_def split: option.splits)

lemma stop_step_not [simp]:
  "stop_step r is ours \<noteq> Launch r'" "stop_step r is ours \<noteq> Converged"
  by (simp_all add: stop_step_def split: option.splits)

lemma decide_intent_Stop:
  "decide_intent d ob mine = Stop r \<Longrightarrow>
     (\<exists>i\<in>set mine. in_recipe i = r) \<and> foreign r (ob_instances ob) (de_deployment d) = None"
  by (auto simp: decide_intent_def Let_def stop_step_Stop dest: filter_eq_Cons_in
      split: intent.splits list.splits option.splits if_splits)

lemma decide_intent_Launch:
  "decide_intent d ob mine = Launch r \<longleftrightarrow>
     mine = [] \<and> (\<exists>m p. de_intent d = Run r m p \<and> launch_blocked r m p ob (de_deployment d) = None)"
  by (auto simp: decide_intent_def Let_def filter_empty_conv
      split: intent.splits list.splits option.splits if_splits)

lemma decide_intent_Converged:
  "decide_intent d ob mine = Converged \<longleftrightarrow>
     (case de_intent d of
        Stopped \<Rightarrow> mine = []
      | Run r _ _ \<Rightarrow>
          mine \<noteq> [] \<and> (\<forall>i\<in>set mine. in_recipe i = r \<and> generation_of i = Some (de_generation d)))"
proof (cases "de_intent d")
  case Stopped
  then show ?thesis by (cases mine) (auto simp: decide_intent_def)
next
  case (Run r m p)
  let ?cur = "filter (\<lambda>i. generation_of i = Some (de_generation d)) mine"
  let ?old = "filter (\<lambda>i. generation_of i \<noteq> Some (de_generation d)) mine"
  have "decide_intent d ob mine = Converged \<longleftrightarrow>
      find (\<lambda>i. in_recipe i \<noteq> r) ?cur = None \<and> ?cur \<noteq> [] \<and> ?old = []"
    using Run by (auto simp: decide_intent_def Let_def split: list.splits option.splits if_splits)
  also have "\<dots> \<longleftrightarrow> mine \<noteq> [] \<and> (\<forall>i\<in>set mine. in_recipe i = r \<and> generation_of i = Some (de_generation d))"
    by (auto simp: find_None_all filter_empty_conv ex_in_conv)
  finally show ?thesis using Run by simp
qed

lemma launch_blocked_None:
  "launch_blocked r m p ob ours = None \<longleftrightarrow>
     ob_recipe_model ob = Some m \<and> foreign r (ob_instances ob) ours = None \<and>
     (\<forall>class. p = PlacedOn class \<longrightarrow> hw_classify (ob_accelerator ob) = Some class)"
  by (auto simp: launch_blocked_def hw_check_def Let_def
      split: option.splits placement.splits result.splits if_splits)

lemma set_ours_of: "set (ours_of d is) = {i \<in> set is. is_ours (de_deployment d) i}"
  by (simp add: ours_of_def)

lemma decide_Stop:
  assumes "decide d ob = Stop recipe"
  shows "\<exists>i\<in>set (ob_instances ob). in_recipe i = recipe \<and> is_ours (de_deployment d) i"
    and "\<forall>i\<in>set (ob_instances ob). in_recipe i = recipe \<longrightarrow> is_ours (de_deployment d) i"
  using assms decide_intent_Stop [of d ob "ours_of d (ob_instances ob)" recipe]
  by (auto simp: decide_eq foreign_None set_ours_of split: if_splits)

lemma decide_Launch:
  assumes "decide d ob = Launch recipe"
  shows "ours_of d (ob_instances ob) = []"
    and "\<exists>m p. de_intent d = Run recipe m p \<and> launch_blocked recipe m p ob (de_deployment d) = None"
  using assms by (auto simp: decide_eq decide_intent_Launch split: if_splits)

lemma decide_Converged:
  "decide d ob = Converged \<longleftrightarrow> no_newer d (ob_instances ob) \<and> in_place d (ob_instances ob)"
  by (auto simp: decide_eq decide_intent_Converged in_place_def list_all_iff split: intent.splits)

text \<open>
  A stop stays at home: when \<open>decide\<close> asks for a stop of a recipe, the deployment itself runs
  that recipe here, and every workload that a stop of the recipe reaches is the deployment's own.
\<close>

lemma decide_stop_only_ours:
  assumes "decide d ob = Stop recipe"
  shows "(\<exists>i\<in>set (ob_instances ob). in_recipe i = recipe \<and> is_ours (de_deployment d) i) \<and>
    (\<forall>i\<in>set (ob_instances ob). in_recipe i = recipe \<longrightarrow> is_ours (de_deployment d) i)"
  using decide_Stop [OF assms] by blast

text \<open>
  C2. A launch neither duplicates nor adopts: when \<open>decide\<close> asks for a launch, the deployment runs
  nothing here, no other workload runs the recipe, the recipe is the desired one, this node's copy
  of it serves the desired model, and the node is of the class the placement asks for.
\<close>

theorem decide_launch_safe:
  assumes "decide d ob = Launch recipe"
  shows "ours_of d (ob_instances ob) = [] \<and>
    (\<forall>i\<in>set (ob_instances ob). in_recipe i \<noteq> recipe) \<and>
    (\<exists>model placement. de_intent d = Run recipe model placement \<and> ob_recipe_model ob = Some model \<and>
       (\<forall>class. placement = PlacedOn class \<longrightarrow> hw_classify (ob_accelerator ob) = Some class))"
proof -
  from decide_Launch(1) [OF assms] have "\<forall>i\<in>set (ob_instances ob). \<not> is_ours (de_deployment d) i"
    by (simp add: ours_of_def filter_empty_conv)
  with decide_Launch [OF assms] show ?thesis by (auto simp: launch_blocked_None foreign_None)
qed

text \<open>
  No rollback by a delayed or replayed message: while any workload of the deployment runs a
  newer generation than the desired one, the step is the refusal that names the newest one.
\<close>

lemma decide_stale_refused:
  assumes "i \<in> set (ob_instances ob)" and "is_ours (de_deployment d) i"
    and "generation_of i = Some g" and "de_generation d < g"
  shows "\<exists>running. decide d ob = Refuse (StaleGeneration running) \<and> g \<le> running \<and>
    running \<in> Option.these (generation_of ` set (ours_of d (ob_instances ob)))"
proof -
  let ?gs = "List.map_filter generation_of (ours_of d (ob_instances ob))"
  have g: "g \<in> set ?gs" using assms(1-3) by (auto simp: set_map_filter set_ours_of)
  then obtain r where r: "max_opt ?gs = Some r" by (cases "max_opt ?gs") auto
  have "\<not> no_newer d (ob_instances ob)"
    using assms by (force simp: no_newer_def list_all_iff set_ours_of)
  with r have "decide d ob = Refuse (StaleGeneration r)" by (simp add: decide_eq)
  moreover from max_opt_Some [OF r] g have "g \<le> r" "r \<in> set ?gs" by auto
  ultimately show ?thesis by (force simp: set_map_filter in_these_eq image_iff)
qed

text \<open>
  Checked before torn down: when a deployment that should run is asked to stop an older
  workload and nothing of the desired generation runs yet, the launch that is to follow is
  blocked by nothing that can be known now.
\<close>

lemma decide_stop_then_launchable:
  assumes "decide d ob = Stop old" and "de_intent d = Run recipe model placement"
    and "\<forall>i\<in>set (ours_of d (ob_instances ob)). generation_of i \<noteq> Some (de_generation d)"
  shows "launch_blocked recipe model placement ob (de_deployment d) = None"
proof -
  have none: "filter (\<lambda>i. generation_of i = Some (de_generation d)) (ours_of d (ob_instances ob)) = []"
    using assms(3) by (simp add: filter_empty_conv)
  from assms(1) have "decide_intent d ob (ours_of d (ob_instances ob)) = Stop old"
    by (simp add: decide_eq split: if_splits)
  with none assms(2) show ?thesis
    by (auto simp: decide_intent_def Let_def split: option.splits)
qed

section \<open>Convergence\<close>

text \<open>
  What a step does to a node whose launches and stops do what they say: a launch starts one
  workload of the recipe for the deployment and generation, a stop ends every workload of the
  recipe.
\<close>

definition step_effect :: "desired \<Rightarrow> step \<Rightarrow> observed \<Rightarrow> observed" where
  "step_effect d s ob =
     (case s of
        Launch r \<Rightarrow>
          ob\<lparr>ob_instances := ob_instances ob @
            [\<lparr>in_recipe = r,
              in_owner = Some \<lparr>ow_deployment = de_deployment d, ow_generation = de_generation d\<rparr>\<rparr>]\<rparr>
      | Stop r \<Rightarrow> ob\<lparr>ob_instances := filter (\<lambda>i. in_recipe i \<noteq> r) (ob_instances ob)\<rparr>
      | _ \<Rightarrow> ob)"

fun rounds :: "nat \<Rightarrow> desired \<Rightarrow> observed \<Rightarrow> observed" where
  "rounds 0 d ob = ob"
| "rounds (Suc n) d ob = rounds n d (step_effect d (decide d ob) ob)"

definition settled :: "step \<Rightarrow> bool" where
  "settled s = (case s of Converged \<Rightarrow> True | Refuse _ \<Rightarrow> True | _ \<Rightarrow> False)"

definition others_of :: "desired \<Rightarrow> run_instance list \<Rightarrow> run_instance list" where
  "others_of d is = filter (\<lambda>i. \<not> is_ours (de_deployment d) i) is"

lemma step_effect_others:
  "others_of d (ob_instances (step_effect d (decide d ob) ob)) = others_of d (ob_instances ob)"
proof (cases "decide d ob")
  case (Stop r)
  from decide_Stop(2) [OF this] show ?thesis
    unfolding Stop by (auto simp: step_effect_def others_of_def intro: filter_cong)
qed (simp_all add: step_effect_def others_of_def is_ours_def)

lemma step_effect_launch_settles:
  assumes "decide d ob = Launch r"
  shows "decide d (step_effect d (Launch r) ob) = Converged"
proof -
  let ?o = "\<lparr>ow_deployment = de_deployment d, ow_generation = de_generation d\<rparr>"
  have ours: "ours_of d (ob_instances (step_effect d (Launch r) ob)) =
      [\<lparr>in_recipe = r, in_owner = Some ?o\<rparr>]"
    using decide_Launch(1) [OF assms] by (simp add: step_effect_def ours_of_def is_ours_def)
  from decide_Launch(2) [OF assms] show ?thesis
    unfolding decide_Converged no_newer_def in_place_def ours
    by (auto simp: generation_of_def)
qed

lemma step_effect_stop_shrinks:
  assumes "decide d ob = Stop r"
  shows "length (ours_of d (ob_instances (step_effect d (Stop r) ob))) < length (ours_of d (ob_instances ob))"
proof -
  obtain i where "i \<in> set (ours_of d (ob_instances ob))" "in_recipe i = r"
    using decide_Stop(1) [OF assms] by (auto simp: set_ours_of)
  then have "length (filter (\<lambda>i. in_recipe i \<noteq> r) (ours_of d (ob_instances ob))) <
      length (ours_of d (ob_instances ob))" by (intro length_filter_less) auto
  then show ?thesis by (simp add: step_effect_def ours_of_def conj_commute)
qed

lemma rounds_settle:
  "\<exists>k \<le> Suc (length (ours_of d (ob_instances ob))). settled (decide d (rounds k d ob))"
proof (induction "length (ours_of d (ob_instances ob))" arbitrary: ob rule: less_induct)
  case less
  show ?case
  proof (cases "decide d ob")
    case (Launch r)
    then have "settled (decide d (rounds 1 d ob))"
      by (simp add: step_effect_launch_settles settled_def)
    then show ?thesis by (intro exI [of _ 1]) simp
  next
    case (Stop r)
    note shrink = step_effect_stop_shrinks [OF Stop]
    from less [OF this] obtain k where
      k: "k \<le> Suc (length (ours_of d (ob_instances (step_effect d (Stop r) ob))))"
        "settled (decide d (rounds k d (step_effect d (Stop r) ob)))" by blast
    with Stop shrink show ?thesis by (intro exI [of _ "Suc k"]) simp
  qed (auto intro!: exI [of _ 0] simp: settled_def)
qed

lemma rounds_others: "others_of d (ob_instances (rounds k d ob)) = others_of d (ob_instances ob)"
  by (induction k arbitrary: ob) (simp_all add: step_effect_others)

text \<open>
  C3. Convergence: on a node whose launches and stops do what they say, following \<open>decide\<close>
  reaches \<open>Converged\<close> or a refusal after at most one step per workload that the deployment runs and
  one launch, and at every moment the workloads that are not the deployment's are the ones
  that were there.
\<close>

theorem decide_converges:
  "(\<exists>k \<le> Suc (length (ours_of d (ob_instances ob))). settled (decide d (rounds k d ob))) \<and>
   others_of d (ob_instances (rounds k d ob)) = others_of d (ob_instances ob)"
  using rounds_settle rounds_others by blast

section \<open>An example\<close>

definition ex_recipe :: recipe_id where
  "ex_recipe = RecipeId ''qwen3.6-27b-fp8''"

definition ex_name :: deployment_name where
  "ex_name = DeploymentName ''chat''"

definition ex_desired :: desired where
  "ex_desired = \<lparr>de_deployment = ex_name, de_generation = Generation 2,
     de_intent = Run ex_recipe ''Qwen/Qwen3.6-27B'' (PlacedOn (HardwareClass ''gb10''))\<rparr>"

definition ex_inst :: "64 word \<Rightarrow> run_instance" where
  "ex_inst g = \<lparr>in_recipe = ex_recipe, in_owner = Some \<lparr>ow_deployment = ex_name, ow_generation = Generation g\<rparr>\<rparr>"

definition ex_observed :: "run_instance list \<Rightarrow> observed" where
  "ex_observed is = \<lparr>ob_instances = is, ob_accelerator = ''NVIDIA GB10'',
     ob_recipe_model = Some ''Qwen/Qwen3.6-27B''\<rparr>"

lemmas ex_defs = ex_desired_def ex_observed_def ex_inst_def ex_name_def

lemma ex_classify: "hw_classify ''NVIDIA GB10'' = Some (HardwareClass ''gb10'')"
  by code_simp

lemma ex_stop: "decide ex_desired (ex_observed [ex_inst 1]) = Stop ex_recipe"
  by (simp add: ex_defs decide_def decide_intent_def is_ours_def generation_of_def foreign_def
      stop_step_def launch_blocked_def hw_check_def ex_classify max_opt_def List.map_filter_def
      less_generation_def)

lemma ex_launch: "decide ex_desired (ex_observed []) = Launch ex_recipe"
  by (simp add: ex_defs decide_def decide_intent_def is_ours_def generation_of_def foreign_def
      stop_step_def launch_blocked_def hw_check_def ex_classify max_opt_def List.map_filter_def)

theorem decide_launch_safe_witness: "hw_classify ''NVIDIA GB10'' = Some (HardwareClass ''gb10'')"
  using decide_launch_safe [OF ex_launch] by (simp add: ex_defs)

end
