(* ===== verification/Recipes.thy ===== *)
theory Recipes
  imports Reconcile
begin

text \<open>
  Recipes (\<open>metralectl-core/src/recipe\<close>), their scalar values (\<open>scalar.rs\<close>) and how a name resolves to
  one (\<open>registry/mod.rs\<close>). The YAML reader is third-party: \<open>yaml\<close> is a parameter that turns text
  into a \<open>raw_recipe\<close> or fails, its values have a type \<open>'y\<close> and a string view \<open>as_str\<close>. The vendored
  corpus (a generated table) and the remote registries' files are parameters as well.

  The theorems: a recipe that parses names a model and an image that cannot be read as
  an option, a recipe that carries executable or isolation keys is never launchable, node bounds
  are consistent, and no remote registry can shadow a built-in name.
\<close>

section \<open>Scalars\<close>

datatype scalar_value =
    SBool bool
  | SIntV int
  | SFloatV f64
  | SStr string

definition show_bool :: "bool \<Rightarrow> string" where
  "show_bool b = (if b then ''true'' else ''false'')"

definition scalar_render :: "scalar_value \<Rightarrow> string" where
  "scalar_render v =
     (case v of
        SBool b \<Rightarrow> show_bool b
      | SIntV i \<Rightarrow> show_int i
      | SFloatV f \<Rightarrow>
          (case f of
             F64 n m k \<Rightarrow>
               if m mod 10 ^ k = 0 \<and> m < 10 ^ 16 * 10 ^ k
               then (if n then ''-'' else []) @ show_nat (m div 10 ^ k) @ ''.0''
               else f64_to_string f
           | _ \<Rightarrow> f64_to_string f)
      | SStr s \<Rightarrow> s)"

definition is_truthy :: "scalar_value \<Rightarrow> bool" where
  "is_truthy v =
     (case v of
        SBool b \<Rightarrow> b
      | SIntV i \<Rightarrow> i \<noteq> 0
      | SFloatV f \<Rightarrow> (case f of F64 _ m _ \<Rightarrow> m \<noteq> 0 | _ \<Rightarrow> True)
      | SStr s \<Rightarrow> s \<noteq> [])"

section \<open>Raw recipes\<close>

record 'y raw_recipe =
  rw_recipe_version :: "string option"
  rw_model :: "string option"
  rw_model_revision :: "string option"
  rw_runtime :: "string option"
  rw_runtime_version :: "string option"
  rw_container :: "string option"
  rw_mode :: "string option"
  rw_min_nodes :: "32 word option"
  rw_max_nodes :: "32 word option"
  rw_solo_only :: "bool option"
  rw_cluster_only :: "bool option"
  rw_description :: "string option"
  rw_defaults :: "(string, scalar_value) btree"
  rw_env :: "(string, string) btree"
  rw_command :: "string option"
  rw_metadata :: "(string, 'y) btree"
  rw_requires :: "hardware_class option"
  rw_extra :: "(string, 'y) btree"

definition EXECUTABLE_KEYS :: "string list" where
  "EXECUTABLE_KEYS = [
     ''pre_exec'', ''post_exec'', ''post_commands'', ''stop_after_post'', ''mods'', ''builder'',
     ''builder_config'']"

definition ISOLATION_KEYS :: "string list" where
  "ISOLATION_KEYS = [''executor_config'']"

definition raw_refused_keys :: "'y raw_recipe \<Rightarrow> string list" where
  "raw_refused_keys raw =
     filter (\<lambda>k. bt_get (rw_extra raw) k \<noteq> None) (EXECUTABLE_KEYS @ ISOLATION_KEYS)"

definition raw_unknown_keys :: "'y raw_recipe \<Rightarrow> string list" where
  "raw_unknown_keys raw =
     (let refused = raw_refused_keys raw in
      filter (\<lambda>k. k \<notin> set refused) (map fst (rw_extra raw)))"

section \<open>Topology\<close>

record topology =
  tp_min_nodes :: "32 word"
  tp_max_nodes :: "32 word option"

definition topology_from_raw :: "'y raw_recipe \<Rightarrow> topology" where
  "topology_from_raw raw =
     (let mn = max (case rw_min_nodes raw of None \<Rightarrow> 1 | Some n \<Rightarrow> n) 1;
          mx = rw_max_nodes raw;
          mx = (if rw_solo_only raw = Some True then Some 1 else mx);
          mn = (if rw_cluster_only raw = Some True then max mn 2 else mn);
          mx = (case mx of Some m \<Rightarrow> if m < mn then Some mn else mx | None \<Rightarrow> mx)
      in \<lparr>tp_min_nodes = mn, tp_max_nodes = mx\<rparr>)"

definition is_multi_node :: "topology \<Rightarrow> bool" where
  "is_multi_node t = (1 < tp_min_nodes t)"

section \<open>Recipes\<close>

datatype provenance = Builtin string | Remote string string | LocalPath string

datatype runtime_kind = Metrale | Unsupported string

record recipe =
  rc_name :: string
  rc_provenance :: provenance
  rc_recipe_version :: string
  rc_model :: string
  rc_model_revision :: "string option"
  rc_runtime :: runtime_kind
  rc_container :: string
  rc_topology :: topology
  rc_defaults :: "(string, scalar_value) btree"
  rc_env :: "(string, string) btree"
  rc_description :: "string option"
  rc_requires :: "hardware_class option"
  rc_unknown_keys :: "string list"
  rc_refused_keys :: "string list"

datatype 'e recipe_error =
    RecipeParse string 'e
  | MissingModel string
  | MissingContainer string
  | FlagShaped string string string

definition str_trim_start :: "string \<Rightarrow> string" where
  "str_trim_start s = concat (dropWhile char_is_whitespace (str_chars s))"

definition flag_shaped :: "string \<Rightarrow> string \<Rightarrow> string \<Rightarrow> (unit, 'e recipe_error) result" where
  "flag_shaped name field value =
     (if prefix ''-'' (str_trim_start value) then Err (FlagShaped name field value) else Ok ())"

definition opt_ok_or :: "'e \<Rightarrow> 'a option \<Rightarrow> ('a, 'e) result" where
  "opt_ok_or e x = (case x of None \<Rightarrow> Err e | Some a \<Rightarrow> Ok a)"

definition opt_filter :: "('a \<Rightarrow> bool) \<Rightarrow> 'a option \<Rightarrow> 'a option" where
  "opt_filter P x = (case x of Some a \<Rightarrow> if P a then Some a else None | None \<Rightarrow> None)"

definition recipe_parse ::
    "(string \<Rightarrow> ('y raw_recipe, 'e) result) \<Rightarrow> ('y \<Rightarrow> string option) \<Rightarrow>
     string \<Rightarrow> string \<Rightarrow> provenance \<Rightarrow> (recipe, 'e recipe_error) result" where
  "recipe_parse yaml as_str name text provenance =
     result_bind (map_err (RecipeParse name) (yaml text)) (\<lambda>raw.
     result_bind (opt_ok_or (MissingModel name)
                    (opt_filter (\<lambda>m. str_trim m \<noteq> []) (rw_model raw))) (\<lambda>model.
     result_bind (flag_shaped name ''model'' model) (\<lambda>_.
     result_bind (opt_ok_or (MissingContainer name)
                    (opt_filter (\<lambda>c. str_trim c \<noteq> []) (rw_container raw))) (\<lambda>container.
     result_bind (flag_shaped name ''container'' container) (\<lambda>_.
     Ok \<lparr>rc_name = name, rc_provenance = provenance,
         rc_recipe_version = (case rw_recipe_version raw of None \<Rightarrow> ''2'' | Some v \<Rightarrow> v),
         rc_model = model,
         rc_model_revision = rw_model_revision raw,
         rc_runtime = (case rw_runtime raw of
            Some r \<Rightarrow> if r = ''metrale'' then Metrale else Unsupported r
          | None \<Rightarrow> Unsupported []),
         rc_container = container,
         rc_topology = topology_from_raw raw,
         rc_defaults = rw_defaults raw,
         rc_env = rw_env raw,
         rc_description = (case rw_description raw of
            Some d \<Rightarrow> Some d
          | None \<Rightarrow> Option.bind (bt_get (rw_metadata raw) ''description'') as_str),
         rc_requires = rw_requires raw,
         rc_unknown_keys = raw_unknown_keys raw,
         rc_refused_keys = raw_refused_keys raw\<rparr>)))))"

datatype not_launchable =
    ExecutableContent "string list"
  | ForeignRuntime string
  | NoRuntimeDeclared string

definition launchable :: "recipe \<Rightarrow> (unit, not_launchable) result" where
  "launchable r =
     (if rc_refused_keys r \<noteq> [] then Err (ExecutableContent (rc_refused_keys r))
      else case rc_runtime r of
        Metrale \<Rightarrow> Ok ()
      | Unsupported k \<Rightarrow>
          if k = [] then Err (NoRuntimeDeclared (rc_recipe_version r)) else Err (ForeignRuntime k))"

text \<open>The \<open>Display\<close> of \<open>NotLaunchable\<close>; the dash is U+2014.\<close>

definition em_dash :: string where
  "em_dash = [CHR 0xE2, CHR 0x80, CHR 0x94]"

definition not_launchable_to_string :: "not_launchable \<Rightarrow> string" where
  "not_launchable_to_string e =
     (case e of
        ExecutableContent keys \<Rightarrow>
          ''recipe carries executable-content keys ['' @ str_join '', '' keys
          @ '']. metralectl never runs recipe-supplied commands '' @ em_dash
          @ '' that mechanism is what allowed the tool this ''
          @ ''replaces to be turned against its users. Move the work into explicit ''
          @ ''recipe fields, or run it yourself before launching.''
      | ForeignRuntime r \<Rightarrow>
          ''recipe targets runtime `'' @ r @ ''`; metralectl launches the `metrale` runtime only''
      | NoRuntimeDeclared v \<Rightarrow>
          ''recipe declares no `runtime:` (schema version '' @ v @ ''). The reference tool ''
          @ ''guessed one by inspecting the command template; metralectl does not guess ''
          @ ''what to execute.'')"

section \<open>Registries\<close>

definition BUILTIN :: string where
  "BUILTIN = ''metrale''"

definition RESERVED :: "string list" where
  "RESERVED = [BUILTIN, ''builtin'']"

datatype recipe_ref = Scoped string string | Bare string | RefPath string

text \<open>\<open>str::split_once\<close> at a one-byte separator.\<close>

fun split_once :: "char \<Rightarrow> string \<Rightarrow> (string \<times> string) option" where
  "split_once sep [] = None"
| "split_once sep (c # cs) =
     (if c = sep then Some ([], cs)
      else map_option (\<lambda>(a, b). (c # a, b)) (split_once sep cs))"

definition recipe_ref_parse :: "string \<Rightarrow> recipe_ref" where
  "recipe_ref_parse input =
     (let path = (if CHR ''/'' \<in> set input \<or> suffix ''.yaml'' input \<or> suffix ''.yml'' input
                  then RefPath input else Bare input) in
      case input of
        c # rest \<Rightarrow>
          if c = CHR ''@''
          then (case split_once (CHR ''/'') rest of
                  Some (registry, name) \<Rightarrow>
                    if registry \<noteq> [] \<and> name \<noteq> [] then Scoped registry name else path
                | None \<Rightarrow> path)
          else path
      | [] \<Rightarrow> path)"

text \<open>
  A remote registry: its name, the recipe names it lists and what loading one gives. What the
  recipes' text is, is read from files; here it is data.
\<close>

record 'e remote_registry =
  rr_name :: string
  rr_recipe_names :: "string list"
  rr_load :: "string \<Rightarrow> (recipe, 'e recipe_error) result option"

text \<open>The near-miss suggestions come from \<open>nearest\<close>, a parameter: they are only shown.\<close>

datatype 'e resolve_error =
    NoSuchRegistry string "string list"
  | RecipeNotFound string string "string list"
  | NotFoundAnywhere string "string list"
  | Ambiguous string "string list"
  | ResolveRecipe "'e recipe_error"

record 'e registry_set =
  rg_builtin :: "string \<Rightarrow> (recipe, 'e recipe_error) result option"
  rg_builtin_names :: "string list"
  rg_remotes :: "'e remote_registry list"

definition registry_list :: "'e registry_set \<Rightarrow> (string \<times> string) list" where
  "registry_list rg =
     map (\<lambda>n. (n, BUILTIN)) (rg_builtin_names rg) @
     concat (map (\<lambda>r. map (\<lambda>n. (n, rr_name r)) (rr_recipe_names r)) (rg_remotes rg))"

definition registry_names :: "'e registry_set \<Rightarrow> string list" where
  "registry_names rg = map fst (registry_list rg)"

type_synonym nearest_fn = "string \<Rightarrow> string list \<Rightarrow> string list"

definition resolve_bare ::
    "nearest_fn \<Rightarrow> 'e registry_set \<Rightarrow> string \<Rightarrow> (recipe, 'e resolve_error) result" where
  "resolve_bare nearest rg name =
     (case rg_builtin rg name of
        Some found \<Rightarrow> map_err ResolveRecipe found
      | None \<Rightarrow>
          (case filter (\<lambda>r. name \<in> set (rr_recipe_names r)) (rg_remotes rg) of
             [] \<Rightarrow> Err (NotFoundAnywhere name (nearest name (registry_names rg)))
           | [one] \<Rightarrow>
               (case rr_load one name of
                  None \<Rightarrow> Err (RecipeNotFound name (rr_name one) (nearest name (rr_recipe_names one)))
                | Some found \<Rightarrow> map_err ResolveRecipe found)
           | many \<Rightarrow> Err (Ambiguous name (map rr_name many))))"

definition registry_resolve ::
    "nearest_fn \<Rightarrow> 'e registry_set \<Rightarrow> recipe_ref \<Rightarrow> (recipe, 'e resolve_error) result" where
  "registry_resolve nearest rg ref =
     (case ref of
        Scoped registry name \<Rightarrow>
          if registry = BUILTIN
          then (case rg_builtin rg name of
                  None \<Rightarrow> Err (RecipeNotFound name registry (nearest name (registry_names rg)))
                | Some found \<Rightarrow> map_err ResolveRecipe found)
          else (case find (\<lambda>r. rr_name r = registry) (rg_remotes rg) of
                  None \<Rightarrow> Err (NoSuchRegistry registry
                            (nearest registry (BUILTIN # map rr_name (rg_remotes rg))))
                | Some reg \<Rightarrow>
                    (case rr_load reg name of
                       None \<Rightarrow> Err (RecipeNotFound name registry (nearest name (rr_recipe_names reg)))
                     | Some found \<Rightarrow> map_err ResolveRecipe found))
      | Bare name \<Rightarrow> resolve_bare nearest rg name
      | RefPath p \<Rightarrow> Err (NotFoundAnywhere p []))"

section \<open>Claims\<close>

lemma opt_ok_or_Ok [simp]: "opt_ok_or e x = Ok a \<longleftrightarrow> x = Some a"
  by (simp add: opt_ok_or_def split: option.splits)

lemma opt_filter_Some [simp]: "opt_filter P x = Some a \<longleftrightarrow> x = Some a \<and> P a"
  by (auto simp: opt_filter_def split: option.splits if_splits)

lemma flag_shaped_Ok: "flag_shaped n f v = Ok () \<longleftrightarrow> \<not> prefix ''-'' (str_trim_start v)"
  by (simp add: flag_shaped_def)

lemma launchable_Ok: "launchable r = Ok () \<longleftrightarrow> rc_refused_keys r = [] \<and> rc_runtime r = Metrale"
  by (auto simp: launchable_def split: runtime_kind.splits)

lemma raw_refused_keys_Nil:
  "raw_refused_keys raw = [] \<longleftrightarrow>
     (\<forall>k\<in>set (EXECUTABLE_KEYS @ ISOLATION_KEYS). bt_get (rw_extra raw) k = None)"
  by (auto simp: raw_refused_keys_def filter_empty_conv)

lemma recipe_parse_Ok:
  assumes "recipe_parse yaml as_str name text prov = Ok r"
  obtains raw where "yaml text = Ok raw" "rw_model raw = Some (rc_model r)" "str_trim (rc_model r) \<noteq> []"
    "\<not> prefix ''-'' (str_trim_start (rc_model r))"
    "rw_container raw = Some (rc_container r)" "str_trim (rc_container r) \<noteq> []"
    "\<not> prefix ''-'' (str_trim_start (rc_container r))"
    "rc_refused_keys r = raw_refused_keys raw"
    "rc_runtime r = Metrale \<longleftrightarrow> rw_runtime raw = Some ''metrale''"
    "rc_topology r = topology_from_raw raw"
  using assms by (auto simp: recipe_parse_def result_bind_eq_Ok flag_shaped_Ok split: option.splits)


text \<open>
  Node bounds are consistent whatever the file says: at least one node, at least two for
  \<open>cluster_only\<close>, and a maximum that is never below the minimum.
\<close>

lemma topology_consistent:
  "1 \<le> tp_min_nodes (topology_from_raw raw) \<and>
   (rw_cluster_only raw = Some True \<longrightarrow> is_multi_node (topology_from_raw raw)) \<and>
   (case tp_max_nodes (topology_from_raw raw) of
      None \<Rightarrow> True | Some m \<Rightarrow> tp_min_nodes (topology_from_raw raw) \<le> m)"
proof -
  have two: "(1 :: 32 word) < 2" "(1 :: 32 word) \<le> 2" by (simp_all add: word_less_nat_alt word_le_nat_alt)
  have "1 < max x (2 :: 32 word)" for x using two by (simp add: less_max_iff_disj)
  moreover have "x \<noteq> 0 \<Longrightarrow> 1 \<le> x" for x :: "32 word"
    by (simp add: word_le_nat_alt Suc_le_eq unat_gt_0)
  ultimately show ?thesis using two
    by (auto simp: topology_from_raw_def is_multi_node_def Let_def le_max_iff_disj not_less
        split: option.splits)
qed

text \<open>
  A remote registry cannot shadow a shipped recipe: a bare name that the built-in corpus
  carries resolves to the built-in recipe whatever the remotes are, and two remotes that both carry
  a name the corpus lacks are reported as ambiguous, never picked from.
\<close>

lemma builtin_not_shadowed:
  "registry_resolve nearest rg (Bare name) =
     (case rg_builtin rg name of
        Some found \<Rightarrow> map_err ResolveRecipe found
      | None \<Rightarrow>
          (case filter (\<lambda>r. name \<in> set (rr_recipe_names r)) (rg_remotes rg) of
             r # r' # rs \<Rightarrow> Err (Ambiguous name (map rr_name (r # r' # rs)))
           | _ \<Rightarrow> registry_resolve nearest (rg\<lparr>rg_builtin := (\<lambda>_. None)\<rparr>) (Bare name)))"
  by (auto simp: registry_resolve_def resolve_bare_def registry_names_def registry_list_def
      split: option.splits list.splits)

section \<open>An example\<close>

definition ex_raw :: "unit raw_recipe" where
  "ex_raw = \<lparr>rw_recipe_version = Some ''2'', rw_model = Some ''Qwen/Qwen3.6-27B'',
     rw_model_revision = None, rw_runtime = Some ''metrale'', rw_runtime_version = None,
     rw_container = Some ''ghcr.io/metrale/engine:1'', rw_mode = None, rw_min_nodes = Some 2,
     rw_max_nodes = None, rw_solo_only = None, rw_cluster_only = Some True, rw_description = None,
     rw_defaults = [(''port'', SIntV 8888)], rw_env = [], rw_command = None, rw_metadata = [],
     rw_requires = None, rw_extra = []\<rparr>"

definition ex_yaml :: "string \<Rightarrow> (unit raw_recipe, unit) result" where
  "ex_yaml text = (if text = ''ok'' then Ok ex_raw else Err ())"

definition ex_rec :: recipe where
  "ex_rec = \<lparr>rc_name = ''r'', rc_provenance = Builtin ''r.yaml'', rc_recipe_version = ''2'',
     rc_model = ''Qwen/Qwen3.6-27B'', rc_model_revision = None, rc_runtime = Metrale,
     rc_container = ''ghcr.io/metrale/engine:1'',
     rc_topology = \<lparr>tp_min_nodes = 2, tp_max_nodes = None\<rparr>,
     rc_defaults = [(''port'', SIntV 8888)], rc_env = [], rc_description = None, rc_requires = None,
     rc_unknown_keys = [], rc_refused_keys = []\<rparr>"

lemma ex_parse: "recipe_parse ex_yaml (\<lambda>_. None) ''r'' ''ok'' (Builtin ''r.yaml'') = Ok ex_rec"
  by code_simp


end
