(* ===== verification/Fingerprint.thy ===== *)
theory Fingerprint
  imports Recipes
begin

text \<open>
  What makes two nodes agree that they would launch the same thing
  (\<open>metralectl-core/src/recipe/fingerprint.rs\<close>): the byte stream that \<open>content_hash\<close> feeds to
  SHA-256. The digest itself is a library's: it is the parameter \<open>sha\<close>.

  The theorem: the byte stream determines every field it is made from, so where the digest does not
  collide, equal hashes mean equal recipes in all that reaches the command line.
\<close>

definition DOMAIN :: string where
  "DOMAIN = ''metralectl.recipe.v1''"

text \<open>\<open>u32::try_from(n).unwrap_or(u32::MAX).to_be_bytes()\<close>.\<close>

definition len_bytes :: "nat \<Rightarrow> string" where
  "len_bytes n =
     (let m = (if n < 2 ^ 32 then n else 2 ^ 32 - 1) in
      map char_of [m div 2 ^ 24, m div 2 ^ 16, m div 2 ^ 8, m])"

definition fp_field :: "string \<Rightarrow> string \<Rightarrow> string" where
  "fp_field key value = len_bytes (length key) @ key @ len_bytes (length value) @ value"

definition scalar_tag :: "scalar_value \<Rightarrow> string" where
  "scalar_tag v = (case v of
     SBool b \<Rightarrow> ''b:'' @ show_bool b
   | SIntV i \<Rightarrow> ''i:'' @ show_int i
   | SFloatV f \<Rightarrow> ''f:'' @ scalar_render v
   | SStr s \<Rightarrow> ''s:'' @ s)"

definition runtime_tag :: "runtime_kind \<Rightarrow> string" where
  "runtime_tag r = (case r of Metrale \<Rightarrow> ''metrale'' | Unsupported name \<Rightarrow> ''unsupported:'' @ name)"

definition revision_tag :: "string option \<Rightarrow> string" where
  "revision_tag r = (case r of Some r \<Rightarrow> r | None \<Rightarrow> CHR 0x00 # ''none'')"

definition topology_tag :: "topology \<Rightarrow> string" where
  "topology_tag t = show_nat (unat (tp_min_nodes t)) @ '':'' @
     (case tp_max_nodes t of None \<Rightarrow> ''unbounded'' | Some m \<Rightarrow> show_nat (unat m))"

text \<open>The fields in the order \<open>content_hash\<close> feeds them.\<close>

definition fp_fields :: "recipe \<Rightarrow> (string \<times> string) list" where
  "fp_fields r =
     [(''recipe_version'', rc_recipe_version r),
      (''model'', rc_model r),
      (''model_revision'', revision_tag (rc_model_revision r)),
      (''runtime'', runtime_tag (rc_runtime r)),
      (''container'', rc_container r),
      (''topology'', topology_tag (rc_topology r)),
      (''defaults'', [])] @
     map (\<lambda>(k, v). (k, scalar_tag v)) (rc_defaults r) @
     [(''env'', [])] @ rc_env r"

definition fp_stream :: "recipe \<Rightarrow> string" where
  "fp_stream r = DOMAIN @ concat (map (\<lambda>(k, v). fp_field k v) (fp_fields r))"

definition content_hash :: "(string \<Rightarrow> 8 word list) \<Rightarrow> recipe \<Rightarrow> string" where
  "content_hash sha r = hex_encode (sha (fp_stream r))"

section \<open>The stream reads back\<close>

lemma length_len_bytes [simp]: "length (len_bytes n) = 4"
  by (simp add: len_bytes_def Let_def)

lemma len_bytes_inj:
  assumes "len_bytes a = len_bytes b" and "a < 2 ^ 32" and "b < 2 ^ 32"
  shows "a = b"
proof -
  have "char_of x = (char_of y :: char) \<longleftrightarrow> x mod 256 = y mod 256" for x y :: nat
    by (metis char_of_mod_256 of_char_of)
  with assms have e: "a div 2 ^ 24 mod 256 = b div 2 ^ 24 mod 256" "a div 2 ^ 16 mod 256 = b div 2 ^ 16 mod 256"
    "a div 2 ^ 8 mod 256 = b div 2 ^ 8 mod 256" "a mod 256 = b mod 256"
    by (auto simp: len_bytes_def Let_def)
  have split: "n = ((n div 2 ^ 24 mod 256 * 256 + n div 2 ^ 16 mod 256) * 256 + n div 2 ^ 8 mod 256) * 256 + n mod 256"
    if "n < 2 ^ 32" for n :: nat
  proof -
    have "n div 2 ^ 24 mod 256 = n div 2 ^ 24" using that by (simp add: less_mult_imp_div_less)
    moreover have "n div 2 ^ 24 = n div 2 ^ 16 div 256" "n div 2 ^ 16 = n div 2 ^ 8 div 256" "n div 2 ^ 8 = n div 256"
      by (simp_all add: div_mult2_eq [symmetric])
    ultimately show ?thesis by (metis div_mult_mod_eq)
  qed
  show ?thesis using split [OF assms(2)] split [OF assms(3)] e by simp
qed

lemma fp_field_inj:
  assumes "fp_field k v @ s = fp_field k' v' @ s'"
    and "length k < 2 ^ 32" "length v < 2 ^ 32" "length k' < 2 ^ 32" "length v' < 2 ^ 32"
  shows "k = k' \<and> v = v' \<and> s = s'"
proof -
  from assms(1) have k: "len_bytes (length k) = len_bytes (length k')"
    and r: "k @ len_bytes (length v) @ v @ s = k' @ len_bytes (length v') @ v' @ s'"
    by (simp_all add: fp_field_def)
  from len_bytes_inj [OF k assms(2,4)] r have "k = k'"
    and v: "len_bytes (length v) @ v @ s = len_bytes (length v') @ v' @ s'" by auto
  then have "length v = length v'" using len_bytes_inj [OF _ assms(3,5)] by simp
  with v \<open>k = k'\<close> show ?thesis by simp
qed

definition fields_short :: "(string \<times> string) list \<Rightarrow> bool" where
  "fields_short fs = list_all (\<lambda>(k, v). length k < 2 ^ 32 \<and> length v < 2 ^ 32) fs"

lemma fp_field_Nil [simp]: "fp_field k v \<noteq> []"
  using length_len_bytes [of "length k"] by (auto simp: fp_field_def simp del: length_len_bytes)

lemma fields_stream_inj:
  assumes "concat (map (\<lambda>(k, v). fp_field k v) fs) = concat (map (\<lambda>(k, v). fp_field k v) gs)"
    and "fields_short fs" and "fields_short gs"
  shows "fs = gs"
  using assms
proof (induction fs arbitrary: gs)
  case Nil
  then show ?case by (cases gs) auto
next
  case (Cons f fs)
  then obtain g gs' where gs: "gs = g # gs'" by (cases gs) (auto simp: case_prod_beta)
  obtain k v k' v' where f: "f = (k, v)" "g = (k', v')" by (cases f; cases g)
  from Cons.prems have "k = k' \<and> v = v' \<and>
    concat (map (\<lambda>(k, v). fp_field k v) fs) = concat (map (\<lambda>(k, v). fp_field k v) gs')"
    unfolding gs f by (intro fp_field_inj) (auto simp: fields_short_def)
  with Cons show ?case by (auto simp: gs f fields_short_def)
qed

lemma scalar_tag_nonempty [simp]: "scalar_tag v \<noteq> []"
  by (cases v) (simp_all add: scalar_tag_def)

lemma sections_inj:
  assumes "map (\<lambda>(k, v). (k, scalar_tag v)) d1 @ (''env'', []) # e1 =
    map (\<lambda>(k, v). (k, scalar_tag v)) d2 @ (''env'', []) # e2"
  shows "map (\<lambda>(k, v). (k, scalar_tag v)) d1 = map (\<lambda>(k, v). (k, scalar_tag v)) d2 \<and> e1 = e2"
  using assms
proof (induction d1 arbitrary: d2)
  case Nil
  then show ?case by (cases d2) (auto simp: case_prod_beta scalar_tag_nonempty [symmetric])
next
  case (Cons x d1)
  then show ?case by (cases d2) (auto simp: case_prod_beta)
qed

lemma runtime_tag_inj: "runtime_tag a = runtime_tag b \<longleftrightarrow> a = b"
  by (cases a; cases b) (simp_all add: runtime_tag_def)

lemma colon_split_inj:
  assumes "a @ CHR '':'' # b = c @ CHR '':'' # d" and "CHR '':'' \<notin> set a" and "CHR '':'' \<notin> set c"
  shows "a = c \<and> b = d"
  using assms
proof (induction a arbitrary: c)
  case Nil
  then show ?case by (cases c) auto
next
  case (Cons x a)
  then show ?case by (cases c) auto
qed

lemma colon_not_digit: "CHR '':'' \<notin> set (show_nat n)"
  by (auto dest: show_nat_digits simp: is_ascii_digit_def byte_of_def)

lemma show_nat_not_unbounded: "show_nat n \<noteq> ''unbounded''"
  using show_nat_digits [of "CHR ''u''" n] by (auto simp: is_ascii_digit_def byte_of_def)

lemma show_word_inj: "show_nat (unat a) = show_nat (unat b) \<Longrightarrow> a = b" for a b :: "'a::len word"
  by (drule show_nat_inj) (simp add: word_unat_eq_iff)

lemma topology_tag_inj: "topology_tag s = topology_tag t \<longleftrightarrow> s = t"
proof
  assume "topology_tag s = topology_tag t"
  then have "show_nat (unat (tp_min_nodes s)) = show_nat (unat (tp_min_nodes t)) \<and>
      (case tp_max_nodes s of None \<Rightarrow> ''unbounded'' | Some m \<Rightarrow> show_nat (unat m)) =
      (case tp_max_nodes t of None \<Rightarrow> ''unbounded'' | Some m \<Rightarrow> show_nat (unat m))"
    unfolding topology_tag_def by (intro colon_split_inj) (simp_all add: colon_not_digit)
  then have "tp_min_nodes s = tp_min_nodes t" "tp_max_nodes s = tp_max_nodes t"
    by (auto dest!: show_word_inj simp: show_nat_not_unbounded show_nat_not_unbounded [symmetric]
        split: option.splits)
  then show "s = t" by simp
qed simp

lemma show_int_inj: "show_int i = show_int j \<Longrightarrow> i = j"
proof -
  have "CHR ''-'' \<notin> set (show_nat n)" for n
    by (auto dest: show_nat_digits simp: is_ascii_digit_def byte_of_def)
  then have m: "show_nat n \<noteq> CHR ''-'' # cs" "CHR ''-'' # cs \<noteq> show_nat n" for n cs
    by (metis list.set_intros(1))+
  assume "show_int i = show_int j"
  with m show "i = j"
    by (auto simp: show_int_def dest!: show_nat_inj split: if_splits)
qed

text \<open>Two defaults with the same tag are the same value, up to floats that print alike.\<close>

definition same_scalar :: "scalar_value \<Rightarrow> scalar_value \<Rightarrow> bool" where
  "same_scalar v w =
     (case (v, w) of (SFloatV _, SFloatV _) \<Rightarrow> scalar_render v = scalar_render w | _ \<Rightarrow> v = w)"

lemma scalar_tag_eq: "scalar_tag v = scalar_tag w \<longleftrightarrow> same_scalar v w"
  by (cases v; cases w)
    (auto simp: scalar_tag_def same_scalar_def show_bool_def dest: show_int_inj)

lemma tagged_eq:
  "map (\<lambda>(k, v). (k, scalar_tag v)) d1 = map (\<lambda>(k, v). (k, scalar_tag v)) d2 \<longleftrightarrow>
     list_all2 (\<lambda>(k, v) (k', v'). k = k' \<and> same_scalar v v') d1 d2"
proof (induction d1 arbitrary: d2)
  case Nil
  then show ?case by (cases d2) auto
next
  case (Cons x d1)
  then show ?case by (cases d2) (auto simp: case_prod_beta scalar_tag_eq)
qed

lemma hex_encode_inj: "hex_encode a = hex_encode b \<Longrightarrow> a = b"
  by (metis parse_hex_pairs_encode result.inject(1))

lemma fp_stream_eq:
  assumes "fields_short (fp_fields r1)" and "fields_short (fp_fields r2)"
  shows "fp_stream r1 = fp_stream r2 \<longleftrightarrow> fp_fields r1 = fp_fields r2"
  using fields_stream_inj [OF _ assms] by (auto simp: fp_stream_def)

lemma fp_fields_eq:
  "fp_fields r1 = fp_fields r2 \<longleftrightarrow>
     rc_recipe_version r1 = rc_recipe_version r2 \<and> rc_model r1 = rc_model r2 \<and>
     revision_tag (rc_model_revision r1) = revision_tag (rc_model_revision r2) \<and>
     rc_runtime r1 = rc_runtime r2 \<and> rc_container r1 = rc_container r2 \<and>
     rc_topology r1 = rc_topology r2 \<and>
     list_all2 (\<lambda>(k, v) (k', v'). k = k' \<and> same_scalar v v') (rc_defaults r1) (rc_defaults r2) \<and>
     rc_env r1 = rc_env r2"
  by (auto simp: fp_fields_def runtime_tag_inj topology_tag_inj tagged_eq [symmetric] dest: sections_inj)

section \<open>Claims\<close>

text \<open>
  C9. Agreeing hashes are agreeing recipes: for two recipes with no field of 4 GiB or more, whose
  byte streams SHA-256 does not map to one digest unless they are equal, the content hashes agree
  exactly when the schema version, the model, its revision, the runtime, the image, the topology,
  the environment and the defaults agree, a default agreeing in type and value (a float in what it
  prints). No two ways of splitting the bytes into fields are confused.
\<close>

theorem content_hash_agrees_iff:
  assumes "sha (fp_stream r1) = sha (fp_stream r2) \<Longrightarrow> fp_stream r1 = fp_stream r2"
    and "fields_short (fp_fields r1)" and "fields_short (fp_fields r2)"
  shows "content_hash sha r1 = content_hash sha r2 \<longleftrightarrow>
     rc_recipe_version r1 = rc_recipe_version r2 \<and> rc_model r1 = rc_model r2 \<and>
     revision_tag (rc_model_revision r1) = revision_tag (rc_model_revision r2) \<and>
     rc_runtime r1 = rc_runtime r2 \<and> rc_container r1 = rc_container r2 \<and>
     rc_topology r1 = rc_topology r2 \<and>
     list_all2 (\<lambda>(k, v) (k', v'). k = k' \<and> same_scalar v v') (rc_defaults r1) (rc_defaults r2) \<and>
     rc_env r1 = rc_env r2"
  using assms(1) unfolding fp_fields_eq [symmetric] fp_stream_eq [OF assms(2,3), symmetric] content_hash_def
  by (auto dest: hex_encode_inj)

text \<open>
  The one pair the stream does confuse: no revision, and a revision spelled as a NUL byte followed
  by \<open>none\<close>.
\<close>

lemma revision_tag_eq:
  "revision_tag a = revision_tag b \<longleftrightarrow>
     a = b \<or> {a, b} = {None, Some (CHR 0x00 # ''none'')}"
  by (cases a; cases b) (auto simp: revision_tag_def doubleton_eq_iff)

section \<open>An example\<close>

definition ex_sha :: "string \<Rightarrow> 8 word list" where
  "ex_sha s = map (\<lambda>c. of_nat (of_char c)) s"

lemma ex_short: "fields_short (fp_fields ex_rec)" "fields_short (fp_fields (ex_rec\<lparr>rc_model := ''m2''\<rparr>))"
  by (simp_all add: fields_short_def fp_fields_def ex_rec_def revision_tag_def runtime_tag_def topology_tag_def
      scalar_tag_def show_int_def show_nat.simps)

theorem content_hash_agrees_iff_witness:
  "(content_hash ex_sha ex_rec = content_hash ex_sha (ex_rec\<lparr>rc_model := ''m2''\<rparr>)) = False"
proof -
  have "ex_sha s = ex_sha t \<Longrightarrow> s = t" for s t
  proof -
    have "inj (\<lambda>c. of_nat (of_char c) :: 8 word)"
    proof (rule injI)
      fix c d :: char
      assume "(of_nat (of_char c) :: 8 word) = of_nat (of_char d)"
      then have "unat (of_nat (of_char c) :: 8 word) = unat (of_nat (of_char d) :: 8 word)" by simp
      then show "c = d" by (simp add: unat_of_nat)
    qed
    then show "ex_sha s = ex_sha t \<Longrightarrow> s = t" by (simp add: ex_sha_def inj_map_eq_map)
  qed
  from content_hash_agrees_iff [of ex_sha, OF this ex_short] show ?thesis by (simp add: ex_rec_def)
qed

end
