(* ===== verification/Settings.thy ===== *)
theory Settings
  imports Recipes
begin

text \<open>
  What a remote client may set on a launch: \<open>metralectl-core/src/settings\<close>. The three tables are
  transcribed row by row (\<open>table.rs\<close>, \<open>memory.rs\<close>, split here at its own section comments, and
  \<open>denied.rs\<close>), with the value sets of \<open>values.rs\<close>; then \<open>validate\<close>, the check of a local override, and
  the caution for the unified-memory part.

  The theorems: what passes \<open>validate\<close> is exactly the requested keys, each exposed and within its
  bound; a refusal lists one error per offending key, in key order; and no value that passes can be
  read as an option.
\<close>

section \<open>Dispositions\<close>

datatype bound_spec =
    SInt int int
  | SFloat f64 f64
  | SEnum "string list"
  | SToggle
  | SIntOrAuto int int

record setting_spec =
  sp_bound :: bound_spec
  sp_label :: string
  sp_help :: string
  sp_unit :: "string option"
  sp_group :: setting_group
  sp_advanced :: bool

datatype disposition = Expose setting_spec | Deny string

definition expose ::
    "bound_spec \<Rightarrow> string \<Rightarrow> string \<Rightarrow> string option \<Rightarrow> setting_group \<Rightarrow> bool \<Rightarrow> disposition" where
  "expose b label help unit grp advanced =
     Expose \<lparr>sp_bound = b, sp_label = label, sp_help = help, sp_unit = unit, sp_group = grp,
             sp_advanced = advanced\<rparr>"

definition to_bound :: "bound_spec \<Rightarrow> bound" where
  "to_bound b =
     (case b of
        SInt a c \<Rightarrow> BInt a c
      | SFloat a c \<Rightarrow> BFloat a c
      | SEnum vs \<Rightarrow> BEnum vs
      | SToggle \<Rightarrow> BToggle
      | SIntOrAuto a c \<Rightarrow> BIntOrAuto a c)"

section \<open>The tables\<close>

definition KV_DTYPES :: "string list" where
  "KV_DTYPES = [
      ''bf16'', ''fp8'', ''nvfp4'', ''turbo4'', ''turbo3'', ''turbo2'', ''turbo8'',
      ''turbo4k_turbo3v'', ''turbo4k_turbo8v'', ''turbo3k_turbo8v'', ''bf16k_turbo4v'',
      ''bf16k_turbo3v'', ''fp8k_turbo4v'', ''fp8k_turbo3v'', ''bf16k_turbo2v'', ''fp8k_turbo2v'']"

definition DTYPES :: "string list" where
  "DTYPES = [
      ''bf16'', ''fp8'', ''nvfp4'']"

definition LM_HEAD_DTYPES :: "string list" where
  "LM_HEAD_DTYPES = [
      ''default'', ''bf16'', ''nvfp4'', ''fp8'']"

definition SSM_H_DTYPES :: "string list" where
  "SSM_H_DTYPES = [
      ''f32'', ''f16'', ''f16-pool'']"

definition MTP_GATES :: "string list" where
  "MTP_GATES = [
      ''auto'', ''force'']"

definition TRISTATES :: "string list" where
  "TRISTATES = [
      ''auto'', ''on'', ''off'']"

definition TELEMETRY_LEVELS :: "string list" where
  "TELEMETRY_LEVELS = [
      ''off'', ''basic'', ''kernel'']"

definition EXPOSED :: "(string \<times> disposition) list" where
  "EXPOSED = [
     (''port'',
      expose (SInt 1 65535) ''Port''
        ''Port the model server listens on.''
        None GServer False),
     (''tensor_parallel'',
      expose (SInt 1 8) ''Tensor parallel''
        ''Tensor-parallel degree.''
        None GTopology True),
     (''ep_size'',
      expose (SInt 1 8) ''Expert parallel''
        ''Expert-parallel degree.''
        None GTopology True),
     (''max_batch_size'',
      expose (SInt 1 256) ''Max batch size''
        ''Concurrent sequences decoded together.''
        None GPerformance False),
     (''max_num_seqs'',
      expose (SInt 1 256) ''Max sequences''
        ''Concurrent sequences admitted.''
        None GPerformance False),
     (''max_prefill_tokens'',
      expose (SInt 256 262144) ''Max prefill tokens''
        ''Largest prefill chunk.''
        (Some ''tokens'') GPerformance False),
     (''max_num_batched_tokens'',
      expose (SInt 256 262144) ''Max batched tokens''
        ''Alias of max prefill tokens.''
        (Some ''tokens'') GPerformance True),
     (''scheduler'',
      expose (SEnum [''fifo'', ''slai'']) ''Scheduler policy''
        ''How queued requests are ordered.''
        None GPerformance False),
     (''scheduler_config'',
      expose (SEnum [''sync'', ''async'']) ''Scheduler router''
        ''sync runs every device step to completion before the next host decision; async runs one decode step ahead of the host where the model supports it.''
        None GPerformance True),
     (''tbt_deadline_ms'',
      expose (SInt 1 10000) ''Time-between-tokens deadline''
        ''Latency target the scheduler aims for.''
        (Some ''ms'') GPerformance True),
     (''enable_prefix_caching'',
      expose (SToggle) ''Prefix caching''
        ''Reuse KV for shared prompt prefixes.''
        None GPerformance False)]"

definition EXPOSED_MEMORY_KV :: "(string \<times> disposition) list" where
  "EXPOSED_MEMORY_KV = [
     (''gpu_memory_utilization'',
      expose (SFloat (F64 False 1 1) (F64 False 95 2)) ''Memory fraction''
        ''Share of the memory pool the engine may use.''
        None GMemoryKv False),
     (''max_model_len'',
      expose (SInt 256 262144) ''Context length''
        ''Longest sequence the server will accept.''
        (Some ''tokens'') GMemoryKv False),
     (''kv_cache_dtype'',
      expose (SEnum KV_DTYPES) ''KV cache dtype''
        ''Precision of the key/value cache.''
        None GMemoryKv False),
     (''kv_high_precision_layers'',
      expose (SIntOrAuto 0 256) ''High-precision KV layers''
        ''Layers kept at higher KV precision.''
        None GMemoryKv True),
     (''block_size'',
      expose (SEnum [''8'', ''16'', ''32'', ''64'']) ''KV block size''
        ''Paged-attention block size.''
        (Some ''tokens'') GMemoryKv True),
     (''oom_guard_mb'',
      expose (SInt 0 16384) ''OOM guard''
        ''Memory held back as headroom.''
        (Some ''MB'') GMemoryKv True),
     (''fp8_kv_calibration_tokens'',
      expose (SInt 0 65536) ''FP8 KV calibration''
        ''Tokens used to calibrate an FP8 KV cache.''
        (Some ''tokens'') GMemoryKv True),
     (''ssm_cache_slots'',
      expose (SInt 0 4096) ''SSM cache slots''
        ''State-space cache slots preallocated.''
        None GMemoryKv True),
     (''ssm_checkpoint_interval'',
      expose (SInt 1 8192) ''SSM checkpoint interval''
        ''How often SSM state is checkpointed.''
        None GMemoryKv True)]"

definition EXPOSED_SPECULATIVE :: "(string \<times> disposition) list" where
  "EXPOSED_SPECULATIVE = [
     (''speculative'',
      expose (SToggle) ''Speculative decoding''
        ''Draft tokens ahead and verify them.''
        None GSpeculative False),
     (''self_speculative'',
      expose (SToggle) ''Self-speculative''
        ''Draft with the model's own early layers.''
        None GSpeculative True),
     (''ngram_speculative'',
      expose (SToggle) ''N-gram speculative''
        ''Draft from prompt n-grams.''
        None GSpeculative True),
     (''dflash'',
      expose (SToggle) ''DFlash''
        ''Enable the DFlash draft path.''
        None GSpeculative True),
     (''num_drafts'',
      expose (SInt 1 8) ''Draft tokens''
        ''Tokens drafted per verification step.''
        None GSpeculative False),
     (''mtp_quantization'',
      expose (SEnum DTYPES) ''MTP precision''
        ''Precision of the draft head.''
        None GSpeculative False),
     (''dflash_gamma'',
      expose (SInt 1 16) ''DFlash gamma''
        ''DFlash draft depth.''
        None GSpeculative True),
     (''dflash_window_size'',
      expose (SInt 1 8192) ''DFlash window''
        ''DFlash lookahead window.''
        None GSpeculative True),
     (''tool_max_tokens'',
      expose (SInt 64 65536) ''Tool call budget''
        ''Token budget for a tool call.''
        (Some ''tokens'') GToolsChat True),
     (''tool_grammar'',
      expose (SEnum TRISTATES) ''Tool grammar''
        ''Grammar-constrained tool calls: auto leaves it to the model, on or off pins it.''
        None GToolsChat True),
     (''disable_thinking'',
      expose (SToggle) ''Disable thinking''
        ''Suppress reasoning output.''
        None GToolsChat False),
     (''max_thinking_budget'',
      expose (SInt 0 262144) ''Thinking budget''
        ''Cap on reasoning tokens.''
        (Some ''tokens'') GToolsChat True)]"

definition EXPOSED_CLAIMED :: "(string \<times> disposition) list" where
  "EXPOSED_CLAIMED = [
     (''lm_head_dtype'',
      expose (SEnum LM_HEAD_DTYPES) ''LM head precision''
        ''Precision of the output projection. Recipes pin this for correctness, not speed.''
        None GPerformance True),
     (''ssm_h_dtype'',
      expose (SEnum SSM_H_DTYPES) ''SSM state precision''
        ''Precision of the recurrent state carried between chunks.''
        None GPerformance True),
     (''gdn_fused_norm'',
      expose (SToggle) ''Fused GDN norm''
        ''Fuse the gated-delta-net normalisation into the preceding kernel.''
        None GPerformance True),
     (''ssm_batched_recurrent'',
      expose (SEnum TRISTATES) ''Batched recurrence''
        ''Run the recurrent tail batched across sequences rather than one at a time: auto, on or off.''
        None GPerformance True),
     (''no_ssm_tail_midchunk'',
      expose (SToggle) ''No mid-chunk tail''
        ''Capture the recurrent tail at a chunk boundary instead of inside the chunk.''
        None GPerformance True),
     (''prefill_varlen_batch'',
      expose (SToggle) ''Variable-length prefill''
        ''Batch prefills of differing lengths without padding them to match.''
        None GPerformance True),
     (''w4a4_downcast'',
      expose (SToggle) ''W4A4 downcast''
        ''Quantize activations to NVFP4 on the small-batch projections (up to 32 rows). A numerics change: check output quality per model.''
        None GPerformance True),
     (''w4a4_downcast_wide'',
      expose (SToggle) ''W4A4 downcast, wide''
        ''Extend the W4A4 downcast from 32 to 64 rows. Only has an effect with W4A4 downcast on.''
        None GPerformance True),
     (''mtp_gate'',
      expose (SEnum MTP_GATES) ''MTP gate''
        ''Whether multi-token prediction is used when available, or always.''
        None GSpeculative True),
     (''telemetry'',
      expose (SEnum TELEMETRY_LEVELS) ''Telemetry''
        ''off measures nothing; basic samples the GPU and records scheduler, cache and per-request metrics; kernel adds GPU timing spans, at a cost.''
        None GServer True),
     (''request_timeout'',
      expose (SInt 0 86400) ''Request timeout''
        ''How long a single request may run before it is cut. 0 disables the deadline.''
        (Some ''s'') GServer True)]"

definition EXPOSED_MEMORY :: "(string \<times> disposition) list" where
  "EXPOSED_MEMORY = EXPOSED_MEMORY_KV @ EXPOSED_SPECULATIVE @ EXPOSED_CLAIMED"

definition DENIED :: "(string \<times> disposition) list" where
  "DENIED = [
     (''host'', Deny ''the bind address is a network-exposure decision the agent owns, not a client''),
     (''served_model_name'', Deny ''an unbounded name with no operational value; the only free string in the table''),
     (''mtp_vocab'', Deny ''couples to the checkpoint's draft-head artifact; changing it changes what loads''),
     (''draft_model'', Deny ''loads a second set of weights of the sender's choosing''),
     (''tool_call_parser'', Deny ''model-coupled correctness pin; changing it away from the recipe can only break tool calls''),
     (''model_from_path'', Deny (''a filesystem path that changes which weights load '' @ [CHR 0xE2, CHR 0x80, CHR 0x94] @ '' the exact vector this project exists to close'')),
     (''cache_dir'', Deny ''a host path controlling where weights are read and written''),
     (''gpu_ordinal'', Deny ''host hardware selection, not a property of the deployment''),
     (''api_key'', Deny ''a credential must not travel from a page into a command line, where `docker inspect` can read it''),
     (''require_auth'', Deny ''letting a client turn authentication off is a downgrade attack''),
     (''high_speed_swap'', Deny ''unusable without a swap directory, which is a host path''),
     (''high_speed_swap_dir'', Deny ''a host path the engine writes to''),
     (''high_speed_swap_gb'', Deny ''part of the swap family, which is denied as a group''),
     (''high_speed_swap_resident_blocks'', Deny ''part of the swap family, which is denied as a group''),
     (''high_speed_swap_rank'', Deny ''part of the swap family, which is denied as a group''),
     (''high_speed_swap_qd'', Deny ''part of the swap family, which is denied as a group''),
     (''high_speed_swap_cache_blocks_per_seq'', Deny ''part of the swap family, which is denied as a group''),
     (''no_high_speed_swap_graph'', Deny ''part of the swap family, which is denied as a group''),
     (''video_allow_ffmpeg'', Deny ''spawns an external decoder process; a recipe may enable that, a client may not'')]"

definition dispositions :: "(string \<times> disposition) list" where
  "dispositions = EXPOSED @ EXPOSED_MEMORY @ DENIED"

definition disposition_of :: "string \<Rightarrow> disposition option" where
  "disposition_of key = map_option snd (find (\<lambda>e. fst e = key) dispositions)"

section \<open>The check\<close>

definition to_scalar :: "setting_value \<Rightarrow> scalar_value" where
  "to_scalar v =
     (case v of
        VBool b \<Rightarrow> SBool b
      | VInt i \<Rightarrow> SIntV i
      | VFloat f \<Rightarrow> SFloatV f
      | VStr s \<Rightarrow> SStr s)"

text \<open>One round of the loop in \<open>validate\<close>, on the accepted values and the errors so far.\<close>

definition validate_one ::
    "(string, scalar_value) btree \<times> setting_error list \<Rightarrow> string \<times> setting_value \<Rightarrow>
     (string, scalar_value) btree \<times> setting_error list" where
  "validate_one acc kv =
     (let (out, errors) = acc; (key, value) = kv in
      case disposition_of key of
        None \<Rightarrow> (out, errors @ [UnknownKey key])
      | Some (Deny reason) \<Rightarrow> (out, errors @ [Denied key reason])
      | Some (Expose spec) \<Rightarrow>
          (case bound_check (to_bound (sp_bound spec)) key value of
             Ok checked \<Rightarrow> (bt_insert key (to_scalar checked) out, errors)
           | Err e \<Rightarrow> (out, errors @ [e])))"

definition validate :: "settings \<Rightarrow> ((string, scalar_value) btree, setting_error list) result" where
  "validate requested =
     (let (out, errors) = foldl validate_one ([], []) requested in
      if errors = [] then Ok out else Err errors)"

definition check_override :: "string \<Rightarrow> scalar_value \<Rightarrow> (unit, setting_error) result" where
  "check_override key value =
     (case disposition_of key of
        Some (Expose spec) \<Rightarrow>
          (let sent =
             (case sp_bound spec of
                SEnum _ \<Rightarrow> VStr (scalar_render value)
              | SToggle \<Rightarrow> VBool (is_truthy value)
              | _ \<Rightarrow>
                  (case value of
                     SBool b \<Rightarrow> VBool b
                   | SIntV n \<Rightarrow> VInt n
                   | SFloatV f \<Rightarrow> VFloat f
                   | SStr s \<Rightarrow> VStr s))
           in result_bind (bound_check (to_bound (sp_bound spec)) key sent) (\<lambda>_. Ok ()))
      | _ \<Rightarrow> Ok ())"

record schema_entry =
  se_key :: string
  se_bound :: bound
  se_label :: string
  se_help :: string
  se_unit :: "string option"
  se_group :: setting_group
  se_advanced :: bool
  se_locked :: bool

definition schema :: "schema_entry list" where
  "schema =
     List.map_filter (\<lambda>(key, d).
       case d of
         Expose s \<Rightarrow>
           Some \<lparr>se_key = key, se_bound = to_bound (sp_bound s), se_label = sp_label s,
                 se_help = sp_help s, se_unit = sp_unit s, se_group = sp_group s,
                 se_advanced = sp_advanced s, se_locked = False\<rparr>
       | Deny _ \<Rightarrow> None) dispositions"

section \<open>The caution\<close>

definition GB10_UTIL_CAUTION :: f64 where
  "GB10_UTIL_CAUTION = F64 False 88 2"

definition is_gb10 :: "string \<Rightarrow> bool" where
  "is_gb10 accelerator =
     (case hw_classify accelerator of None \<Rightarrow> False | Some c \<Rightarrow> class_str c = GB10)"

text \<open>\<open>value <= GB10_UTIL_CAUTION\<close>, which is false of a NaN.\<close>

definition f64_le :: "f64 \<Rightarrow> f64 \<Rightarrow> bool" where
  "f64_le x y = (x \<noteq> F64NaN \<and> y \<noteq> F64NaN \<and> \<not> f64_lt y x)"

definition caution :: "string \<Rightarrow> f64 \<Rightarrow> string \<Rightarrow> string option" where
  "caution key value accelerator =
     (if key \<noteq> ''gpu_memory_utilization'' \<or> \<not> is_gb10 accelerator then None
      else if f64_le value GB10_UTIL_CAUTION then None
      else Some (''gpu_memory_utilization '' @ f64_to_string value @ '' is above ''
        @ f64_to_string GB10_UTIL_CAUTION @ '' on '' @ accelerator
        @ ''. 0.90 has frozen a machine of this kind hard enough to need a power cycle, and ''
        @ ''unified memory leaves no framebuffer to fall back on. The shipped recipes run at ''
        @ f64_to_string GB10_UTIL_CAUTION
        @ ''; raise it only if you can reach the box to reset it.''))"

section \<open>What passes\<close>

text \<open>The verdict on one key: the fault that is reported for it, or the value that is passed on.\<close>

definition setting_verdict :: "string \<times> setting_value \<Rightarrow> (scalar_value, setting_error) result" where
  "setting_verdict kv =
     (case disposition_of (fst kv) of
        None \<Rightarrow> Err (UnknownKey (fst kv))
      | Some (Deny reason) \<Rightarrow> Err (Denied (fst kv) reason)
      | Some (Expose spec) \<Rightarrow>
          (case bound_check (to_bound (sp_bound spec)) (fst kv) (snd kv) of
             Ok v \<Rightarrow> Ok (to_scalar v) | Err e \<Rightarrow> Err e))"

definition verdict_fault :: "string \<times> setting_value \<Rightarrow> setting_error option" where
  "verdict_fault kv = (case setting_verdict kv of Ok _ \<Rightarrow> None | Err e \<Rightarrow> Some e)"

definition verdict_value :: "string \<times> setting_value \<Rightarrow> (string \<times> scalar_value) option" where
  "verdict_value kv = (case setting_verdict kv of Ok v \<Rightarrow> Some (fst kv, v) | Err _ \<Rightarrow> None)"

lemma validate_one_verdict:
  "validate_one (out, es) kv =
     (case setting_verdict kv of
        Ok v \<Rightarrow> (bt_insert (fst kv) v out, es) | Err e \<Rightarrow> (out, es @ [e]))"
  by (cases kv) (auto simp: validate_one_def setting_verdict_def split: option.splits disposition.splits result.splits)

lemma validate_fold:
  "foldl validate_one (out, es) req =
     (bt_extend out (List.map_filter verdict_value req), es @ List.map_filter verdict_fault req)"
  by (induction req arbitrary: out es)
    (auto simp: validate_one_verdict verdict_value_def verdict_fault_def bt_extend_def
      List.map_filter_simps split: result.splits)

lemma validate_eq:
  "validate req =
     (if List.map_filter verdict_fault req = []
      then Ok (bt_of_list (List.map_filter verdict_value req))
      else Err (List.map_filter verdict_fault req))"
  by (simp add: validate_def validate_fold bt_extend_def bt_of_list_def)

lemma verdicts_all_Ok:
  "List.map_filter verdict_fault req = [] \<longleftrightarrow> (\<forall>kv\<in>set req. is_ok (setting_verdict kv))"
  by (induction req) (auto simp: List.map_filter_simps verdict_fault_def split: result.splits option.splits)

lemma verdict_value_Some: "verdict_value kv = Some (k, v) \<longleftrightarrow> k = fst kv \<and> setting_verdict kv = Ok v"
  by (auto simp: verdict_value_def split: result.splits)

lemma set_verdict_values:
  "(k, v) \<in> set (List.map_filter verdict_value req) \<longleftrightarrow>
     (\<exists>x. (k, x) \<in> set req \<and> setting_verdict (k, x) = Ok v)"
  unfolding set_map_filter verdict_value_Some by force

lemma setting_verdict_Ok:
  "setting_verdict (k, x) = Ok v \<longleftrightarrow>
     (\<exists>spec x'. disposition_of k = Some (Expose spec) \<and>
        bound_check (to_bound (sp_bound spec)) k x = Ok x' \<and> v = to_scalar x')"
  by (auto simp: setting_verdict_def split: option.splits disposition.splits result.splits)

lemma validate_Ok_iff:
  "validate req = Ok out \<longleftrightarrow>
     (\<forall>kv\<in>set req. is_ok (setting_verdict kv)) \<and>
     out = bt_of_list (List.map_filter verdict_value req)"
  by (auto simp: validate_eq verdicts_all_Ok)

lemma validate_Ok_entry:
  assumes "validate req = Ok out" and "bt_get out k = Some v"
  obtains x spec x' where "(k, x) \<in> set req" "disposition_of k = Some (Expose spec)"
    "bound_check (to_bound (sp_bound spec)) k x = Ok x'" "v = to_scalar x'"
  using assms bt_of_list_Some [of "List.map_filter verdict_value req" k v]
  by (auto simp: validate_Ok_iff set_verdict_values setting_verdict_Ok)

lemma fst_image_iff: "k \<in> fst ` A \<longleftrightarrow> (\<exists>v. (k, v) \<in> A)"
  by force

lemma validate_Ok_keys:
  assumes "validate req = Ok out"
  shows "bt_get out k \<noteq> None \<longleftrightarrow> k \<in> fst ` set req"
proof -
  have "k \<in> fst ` set (List.map_filter verdict_value req) \<longleftrightarrow> k \<in> fst ` set req"
    unfolding fst_image_iff set_verdict_values using assms unfolding validate_Ok_iff is_ok_iff by blast
  with assms show ?thesis by (auto simp: validate_Ok_iff bt_of_list_None)
qed

text \<open>Bounds whose values cannot be read as an option.\<close>

definition bound_plain :: "bound \<Rightarrow> bool" where
  "bound_plain b =
     (case b of
        BInt mn _ \<Rightarrow> 0 \<le> mn
      | BFloat mn _ \<Rightarrow> (case mn of F64 neg m _ \<Rightarrow> \<not> neg \<and> 0 < m | _ \<Rightarrow> False)
      | BEnum vs \<Rightarrow> list_all (\<lambda>v. \<not> prefix ''-'' v) vs
      | BIntOrAuto mn _ \<Rightarrow> 0 \<le> mn
      | _ \<Rightarrow> True)"

lemma exposed_plain:
  "list_all (\<lambda>(k, d). case d of Expose s \<Rightarrow> bound_plain (to_bound (sp_bound s)) | Deny _ \<Rightarrow> True)
     dispositions"
  by code_simp

lemma disposition_of_in: "disposition_of k = Some d \<Longrightarrow> (k, d) \<in> set dispositions"
  by (auto simp: disposition_of_def dest: find_Some_in)

lemma disposition_plain:
  "disposition_of k = Some (Expose s) \<Longrightarrow> bound_plain (to_bound (sp_bound s))"
  using exposed_plain by (fastforce simp: list_all_iff dest: disposition_of_in)

lemma show_nat_plain: "\<not> prefix ''-'' (show_nat n @ s)"
proof -
  obtain c cs where c: "show_nat n = c # cs" by (cases "show_nat n") auto
  then have "is_ascii_digit c" using show_nat_digits [of c n] by simp
  then have "c \<noteq> CHR ''-''" by (auto simp: is_ascii_digit_def byte_of_def)
  with c show ?thesis by simp
qed

lemmas show_nat_plain' = show_nat_plain [of _ "[]", simplified]

lemma dec_int_signs: "0 < m' \<Longrightarrow> dec_int True (m * a) < dec_int False (m' * 10 ^ k)"
proof -
  assume "0 < m'"
  then have "0 < m' * 10 ^ k" by simp
  then have "- int (m * a) < int (m' * 10 ^ k)" by linarith
  then show ?thesis unfolding dec_int_def by simp
qed

lemma admitted_render_plain:
  assumes "bound_admits b v" and "bound_plain b"
  shows "\<not> prefix ''-'' (scalar_render (to_scalar v))"
  using assms
  by (cases b; cases v)
    (auto simp: bound_admits_def bound_plain_def to_scalar_def scalar_render_def show_int_def
      show_bool_def show_nat_plain show_nat_plain' list_all_iff f64_is_finite_def dec_int_signs
      split: f64.splits)

section \<open>Claims\<close>

text \<open>
  C5. The remote surface is closed: when \<open>validate\<close> accepts a request, the accepted keys are exactly
  the requested ones, and each is exposed and carries the checked form of a requested value that
  its bound admits. In particular no denied and no unknown key gets through.
\<close>

theorem validate_closed:
  assumes "validate req = Ok out"
  shows "(\<forall>k. bt_get out k \<noteq> None \<longleftrightarrow> k \<in> fst ` set req) \<and>
    (\<forall>k v. bt_get out k = Some v \<longrightarrow>
       (\<exists>spec v'. disposition_of k = Some (Expose spec) \<and> bound_admits (to_bound (sp_bound spec)) v' \<and>
          v = to_scalar v'))"
  using validate_Ok_keys [OF assms] validate_Ok_entry [OF assms] bound_check_admits by metis

text \<open>
  Every fault at once: a request is refused exactly when some key has a fault, and the refusal
  is the list of all faults, one for each offending key, in key order.
\<close>

lemma validate_reports_every_fault:
  "validate req =
     (let faults = List.map_filter verdict_fault req in
      if faults = [] then Ok (bt_of_list (List.map_filter verdict_value req)) else Err faults)"
  by (simp add: validate_eq)

text \<open>
  No accepted value is shaped like an option: whatever a client sends, no value that passes
  \<open>validate\<close> renders to text that begins with a dash. This is a fact about the rows of the tables.
\<close>

lemma validated_not_flag_shaped:
  assumes "validate req = Ok out" and "bt_get out k = Some v"
  shows "\<not> prefix ''-'' (scalar_render v)"
  using assms
proof (rule validate_Ok_entry)
  fix x spec x'
  assume "disposition_of k = Some (Expose spec)" "bound_check (to_bound (sp_bound spec)) k x = Ok x'"
    "v = to_scalar x'"
  then show ?thesis
    using disposition_plain bound_check_admits admitted_render_plain by metis
qed

text \<open>
  A local override is only ever refused for its range: \<open>check_override\<close> refuses no denied and no
  unknown key, and refuses an exposed one exactly when the value, read the way the command
  renders it, is outside the bound.
\<close>

lemma check_override_only_range:
  "check_override key value =
     (case disposition_of key of
        Some (Expose spec) \<Rightarrow>
          (case sp_bound spec of
             SEnum vs \<Rightarrow>
               if scalar_render value \<in> set vs then Ok () else Err (NotAVariant key vs)
           | SToggle \<Rightarrow> Ok ()
           | SInt mn mx \<Rightarrow>
               (case value of
                  SIntV n \<Rightarrow>
                    if mn \<le> n \<and> n \<le> mx then Ok ()
                    else Err (OutOfRange key (show_int mn) (show_int mx))
                | _ \<Rightarrow> Err (WrongType key ''a whole number''))
           | b \<Rightarrow>
               (case bound_check (to_bound b) key
                       (case value of SBool x \<Rightarrow> VBool x | SIntV n \<Rightarrow> VInt n
                        | SFloatV f \<Rightarrow> VFloat f | SStr s \<Rightarrow> VStr s) of
                  Ok _ \<Rightarrow> Ok () | Err e \<Rightarrow> Err e))
      | _ \<Rightarrow> Ok ())"
  by (auto simp: check_override_def to_bound_def bound_check_def find_None_all not_less
      dest: find_Some_in
      split: option.splits disposition.splits bound_spec.splits scalar_value.splits result.splits)

section \<open>An example\<close>

definition ex_settings :: settings where
  "ex_settings = [(''gpu_memory_utilization'', VFloat (F64 False 85 2)), (''port'', VInt 443)]"

lemma ex_validate:
  "validate ex_settings =
     Ok [(''gpu_memory_utilization'', SFloatV (F64 False 85 2)), (''port'', SIntV 443)]"
  by code_simp

theorem validate_closed_witness:
  "\<exists>spec. disposition_of ''port'' = Some (Expose spec) \<and>
     (\<exists>v'. bound_admits (to_bound (sp_bound spec)) v' \<and> SIntV 443 = to_scalar v')"
proof -
  have "bt_get [(''gpu_memory_utilization'', SFloatV (F64 False 85 2)), (''port'', SIntV 443)] ''port''
      = Some (SIntV 443)" by (simp add: bt_get_def)
  with validate_closed [OF ex_validate] show ?thesis by blast
qed

end
