(* ===== verification/Flags.thy ===== *)
theory Flags
  imports Settings
begin

text \<open>
  From settings to serve flags: the table of \<open>metralectl-core/src/flags/table.rs\<close> (row by row, cut
  in three), its lookup, the alias check and the renderer of \<open>flags/mod.rs\<close>, and the configuration
  chain of \<open>chain.rs\<close>.

  The theorems: the settings tables and the flag table name the same keys, and a key is a toggle
  in one exactly when it is in the other; the chain resolves each key from the strongest layer that
  sets it; the renderer emits no flag twice once the alias check passed, and every resolved key is
  either emitted or reported.
\<close>

section \<open>The table\<close>

datatype flag_kind = FlagValue | BoolToggle

record flag_spec =
  fs_key :: string
  fs_flag :: string
  fs_kind :: flag_kind

definition flag :: "string \<Rightarrow> string \<Rightarrow> flag_kind \<Rightarrow> flag_spec" where
  "flag k f kd = \<lparr>fs_key = k, fs_flag = f, fs_kind = kd\<rparr>"

definition DEFAULT_SERVE_PORT :: string where
  "DEFAULT_SERVE_PORT = ''8888''"

definition METRALE_FLAGS_SERVER :: "flag_spec list" where
  "METRALE_FLAGS_SERVER = [
     flag ''port'' ''--port'' FlagValue,
     flag ''host'' ''--host'' FlagValue,
     flag ''tensor_parallel'' ''--tp-size'' FlagValue,
     flag ''gpu_memory_utilization'' ''--gpu-memory-utilization'' FlagValue,
     flag ''max_model_len'' ''--max-seq-len'' FlagValue,
     flag ''max_num_seqs'' ''--max-num-seqs'' FlagValue,
     flag ''max_num_batched_tokens'' ''--max-prefill-tokens'' FlagValue,
     flag ''served_model_name'' ''--model-name'' FlagValue,
     flag ''kv_cache_dtype'' ''--kv-cache-dtype'' FlagValue,
     flag ''ep_size'' ''--ep-size'' FlagValue,
     flag ''max_batch_size'' ''--max-batch-size'' FlagValue,
     flag ''block_size'' ''--block-size'' FlagValue,
     flag ''kv_high_precision_layers'' ''--kv-high-precision-layers'' FlagValue,
     flag ''tool_call_parser'' ''--tool-call-parser'' FlagValue,
     flag ''tool_max_tokens'' ''--tool-max-tokens'' FlagValue,
     flag ''tool_grammar'' ''--tool-grammar'' FlagValue,
     flag ''fp8_kv_calibration_tokens'' ''--fp8-kv-calibration-tokens'' FlagValue,
     flag ''scheduler'' ''--scheduler'' FlagValue,
     flag ''tbt_deadline_ms'' ''--tbt-deadline-ms'' FlagValue,
     flag ''max_prefill_tokens'' ''--max-prefill-tokens'' FlagValue,
     flag ''oom_guard_mb'' ''--oom-guard-mb'' FlagValue,
     flag ''ssm_cache_slots'' ''--ssm-cache-slots'' FlagValue,
     flag ''ssm_checkpoint_interval'' ''--ssm-checkpoint-interval'' FlagValue,
     flag ''mtp_quantization'' ''--mtp-quantization'' FlagValue]"

definition METRALE_FLAGS_MODEL :: "flag_spec list" where
  "METRALE_FLAGS_MODEL = [
     flag ''mtp_vocab'' ''--mtp-vocab'' FlagValue,
     flag ''num_drafts'' ''--num-drafts'' FlagValue,
     flag ''draft_model'' ''--draft-model'' FlagValue,
     flag ''dflash_gamma'' ''--dflash-gamma'' FlagValue,
     flag ''dflash_window_size'' ''--dflash-window-size'' FlagValue,
     flag ''max_thinking_budget'' ''--max-thinking-budget'' FlagValue,
     flag ''model_from_path'' ''--model-from-path'' FlagValue,
     flag ''cache_dir'' ''--cache-dir'' FlagValue,
     flag ''gpu_ordinal'' ''--gpu-ordinal'' FlagValue,
     flag ''high_speed_swap_dir'' ''--high-speed-swap-dir'' FlagValue,
     flag ''high_speed_swap_gb'' ''--high-speed-swap-gb'' FlagValue,
     flag ''high_speed_swap_resident_blocks'' ''--high-speed-swap-resident-blocks'' FlagValue,
     flag ''high_speed_swap_rank'' ''--high-speed-swap-rank'' FlagValue,
     flag ''high_speed_swap_qd'' ''--high-speed-swap-qd'' FlagValue,
     flag ''high_speed_swap_cache_blocks_per_seq'' ''--high-speed-swap-cache-blocks-per-seq'' FlagValue,
     flag ''enable_prefix_caching'' ''--enable-prefix-caching'' BoolToggle,
     flag ''speculative'' ''--speculative'' BoolToggle,
     flag ''self_speculative'' ''--self-speculative'' BoolToggle,
     flag ''ngram_speculative'' ''--ngram-speculative'' BoolToggle,
     flag ''dflash'' ''--dflash'' BoolToggle,
     flag ''disable_thinking'' ''--disable-thinking'' BoolToggle,
     flag ''high_speed_swap'' ''--high-speed-swap'' BoolToggle,
     flag ''require_auth'' ''--require-auth'' BoolToggle,
     flag ''api_key'' ''--auth-token'' FlagValue]"

definition METRALE_FLAGS_LATER :: "flag_spec list" where
  "METRALE_FLAGS_LATER = [
     flag ''lm_head_dtype'' ''--lm-head-dtype'' FlagValue,
     flag ''ssm_h_dtype'' ''--ssm-h-dtype'' FlagValue,
     flag ''gdn_fused_norm'' ''--gdn-fused-norm'' BoolToggle,
     flag ''ssm_batched_recurrent'' ''--ssm-batched-recurrent'' FlagValue,
     flag ''no_ssm_tail_midchunk'' ''--no-ssm-tail-midchunk'' BoolToggle,
     flag ''mtp_gate'' ''--mtp-gate'' FlagValue,
     flag ''prefill_varlen_batch'' ''--prefill-varlen-batch'' BoolToggle,
     flag ''request_timeout'' ''--request-timeout'' FlagValue,
     flag ''video_allow_ffmpeg'' ''--video-allow-ffmpeg'' BoolToggle,
     flag ''scheduler_config'' ''--scheduler-config'' FlagValue,
     flag ''telemetry'' ''--telemetry'' FlagValue,
     flag ''w4a4_downcast'' ''--w4a4-downcast'' BoolToggle,
     flag ''w4a4_downcast_wide'' ''--w4a4-downcast-wide'' BoolToggle,
     flag ''no_high_speed_swap_graph'' ''--no-high-speed-swap-graph'' BoolToggle]"

definition METRALE_FLAGS :: "flag_spec list" where
  "METRALE_FLAGS = METRALE_FLAGS_SERVER @ METRALE_FLAGS_MODEL @ METRALE_FLAGS_LATER"

definition flag_lookup :: "string \<Rightarrow> flag_spec option" where
  "flag_lookup key = find (\<lambda>s. fs_key s = key) METRALE_FLAGS"

definition key_for_flag_spelling :: "string \<Rightarrow> string option" where
  "key_for_flag_spelling typed =
     (case find (\<lambda>s. map (\<lambda>c. if c = CHR ''-'' then CHR ''_'' else c)
                       (dropWhile (\<lambda>c. c = CHR ''-'') (fs_flag s)) = typed) METRALE_FLAGS of
        None \<Rightarrow> None
      | Some s \<Rightarrow> if flag_lookup typed = None then Some (fs_key s) else None)"

section \<open>The chain\<close>

type_synonym config = "(string, scalar_value) btree"

definition config_normalize :: "config \<Rightarrow> config" where
  "config_normalize cfg =
     (case bt_get cfg ''auth_token'' of
        None \<Rightarrow> cfg
      | Some alias \<Rightarrow>
          (let cfg = bt_remove ''auth_token'' cfg in
           if bt_get cfg ''api_key'' = None then bt_insert ''api_key'' alias cfg else cfg))"

definition config_resolve :: "config \<Rightarrow> config \<Rightarrow> config \<Rightarrow> config" where
  "config_resolve recipe_defaults user overrides =
     config_normalize (bt_extend (bt_extend recipe_defaults user) overrides)"

section \<open>Rendering\<close>

record alias_conflict =
  ac_first :: string
  ac_second :: string
  ac_flag :: string

text \<open>The loop of \<open>validate_no_alias_conflict\<close>, with the flags seen so far and their keys.\<close>

fun alias_scan ::
    "config \<Rightarrow> (string, string) btree \<Rightarrow> flag_spec list \<Rightarrow> (unit, alias_conflict) result" where
  "alias_scan resolved seen [] = Ok ()"
| "alias_scan resolved seen (spec # specs) =
     (if bt_get resolved (fs_key spec) = None then alias_scan resolved seen specs
      else case bt_get seen (fs_flag spec) of
        Some prev \<Rightarrow> Err \<lparr>ac_first = prev, ac_second = fs_key spec, ac_flag = fs_flag spec\<rparr>
      | None \<Rightarrow> alias_scan resolved (bt_insert (fs_flag spec) (fs_key spec) seen) specs)"

definition validate_no_alias_conflict :: "config \<Rightarrow> (unit, alias_conflict) result" where
  "validate_no_alias_conflict resolved = alias_scan resolved [] METRALE_FLAGS"

record unmapped_key =
  um_key :: string
  um_rendered :: string

definition flag_emit :: "flag_spec \<Rightarrow> scalar_value \<Rightarrow> string list" where
  "flag_emit spec value =
     (case fs_kind spec of
        BoolToggle \<Rightarrow> if is_truthy value then [fs_flag spec] else []
      | FlagValue \<Rightarrow> [fs_flag spec, scalar_render value])"

text \<open>The loop of \<open>render\<close>: the argv and the claimed keys so far.\<close>

fun render_loop ::
    "config \<Rightarrow> string list \<Rightarrow> flag_spec list \<Rightarrow> string list \<times> string list \<Rightarrow> string list \<times> string list"
  where
  "render_loop resolved skip [] acc = acc"
| "render_loop resolved skip (spec # specs) (argv, claimed) =
     (if fs_key spec \<in> set skip
      then render_loop resolved skip specs (argv, claimed @ [fs_key spec])
      else case bt_get resolved (fs_key spec) of
        None \<Rightarrow> render_loop resolved skip specs (argv, claimed)
      | Some value \<Rightarrow>
          render_loop resolved skip specs (argv @ flag_emit spec value, claimed @ [fs_key spec]))"

definition flags_render :: "config \<Rightarrow> string list \<Rightarrow> string list \<times> unmapped_key list" where
  "flags_render resolved skip =
     (let (argv, claimed) = render_loop resolved skip METRALE_FLAGS ([], []) in
      (argv,
       map (\<lambda>(k, v). \<lparr>um_key = k, um_rendered = scalar_render v\<rparr>)
         (filter (\<lambda>(k, v). k \<notin> set claimed) resolved)))"

section \<open>What is rendered\<close>

text \<open>The rows of the table that a config sets and the caller does not supply.\<close>

definition rendered_specs :: "config \<Rightarrow> string list \<Rightarrow> flag_spec list" where
  "rendered_specs resolved skip =
     filter (\<lambda>s. fs_key s \<notin> set skip \<and> bt_get resolved (fs_key s) \<noteq> None) METRALE_FLAGS"

lemma render_loop_eq:
  "render_loop resolved skip specs (argv, claimed) =
     (argv @ concat (map (\<lambda>s. flag_emit s (the (bt_get resolved (fs_key s))))
        (filter (\<lambda>s. fs_key s \<notin> set skip \<and> bt_get resolved (fs_key s) \<noteq> None) specs)),
      claimed @ map fs_key (filter (\<lambda>s. fs_key s \<in> set skip \<or> bt_get resolved (fs_key s) \<noteq> None) specs))"
  by (induction specs arbitrary: argv claimed) (auto split: option.splits)

lemma alias_scan_distinct:
  assumes "alias_scan resolved seen specs = Ok ()"
  shows "distinct (map fs_flag (filter (\<lambda>s. bt_get resolved (fs_key s) \<noteq> None) specs)) \<and>
    (\<forall>s\<in>set specs. bt_get resolved (fs_key s) \<noteq> None \<longrightarrow> bt_get seen (fs_flag s) = None)"
  using assms
proof (induction resolved seen specs rule: alias_scan.induct)
  case (1 resolved seen)
  then show ?case by simp
next
  case (2 resolved seen spec specs)
  show ?case
  proof (cases "bt_get resolved (fs_key spec) = None")
    case True
    with 2 show ?thesis by auto
  next
    case False
    with 2(3) have seen: "bt_get seen (fs_flag spec) = None"
      and rest: "alias_scan resolved (bt_insert (fs_flag spec) (fs_key spec) seen) specs = Ok ()"
      by (auto split: option.splits)
    note ih = 2(2) [OF False seen rest]
    have other: "fs_flag s \<noteq> fs_flag spec" "bt_get seen (fs_flag s) = None"
      if "s \<in> set specs" "bt_get resolved (fs_key s) \<noteq> None" for s
      using ih that by (auto split: if_splits)
    then have "fs_flag spec \<notin> fs_flag ` {s \<in> set specs. bt_get resolved (fs_key s) \<noteq> None}"
      by fastforce
    with ih False have
      "distinct (map fs_flag (filter (\<lambda>s. bt_get resolved (fs_key s) \<noteq> None) (spec # specs)))"
      by simp
    with other seen show ?thesis by auto
  qed
qed

lemma distinct_filter_filter: "distinct (map f (filter P xs)) \<Longrightarrow> distinct (map f (filter (\<lambda>x. Q x \<and> P x) xs))"
proof -
  assume "distinct (map f (filter P xs))"
  then have "distinct (map f (filter Q (filter P xs)))" by (rule distinct_map_filter)
  then show ?thesis by (simp add: conj_commute)
qed

lemma disposition_keys_distinct: "distinct (map fst dispositions)"
  by code_simp

lemma flag_keys_distinct: "distinct (map fs_key METRALE_FLAGS)"
  by code_simp

lemma dispositions_are_flags: "list_all (\<lambda>k. k \<in> set (map fs_key METRALE_FLAGS)) (map fst dispositions)"
  by code_simp

lemma flags_are_dispositions: "list_all (\<lambda>k. k \<in> set (map fst dispositions)) (map fs_key METRALE_FLAGS)"
  by code_simp

definition toggle_keys :: "string list" where
  "toggle_keys = map fs_key (filter (\<lambda>s. fs_kind s = BoolToggle) METRALE_FLAGS)"

lemma toggles_agree:
  "list_all (\<lambda>(k, d). case d of
       Expose sp \<Rightarrow> (sp_bound sp = SToggle) = (k \<in> set toggle_keys) | Deny _ \<Rightarrow> True) dispositions"
  by code_simp

text \<open>
  One decision per flag: the settings tables and the flag table name exactly the same keys, none
  twice, and an exposed key is a toggle on the form exactly when its flag is a bare toggle.
\<close>

lemma dispositions_match_flags:
  "distinct (map fst dispositions) \<and> distinct (map fs_key METRALE_FLAGS) \<and>
   set (map fst dispositions) = set (map fs_key METRALE_FLAGS) \<and>
   list_all (\<lambda>(k, d). case d of
       Expose sp \<Rightarrow> (sp_bound sp = SToggle) = (k \<in> set toggle_keys) | Deny _ \<Rightarrow> True) dispositions"
  using disposition_keys_distinct flag_keys_distinct dispositions_are_flags flags_are_dispositions
    toggles_agree
  unfolding list_all_iff by blast

lemma bt_get_extend:
  assumes "bt_ok kvs"
  shows "bt_get (bt_extend m kvs) k = (case bt_get kvs k of Some v \<Rightarrow> Some v | None \<Rightarrow> bt_get m k)"
proof (cases "bt_get kvs k")
  case None
  then have "k \<notin> fst ` set kvs" by (simp add: bt_get_None)
  with None show ?thesis by (simp add: bt_extend_def bt.get_extend_notin)
next
  case (Some v)
  then have "k \<in> fst ` set kvs" by (force dest: bt_get_in)
  from bt.get_extend_in [OF this, of m] obtain v' where
    "(k, v') \<in> set kvs" "bt_get (bt_extend m kvs) k = Some v'" by (auto simp: bt_extend_def)
  with Some assms show ?thesis by (simp add: bt_get_iff [symmetric])
qed

lemma bt_get_normalize:
  "bt_get (config_normalize cfg) k =
     (if k = ''auth_token'' then None
      else if k = ''api_key''
      then (case bt_get cfg ''api_key'' of Some v \<Rightarrow> Some v | None \<Rightarrow> bt_get cfg ''auth_token'')
      else bt_get cfg k)"
  by (simp add: config_normalize_def Let_def split: option.splits)

text \<open>
  Layers: for every key but the two spellings of the token, the resolved value is the
  override's if there is one, else the user's, else the recipe's; \<open>auth_token\<close> never survives, and
  \<open>api_key\<close> is its own resolved value if any layer sets it and the alias's otherwise, whichever
  layer the two come from.
\<close>

lemma config_resolve_layers:
  assumes "bt_ok user" and "bt_ok overrides"
    and "layered = (\<lambda>k. case bt_get overrides k of Some v \<Rightarrow> Some v
      | None \<Rightarrow> (case bt_get user k of Some v \<Rightarrow> Some v | None \<Rightarrow> bt_get defaults k))"
  shows "bt_get (config_resolve defaults user overrides) k =
    (if k = ''auth_token'' then None
     else if k = ''api_key''
     then (case layered ''api_key'' of Some v \<Rightarrow> Some v | None \<Rightarrow> layered ''auth_token'')
     else layered k)"
  unfolding config_resolve_def bt_get_normalize bt_get_extend [OF assms(2)] bt_get_extend [OF assms(1)]
    assms(3) by simp

text \<open>
  No flag twice, nothing dropped in silence: once the alias check has passed, the rendered argv
  is the concatenation of what each row of the table emits, in table order, for rows whose flags are
  pairwise different; and the reported keys are exactly the entries that no row
  of the table claims.
\<close>

lemma flags_render_faithful:
  assumes "validate_no_alias_conflict resolved = Ok ()"
  shows "distinct (map fs_flag (rendered_specs resolved skip)) \<and>
    fst (flags_render resolved skip) =
      concat (map (\<lambda>s. flag_emit s (the (bt_get resolved (fs_key s)))) (rendered_specs resolved skip)) \<and>
    map um_key (snd (flags_render resolved skip)) =
      filter (\<lambda>k. k \<notin> set (map fs_key METRALE_FLAGS)) (map fst resolved)"
proof -
  let ?cl = "map fs_key (filter (\<lambda>s. fs_key s \<in> set skip \<or> bt_get resolved (fs_key s) \<noteq> None) METRALE_FLAGS)"
  have "distinct (map fs_flag (filter (\<lambda>s. bt_get resolved (fs_key s) \<noteq> None) METRALE_FLAGS))"
    using alias_scan_distinct assms unfolding validate_no_alias_conflict_def by blast
  then have "distinct (map fs_flag (rendered_specs resolved skip))"
    unfolding rendered_specs_def by (rule distinct_filter_filter)
  moreover have "filter (\<lambda>kv. fst kv \<notin> set ?cl) resolved =
      filter (\<lambda>kv. fst kv \<notin> set (map fs_key METRALE_FLAGS)) resolved"
    by (rule filter_cong) (force simp: bt_get_None)+
  ultimately show ?thesis
    by (simp add: flags_render_def render_loop_eq rendered_specs_def filter_map comp_def
        case_prod_unfold)
qed

section \<open>Examples\<close>

definition ex_config :: config where
  "ex_config = [(''port'', SIntV 80), (''zzz'', SBool True)]"

end
