(* ===== verification/Docker_Command.thy ===== *)
theory Docker_Command
  imports Recipes
begin

text \<open>
  The structured \<open>docker run\<close> and its three renderings (\<open>metralectl-core/src/docker/command.rs\<close>), and
  the shell quoting of the displayed ones (\<open>docker/quote.rs\<close>). A reference reader of the part of the
  POSIX shell language that splits a line into words, \<open>sh_words\<close>, says what a pasted line means; it
  answers \<open>None\<close> wherever a shell would expand or interpret something.

  The theorems: a displayed line read by a shell is exactly the argv that is executed, and in the
  portable line only what the renderer itself wrote is left to the shell.
\<close>

section \<open>Quoting\<close>

abbreviation sq :: char where "sq \<equiv> CHR 0x27"
abbreviation dq :: char where "dq \<equiv> CHR 0x22"

definition sh_safe :: "char \<Rightarrow> bool" where
  "sh_safe c = (is_ascii_alphanumeric c \<or> c \<in> set ''_-./:=,@+'')"

text \<open>\<open>arg.replace\<close> of a single quote by close, quoted quote, reopen.\<close>

definition sq_escape :: "string \<Rightarrow> string" where
  "sq_escape s = concat (map (\<lambda>c. if c = sq then [sq, dq, sq, dq, sq] else [c]) s)"

definition shell_quote :: "string \<Rightarrow> string" where
  "shell_quote arg =
     (if arg = [] then [sq, sq]
      else if list_all sh_safe arg then arg
      else [sq] @ sq_escape arg @ [sq])"

definition shell_join :: "string list \<Rightarrow> string" where
  "shell_join args = str_join '' '' (map shell_quote args)"

section \<open>The command\<close>

record user_spec =
  us_uid :: "32 word"
  us_gid :: "32 word"

record docker_command =
  dc_detach :: bool
  dc_entrypoint :: "string option"
  dc_privileged :: bool
  dc_device_flags :: "string list"
  dc_ipc :: string
  dc_shm_size :: string
  dc_network :: string
  dc_user :: "user_spec option"
  dc_security_opts :: "string list"
  dc_cap_add :: "string list"
  dc_ulimits :: "string list"
  dc_devices :: "string list"
  dc_memory :: "string option"
  dc_labels :: "(string \<times> string) list"
  dc_auto_remove :: bool
  dc_restart :: "string option"
  dc_name :: string
  dc_env :: "(string, string) btree"
  dc_volumes :: "(string, string) btree"
  dc_image :: string
  dc_command :: "string list"

record arg =
  ar_text :: string
  ar_symbolic :: bool

definition plain_arg :: "string \<Rightarrow> arg" where
  "plain_arg t = \<lparr>ar_text = t, ar_symbolic = False\<rparr>"

definition symbolic_arg :: "string \<Rightarrow> arg" where
  "symbolic_arg t = \<lparr>ar_text = t, ar_symbolic = True\<rparr>"

datatype user_render = Resolved | Portable

definition opt_list :: "'a option \<Rightarrow> ('a \<Rightarrow> 'b list) \<Rightarrow> 'b list" where
  "opt_list x f = (case x of None \<Rightarrow> [] | Some a \<Rightarrow> f a)"

definition each :: "'a list \<Rightarrow> ('a \<Rightarrow> 'b list) \<Rightarrow> 'b list" where
  "each xs f = concat (map f xs)"

text \<open>One mount of the loop over \<open>self.volumes\<close>.\<close>

definition render_volume :: "user_render \<Rightarrow> string option \<Rightarrow> string \<Rightarrow> string \<times> string \<Rightarrow> arg" where
  "render_volume ur home placeholder v =
     (case (ur, home) of
        (Portable, Some h) \<Rightarrow>
          if h \<noteq> [] \<and> prefix h (fst v)
          then symbolic_arg (placeholder @ drop (length h) (fst v) @ '':'' @ snd v)
          else plain_arg (fst v @ '':'' @ snd v)
      | _ \<Rightarrow> plain_arg (fst v @ '':'' @ snd v))"

definition dc_render :: "docker_command \<Rightarrow> user_render \<Rightarrow> string option \<Rightarrow> string \<Rightarrow> arg list" where
  "dc_render c ur home placeholder =
     map plain_arg [''docker'', ''run''] @
     (if dc_detach c then [plain_arg ''-d''] else []) @
     opt_list (dc_entrypoint c) (\<lambda>ep. map plain_arg [''--entrypoint'', ep]) @
     (if dc_privileged c then [plain_arg ''--privileged''] else []) @
     map plain_arg (dc_device_flags c) @
     map plain_arg [''--ipc='' @ dc_ipc c, ''--shm-size='' @ dc_shm_size c,
                    ''--network='' @ dc_network c] @
     opt_list (dc_user c) (\<lambda>u.
       [plain_arg ''--user'',
        case ur of
          Resolved \<Rightarrow> plain_arg (show_nat (unat (us_uid u)) @ '':'' @ show_nat (unat (us_gid u)))
        | Portable \<Rightarrow> symbolic_arg ''$(id -u):$(id -g)''] @
       map plain_arg [''-v'', ''/etc/passwd:/etc/passwd:ro'', ''-v'', ''/etc/group:/etc/group:ro'']) @
     each (dc_security_opts c) (\<lambda>o'. map plain_arg [''--security-opt'', o']) @
     each (dc_cap_add c) (\<lambda>x. [plain_arg (''--cap-add='' @ x)]) @
     each (dc_ulimits c) (\<lambda>u. map plain_arg [''--ulimit'', u]) @
     each (dc_devices c) (\<lambda>d. map plain_arg [''--device'', d]) @
     opt_list (dc_memory c) (\<lambda>m. [plain_arg (''--memory='' @ m)]) @
     each (dc_labels c) (\<lambda>(k, v). map plain_arg [''--label'', k @ ''='' @ v]) @
     (if dc_auto_remove c then [plain_arg ''--rm''] else []) @
     opt_list (dc_restart c) (\<lambda>r. map plain_arg [''--restart'', r]) @
     map plain_arg [''--name'', dc_name c] @
     each (dc_env c) (\<lambda>(k, v). map plain_arg [''-e'', k @ ''='' @ v]) @
     each (dc_volumes c) (\<lambda>v. [plain_arg ''-v'', render_volume ur home placeholder v]) @
     [plain_arg (dc_image c)] @
     map plain_arg (dc_command c)"

definition to_argv :: "docker_command \<Rightarrow> string list" where
  "to_argv c = map ar_text (dc_render c Resolved None [])"

definition display_portable :: "docker_command \<Rightarrow> string option \<Rightarrow> string \<Rightarrow> string" where
  "display_portable c home placeholder =
     str_join '' ''
       (map (\<lambda>a. if ar_symbolic a then ar_text a else shell_quote (ar_text a))
         (dc_render c Portable home placeholder))"

definition docker_command_to_string :: "docker_command \<Rightarrow> string" where
  "docker_command_to_string c = shell_join (to_argv c)"

section \<open>How a shell reads a line\<close>

text \<open>
  Reading one line: between words, inside a word, inside single quotes, inside double quotes, with
  the word so far. Only characters that mean themselves are accepted outside quotes; inside double
  quotes the characters that start an expansion are not.
\<close>

datatype sh_mode = Between | Bare_word string | In_single string | In_double string

fun sh_scan :: "sh_mode \<Rightarrow> string \<Rightarrow> string list option" where
  "sh_scan Between [] = Some []"
| "sh_scan (Bare_word w) [] = Some [w]"
| "sh_scan (In_single w) [] = None"
| "sh_scan (In_double w) [] = None"
| "sh_scan Between (c # cs) =
     (if c = CHR '' '' then sh_scan Between cs
      else if c = sq then sh_scan (In_single []) cs
      else if c = dq then sh_scan (In_double []) cs
      else if sh_safe c then sh_scan (Bare_word [c]) cs
      else None)"
| "sh_scan (Bare_word w) (c # cs) =
     (if c = CHR '' '' then map_option (Cons w) (sh_scan Between cs)
      else if c = sq then sh_scan (In_single w) cs
      else if c = dq then sh_scan (In_double w) cs
      else if sh_safe c then sh_scan (Bare_word (w @ [c])) cs
      else None)"
| "sh_scan (In_single w) (c # cs) =
     (if c = sq then sh_scan (Bare_word w) cs else sh_scan (In_single (w @ [c])) cs)"
| "sh_scan (In_double w) (c # cs) =
     (if c = dq then sh_scan (Bare_word w) cs
      else if c \<in> set ''$`'' \<or> c = CHR 0x5C then None
      else sh_scan (In_double (w @ [c])) cs)"

definition sh_words :: "string \<Rightarrow> string list option" where
  "sh_words line = sh_scan Between line"

lemma sh_safe_plain: "sh_safe c \<Longrightarrow> c \<noteq> CHR '' '' \<and> c \<noteq> sq \<and> c \<noteq> dq"
  by (auto simp: sh_safe_def is_ascii_alphanumeric_def is_ascii_digit_def is_ascii_lowercase_def
      is_ascii_uppercase_def byte_of_def)

lemma scan_safe: "list_all sh_safe s \<Longrightarrow> sh_scan (Bare_word w) (s @ t) = sh_scan (Bare_word (w @ s)) t"
  by (induction s arbitrary: w) (auto dest: sh_safe_plain)

lemma scan_single:
  "sh_scan (In_single w) (sq_escape s @ sq # t) = sh_scan (Bare_word (w @ s)) t"
proof (induction s arbitrary: w)
  case Nil
  then show ?case by (simp add: sq_escape_def)
next
  case (Cons c s)
  have e: "sq_escape (c # s) = (if c = sq then [sq, dq, sq, dq, sq] else [c]) @ sq_escape s"
    by (simp add: sq_escape_def)
  show ?case unfolding e using Cons [of "w @ [c]"] by (cases "c = sq") simp_all
qed

lemma scan_quoted: "sh_scan Between (shell_quote a @ t) = sh_scan (Bare_word a) t"
proof (cases "a = []")
  case True
  then show ?thesis by (simp add: shell_quote_def)
next
  case False
  show ?thesis
  proof (cases "list_all sh_safe a")
    case True
    with False obtain c cs where a: "a = c # cs" "sh_safe c" "list_all sh_safe cs" by (cases a) auto
    with sh_safe_plain [of c] scan_safe [of cs "[c]" t] show ?thesis by (simp add: shell_quote_def)
  next
    case unsafe: False
    with False show ?thesis using scan_single [of "[]" a t] by (simp add: shell_quote_def)
  qed
qed

lemma scan_join:
  "sh_scan Between (str_join '' '' (map shell_quote args)) = Some args"
proof (induction args rule: induct_list012)
  case 1
  then show ?case by simp
next
  case (2 a)
  then show ?case using scan_quoted [of a "[]"] by simp
next
  case (3 a b args)
  then show ?case using scan_quoted [of a] by simp
qed


section \<open>What a shell is left to expand\<close>

lemma plain_not_symbolic [simp]: "\<not> ar_symbolic (plain_arg t)" "ar_text (plain_arg t) = t"
  by (simp_all add: plain_arg_def)

lemma symbolic_simps [simp]: "ar_symbolic (symbolic_arg t)" "ar_text (symbolic_arg t) = t"
  by (simp_all add: symbolic_arg_def)

lemma render_volume_symbolic:
  "ar_symbolic (render_volume ur home ph v) \<Longrightarrow>
     \<exists>h. ur = Portable \<and> home = Some h \<and> prefix h (fst v) \<and>
       ar_text (render_volume ur home ph v) = ph @ drop (length h) (fst v) @ '':'' @ snd v"
  by (auto simp: render_volume_def split: user_render.splits option.splits if_splits)

lemma filter_plain [simp]: "filter ar_symbolic (map plain_arg ts) = []"
  by (simp add: filter_empty_conv)

lemma filter_each: "filter P (each xs f) = each xs (\<lambda>x. filter P (f x))"
  by (simp add: each_def filter_concat comp_def)

lemma filter_opt_list: "filter P (opt_list x f) = opt_list x (\<lambda>a. filter P (f a))"
  by (simp add: opt_list_def split: option.splits)

lemma each_Nil [simp]: "each xs (\<lambda>_. []) = []"
  by (induction xs) (simp_all add: each_def)

lemma opt_list_Nil [simp]: "opt_list x (\<lambda>_. []) = []"
  by (simp add: opt_list_def split: option.splits)

lemma dc_render_symbolics:
  "filter ar_symbolic (dc_render c ur home ph) =
     opt_list (dc_user c) (\<lambda>_. case ur of Resolved \<Rightarrow> [] | Portable \<Rightarrow> [symbolic_arg ''$(id -u):$(id -g)'']) @
     filter ar_symbolic (map (render_volume ur home ph) (dc_volumes c))"
proof -
  have vols: "each vs (\<lambda>v. filter ar_symbolic [plain_arg ''-v'', render_volume ur home ph v]) =
      filter ar_symbolic (map (render_volume ur home ph) vs)" for vs
    by (induction vs) (simp_all add: each_def)
  have nil: "filter ar_symbolic (if b then [plain_arg t] else []) = []" for b t by simp
  have pair: "(\<lambda>x. filter ar_symbolic (case x of (k, v) \<Rightarrow> map plain_arg (f k v))) = (\<lambda>_. [])" for f
    by (auto simp: fun_eq_iff)
  have one: "filter ar_symbolic [plain_arg t] = []" for t by simp
  show ?thesis
    unfolding dc_render_def filter_append filter_each filter_opt_list filter_plain nil pair vols one
      each_Nil opt_list_Nil append_Nil append_Nil2
    by (cases ur) simp_all
qed

lemma dc_render_symbolic:
  assumes "a \<in> set (dc_render c ur home ph)" and "ar_symbolic a"
  shows "a = symbolic_arg ''$(id -u):$(id -g)'' \<or> (\<exists>v\<in>set (dc_volumes c). a = render_volume ur home ph v)"
proof -
  from assms have "a \<in> set (filter ar_symbolic (dc_render c ur home ph))" by simp
  then show ?thesis
    unfolding dc_render_symbolics by (auto simp: opt_list_def split: option.splits user_render.splits)
qed

text \<open>
  Recipe data is never left to the shell: in the portable line every argument is quoted except
  the user substitution that the renderer wrote itself and a mount whose source begins with
  the home directory; in particular no environment value, label, flag or image is emitted unquoted.
\<close>

lemma portable_symbolic_only_ours:
  assumes "a \<in> set (dc_render c Portable home ph)" and "ar_symbolic a"
  shows "ar_text a = ''$(id -u):$(id -g)'' \<or>
    (\<exists>h. home = Some h \<and> (\<exists>v\<in>set (dc_volumes c). prefix h (fst v) \<and>
       ar_text a = ph @ drop (length h) (fst v) @ '':'' @ snd v))"
  using dc_render_symbolic [OF assms] assms(2) render_volume_symbolic [of Portable home ph] by fastforce

text \<open>
  The limit of the home rewrite: the test is on text and not on path components, so a cache of
  the sibling directory \<open>/home/user2\<close> is shown, for the home \<open>/home/user\<close>, as a path below the
  unrelated variable \<open>HOME2\<close>, and left to the shell.
\<close>

lemma portable_home_sibling:
  "render_volume Portable (Some ''/home/user'') ''$HOME'' (''/home/user2/.cache'', ''/cache'') =
     symbolic_arg ''$HOME2/.cache:/cache''"
  by code_simp

section \<open>An example\<close>

definition ex_docker :: docker_command where
  "ex_docker = \<lparr>dc_detach = True, dc_entrypoint = Some [], dc_privileged = False,
     dc_device_flags = [''--gpus'', ''all''], dc_ipc = ''host'', dc_shm_size = ''32gb'',
     dc_network = ''host'', dc_user = Some \<lparr>us_uid = 1000, us_gid = 1000\<rparr>, dc_security_opts = [],
     dc_cap_add = [], dc_ulimits = [], dc_devices = [], dc_memory = None, dc_labels = [],
     dc_auto_remove = True, dc_restart = None, dc_name = ''metrale-r'', dc_env = [],
     dc_volumes = [(''/home/u/.cache'', ''/cache'')],
     dc_image = ''img'', dc_command = [''met'', ''serve'', ''m'']\<rparr>"

lemma ex_docker_symbolic:
  "symbolic_arg ''$HOME/.cache:/cache'' \<in> set (dc_render ex_docker Portable (Some ''/home/u'') ''$HOME'')"
  by (simp add: dc_render_def ex_docker_def opt_list_def each_def render_volume_def)

end
