(* ===== verification/Translate.thy ===== *)
theory Translate
  imports Flags Docker_Command Net
begin

text \<open>
  The pure translation of a recipe into the command it implies
  (\<open>metralectl-core/src/docker/translate.rs\<close>), with the host snapshot and its \<open>$VAR\<close> expansion
  (\<open>host.rs\<close>), the isolation profile and device flags (\<open>docker/profile.rs\<close>) and the fabric
  environment (\<open>docker/collective.rs\<close>). Whether a non-ASCII character is alphanumeric is read from
  Unicode tables: the parameter \<open>alnum\<close> stands for \<open>char::is_alphanumeric\<close>.

  The theorems: no recipe can turn the offline switches off, no host variable outside the
  allowlist can influence a command, the isolation of a container does not depend on the
  recipe, and a rank's command is built only for enough nodes and only around a real address.
\<close>

section \<open>The host\<close>

record host_snapshot =
  hs_posix_user :: "user_spec option"
  hs_home :: string
  hs_hf_cache_dir :: string
  hs_env :: "(string, string) btree"

text \<open>The loop of \<open>HostSnapshot::expand\<close> over the characters that are left.\<close>

function expand_chars :: "(string \<Rightarrow> bool) \<Rightarrow> (string, string) btree \<Rightarrow> string list \<Rightarrow> string" where
  "expand_chars alnum env [] = []"
| "expand_chars alnum env (c # cs) =
     (if c \<noteq> ''$'' then c @ expand_chars alnum env cs
      else
        let braced = (case cs of [] \<Rightarrow> False | d # _ \<Rightarrow> d = ''{'');
            cs1 = (if braced then tl cs else cs);
            ok = (\<lambda>n. if braced then n \<noteq> ''}'' else alnum n \<or> n = ''_'');
            name = concat (takeWhile ok cs1);
            cs2 = dropWhile ok cs1;
            cs3 = (if braced then tl cs2 else cs2)
        in (if name = [] then ''$''
            else (case bt_get env name of None \<Rightarrow> [] | Some v \<Rightarrow> v))
           @ expand_chars alnum env cs3)"
  by pat_completeness auto

lemma length_tl_dropWhile: "length (tl (dropWhile P (tl xs))) \<le> length xs"
  by (metis diff_le_self length_dropWhile_le length_tl order_trans)

termination expand_chars
  by (relation "measure (\<lambda>(_, _, cs). length cs)")
    (auto simp: less_Suc_eq_le length_dropWhile_le length_tl_dropWhile simp del: length_tl)

definition host_expand :: "(string \<Rightarrow> bool) \<Rightarrow> host_snapshot \<Rightarrow> string \<Rightarrow> string" where
  "host_expand alnum host raw = expand_chars alnum (hs_env host) (str_chars raw)"

section \<open>Profiles\<close>

record launch_profile =
  lp_name :: string
  lp_ipc :: string
  lp_network :: string
  lp_shm_size :: string
  lp_privileged :: bool
  lp_security_opts :: "string list"
  lp_cap_add :: "string list"
  lp_ulimits :: "string list"
  lp_devices :: "string list"
  lp_entrypoint :: "string option"

definition ROOTLESS_V1 :: launch_profile where
  "ROOTLESS_V1 = \<lparr>lp_name = ''rootless-v1'', lp_ipc = ''host'', lp_network = ''host'',
     lp_shm_size = ''32gb'', lp_privileged = False,
     lp_security_opts = [''no-new-privileges'', ''seccomp=unconfined''],
     lp_cap_add = [''IPC_LOCK'', ''SYS_NICE''],
     lp_ulimits = [''memlock=-1:-1'', ''stack=67108864''],
     lp_devices = [''/dev/infiniband''], lp_entrypoint = Some []\<rparr>"

record device_profile =
  dp_vendor :: string
  dp_docker_flags :: "string list"

definition nvidia_devices :: device_profile where
  "nvidia_devices = \<lparr>dp_vendor = ''nvidia'', dp_docker_flags = [''--gpus'', ''all'']\<rparr>"

definition amd_devices :: device_profile where
  "amd_devices = \<lparr>dp_vendor = ''amd'', dp_docker_flags =
     [''--device'', ''/dev/kfd'', ''--device'', ''/dev/dri'', ''--group-add'', ''video'']\<rparr>"

record collective_env =
  ce_name :: string
  ce_cluster_env :: "(string, string) btree"
  ce_bind_interface :: "string \<Rightarrow> string option \<Rightarrow> (string, string) btree"

definition nccl_bind_interface :: "string \<Rightarrow> string option \<Rightarrow> (string, string) btree" where
  "nccl_bind_interface iface rdma_device =
     (if iface = [] then []
      else let out = bt_insert ''NCCL_SOCKET_IFNAME'' iface [] in
        case rdma_device of None \<Rightarrow> out | Some dev \<Rightarrow> bt_insert ''NCCL_IB_HCA'' dev out)"

definition nccl_cluster_env :: "(string, string) btree" where
  "nccl_cluster_env = bt_of_list [
     (''NCCL_IB_GID_INDEX'', []), (''NCCL_CROSS_NIC'', []), (''NCCL_DEBUG'', ''INFO''),
     (''NCCL_IB_DISABLE'', ''0''), (''NCCL_IB_ROCE_VERSION_NUM'', ''2''),
     (''NCCL_IB_ADDR_FAMILY'', ''AF_INET''), (''NCCL_IB_TIMEOUT'', ''22''),
     (''NCCL_IB_RETRY_CNT'', ''7''), (''NCCL_NET_GDR_LEVEL'', ''0''), (''NCCL_DMABUF_ENABLE'', ''0''),
     (''NCCL_NVLS_ENABLE'', ''0''), (''NCCL_CUMEM_HOST_ENABLE'', ''0''), (''NCCL_PROTO'', ''Simple''),
     (''NCCL_ALGO'', ''Ring''), (''NCCL_BUFFSIZE'', ''33554432''), (''NCCL_MIN_NCHANNELS'', ''1''),
     (''NCCL_MAX_NCHANNELS'', ''2'')]"

definition nccl_roce :: collective_env where
  "nccl_roce = \<lparr>ce_name = ''nccl-roce'', ce_cluster_env = nccl_cluster_env,
     ce_bind_interface = nccl_bind_interface\<rparr>"

definition no_collective_env :: collective_env where
  "no_collective_env = \<lparr>ce_name = ''none'', ce_cluster_env = [], ce_bind_interface = (\<lambda>_ _. [])\<rparr>"

section \<open>Translation\<close>

definition CONTAINER_HF_HOME :: string where
  "CONTAINER_HF_HOME = ''/cache/huggingface''"

definition DEFAULT_MASTER_PORT :: "16 word" where
  "DEFAULT_MASTER_PORT = 29500"

definition LABEL_MANAGED :: string where "LABEL_MANAGED = ''io.metralectl.managed''"
definition LABEL_RECIPE :: string where "LABEL_RECIPE = ''io.metralectl.recipe''"
definition LABEL_DEPLOYMENT :: string where "LABEL_DEPLOYMENT = ''io.metralectl.deployment''"
definition LABEL_GENERATION :: string where "LABEL_GENERATION = ''io.metralectl.generation''"
definition LABEL_ATTEMPT :: string where "LABEL_ATTEMPT = ''io.metralectl.attempt''"
definition LABEL_TRACE :: string where "LABEL_TRACE = ''io.metralectl.trace''"

datatype node_placement = Solo | Rank "16 word" "16 word" string "16 word"

record launch_plan =
  pl_docker :: docker_command
  pl_unmapped :: "unmapped_key list"
  pl_unknown_keys :: "string list"

datatype translate_error =
    TNotLaunchable string not_launchable
  | EgressOverride string string
  | TAliasConflict string alias_conflict
  | NodeCountMismatch string "32 word" "32 word"
  | BadRendezvousAddress string string

record launch_context =
  lc_profile :: launch_profile
  lc_devices :: device_profile
  lc_collective :: collective_env

definition EGRESS_ENV :: "string list" where
  "EGRESS_ENV = [''HF_HUB_OFFLINE'', ''TRANSFORMERS_OFFLINE'']"

definition PASSTHROUGH_ENV :: "string list" where
  "PASSTHROUGH_ENV = [''HTTP_PROXY'', ''HTTPS_PROXY'', ''NO_PROXY'', ''http_proxy'', ''https_proxy'', ''no_proxy'']"

definition expand_allowed :: "(string \<Rightarrow> bool) \<Rightarrow> host_snapshot \<Rightarrow> string \<Rightarrow> string" where
  "expand_allowed alnum host raw =
     host_expand alnum
       (host\<lparr>hs_env := filter (\<lambda>(k, v). k \<in> set PASSTHROUGH_ENV) (hs_env host)\<rparr>) raw"

definition check_node_count :: "recipe \<Rightarrow> node_placement \<Rightarrow> (unit, translate_error) result" where
  "check_node_count r p =
     (let supplied = (case p of Solo \<Rightarrow> 1 | Rank _ world_size _ _ \<Rightarrow> ucast world_size);
          required = tp_min_nodes (rc_topology r) in
      if supplied < required then Err (NodeCountMismatch (rc_name r) required supplied) else Ok ())"

definition container_name :: "string \<Rightarrow> node_placement \<Rightarrow> string" where
  "container_name name p =
     (case p of
        Solo \<Rightarrow> ''metrale-'' @ name
      | Rank rank _ _ _ \<Rightarrow> ''metrale-'' @ name @ ''-rank'' @ show_nat (unat rank))"

text \<open>The loop over the recipe's own environment.\<close>

fun env_loop ::
    "(string \<Rightarrow> bool) \<Rightarrow> host_snapshot \<Rightarrow> string \<Rightarrow> (string \<times> string) list \<Rightarrow> (string, string) btree \<Rightarrow>
     ((string, string) btree, translate_error) result" where
  "env_loop alnum host name [] env = Ok env"
| "env_loop alnum host name ((k, v) # kvs) env =
     (if k \<in> set EGRESS_ENV then Err (EgressOverride name k)
      else env_loop alnum host name kvs (bt_insert k (expand_allowed alnum host v) env))"

definition base_env :: "(string, string) btree" where
  "base_env = bt_of_list [(''HF_HUB_OFFLINE'', ''1''), (''TRANSFORMERS_OFFLINE'', ''1''),
     (''HF_HOME'', CONTAINER_HF_HOME)]"

definition build_env ::
    "(string \<Rightarrow> bool) \<Rightarrow> recipe \<Rightarrow> host_snapshot \<Rightarrow> node_placement \<Rightarrow> collective_env \<Rightarrow>
     ((string, string) btree, translate_error) result" where
  "build_env alnum r host p collective =
     (let env = (case p of Rank _ _ _ _ \<Rightarrow> bt_extend base_env (ce_cluster_env collective) | Solo \<Rightarrow> base_env)
      in env_loop alnum host (rc_name r) (rc_env r) env)"

text \<open>The flags of a rank, after the rendered ones.\<close>

definition rank_flags :: "node_placement \<Rightarrow> string list" where
  "rank_flags p =
     (case p of
        Solo \<Rightarrow> []
      | Rank rank world_size master_addr master_port \<Rightarrow>
          (if 0 < rank then [''--port'', ''0''] else []) @
          [''--rank'', show_nat (unat rank), ''--world-size'', show_nat (unat world_size),
           ''--master-addr'', master_addr, ''--master-port'', show_nat (unat master_port)])"

definition translate ::
    "(string \<Rightarrow> bool) \<Rightarrow> recipe \<Rightarrow> config \<Rightarrow> config \<Rightarrow> host_snapshot \<Rightarrow> node_placement \<Rightarrow>
     launch_context \<Rightarrow> (launch_plan, translate_error) result" where
  "translate alnum r overrides user_config host p ctx =
     result_bind (map_err (TNotLaunchable (rc_name r)) (launchable r)) (\<lambda>_.
     result_bind (check_node_count r p) (\<lambda>_.
     let resolved = config_resolve (rc_defaults r) user_config overrides in
     result_bind (map_err (TAliasConflict (rc_name r)) (validate_no_alias_conflict resolved)) (\<lambda>_.
     let skip = (case p of Rank rank _ _ _ \<Rightarrow> if 0 < rank then [''port''] else [] | Solo \<Rightarrow> []);
         (serve_flags, unmapped) = flags_render resolved skip in
     result_bind (case p of
         Rank _ _ addr _ \<Rightarrow>
           if ip_parse addr = None then Err (BadRendezvousAddress (rc_name r) addr) else Ok ()
       | Solo \<Rightarrow> Ok ()) (\<lambda>_.
     result_bind (build_env alnum r host p (lc_collective ctx)) (\<lambda>env.
     let profile = lc_profile ctx in
     Ok \<lparr>pl_docker = \<lparr>
           dc_detach = True, dc_entrypoint = lp_entrypoint profile, dc_privileged = lp_privileged profile,
           dc_device_flags = dp_docker_flags (lc_devices ctx), dc_ipc = lp_ipc profile,
           dc_shm_size = lp_shm_size profile, dc_network = lp_network profile,
           dc_user = hs_posix_user host, dc_security_opts = lp_security_opts profile,
           dc_cap_add = lp_cap_add profile, dc_ulimits = lp_ulimits profile,
           dc_devices = lp_devices profile, dc_memory = None,
           dc_labels = [(LABEL_MANAGED, ''1''), (LABEL_RECIPE, rc_name r)],
           dc_auto_remove = True, dc_restart = None, dc_name = container_name (rc_name r) p,
           dc_env = env, dc_volumes = [(hs_hf_cache_dir host, CONTAINER_HF_HOME)],
           dc_image = rc_container r,
           dc_command = [''met'', ''serve'', rc_model r] @ serve_flags @ rank_flags p\<rparr>,
         pl_unmapped = unmapped, pl_unknown_keys = rc_unknown_keys r\<rparr>)))))"

section \<open>Claims\<close>

lemma env_loop_keeps:
  "env_loop alnum host name kvs env = Ok env' \<Longrightarrow> k \<in> set EGRESS_ENV \<Longrightarrow> bt_get env' k = bt_get env k"
  by (induction alnum host name kvs env rule: env_loop.induct) (auto split: if_splits)

lemma env_loop_egress:
  "is_ok (env_loop alnum host name kvs env) \<longleftrightarrow> (\<forall>k\<in>set EGRESS_ENV. k \<notin> fst ` set kvs)"
  by (induction alnum host name kvs env rule: env_loop.induct) auto

lemma base_env_egress: "\<forall>k\<in>set EGRESS_ENV. bt_get base_env k = Some ''1''"
  by code_simp

lemma build_env_egress:
  assumes "build_env alnum r host p collective = Ok env" and "k \<in> set EGRESS_ENV"
    and "k \<notin> fst ` set (ce_cluster_env collective)"
  shows "bt_get env k = Some ''1''"
proof -
  have "bt_get (bt_extend base_env (ce_cluster_env collective)) k = bt_get base_env k"
    using assms(3) by (simp add: bt_extend_def bt.get_extend_notin)
  then show ?thesis
    using assms(1,2) base_env_egress
    by (auto simp: build_env_def Let_def dest: env_loop_keeps split: node_placement.splits)
qed

lemma expand_allowed_cong:
  assumes "filter (\<lambda>(k, v). k \<in> set PASSTHROUGH_ENV) (hs_env h1) =
      filter (\<lambda>(k, v). k \<in> set PASSTHROUGH_ENV) (hs_env h2)"
  shows "expand_allowed alnum h1 = expand_allowed alnum h2"
  using assms by (simp add: fun_eq_iff expand_allowed_def host_expand_def)

lemma env_loop_cong:
  assumes "expand_allowed alnum h1 = expand_allowed alnum h2"
  shows "env_loop alnum h1 name kvs env = env_loop alnum h2 name kvs env"
  using assms by (induction kvs arbitrary: env) auto

lemma translate_Ok:
  assumes "translate alnum r ov uc host p ctx = Ok plan"
  obtains env where
    "launchable r = Ok ()" "check_node_count r p = Ok ()"
    "validate_no_alias_conflict (config_resolve (rc_defaults r) uc ov) = Ok ()"
    "build_env alnum r host p (lc_collective ctx) = Ok env" "dc_env (pl_docker plan) = env"
    "case p of Rank _ _ addr _ \<Rightarrow> ip_parse addr \<noteq> None | Solo \<Rightarrow> True"
    "\<exists>fl. dc_command (pl_docker plan) = [''met'', ''serve'', rc_model r] @ fl @ rank_flags p"
  using assms
  by (auto simp: translate_def result_bind_eq_Ok Let_def case_prod_beta
      split: node_placement.splits if_splits)

text \<open>
  Offline stays offline: in every command that is built, the two switches that keep the
  container off the network are on, whatever the recipe, the overrides and the host environment say,
  provided the fabric provider does not name them; and a recipe that tries to set one is refused.
\<close>

lemma translate_offline:
  assumes "translate alnum r ov uc host p ctx = Ok plan"
    and "\<forall>k\<in>set EGRESS_ENV. k \<notin> fst ` set (ce_cluster_env (lc_collective ctx))"
  shows "bt_get (dc_env (pl_docker plan)) ''HF_HUB_OFFLINE'' = Some ''1'' \<and>
    bt_get (dc_env (pl_docker plan)) ''TRANSFORMERS_OFFLINE'' = Some ''1'' \<and>
    (\<forall>k\<in>set EGRESS_ENV. k \<notin> fst ` set (rc_env r))"
  using assms(1)
proof (rule translate_Ok)
  fix env
  assume b: "build_env alnum r host p (lc_collective ctx) = Ok env" and e: "dc_env (pl_docker plan) = env"
  from b have "\<forall>k\<in>set EGRESS_ENV. k \<notin> fst ` set (rc_env r)"
    by (metis build_env_def env_loop_egress is_ok_simps(1))
  moreover have "\<forall>k\<in>set EGRESS_ENV. bt_get env k = Some ''1''"
    using build_env_egress [OF b] assms(2) by blast
  ultimately show ?thesis unfolding e by (simp add: EGRESS_ENV_def)
qed

text \<open>
  C7. Secrets do not leak: two hosts whose environments agree on the allowlisted variables, and
  that are otherwise the same, get the same command or the same refusal, for every recipe. So
  nothing a recipe writes can carry another variable of the host into a container.
\<close>

theorem translate_noninterference:
  assumes "filter (\<lambda>(k, v). k \<in> set PASSTHROUGH_ENV) (hs_env h1) =
      filter (\<lambda>(k, v). k \<in> set PASSTHROUGH_ENV) (hs_env h2)"
    and "hs_posix_user h1 = hs_posix_user h2" and "hs_hf_cache_dir h1 = hs_hf_cache_dir h2"
  shows "translate alnum r ov uc h1 p ctx = translate alnum r ov uc h2 p ctx"
proof -
  have "build_env alnum r h1 p c = build_env alnum r h2 p c" for c
    unfolding build_env_def using env_loop_cong [OF expand_allowed_cong [OF assms(1)]] by simp
  with assms(2,3) show ?thesis by (simp add: translate_def Let_def case_prod_beta)
qed

text \<open>
  Isolation belongs to the profile: whatever two recipes and overrides are, two commands built
  for the same host and context agree on every option that bears on isolation, mounts included.
\<close>

lemma translate_isolation_fixed:
  assumes "translate alnum r1 ov1 uc1 host p1 ctx = Ok plan1"
    and "translate alnum r2 ov2 uc2 host p2 ctx = Ok plan2"
    and "c1 = pl_docker plan1" and "c2 = pl_docker plan2"
  shows "dc_privileged c1 = dc_privileged c2 \<and> dc_security_opts c1 = dc_security_opts c2 \<and>
    dc_cap_add c1 = dc_cap_add c2 \<and> dc_devices c1 = dc_devices c2 \<and>
    dc_device_flags c1 = dc_device_flags c2 \<and> dc_network c1 = dc_network c2 \<and>
    dc_ipc c1 = dc_ipc c2 \<and> dc_user c1 = dc_user c2 \<and> dc_volumes c1 = dc_volumes c2 \<and>
    dc_entrypoint c1 = dc_entrypoint c2 \<and> dc_ulimits c1 = dc_ulimits c2"
  using assms by (auto simp: translate_def result_bind_eq_Ok Let_def case_prod_beta)

text \<open>
  A rank is built only for a real meeting place: the placement supplies at least the nodes the
  recipe needs, the rendezvous address is a non-empty text of hexadecimal digits, dots and
  colons, and the command ends in the rank's own flags; a worker's port is the forced one.
\<close>

lemma translate_rank_sound:
  assumes "translate alnum r ov uc host (Rank rank world addr port) ctx = Ok plan"
  shows "unat (tp_min_nodes (rc_topology r)) \<le> unat world \<and>
    addr \<noteq> [] \<and> list_all (\<lambda>c. hex_val c \<noteq> None \<or> c = CHR ''.'' \<or> c = CHR '':'') addr \<and>
    (\<exists>fl. dc_command (pl_docker plan) =
       [''met'', ''serve'', rc_model r] @ fl @ (if 0 < rank then [''--port'', ''0''] else []) @
       [''--rank'', show_nat (unat rank), ''--world-size'', show_nat (unat world),
        ''--master-addr'', addr, ''--master-port'', show_nat (unat port)])"
  using assms
proof (rule translate_Ok)
  assume n: "check_node_count r (Rank rank world addr port) = Ok ()"
    and a: "case Rank rank world addr port of Rank _ _ addr _ \<Rightarrow> ip_parse addr \<noteq> None | Solo \<Rightarrow> True"
    and c: "\<exists>fl. dc_command (pl_docker plan) =
      [''met'', ''serve'', rc_model r] @ fl @ rank_flags (Rank rank world addr port)"
  have "unat (ucast world :: 32 word) = unat world"
    using unsigned_less [of world, where ?'a = nat] by (simp add: unsigned_ucast_eq take_bit_eq_mod)
  with n have "unat (tp_min_nodes (rc_topology r)) \<le> unat world"
    by (auto simp: check_node_count_def Let_def not_less word_le_nat_alt split: if_splits)
  moreover from a obtain ip where "ip_parse addr = Some ip" by auto
  from ip_parse_harmless [OF this] have
    "addr \<noteq> []" "list_all (\<lambda>c. hex_val c \<noteq> None \<or> c = CHR ''.'' \<or> c = CHR '':'') addr"
    by (auto simp: list_all_iff)
  ultimately show ?thesis using c by (simp add: rank_flags_def)
qed

text \<open>
  The node count is a floor only: a placement is refused exactly when it supplies fewer nodes
  than the recipe's minimum; the recipe's maximum is not looked at, so a single-node recipe is
  translated for a rank of any larger world.
\<close>

lemma check_node_count_floor_only:
  "check_node_count r p =
     (let supplied = (case p of Solo \<Rightarrow> 1 | Rank _ world_size _ _ \<Rightarrow> unat world_size) in
      if supplied < unat (tp_min_nodes (rc_topology r))
      then Err (NodeCountMismatch (rc_name r) (tp_min_nodes (rc_topology r)) (of_nat supplied))
      else Ok ())"
proof -
  have "unat (ucast w :: 32 word) = unat (w :: 16 word)" for w
    using unsigned_less [of w, where ?'a = nat] by (simp add: unsigned_ucast_eq take_bit_eq_mod)
  then show ?thesis
    by (cases p) (simp_all add: check_node_count_def word_less_nat_alt Let_def)
qed

section \<open>An example\<close>

definition ex_host :: "(string, string) btree \<Rightarrow> host_snapshot" where
  "ex_host env = \<lparr>hs_posix_user = Some \<lparr>us_uid = 1000, us_gid = 1000\<rparr>, hs_home = ''/home/u'',
     hs_hf_cache_dir = ''/home/u/.cache'', hs_env = env\<rparr>"

definition ex_ctx :: launch_context where
  "ex_ctx = \<lparr>lc_profile = ROOTLESS_V1, lc_devices = nvidia_devices, lc_collective = nccl_roce\<rparr>"

definition ex_alnum :: "string \<Rightarrow> bool" where
  "ex_alnum ch = list_all is_ascii_alphanumeric ch"

definition ex_leaky :: recipe where
  "ex_leaky = ex_rec\<lparr>rc_env := [(''T'', ''${HF_TOKEN}'')]\<rparr>"

definition ex_rank :: node_placement where
  "ex_rank = Rank 1 2 ''192.168.177.11'' 9"

lemma ex_nccl_egress: "\<forall>k\<in>set EGRESS_ENV. k \<notin> fst ` set (ce_cluster_env (lc_collective ex_ctx))"
  by code_simp

lemma ex_translate:
  "is_ok (translate ex_alnum ex_leaky [] [] (ex_host [(''HF_TOKEN'', ''secret'')]) ex_rank ex_ctx)"
  by code_simp

theorem translate_noninterference_witness:
  "translate ex_alnum ex_leaky [] [] (ex_host [(''HF_TOKEN'', ''secret'')]) ex_rank ex_ctx =
   translate ex_alnum ex_leaky [] [] (ex_host []) ex_rank ex_ctx"
  by (rule translate_noninterference) (simp_all add: ex_host_def PASSTHROUGH_ENV_def)

lemma ex_translate_solo: "is_ok (translate ex_alnum ex_rec [] [] (ex_host [(''HF_TOKEN'', ''secret'')]) ex_rank ex_ctx)"
  by code_simp

end
