(* ===== verification/Process.thy ===== *)
theory Process
  imports Prelude
begin

text \<open>
  Running external programs (\<open>metralectl-core/src/io/process.rs\<close>): what a finished process
  produced, and a runner over a world \<open>'w\<close> that every command may change. A state carries the world
  and the log of the commands handed to the runner, oldest first; a computation in it either gives a
  value or fails, and its effects on the state remain.
\<close>

record proc_output =
  ou_status :: int
  ou_stdout :: string
  ou_stderr :: string

definition out_success :: "proc_output \<Rightarrow> bool" where
  "out_success o' = (ou_status o' = 0)"

type_synonym 'w runner = "string list \<Rightarrow> 'w \<Rightarrow> (proc_output, string) result \<times> 'w"

record 'w proc_state =
  pc_world :: 'w
  pc_log :: "string list list"

definition run_cmd ::
    "'w runner \<Rightarrow> string list \<Rightarrow> 'w proc_state \<Rightarrow> (proc_output, string) result \<times> 'w proc_state" where
  "run_cmd run argv st =
     (let (r, w) = run argv (pc_world st) in (r, st\<lparr>pc_world := w, pc_log := pc_log st @ [argv]\<rparr>))"

lemma run_cmd_log [simp]: "pc_log (snd (run_cmd run argv st)) = pc_log st @ [argv]"
  by (simp add: run_cmd_def case_prod_beta)

text \<open>Sequencing with early return.\<close>

definition st_bind ::
    "('a, 'e) result \<times> 's \<Rightarrow> ('a \<Rightarrow> 's \<Rightarrow> ('b, 'e) result \<times> 's) \<Rightarrow> ('b, 'e) result \<times> 's" where
  "st_bind m f = (case m of (Ok a, s) \<Rightarrow> f a s | (Err e, s) \<Rightarrow> (Err e, s))"

lemma st_bind_simps [simp]: "st_bind (Ok a, s) f = f a s" "st_bind (Err e, s) f = (Err e, s)"
  by (simp_all add: st_bind_def)

lemma st_bind_cases:
  assumes "st_bind m f = (r, s')"
  obtains (err) e s where "m = (Err e, s)" "r = Err e" "s' = s"
  | (ok) a s where "m = (Ok a, s)" "f a s = (r, s')"
  using assms by (cases m; cases "fst m") auto

end
