(* ===== verification/Rank.thy ===== *)
theory Rank
  imports Cluster Fingerprint Translate Settings Process
begin

text \<open>
  This machine as one rank of somebody else's cluster (\<open>metralectl/src/rankservice/mod.rs\<close> and
  \<open>reservation.rs\<close>, the trait of \<open>metralectl-agent/src/rank.rs\<close>): rendering a rank, the
  reservation between prepare and commit, and stopping or asking after a container.

  The container runtime is reached through a process runner only. The runner and the network are
  parameters over a world \<open>'w\<close> that every command may change; the state keeps the log of the commands
  handed to the runner. The clock is read where the code reads it, so its readings are arguments.
  Refusals that \<open>anyhow\<close> puts into words go through the parameter \<open>rk_fmt\<close>.

  The theorems: when a prepare is accepted and what it leaves behind; that, however prepares,
  commits, aborts and stops interleave, nothing is started that was not rendered here from this
  machine's own recipe under the committed epoch, at most once per accepted prepare; and that no
  container outside this fleet's naming can be stopped or asked after.
\<close>

section \<open>The service\<close>

datatype 'e rank_error =
    RkNoRecipe string "'e resolve_error"
  | RkMismatch prepare_refusal
  | RkSettings "setting_error list"
  | RkRender "16 word" string translate_error

record ('e, 'w) rank_service =
  rk_registry :: "'e registry_set"
  rk_host :: host_snapshot
  rk_ctx :: launch_context
  rk_run :: "'w runner"
  rk_can_launch :: "(unit, string) result"
  rk_local_addresses :: "node_address list"
  rk_answers :: "'w \<Rightarrow> string \<Rightarrow> 16 word \<Rightarrow> bool"
  rk_rdma_devices :: "(string, string) btree"
  rk_sha :: "string \<Rightarrow> 8 word list"
  rk_alnum :: "string \<Rightarrow> bool"
  rk_nearest :: nearest_fn
  rk_fmt :: "'e rank_error \<Rightarrow> string"

text \<open>Instants are nanoseconds on the monotonic clock.\<close>

definition RESERVATION_TTL :: int where
  "RESERVATION_TTL = 600 * 1000000000"

record reservation =
  rv_epoch :: string
  rv_recipe :: string
  rv_plan :: launch_plan
  rv_expires :: int

record 'w rank_state =
  rs_slot :: "reservation option"
  rs_world :: 'w
  rs_log :: "string list list"

definition rank_run ::
    "('e, 'w) rank_service \<Rightarrow> string list \<Rightarrow> 'w rank_state \<Rightarrow> (proc_output, string) result \<times> 'w rank_state" where
  "rank_run svc argv st =
     (let (r, w) = rk_run svc argv (rs_world st) in
      (r, st\<lparr>rs_world := w, rs_log := rs_log st @ [argv]\<rparr>))"

section \<open>Rendering\<close>

definition collective_binding :: "('e, 'w) rank_service \<Rightarrow> string \<Rightarrow> (string \<times> string) list" where
  "collective_binding svc master_addr =
     (case find (\<lambda>a. shares_network (na_addr a) (na_prefix_len a) master_addr)
             (filter (\<lambda>a. 0 < na_prefix_len a \<and> na_iface a \<noteq> []) (rk_local_addresses svc)) of
        None \<Rightarrow> []
      | Some a \<Rightarrow>
          ce_bind_interface (lc_collective (rk_ctx svc)) (na_iface a)
            (bt_get (rk_rdma_devices svc) (na_iface a)))"

definition plan_for ::
    "('e, 'w) rank_service \<Rightarrow> rank_assignment \<Rightarrow> (launch_plan, 'e rank_error) result" where
  "plan_for svc a =
     result_bind (map_err (RkNoRecipe (ra_recipe a))
       (registry_resolve (rk_nearest svc) (rk_registry svc) (recipe_ref_parse (ra_recipe a)))) (\<lambda>recipe.
     let local = content_hash (rk_sha svc) recipe in
     if ra_recipe_hash a \<noteq> local
     then Err (RkMismatch (PrRecipeMismatch (ra_recipe a)
            (if ra_recipe_hash a = [] then ''(none sent)'' else ra_recipe_hash a) local))
     else
     result_bind (map_err RkSettings (validate (ra_settings a))) (\<lambda>overrides.
     result_bind (map_err (RkRender (ra_rank a) (ra_recipe a))
       (translate (rk_alnum svc) recipe overrides [] (rk_host svc)
          (Rank (ra_rank a) (ra_world_size a) (ra_master_addr a) (ra_master_port a)) (rk_ctx svc))) (\<lambda>plan.
     let docker = pl_docker plan in
     Ok (plan\<lparr>pl_docker := docker\<lparr>
          dc_env := bt_extend (dc_env docker) (collective_binding svc (ra_master_addr a)),
          dc_auto_remove := False\<rparr>\<rparr>))))"

definition can_reach :: "('e, 'w) rank_service \<Rightarrow> 'w \<Rightarrow> string \<Rightarrow> 16 word \<Rightarrow> bool" where
  "can_reach svc w addr port =
     (on_local_subnet addr (rk_local_addresses svc) \<or> rk_answers svc w addr port)"

definition docker_probe_argv :: "string list" where
  "docker_probe_argv = [''docker'', ''info'', ''--format'', ''{{.ServerVersion}}'']"

definition docker_ok :: "('e, 'w) rank_service \<Rightarrow> 'w rank_state \<Rightarrow> bool \<times> 'w rank_state" where
  "docker_ok svc st =
     (let (r, st) = rank_run svc docker_probe_argv st in
      ((case r of Ok o' \<Rightarrow> out_success o' | Err _ \<Rightarrow> False), st))"

definition rank_render ::
    "('e, 'w) rank_service \<Rightarrow> rank_assignment \<Rightarrow> (string \<times> string list, 'e rank_error) result" where
  "rank_render svc a =
     result_bind (plan_for svc a) (\<lambda>plan.
       Ok (docker_command_to_string (pl_docker plan), map um_key (pl_unmapped plan)))"

definition rank_content_hash ::
    "('e, 'w) rank_service \<Rightarrow> string \<Rightarrow> (string, 'e rank_error) result" where
  "rank_content_hash svc recipe =
     result_bind (map_err (RkNoRecipe recipe)
       (registry_resolve (rk_nearest svc) (rk_registry svc) (recipe_ref_parse recipe)))
       (\<lambda>r. Ok (content_hash (rk_sha svc) r))"

definition recipe_port ::
    "('e, 'w) rank_service \<Rightarrow> string \<Rightarrow> (16 word option, 'e rank_error) result" where
  "recipe_port svc recipe =
     result_bind (map_err (RkNoRecipe recipe)
       (registry_resolve (rk_nearest svc) (rk_registry svc) (recipe_ref_parse recipe)))
       (\<lambda>r. Ok (case bt_get (rc_defaults r) ''port'' of
          Some (SIntV p) \<Rightarrow> if 0 \<le> p \<and> p < 65536 then Some (of_int p) else None
        | _ \<Rightarrow> None))"

section \<open>Prepare\<close>

text \<open>
  \<open>prepare\<close> takes the lock twice: once to look at the reservation there is, and once to put its
  own. In between it asks the runtime and renders, without the lock.
\<close>

definition refuse :: "prepare_refusal \<Rightarrow> prepare_reply" where
  "refuse r = Refused (prepare_refusal_to_string r)"

definition prepare_admit ::
    "('e, 'w) rank_service \<Rightarrow> string \<Rightarrow> int \<Rightarrow> int \<Rightarrow> 'w rank_state \<Rightarrow> prepare_reply option \<times> 'w rank_state" where
  "prepare_admit svc epoch t1 t2 st =
     (case rk_can_launch svc of
        Err why \<Rightarrow> (Some (refuse (PrNotLaunchable why)), st)
      | Ok _ \<Rightarrow>
          (case rs_slot st of
             Some r \<Rightarrow>
               if rv_epoch r \<noteq> epoch
               then if rv_expires r \<le> t1 then (None, st\<lparr>rs_slot := None\<rparr>)
                    else (Some (refuse (PrReserved (rv_recipe r)
                            (nat (max 0 (rv_expires r - t2) div 1000000000)))), st)
               else (None, st)
           | None \<Rightarrow> (None, st)))"

definition prepare_check ::
    "('e, 'w) rank_service \<Rightarrow> rank_assignment \<Rightarrow> 'w rank_state \<Rightarrow> (launch_plan, prepare_reply) result \<times> 'w rank_state" where
  "prepare_check svc a st =
     (let (ok, st) = docker_ok svc st in
      if \<not> ok then (Err (refuse PrDockerUnavailable), st)
      else if \<not> can_reach svc (rs_world st) (ra_master_addr a) (ra_master_port a)
      then (Err (refuse (PrRendezvousUnreachable
              (rendezvous_explain (ra_master_addr a) (rk_local_addresses svc)))), st)
      else case plan_for svc a of
        Err e \<Rightarrow> (Err (Refused (rk_fmt svc e)), st)
      | Ok plan \<Rightarrow> (Ok plan, st))"

definition prepare_store :: "string \<Rightarrow> rank_assignment \<Rightarrow> launch_plan \<Rightarrow> int \<Rightarrow> 'w rank_state \<Rightarrow> 'w rank_state" where
  "prepare_store epoch a plan t3 st =
     st\<lparr>rs_slot := Some \<lparr>rv_epoch = epoch, rv_recipe = ra_recipe a, rv_plan = plan,
                       rv_expires = t3 + RESERVATION_TTL\<rparr>\<rparr>"

definition rank_prepare ::
    "('e, 'w) rank_service \<Rightarrow> string \<Rightarrow> rank_assignment \<Rightarrow> int \<Rightarrow> int \<Rightarrow> int \<Rightarrow> 'w rank_state \<Rightarrow>
     prepare_reply \<times> 'w rank_state" where
  "rank_prepare svc epoch a t1 t2 t3 st =
     (case prepare_admit svc epoch t1 t2 st of
        (Some reply, st) \<Rightarrow> (reply, st)
      | (None, st) \<Rightarrow>
          (case prepare_check svc a st of
             (Err reply, st) \<Rightarrow> (reply, st)
           | (Ok plan, st) \<Rightarrow> (Prepared, prepare_store epoch a plan t3 st)))"

section \<open>Commit, alive, stop, abort\<close>

datatype commit_error =
    HoldingOther string string
  | NoReservation string
  | StartingFailed string
  | RunExited int string

definition docker_rm :: "string \<Rightarrow> string list" where
  "docker_rm name = [''docker'', ''rm'', ''-f'', name]"

definition commit_start ::
    "('e, 'w) rank_service \<Rightarrow> launch_plan \<Rightarrow> 'w rank_state \<Rightarrow> (string, commit_error) result \<times> 'w rank_state" where
  "commit_start svc plan st =
     (let name = dc_name (pl_docker plan);
          (_, st) = rank_run svc (docker_rm name) st;
          (r, st) = rank_run svc (to_argv (pl_docker plan)) st
      in (case r of
            Err e \<Rightarrow> Err (StartingFailed e)
          | Ok out \<Rightarrow>
              if out_success out then Ok name else Err (RunExited (ou_status out) (str_trim (ou_stderr out))), st))"

definition rank_commit ::
    "('e, 'w) rank_service \<Rightarrow> string \<Rightarrow> 'w rank_state \<Rightarrow> (string, commit_error) result \<times> 'w rank_state" where
  "rank_commit svc epoch st =
     (case rs_slot st of
        Some r \<Rightarrow>
          if rv_epoch r = epoch then commit_start svc (rv_plan r) (st\<lparr>rs_slot := None\<rparr>)
          else (Err (HoldingOther (rv_epoch r) epoch), st)
      | None \<Rightarrow> (Err (NoReservation epoch), st))"

definition container_is_ours :: "string \<Rightarrow> bool" where
  "container_is_ours container =
     (if prefix ''metrale-'' container
      then let rest = drop (length ''metrale-'') container in
        rest \<noteq> [] \<and> list_all (\<lambda>c. is_ascii_lowercase c \<or> is_ascii_digit c \<or> c = CHR ''.'' \<or> c = CHR ''-'') rest
      else False)"

definition inspect_argv :: "string \<Rightarrow> string list" where
  "inspect_argv container = [''docker'', ''inspect'', ''-f'', ''{{.State.Running}}'', container]"

definition rank_alive ::
    "('e, 'w) rank_service \<Rightarrow> string \<Rightarrow> 'w rank_state \<Rightarrow> (bool, string) result \<times> 'w rank_state" where
  "rank_alive svc container st =
     (if \<not> container_is_ours container then (Ok False, st)
      else let (r, st) = rank_run svc (inspect_argv container) st in
        (case r of
           Err e \<Rightarrow> Err e
         | Ok out \<Rightarrow> if \<not> out_success out then Ok False else Ok (str_trim (ou_stdout out) = ''true''), st))"

datatype stop_error = NotOurs string | StoppingFailed string | RmExited int string

definition rank_stop ::
    "('e, 'w) rank_service \<Rightarrow> string \<Rightarrow> 'w rank_state \<Rightarrow> (unit, stop_error) result \<times> 'w rank_state" where
  "rank_stop svc container st =
     (if \<not> container_is_ours container then (Err (NotOurs container), st)
      else let (r, st) = rank_run svc (docker_rm container) st in
        (case r of
           Err e \<Rightarrow> Err (StoppingFailed e)
         | Ok out \<Rightarrow>
             if \<not> out_success out \<and> \<not> str_contains ''No such container'' (ou_stderr out)
             then Err (RmExited (ou_status out) (str_trim (ou_stderr out))) else Ok (), st))"

definition rank_abort :: "string \<Rightarrow> 'w rank_state \<Rightarrow> 'w rank_state" where
  "rank_abort epoch st =
     (case rs_slot st of
        Some r \<Rightarrow> if rv_epoch r = epoch then st\<lparr>rs_slot := None\<rparr> else st
      | None \<Rightarrow> st)"

section \<open>Calls from many heads\<close>

text \<open>
  Every peer connection is a task of its own, so calls interleave; a prepare as its two critical
  sections. \<open>sy_inflight\<close> are the prepares between the two, \<open>sy_prepared\<close> the accepted prepares and
  \<open>sy_committed\<close> the epochs whose commit found its reservation, all as histories.
\<close>

record 'w rank_sys =
  sy_state :: "'w rank_state"
  sy_inflight :: "(string \<times> rank_assignment) list"
  sy_prepared :: "(string \<times> rank_assignment) list"
  sy_committed :: "string list"

definition rank_init :: "'w rank_sys \<Rightarrow> bool" where
  "rank_init s = (rs_slot (sy_state s) = None \<and> rs_log (sy_state s) = [] \<and>
     sy_inflight s = [] \<and> sy_prepared s = [] \<and> sy_committed s = [])"

definition holds :: "string \<Rightarrow> 'w rank_state \<Rightarrow> bool" where
  "holds epoch st = (case rs_slot st of Some r \<Rightarrow> rv_epoch r = epoch | None \<Rightarrow> False)"

inductive rank_step :: "('e, 'w) rank_service \<Rightarrow> 'w rank_sys \<Rightarrow> 'w rank_sys \<Rightarrow> bool" for svc where
  admitted: "prepare_admit svc epoch t1 t2 (sy_state s) = (None, st) \<Longrightarrow>
    rank_step svc s (s\<lparr>sy_state := st, sy_inflight := (epoch, a) # sy_inflight s\<rparr>)"
| not_admitted: "prepare_admit svc epoch t1 t2 (sy_state s) = (Some reply, st) \<Longrightarrow>
    rank_step svc s (s\<lparr>sy_state := st\<rparr>)"
| prepared: "(epoch, a) \<in> set (sy_inflight s) \<Longrightarrow> prepare_check svc a (sy_state s) = (Ok plan, st) \<Longrightarrow>
    rank_step svc s (s\<lparr>sy_state := prepare_store epoch a plan t3 st,
      sy_inflight := remove1 (epoch, a) (sy_inflight s), sy_prepared := (epoch, a) # sy_prepared s\<rparr>)"
| not_prepared: "(epoch, a) \<in> set (sy_inflight s) \<Longrightarrow> prepare_check svc a (sy_state s) = (Err reply, st) \<Longrightarrow>
    rank_step svc s (s\<lparr>sy_state := st, sy_inflight := remove1 (epoch, a) (sy_inflight s)\<rparr>)"
| commit: "rank_commit svc epoch (sy_state s) = (r, st) \<Longrightarrow>
    rank_step svc s (s\<lparr>sy_state := st,
      sy_committed := (if holds epoch (sy_state s) then [epoch] else []) @ sy_committed s\<rparr>)"
| abort: "rank_step svc s (s\<lparr>sy_state := rank_abort epoch (sy_state s)\<rparr>)"
| alive: "rank_alive svc c (sy_state s) = (r, st) \<Longrightarrow> rank_step svc s (s\<lparr>sy_state := st\<rparr>)"
| stop: "rank_stop svc c (sy_state s) = (r', st) \<Longrightarrow> rank_step svc s (s\<lparr>sy_state := st\<rparr>)"
| world: "rank_step svc s (s\<lparr>sy_state := (sy_state s)\<lparr>rs_world := w\<rparr>\<rparr>)"

inductive_cases rank_stepE: "rank_step svc s t"

section \<open>What each call does to the state\<close>

lemma rank_run_frame [simp]:
  "rs_slot (snd (rank_run svc argv st)) = rs_slot st"
  "rs_log (snd (rank_run svc argv st)) = rs_log st @ [argv]"
  by (simp_all add: rank_run_def case_prod_beta)

lemma docker_ok_frame [simp]:
  "rs_slot (snd (docker_ok svc st)) = rs_slot st"
  "rs_log (snd (docker_ok svc st)) = rs_log st @ [docker_probe_argv]"
  by (simp_all add: docker_ok_def case_prod_beta)

lemma prepare_check_frame:
  assumes "prepare_check svc a st = (r, st')"
  shows "rs_slot st' = rs_slot st" and "rs_log st' = rs_log st @ [docker_probe_argv]"
    and "r = Ok plan \<Longrightarrow> plan_for svc a = Ok plan"
proof -
  from assms have "st' = snd (docker_ok svc st) \<and> (r = Ok plan \<longrightarrow> plan_for svc a = Ok plan)"
    by (auto simp: prepare_check_def case_prod_beta Let_def split: if_splits result.splits)
  then show "rs_slot st' = rs_slot st" "rs_log st' = rs_log st @ [docker_probe_argv]"
    "r = Ok plan \<Longrightarrow> plan_for svc a = Ok plan" by simp_all
qed

lemma prepare_admit_frame:
  assumes "prepare_admit svc epoch t1 t2 st = (r, st')"
  shows "rs_log st' = rs_log st" and "rs_slot st' = rs_slot st \<or> rs_slot st' = None"
  using assms by (auto simp: prepare_admit_def split: result.splits option.splits if_splits)

lemma rank_alive_frame:
  assumes "rank_alive svc c st = (r, st')"
  shows "rs_slot st' = rs_slot st" and "rs_log st' = rs_log st @ (if container_is_ours c then [inspect_argv c] else [])"
proof -
  from assms have "st' = (if container_is_ours c then snd (rank_run svc (inspect_argv c) st) else st)"
    by (simp add: rank_alive_def case_prod_beta Let_def split: if_splits)
  then show "rs_slot st' = rs_slot st" "rs_log st' = rs_log st @ (if container_is_ours c then [inspect_argv c] else [])"
    by simp_all
qed

lemma rank_stop_frame:
  assumes "rank_stop svc c st = (r, st')"
  shows "rs_slot st' = rs_slot st" and "rs_log st' = rs_log st @ (if container_is_ours c then [docker_rm c] else [])"
proof -
  from assms have "st' = (if container_is_ours c then snd (rank_run svc (docker_rm c) st) else st)"
    by (simp add: rank_stop_def case_prod_beta Let_def split: if_splits)
  then show "rs_slot st' = rs_slot st" "rs_log st' = rs_log st @ (if container_is_ours c then [docker_rm c] else [])"
    by simp_all
qed

lemma commit_start_frame [simp]:
  "rs_slot (snd (commit_start svc plan st)) = rs_slot st"
  "rs_log (snd (commit_start svc plan st)) =
     rs_log st @ [docker_rm (dc_name (pl_docker plan)), to_argv (pl_docker plan)]"
  by (simp_all add: commit_start_def case_prod_beta Let_def)

lemma rank_commit_cases:
  assumes "rank_commit svc epoch st = (r, st')"
  obtains (spent) v where "rs_slot st = Some v" "rv_epoch v = epoch" "rs_slot st' = None"
      "rs_log st' = rs_log st @ [docker_rm (dc_name (pl_docker (rv_plan v))), to_argv (pl_docker (rv_plan v))]"
      "holds epoch st"
  | (refused) "st' = st" "\<not> holds epoch st" "\<exists>e. r = Err e"
proof (cases "rs_slot st")
  case None
  with assms that(2) show ?thesis by (auto simp: rank_commit_def holds_def)
next
  case (Some v)
  show ?thesis
  proof (cases "rv_epoch v = epoch")
    case True
    with assms Some have "st' = snd (commit_start svc (rv_plan v) (st\<lparr>rs_slot := None\<rparr>))"
      by (simp add: rank_commit_def)
    with Some True that(1) show ?thesis by (simp add: holds_def)
  next
    case False
    with assms Some that(2) show ?thesis by (auto simp: rank_commit_def holds_def)
  qed
qed

lemma rank_abort_frame:
  "rs_log (rank_abort epoch st) = rs_log st"
  "rs_slot (rank_abort epoch st) = rs_slot st \<or> rs_slot (rank_abort epoch st) = None"
  by (auto simp: rank_abort_def split: option.splits)

section \<open>What is ever run\<close>

text \<open>The commands the service may have run once the prepares in \<open>ps\<close> were accepted.\<close>

definition allowed :: "('e, 'w) rank_service \<Rightarrow> (string \<times> rank_assignment) set \<Rightarrow> string list \<Rightarrow> bool" where
  "allowed svc ps argv =
     (argv = docker_probe_argv \<or>
      (\<exists>c. container_is_ours c \<and> (argv = inspect_argv c \<or> argv = docker_rm c)) \<or>
      (\<exists>epoch a plan. (epoch, a) \<in> ps \<and> plan_for svc a = Ok plan \<and>
         (argv = docker_rm (dc_name (pl_docker plan)) \<or> argv = to_argv (pl_docker plan))))"

lemma allowed_mono: "allowed svc ps argv \<Longrightarrow> ps \<subseteq> qs \<Longrightarrow> allowed svc qs argv"
  unfolding allowed_def by blast

definition slot_ok :: "('e, 'w) rank_service \<Rightarrow> 'w rank_sys \<Rightarrow> bool" where
  "slot_ok svc s =
     (case rs_slot (sy_state s) of
        None \<Rightarrow> True
      | Some r \<Rightarrow> (\<exists>a. (rv_epoch r, a) \<in> set (sy_prepared s) \<and> plan_for svc a = Ok (rv_plan r)))"

definition rank_inv :: "('e, 'w) rank_service \<Rightarrow> 'w rank_sys \<Rightarrow> bool" where
  "rank_inv svc s =
     (slot_ok svc s \<and>
      (\<forall>argv\<in>set (rs_log (sy_state s)). allowed svc (set (sy_prepared s)) argv) \<and>
      (\<forall>epoch. count_list (sy_committed s) epoch + (if holds epoch (sy_state s) then 1 else 0)
                 \<le> count_list (map fst (sy_prepared s)) epoch))"

lemma rank_inv_count:
  "rank_inv svc s \<Longrightarrow> count_list (sy_committed s) epoch + (if holds epoch (sy_state s) then 1 else 0)
     \<le> count_list (map fst (sy_prepared s)) epoch"
  unfolding rank_inv_def by blast

text \<open>A call that empties the slot or leaves it, and runs only allowed commands, keeps the invariant.\<close>

lemma rank_inv_quiet:
  assumes "rank_inv svc s" and "rs_slot st = rs_slot (sy_state s) \<or> rs_slot st = None"
    and "rs_log st = rs_log (sy_state s) @ extra"
    and "list_all (allowed svc (set (sy_prepared s))) extra"
  shows "rank_inv svc (s\<lparr>sy_state := st, sy_inflight := fl\<rparr>)"
proof -
  have "holds epoch st \<Longrightarrow> holds epoch (sy_state s)" for epoch
    using assms(2) by (cases "rs_slot (sy_state s)") (auto simp: holds_def)
  then have "count_list (sy_committed s) epoch + (if holds epoch st then 1 else 0)
      \<le> count_list (map fst (sy_prepared s)) epoch" for epoch
    using rank_inv_count [OF assms(1), of epoch] by (auto split: if_splits)
  then show ?thesis
    using assms by (auto simp: rank_inv_def slot_ok_def list_all_iff split: option.splits)
qed

lemma rank_inv_init: "rank_init s \<Longrightarrow> rank_inv svc s"
  by (simp add: rank_init_def rank_inv_def slot_ok_def holds_def)

lemma rank_inv_prepared:
  assumes "rank_inv svc s" and "prepare_check svc a (sy_state s) = (Ok plan, st)"
  shows "rank_inv svc (s\<lparr>sy_state := prepare_store epoch a plan t3 st, sy_inflight := fl,
    sy_prepared := (epoch, a) # sy_prepared s\<rparr>)"
proof -
  note frame = prepare_check_frame [OF assms(2)]
  have "count_list (sy_committed s) e \<le> count_list (map fst (sy_prepared s)) e" for e
    using rank_inv_count [OF assms(1), of e] by simp
  moreover have "allowed svc (insert (epoch, a) (set (sy_prepared s))) argv"
    if "argv \<in> set (rs_log (sy_state s)) \<or> argv = docker_probe_argv" for argv
    using that assms(1) by (auto simp: rank_inv_def allowed_def [of _ _ docker_probe_argv]
        intro: allowed_mono)
  ultimately show ?thesis
    using frame by (auto simp: rank_inv_def slot_ok_def prepare_store_def holds_def)
qed

lemma rank_inv_commit:
  assumes "rank_inv svc s" and "rank_commit svc epoch (sy_state s) = (r, st)"
  shows "rank_inv svc (s\<lparr>sy_state := st,
    sy_committed := (if holds epoch (sy_state s) then [epoch] else []) @ sy_committed s\<rparr>)"
  using assms(2)
proof (cases rule: rank_commit_cases)
  case (spent v)
  from spent(1,2) assms(1) obtain a where
    "(epoch, a) \<in> set (sy_prepared s)" "plan_for svc a = Ok (rv_plan v)"
    by (auto simp: rank_inv_def slot_ok_def)
  then have "allowed svc (set (sy_prepared s)) (docker_rm (dc_name (pl_docker (rv_plan v))))"
    "allowed svc (set (sy_prepared s)) (to_argv (pl_docker (rv_plan v)))"
    unfolding allowed_def by blast+
  moreover have "count_list (epoch # sy_committed s) e \<le> count_list (map fst (sy_prepared s)) e" for e
    using rank_inv_count [OF assms(1), of e] spent(5) by (auto split: if_splits)
  ultimately show ?thesis
    using assms(1) spent by (auto simp: rank_inv_def slot_ok_def holds_def)
next
  case refused
  with assms(1) show ?thesis by simp
qed

lemma rank_inv_step: "rank_step svc s t \<Longrightarrow> rank_inv svc s \<Longrightarrow> rank_inv svc t"
proof (induction rule: rank_step.induct)
  case (admitted epoch t1 t2 s st a)
  with prepare_admit_frame [OF admitted(1)] show ?case by (intro rank_inv_quiet [where extra = "[]"]) auto
next
  case (not_admitted epoch t1 t2 s reply st)
  with prepare_admit_frame [OF not_admitted(1)] rank_inv_quiet [of svc s st "[]" "sy_inflight s"]
  show ?case by simp
next
  case (prepared epoch a s plan st t3)
  then show ?case by (intro rank_inv_prepared)
next
  case (not_prepared epoch a s reply st)
  with prepare_check_frame [OF not_prepared(2)] show ?case
    by (intro rank_inv_quiet [where extra = "[docker_probe_argv]"]) (auto simp: allowed_def)
next
  case (commit epoch s r st)
  then show ?case by (intro rank_inv_commit)
next
  case (abort s epoch)
  with rank_abort_frame [of epoch "sy_state s"] rank_inv_quiet [of svc s "rank_abort epoch (sy_state s)" "[]" "sy_inflight s"]
  show ?case by simp
next
  case (alive c s r st)
  with rank_alive_frame [OF alive(1)]
    rank_inv_quiet [of svc s st "if container_is_ours c then [inspect_argv c] else []" "sy_inflight s"]
  show ?case by (auto simp: allowed_def split: if_splits)
next
  case (stop c s r' st)
  with rank_stop_frame [OF stop(1)]
    rank_inv_quiet [of svc s st "if container_is_ours c then [docker_rm c] else []" "sy_inflight s"]
  show ?case by (auto simp: allowed_def split: if_splits)
next
  case (world s w)
  with rank_inv_quiet [of svc s "(sy_state s)\<lparr>rs_world := w\<rparr>" "[]" "sy_inflight s"] show ?case by simp
qed

interpretation rk: invariant_system rank_init "rank_step svc" "rank_inv svc" for svc
  by unfold_locales (auto intro: rank_inv_init rank_inv_step)

section \<open>Claims\<close>


text \<open>
  C11. What a prepare answers: it is accepted exactly when this machine can launch, no live reservation
  of another epoch is held, the runtime answers, the rendezvous address can be reached and the
  command renders; then the rendered command is held under that epoch for ten minutes. While another
  epoch's reservation is live, the prepare is refused and nothing is changed or run.
\<close>

theorem rank_prepare_correct:
  "(fst (rank_prepare svc epoch a t1 t2 t3 st) = Prepared \<longleftrightarrow>
      is_ok (rk_can_launch svc) \<and>
      (case rs_slot st of Some r \<Rightarrow> rv_epoch r = epoch \<or> rv_expires r \<le> t1 | None \<Rightarrow> True) \<and>
      fst (docker_ok svc (snd (prepare_admit svc epoch t1 t2 st))) \<and>
      can_reach svc (rs_world (snd (docker_ok svc (snd (prepare_admit svc epoch t1 t2 st)))))
        (ra_master_addr a) (ra_master_port a) \<and>
      is_ok (plan_for svc a)) \<and>
   (fst (rank_prepare svc epoch a t1 t2 t3 st) = Prepared \<longrightarrow>
      (\<exists>plan. plan_for svc a = Ok plan \<and>
         rs_slot (snd (rank_prepare svc epoch a t1 t2 t3 st)) =
           Some \<lparr>rv_epoch = epoch, rv_recipe = ra_recipe a, rv_plan = plan,
                rv_expires = t3 + 600 * 1000000000\<rparr>)) \<and>
   (\<forall>r. rs_slot st = Some r \<and> rv_epoch r \<noteq> epoch \<and> t1 < rv_expires r \<longrightarrow>
      (\<exists>why. rank_prepare svc epoch a t1 t2 t3 st = (Refused why, st)))"
proof -
  define st1 where "st1 = snd (prepare_admit svc epoch t1 t2 st)"
  have adm: "fst (prepare_admit svc epoch t1 t2 st) = None \<longleftrightarrow> is_ok (rk_can_launch svc) \<and>
      (case rs_slot st of Some r \<Rightarrow> rv_epoch r = epoch \<or> rv_expires r \<le> t1 | None \<Rightarrow> True)"
    by (auto simp: prepare_admit_def split: result.splits option.splits)
  have chk: "(\<exists>plan. fst (prepare_check svc a st1) = Ok plan) \<longleftrightarrow>
      fst (docker_ok svc st1) \<and>
      can_reach svc (rs_world (snd (docker_ok svc st1))) (ra_master_addr a) (ra_master_port a) \<and>
      is_ok (plan_for svc a)"
    by (auto simp: prepare_check_def case_prod_beta Let_def is_ok_iff split: result.splits)
  have not: "fst (prepare_admit svc epoch t1 t2 st) \<noteq> Some Prepared" "fst (prepare_check svc a st1) \<noteq> Err Prepared"
    by (auto simp: prepare_admit_def prepare_check_def refuse_def case_prod_beta Let_def
        split: result.splits option.splits if_splits)
  have prep: "fst (rank_prepare svc epoch a t1 t2 t3 st) = Prepared \<longleftrightarrow>
      fst (prepare_admit svc epoch t1 t2 st) = None \<and> (\<exists>plan. fst (prepare_check svc a st1) = Ok plan)"
    using not by (auto simp: rank_prepare_def st1_def split: prod.splits option.splits result.splits)
  have "\<exists>plan. plan_for svc a = Ok plan \<and> rs_slot (snd (rank_prepare svc epoch a t1 t2 t3 st)) =
      Some \<lparr>rv_epoch = epoch, rv_recipe = ra_recipe a, rv_plan = plan, rv_expires = t3 + 600 * 1000000000\<rparr>"
    if "fst (rank_prepare svc epoch a t1 t2 t3 st) = Prepared"
    using that prepare_check_frame(3) [of svc a st1] unfolding prep
    by (auto simp: rank_prepare_def st1_def prepare_store_def RESERVATION_TTL_def
        split: prod.splits option.splits result.splits)
  moreover have "\<exists>why. rank_prepare svc epoch a t1 t2 t3 st = (Refused why, st)"
    if "rs_slot st = Some r" "rv_epoch r \<noteq> epoch" "t1 < rv_expires r" for r
    using that by (auto simp: rank_prepare_def prepare_admit_def refuse_def split: result.splits)
  ultimately show ?thesis using prep adm chk unfolding st1_def by blast
qed

text \<open>
  A commit spends its reservation: it succeeds in starting only what is held under the epoch it
  names, by removing the container of that name and running the held command; after it, or for any
  other epoch, a commit is refused and changes and runs nothing. An abort releases only its own
  epoch, and a released reservation cannot be committed.
\<close>

lemma rank_commit_spends:
  "(\<forall>r st'. rank_commit svc epoch st = (r, st') \<longrightarrow>
      (if holds epoch st
       then rs_slot st' = None \<and>
         (\<exists>v. rs_slot st = Some v \<and> rs_log st' = rs_log st @
            [docker_rm (dc_name (pl_docker (rv_plan v))), to_argv (pl_docker (rv_plan v))]) \<and>
         (\<forall>e. rank_commit svc e st' = (Err (NoReservation e), st'))
       else st' = st \<and> \<not> is_ok r)) \<and>
   (\<exists>e. rank_commit svc epoch (rank_abort epoch st) = (Err e, rank_abort epoch st)) \<and>
   (\<not> holds epoch st \<longrightarrow> rank_abort epoch st = st)"
proof (intro conjI allI impI)
  fix r st'
  assume c: "rank_commit svc epoch st = (r, st')"
  then show "if holds epoch st
       then rs_slot st' = None \<and>
         (\<exists>v. rs_slot st = Some v \<and> rs_log st' = rs_log st @
            [docker_rm (dc_name (pl_docker (rv_plan v))), to_argv (pl_docker (rv_plan v))]) \<and>
         (\<forall>e. rank_commit svc e st' = (Err (NoReservation e), st'))
       else st' = st \<and> \<not> is_ok r"
  proof (cases rule: rank_commit_cases)
    case (spent v)
    then have "rank_commit svc e st' = (Err (NoReservation e), st')" for e
      by (simp add: rank_commit_def)
    with spent show ?thesis by simp
  next
    case refused
    then show ?thesis by auto
  qed
qed (auto simp: rank_commit_def rank_abort_def holds_def split: option.splits)

text \<open>
  Only this fleet's containers: for any other name a stop is refused and a question answered no,
  and nothing is run; a name that passes has nothing in it that a command line could read as an
  option or a pattern; and every container this service starts for a recipe id passes.
\<close>

lemma rank_stop_scope:
  "(\<not> container_is_ours c \<longrightarrow> rank_stop svc c st = (Err (NotOurs c), st) \<and> rank_alive svc c st = (Ok False, st)) \<and>
   (container_is_ours c \<longrightarrow> prefix ''metrale-'' c \<and> list_all recipe_char c \<and>
      rs_log (snd (rank_stop svc c st)) = rs_log st @ [[''docker'', ''rm'', ''-f'', c]]) \<and>
   (recipe_id_parse name = Ok rid \<longrightarrow> container_is_ours (container_name name p))"
proof (intro conjI impI)
  assume o: "container_is_ours c"
  then have p: "prefix ''metrale-'' c" by (simp add: container_is_ours_def split: if_splits)
  then show "prefix ''metrale-'' c" .
  from p obtain rest where c: "c = ''metrale-'' @ rest" by (auto simp: prefix_def)
  with o have "list_all recipe_char rest" by (simp add: container_is_ours_def recipe_char_def [abs_def] Let_def)
  then show "list_all recipe_char c"
    unfolding c by (simp add: recipe_char_def is_ascii_lowercase_def byte_of_def)
  show "rs_log (snd (rank_stop svc c st)) = rs_log st @ [[''docker'', ''rm'', ''-f'', c]]"
    using o rank_stop_frame(2) [of svc c st] by (cases "rank_stop svc c st") (simp add: docker_rm_def)
next
  assume "recipe_id_parse name = Ok rid"
  then have n: "name \<noteq> []" "list_all recipe_char name" by (auto dest!: recipe_id_parse_Ok simp: list_all_iff)
  have "list_all recipe_char (show_nat k)" for k
    using show_nat_digits by (auto simp: list_all_iff recipe_char_def)
  moreover have "list_all recipe_char ''-rank''"
    by (simp add: recipe_char_def is_ascii_lowercase_def byte_of_def)
  ultimately show "container_is_ours (container_name name p)"
    using n by (cases p) (simp_all add: container_is_ours_def container_name_def recipe_char_def [abs_def, symmetric])
qed (simp_all add: rank_stop_def rank_alive_def)

text \<open>
  Whatever a head sends, a rank is this machine's own: a rendered plan comes from the recipe this
  machine resolves, whose hash is the one the head named, under settings this machine's own schema
  accepted, and with the isolation of this machine's profile: its privileges, security options,
  capabilities, devices, network, user and the one mount do not depend on the assignment.
\<close>

lemma rank_plan_own:
  assumes "plan_for svc a = Ok plan" and "c = pl_docker plan" and "prof = lc_profile (rk_ctx svc)"
  shows "(\<exists>r ov. registry_resolve (rk_nearest svc) (rk_registry svc) (recipe_ref_parse (ra_recipe a)) = Ok r \<and>
      content_hash (rk_sha svc) r = ra_recipe_hash a \<and> launchable r = Ok () \<and>
      validate (ra_settings a) = Ok ov \<and> dc_image c = rc_container r \<and>
      dc_name c = ''metrale-'' @ rc_name r @ ''-rank'' @ show_nat (unat (ra_rank a))) \<and>
    dc_privileged c = lp_privileged prof \<and> dc_security_opts c = lp_security_opts prof \<and>
    dc_cap_add c = lp_cap_add prof \<and> dc_devices c = lp_devices prof \<and> dc_network c = lp_network prof \<and>
    dc_user c = hs_posix_user (rk_host svc) \<and>
    dc_volumes c = [(hs_hf_cache_dir (rk_host svc), CONTAINER_HF_HOME)] \<and> \<not> dc_auto_remove c"
  using assms
  by (auto simp: plan_for_def translate_def result_bind_eq_Ok Let_def case_prod_beta container_name_def
      split: if_splits)

section \<open>An example\<close>

definition ex_run :: "unit runner" where
  "ex_run argv w = (Ok \<lparr>ou_status = 0, ou_stdout = [], ou_stderr = []\<rparr>, w)"

definition ex_svc :: "(unit, unit) rank_service" where
  "ex_svc = \<lparr>
     rk_registry = \<lparr>rg_builtin = (\<lambda>n. if n = ''r'' then Some (Ok ex_rec) else None),
       rg_builtin_names = [''r''], rg_remotes = []\<rparr>,
     rk_host = ex_host [], rk_ctx = ex_ctx, rk_run = ex_run, rk_can_launch = Ok (),
     rk_local_addresses = [], rk_answers = (\<lambda>_ _ _. True), rk_rdma_devices = [],
     rk_sha = ex_sha, rk_alnum = ex_alnum, rk_nearest = (\<lambda>_ _. []), rk_fmt = (\<lambda>_. [])\<rparr>"

definition ex_assignment :: rank_assignment where
  "ex_assignment = \<lparr>ra_node = NodeId (replicate 32 1), ra_rank = 1, ra_world_size = 2,
     ra_master_addr = ''192.168.177.11'', ra_master_port = 9, ra_recipe = ''r'',
     ra_recipe_hash = content_hash ex_sha ex_rec, ra_settings = []\<rparr>"

definition ex_idle :: "unit rank_state" where
  "ex_idle = \<lparr>rs_slot = None, rs_world = (), rs_log = []\<rparr>"

lemma ex_resolve: "registry_resolve n (rk_registry ex_svc) (recipe_ref_parse ''r'') = Ok ex_rec"
  by (simp add: ex_svc_def registry_resolve_def recipe_ref_parse_def resolve_bare_def suffix_def)

lemma ex_rank_translate: "is_ok (translate ex_alnum ex_rec [] [] (ex_host []) ex_rank ex_ctx)"
  by code_simp

lemma ex_plan_for: "is_ok (plan_for ex_svc ex_assignment)"
proof -
  have "validate [] = Ok []" by (simp add: validate_def)
  moreover obtain plan where
    "translate ex_alnum ex_rec [] [] (ex_host []) (Rank 1 2 ''192.168.177.11'' 9) ex_ctx = Ok plan"
    using ex_rank_translate by (auto simp: is_ok_iff ex_rank_def)
  ultimately show ?thesis
    by (simp add: plan_for_def ex_assignment_def ex_resolve Let_def) (simp add: ex_svc_def)
qed

lemma ex_docker_ok: "fst (docker_ok ex_svc st)"
  by (simp add: docker_ok_def rank_run_def ex_svc_def ex_run_def out_success_def)

lemma ex_check: "\<exists>plan st'. prepare_check ex_svc ex_assignment st = (Ok plan, st')"
  using ex_plan_for ex_docker_ok [of st]
  by (auto simp: is_ok_iff prepare_check_def case_prod_beta Let_def can_reach_def) (simp add: ex_svc_def)

lemma ex_admit: "rs_slot st = None \<Longrightarrow> prepare_admit ex_svc e 0 0 st = (None, st)"
  by (simp add: prepare_admit_def ex_svc_def)


theorem rank_prepare_correct_witness:
  "fst (rank_prepare ex_svc ''e'' ex_assignment 0 0 0 ex_idle) = Prepared \<and>
   (\<exists>plan. rs_slot (snd (rank_prepare ex_svc ''e'' ex_assignment 0 0 0 ex_idle)) =
      Some \<lparr>rv_epoch = ''e'', rv_recipe = ra_recipe ex_assignment, rv_plan = plan,
           rv_expires = 600 * 1000000000\<rparr>)"
proof -
  have "fst (rank_prepare ex_svc ''e'' ex_assignment 0 0 0 ex_idle) = Prepared"
    using ex_admit [of ex_idle "''e''"] ex_docker_ok ex_plan_for
      rank_prepare_correct [of ex_svc "''e''" ex_assignment 0 0 0 ex_idle]
    by (simp add: ex_idle_def can_reach_def) (simp add: ex_svc_def)
  with rank_prepare_correct [of ex_svc "''e''" ex_assignment 0 0 0 ex_idle] show ?thesis by auto
qed

text \<open>
  The two critical sections of a prepare leave a gap: two heads whose prepares interleave are both
  told that this machine is prepared, though it holds only the later reservation, so the earlier
  head's commit is refused after every rank promised it.
\<close>

lemma two_heads_both_prepared:
  "\<exists>s. reachable rank_init (rank_step ex_svc) s \<and>
     map fst (sy_prepared s) = [''f'', ''e''] \<and> sy_committed s = [] \<and>
     holds ''f'' (sy_state s) \<and> (\<exists>err. fst (rank_commit ex_svc ''e'' (sy_state s)) = Err err)"
proof -
  define s0 where "s0 = \<lparr>sy_state = ex_idle, sy_inflight = [], sy_prepared = [], sy_committed = []\<rparr>"
  define s1 where "s1 = s0\<lparr>sy_state := ex_idle, sy_inflight := [(''e'', ex_assignment)]\<rparr>"
  define s2 where "s2 = s1\<lparr>sy_state := ex_idle, sy_inflight := [(''f'', ex_assignment), (''e'', ex_assignment)]\<rparr>"
  obtain p3 st3 where c3: "prepare_check ex_svc ex_assignment (sy_state s2) = (Ok p3, st3)"
    using ex_check [of "sy_state s2"] by blast
  define s3 where "s3 = s2\<lparr>sy_state := prepare_store ''e'' ex_assignment p3 0 st3,
    sy_inflight := remove1 (''e'', ex_assignment) (sy_inflight s2),
    sy_prepared := (''e'', ex_assignment) # sy_prepared s2\<rparr>"
  obtain p4 st4 where c4: "prepare_check ex_svc ex_assignment (sy_state s3) = (Ok p4, st4)"
    using ex_check [of "sy_state s3"] by blast
  define s4 where "s4 = s3\<lparr>sy_state := prepare_store ''f'' ex_assignment p4 0 st4,
    sy_inflight := remove1 (''f'', ex_assignment) (sy_inflight s3),
    sy_prepared := (''f'', ex_assignment) # sy_prepared s3\<rparr>"
  have r0: "reachable rank_init (rank_step ex_svc) s0"
    by (rule reach_init) (simp add: rank_init_def s0_def ex_idle_def)
  have r1: "rank_step ex_svc s0 s1" "rank_step ex_svc s1 s2"
    using rank_step.admitted [of ex_svc "''e''" 0 0 s0 ex_idle ex_assignment]
      rank_step.admitted [of ex_svc "''f''" 0 0 s1 ex_idle ex_assignment] ex_admit [of ex_idle]
    by (simp_all add: s2_def s1_def s0_def ex_idle_def)
  have r2: "rank_step ex_svc s2 s3"
    unfolding s3_def by (rule rank_step.prepared [OF _ c3]) (simp add: s2_def)
  have r3: "rank_step ex_svc s3 s4"
    unfolding s4_def by (rule rank_step.prepared [OF _ c4]) (simp add: s3_def s2_def)
  have "reachable rank_init (rank_step ex_svc) s4"
    by (rule reach_step [OF reach_step [OF reach_step [OF reach_step [OF r0 r1(1)] r1(2)] r2] r3])
  moreover have "map fst (sy_prepared s4) = [''f'', ''e'']" "sy_committed s4 = []" "holds ''f'' (sy_state s4)"
    by (simp_all add: s4_def s3_def s2_def s1_def s0_def holds_def prepare_store_def)
  moreover have "\<exists>err. fst (rank_commit ex_svc ''e'' (sy_state s4)) = Err err"
    by (simp add: s4_def prepare_store_def rank_commit_def)
  ultimately show ?thesis by (intro exI [of _ s4] conjI)
qed

end
