(* ===== verification/Launcher.thy ===== *)
theory Launcher
  imports Translate Reconcile Process
begin

text \<open>
  The production launcher (\<open>metralectl-control/src/launcher.rs\<close>, \<open>launcher/docker.rs\<close>) and the
  decisions it takes from docker's account (\<open>launcher/idempotent.rs\<close>): reading \<open>docker ps\<close>, telling
  the same launch from another, the labels that record an owner, the workloads a stop could reach
  and the containers a stop must stop.

  The runner is a parameter over a world; so are reading the file system (\<open>hfcache::cache_state\<close>),
  the JSON reader and the wordings of \<open>anyhow\<close> and of \<open>Debug\<close>. The per-recipe gates serialise the
  calls on one recipe, so a call here is one that nothing interleaves with.

  The theorems: a stop reaches exactly the workloads that are observed for its recipe; a launch
  starts a container only when docker lists none of its name, and then exactly the planned one; the
  owner written on a container is the owner read back.
\<close>

section \<open>What docker prints\<close>

text \<open>\<open>str::lines\<close>: a trailing line break opens no line, and a carriage return before it is dropped.\<close>

definition chomp_cr :: "string \<Rightarrow> string" where
  "chomp_cr l = (if l \<noteq> [] \<and> last l = CHR 0x0D then butlast l else l)"

fun lines_from :: "string \<Rightarrow> string \<Rightarrow> string list" where
  "lines_from acc [] = (if acc = [] then [] else [acc])"
| "lines_from acc (c # cs) =
     (if c = CHR 0x0A then chomp_cr acc # lines_from [] cs else lines_from (acc @ [c]) cs)"

definition str_lines :: "string \<Rightarrow> string list" where
  "str_lines s = lines_from [] s"

text \<open>\<open>str::split\<close> at a one-byte separator; there is always a first piece.\<close>

fun split_on :: "char \<Rightarrow> string \<Rightarrow> string list" where
  "split_on sep [] = [[]]"
| "split_on sep (c # cs) =
     (if c = sep then [] # split_on sep cs
      else case split_on sep cs of p # ps \<Rightarrow> (c # p) # ps | [] \<Rightarrow> [[c]])"

definition nth_piece :: "nat \<Rightarrow> string list \<Rightarrow> string" where
  "nth_piece i ps = (if i < length ps then str_trim (ps ! i) else [])"

record ps_row =
  pr_id :: string
  pr_name :: string
  pr_recipe :: "string option"
  pr_deployment :: "string option"
  pr_generation :: "string option"

definition ps_label :: "string \<Rightarrow> string" where
  "ps_label key = ''{{.Label '' @ [CHR 0x22] @ key @ [CHR 0x22] @ ''}}''"

definition ps_format :: string where
  "ps_format = ''{{.ID}}'' @ [CHR 0x09] @ ''{{.Names}}'' @ [CHR 0x09] @ ps_label LABEL_RECIPE @ [CHR 0x09]
     @ ps_label LABEL_DEPLOYMENT @ [CHR 0x09] @ ps_label LABEL_GENERATION"

definition some_text :: "string \<Rightarrow> string option" where
  "some_text v = (if v = [] then None else Some v)"

definition parse_ps_line :: "(string \<Rightarrow> string) \<Rightarrow> string \<Rightarrow> (ps_row, string) result" where
  "parse_ps_line dbg line =
     (let parts = split_on (CHR 0x09) line; id = nth_piece 0 parts; name = nth_piece 1 parts in
      if id = [] \<or> name = []
      then Err (''docker ps printed a line without an id and a name: '' @ dbg line)
      else Ok \<lparr>pr_id = id, pr_name = name, pr_recipe = some_text (nth_piece 2 parts),
              pr_deployment = some_text (nth_piece 3 parts),
              pr_generation = some_text (nth_piece 4 parts)\<rparr>)"

text \<open>\<open>collect\<close> into a \<open>Result\<close>: the first error, or all values.\<close>

fun collect_results :: "('a, 'e) result list \<Rightarrow> ('a list, 'e) result" where
  "collect_results [] = Ok []"
| "collect_results (Ok a # rs) = result_bind (collect_results rs) (\<lambda>as. Ok (a # as))"
| "collect_results (Err e # rs) = Err e"

definition parse_ps :: "(string \<Rightarrow> string) \<Rightarrow> string \<Rightarrow> (ps_row list, string) result" where
  "parse_ps dbg stdout =
     collect_results (map (parse_ps_line dbg) (filter (\<lambda>l. str_trim l \<noteq> []) (str_lines stdout)))"

definition running_as :: "string \<Rightarrow> ps_row list \<Rightarrow> ps_row option" where
  "running_as name rows = find (\<lambda>r. pr_name r = name) rows"

definition INSPECT_FORMAT :: string where
  "INSPECT_FORMAT = ''{{json .Config}}''"

record launched_as =
  la_image :: string
  la_cmd :: "string list option"
  la_env :: "string list option"
  la_labels :: "(string, string) btree option"

definition opt_or_nil :: "'a list option \<Rightarrow> 'a list" where
  "opt_or_nil x = (case x of None \<Rightarrow> [] | Some xs \<Rightarrow> xs)"

definition is_same_launch :: "docker_command \<Rightarrow> launched_as \<Rightarrow> bool" where
  "is_same_launch plan launched =
     (dc_image plan = la_image launched \<and> opt_or_nil (la_cmd launched) = dc_command plan \<and>
      list_all (\<lambda>(k, v). list_ex (\<lambda>e. e = k @ ''='' @ v) (opt_or_nil (la_env launched))) (dc_env plan))"

section \<open>Owners\<close>

definition owner_labels :: "owner \<Rightarrow> (string \<times> string) list" where
  "owner_labels o' =
     [(LABEL_DEPLOYMENT, deployment_str (ow_deployment o')),
      (LABEL_GENERATION, show_nat (unat (generation_get (ow_generation o'))))]"

record control_trace =
  ct_attempt :: "8 word list"
  ct_trace_id :: "8 word list"

definition trace_labels :: "control_trace \<Rightarrow> (string \<times> string) list" where
  "trace_labels t =
     [(LABEL_ATTEMPT, hex_encode (ct_attempt t)), (LABEL_TRACE, hex_encode (ct_trace_id t))]"

definition owner_of :: "string option \<Rightarrow> string option \<Rightarrow> owner option" where
  "owner_of deployment generation =
     Option.bind deployment (\<lambda>d. Option.bind (deployment_name_parse d) (\<lambda>dn.
     Option.bind generation (\<lambda>g. Option.bind (parse_unsigned 64 g) (\<lambda>n.
     Option.bind (generation_new (of_nat n)) (\<lambda>gen.
       Some \<lparr>ow_deployment = dn, ow_generation = gen\<rparr>)))))"

definition is_owned_by :: "launched_as \<Rightarrow> owner \<Rightarrow> bool" where
  "is_owned_by launched o' =
     (let get = (\<lambda>k. Option.bind (la_labels launched) (\<lambda>l. bt_get l k)) in
      owner_of (get LABEL_DEPLOYMENT) (get LABEL_GENERATION) = Some o')"

section \<open>Workloads and stops\<close>

record workload =
  wl_id :: "8 word list"
  wl_instance :: run_instance

definition strip_prefix :: "string \<Rightarrow> string \<Rightarrow> string option" where
  "strip_prefix p s = (if prefix p s then Some (drop (length p) s) else None)"

definition row_recipe :: "ps_row \<Rightarrow> recipe_id option" where
  "row_recipe r =
     (case pr_recipe r of
        Some label \<Rightarrow> result_ok (recipe_id_parse label)
      | None \<Rightarrow>
          opt_filter (\<lambda>id. container_name (recipe_str id) Solo = pr_name r)
            (Option.bind (strip_prefix ''metrale-'' (pr_name r)) (\<lambda>n. result_ok (recipe_id_parse n))))"

definition row_instance_id :: "(string \<Rightarrow> string) \<Rightarrow> ps_row \<Rightarrow> (8 word list, string) result" where
  "row_instance_id dbg r =
     (if length (pr_id r) = 64 then hex_id_parse ''InstanceId'' 16 False (take 32 (pr_id r))
      else Err (''docker printed '' @ dbg (pr_id r) @ '', not a full container id''))"

definition row_workload :: "(string \<Rightarrow> string) \<Rightarrow> ps_row \<times> recipe_id \<Rightarrow> (workload, string) result" where
  "row_workload dbg rr =
     result_bind (row_instance_id dbg (fst rr)) (\<lambda>id.
       Ok \<lparr>wl_id = id, wl_instance = \<lparr>in_recipe = snd rr,
            in_owner = owner_of (pr_deployment (fst rr)) (pr_generation (fst rr))\<rparr>\<rparr>)"

definition workloads_of :: "(string \<Rightarrow> string) \<Rightarrow> ps_row list \<Rightarrow> (workload list, string) result" where
  "workloads_of dbg rows =
     collect_results (map (row_workload dbg)
       (List.map_filter (\<lambda>r. map_option (\<lambda>recipe. (r, recipe)) (row_recipe r)) rows))"

text \<open>The windows of two of a command line, in order.\<close>

fun port_of :: "string list \<Rightarrow> string option" where
  "port_of (a # b # cs) = (if a = ''--port'' then Some b else port_of (b # cs))"
| "port_of _ = None"

definition endpoint_of :: "string list \<Rightarrow> string option" where
  "endpoint_of command =
     (case port_of command of
        Some p \<Rightarrow> if p = ''0'' then None else Some (''http://localhost:'' @ p @ ''/v1'')
      | None \<Rightarrow> None)"

definition stop_row :: "string \<Rightarrow> ps_row \<Rightarrow> bool" where
  "stop_row recipe r =
     (case pr_recipe r of
        Some label \<Rightarrow> label = recipe
      | None \<Rightarrow> pr_name r = container_name recipe Solo)"

definition stop_targets :: "string \<Rightarrow> ps_row list \<Rightarrow> string list" where
  "stop_targets recipe rows = map pr_id (filter (stop_row recipe) rows)"

section \<open>The docker launcher\<close>

record oci_image =
  oi_repository :: string
  oi_digest :: string

definition oci_reference :: "oci_image \<Rightarrow> string" where
  "oci_reference i = oi_repository i @ ''@'' @ oi_digest i"

record verified_release =
  vr_digest :: "8 word list"
  vr_image :: oci_image
  vr_model :: string
  vr_signer :: "8 word list"

record launch_for =
  lf_owner :: "owner option"
  lf_release :: "verified_release option"
  lf_trace :: "control_trace option"

record preview =
  pv_command :: string
  pv_unapplied :: "string list"

record started =
  sd_container :: string
  sd_endpoint :: "string option"

datatype cache_state = Absent | MetadataOnly | Weights

text \<open>\<open>Path::join\<close> with a relative path.\<close>

definition path_join :: "string \<Rightarrow> string \<Rightarrow> string" where
  "path_join a b = (if a = [] then b else if last a = CHR ''/'' then a @ b else a @ ''/'' @ b)"

definition hub_dir :: "string \<Rightarrow> string \<Rightarrow> string option" where
  "hub_dir cache_root model =
     (if prefix ''/'' model \<or> prefix ''.'' model \<or> prefix ''~'' model then None
      else case split_on (CHR ''/'') model of
        [org, name] \<Rightarrow>
          if org = [] \<or> name = [] then None
          else Some (path_join (path_join cache_root ''hub'') (''models--'' @ org @ ''--'' @ name))
      | _ \<Rightarrow> None)"

record 'w docker_launcher =
  dl_run :: "'w runner"
  dl_host :: host_snapshot
  dl_profile :: launch_profile
  dl_devices :: device_profile
  dl_alnum :: "string \<Rightarrow> bool"
  dl_cache_state :: "'w \<Rightarrow> string \<Rightarrow> cache_state"
  dl_inspect_json :: "string \<Rightarrow> (launched_as, string) result"
  dl_dbg :: "string \<Rightarrow> string"
  dl_fmt :: "translate_error \<Rightarrow> string"

definition ps_argv :: "string list" where
  "ps_argv = [''docker'', ''ps'', ''--no-trunc'', ''--format'', ps_format]"

definition dl_ps ::
    "'w docker_launcher \<Rightarrow> 'w proc_state \<Rightarrow> (ps_row list, agent_error) result \<times> 'w proc_state" where
  "dl_ps l st =
     (let (r, st) = run_cmd (dl_run l) ps_argv st in
      (case r of
         Err e \<Rightarrow> Err (DockerUnavailable e)
       | Ok out \<Rightarrow>
           if \<not> out_success out then Err (DockerUnavailable (str_trim (ou_stderr out)))
           else map_err LaunchFailed (parse_ps (dl_dbg l) (ou_stdout out)), st))"

definition dl_inspect_argv :: "string \<Rightarrow> string list" where
  "dl_inspect_argv cid = [''docker'', ''inspect'', ''--format'', INSPECT_FORMAT, cid]"

definition dl_inspect ::
    "'w docker_launcher \<Rightarrow> string \<Rightarrow> 'w proc_state \<Rightarrow> (launched_as, agent_error) result \<times> 'w proc_state" where
  "dl_inspect l cid st =
     (let (r, st) = run_cmd (dl_run l) (dl_inspect_argv cid) st in
      (case r of
         Err e \<Rightarrow> Err (LaunchFailed e)
       | Ok out \<Rightarrow>
           if \<not> out_success out
           then Err (LaunchFailed (''docker inspect exited '' @ show_int (ou_status out) @ '': ''
                  @ str_trim (ou_stderr out)))
           else map_err LaunchFailed (dl_inspect_json l (str_trim (ou_stdout out))), st))"

text \<open>\<open>recipe_id\<close>: the wire id of a recipe.\<close>

definition wire_recipe_id :: "recipe \<Rightarrow> recipe_id" where
  "wire_recipe_id r =
     (case recipe_id_parse (rc_name r) of Ok rid \<Rightarrow> rid | Err _ \<Rightarrow> RecipeId ''unknown'')"

definition dl_plan ::
    "'w docker_launcher \<Rightarrow> recipe \<Rightarrow> config \<Rightarrow> (launch_plan, agent_error) result" where
  "dl_plan l recipe overrides =
     result_bind (map_err (\<lambda>e. NotLaunchable (wire_recipe_id recipe) (dl_fmt l e))
       (translate (dl_alnum l) recipe overrides [] (dl_host l) Solo
          \<lparr>lc_profile = dl_profile l, lc_devices = dl_devices l, lc_collective = nccl_roce\<rparr>))
       (\<lambda>plan. Ok (plan\<lparr>pl_docker := (pl_docker plan)\<lparr>dc_auto_remove := False\<rparr>\<rparr>))"

definition dl_preview ::
    "'w docker_launcher \<Rightarrow> recipe \<Rightarrow> config \<Rightarrow> (preview, agent_error) result" where
  "dl_preview l recipe overrides =
     result_bind (dl_plan l recipe overrides) (\<lambda>plan.
       Ok \<lparr>pv_command = docker_command_to_string (pl_docker plan), pv_unapplied = map um_key (pl_unmapped plan)\<rparr>)"

text \<open>The command a launch runs: the plan with the labels of whom it is for and the release's image.\<close>

definition launch_command :: "docker_command \<Rightarrow> launch_for \<Rightarrow> docker_command" where
  "launch_command c lf =
     (let c = (case lf_owner lf of Some o' \<Rightarrow> c\<lparr>dc_labels := dc_labels c @ owner_labels o'\<rparr> | None \<Rightarrow> c);
          c = (case lf_trace lf of Some t \<Rightarrow> c\<lparr>dc_labels := dc_labels c @ trace_labels t\<rparr> | None \<Rightarrow> c)
      in case lf_release lf of Some r \<Rightarrow> c\<lparr>dc_image := oci_reference (vr_image r)\<rparr> | None \<Rightarrow> c)"

definition weights_missing ::
    "'w docker_launcher \<Rightarrow> 'w \<Rightarrow> recipe \<Rightarrow> docker_command \<Rightarrow> string option" where
  "weights_missing l w recipe c =
     (if ''--model-from-path'' \<in> set (dc_command c) then None
      else case hub_dir (hs_hf_cache_dir (dl_host l)) (rc_model recipe) of
        None \<Rightarrow> None
      | Some dir \<Rightarrow>
          (case dl_cache_state l w dir of
             Weights \<Rightarrow> None
           | Absent \<Rightarrow> Some (''the model `'' @ rc_model recipe @ ''` is not in this machine'' @ [CHR 0x27]
               @ ''s HuggingFace cache ('' @ hs_hf_cache_dir (dl_host l)
               @ ''). The launch runs offline, so it cannot download it '' @ em_dash
               @ '' fetch it first with `hf download '' @ rc_model recipe @ ''`.'')
           | MetadataOnly \<Rightarrow> Some (''the model `'' @ rc_model recipe @ ''` has a cache directory in ''
               @ hs_hf_cache_dir (dl_host l) @ '' but no weight files '' @ em_dash
               @ '' what an interrupted or metadata-only download leaves behind. Complete it with `hf download ''
               @ rc_model recipe @ ''`.'')))"

definition dl_start ::
    "'w docker_launcher \<Rightarrow> docker_command \<Rightarrow> 'w proc_state \<Rightarrow> (started, agent_error) result \<times> 'w proc_state" where
  "dl_start l c st =
     (let (_, st) = run_cmd (dl_run l) [''docker'', ''rm'', ''-f'', dc_name c] st;
          (r, st) = run_cmd (dl_run l) (to_argv c) st in
      (case r of
         Err e \<Rightarrow> Err (LaunchFailed e)
       | Ok out \<Rightarrow>
           if \<not> out_success out
           then Err (LaunchFailed (''docker run exited '' @ show_int (ou_status out) @ '': ''
                  @ str_trim (ou_stderr out)))
           else Ok \<lparr>sd_container = dc_name c, sd_endpoint = endpoint_of (dc_command c)\<rparr>, st))"

definition dl_launch ::
    "'w docker_launcher \<Rightarrow> recipe \<Rightarrow> config \<Rightarrow> launch_for \<Rightarrow> 'w proc_state \<Rightarrow>
     (started, agent_error) result \<times> 'w proc_state" where
  "dl_launch l recipe overrides lf st =
     (case dl_plan l recipe overrides of
        Err e \<Rightarrow> (Err e, st)
      | Ok plan \<Rightarrow>
          let c = launch_command (pl_docker plan) lf in
          (case weights_missing l (pc_world st) recipe c of
             Some detail \<Rightarrow> (Err (LaunchFailed detail), st)
           | None \<Rightarrow>
               st_bind (dl_ps l st) (\<lambda>rows st.
               case running_as (dc_name c) rows of
                 Some row \<Rightarrow>
                   st_bind (dl_inspect l (pr_id row) st) (\<lambda>launched st.
                   let owned = (case lf_owner lf of None \<Rightarrow> True | Some o' \<Rightarrow> is_owned_by launched o') in
                   if \<not> owned \<or> \<not> is_same_launch c launched
                   then (Err (AlreadyRunning (wire_recipe_id recipe)), st)
                   else (Ok \<lparr>sd_container = dc_name c, sd_endpoint = endpoint_of (dc_command c)\<rparr>, st))
               | None \<Rightarrow> dl_start l c st)))"

definition dl_fetch_image ::
    "'w docker_launcher \<Rightarrow> oci_image \<Rightarrow> 'w proc_state \<Rightarrow> (unit, string) result \<times> 'w proc_state" where
  "dl_fetch_image l img st =
     (let reference = oci_reference img;
          (r, st) = run_cmd (dl_run l) [''docker'', ''image'', ''inspect'', ''--format'', ''{{.Id}}'', reference] st;
          present = (case r of Ok out \<Rightarrow> out_success out | Err _ \<Rightarrow> False) in
      if present then (Ok (), st)
      else let (r, st) = run_cmd (dl_run l) [''docker'', ''pull'', reference] st in
        (case r of
           Err e \<Rightarrow> Err (''docker pull '' @ reference @ '': '' @ e)
         | Ok out \<Rightarrow>
             if out_success out then Ok ()
             else Err (''docker pull '' @ reference @ '' exited '' @ show_int (ou_status out) @ '': ''
                    @ str_trim (ou_stderr out)), st))"

definition dl_stop ::
    "'w docker_launcher \<Rightarrow> string \<Rightarrow> 'w proc_state \<Rightarrow> (unit, agent_error) result \<times> 'w proc_state" where
  "dl_stop l recipe st =
     st_bind (dl_ps l st) (\<lambda>rows st.
     let ids = stop_targets recipe rows in
     if ids = [] then (Ok (), st)
     else let (r, st) = run_cmd (dl_run l) ([''docker'', ''stop''] @ ids) st in
       (case r of
          Err e \<Rightarrow> Err (LaunchFailed e)
        | Ok out \<Rightarrow> if out_success out then Ok () else Err (LaunchFailed (str_trim (ou_stderr out))), st))"

definition running_argv :: "string list" where
  "running_argv = [''docker'', ''ps'', ''--filter'', ''label='' @ LABEL_MANAGED @ ''=1'',
     ''--format'', ''{{.Names}}'' @ [CHR 0x09] @ ''{{.Status}}'']"

text \<open>A piece as it is, without trimming.\<close>

definition raw_piece :: "nat \<Rightarrow> string list \<Rightarrow> string" where
  "raw_piece i ps = (if i < length ps then ps ! i else [])"

definition running_line :: "string \<Rightarrow> running_launch" where
  "running_line line =
     (let parts = split_on (CHR 0x09) line; container = raw_piece 0 parts in
      \<lparr>rl_container = container,
       rl_recipe = Option.bind (strip_prefix ''metrale-'' container) (\<lambda>s. result_ok (recipe_id_parse s)),
       rl_status = raw_piece 1 parts\<rparr>)"

definition dl_running ::
    "'w docker_launcher \<Rightarrow> 'w proc_state \<Rightarrow> (running_launch list, agent_error) result \<times> 'w proc_state" where
  "dl_running l st =
     (let (r, st) = run_cmd (dl_run l) running_argv st in
      (case r of
         Err e \<Rightarrow> Err (DockerUnavailable e)
       | Ok out \<Rightarrow>
           if \<not> out_success out then Err (DockerUnavailable (str_trim (ou_stderr out)))
           else Ok (map running_line (filter (\<lambda>line. str_trim line \<noteq> []) (str_lines (ou_stdout out)))), st))"

definition dl_workloads ::
    "'w docker_launcher \<Rightarrow> 'w proc_state \<Rightarrow> (workload list, agent_error) result \<times> 'w proc_state" where
  "dl_workloads l st =
     (let (r, st) = dl_ps l st in
      (result_bind r (\<lambda>rows. map_err LaunchFailed (workloads_of (dl_dbg l) rows)), st))"

section \<open>Lemmas\<close>

lemma collect_results_Ok:
  "collect_results rs = Ok xs \<longleftrightarrow> rs = map Ok xs"
proof (induction rs arbitrary: xs rule: collect_results.induct)
  case (2 a rs)
  then show ?case by (cases xs) (auto simp: result_bind_eq_Ok)
qed auto

lemma recipe_id_of_str: "recipe_id_parse s = Ok r \<longleftrightarrow> recipe_id_parse s = Ok (RecipeId s) \<and> r = RecipeId s"
  by (auto dest: recipe_id_parse_Ok)

text \<open>A row counts as a workload of a recipe exactly when a stop of the recipe reaches it.\<close>

lemma row_recipe_stop:
  assumes "recipe_id_parse (recipe_str r) = Ok r"
  shows "row_recipe row = Some r \<longleftrightarrow> stop_row (recipe_str r) row"
proof (cases "pr_recipe row")
  case (Some label)
  have "recipe_id_parse label = Ok r \<longleftrightarrow> label = recipe_str r"
    using assms recipe_id_of_str [of label r] by (metis recipe_id.sel)
  with Some show ?thesis by (simp add: row_recipe_def stop_row_def)
next
  case None
  have "row_recipe row = Some r \<longleftrightarrow>
      container_name (recipe_str r) Solo = pr_name row \<and>
      (\<exists>n. strip_prefix ''metrale-'' (pr_name row) = Some n \<and> recipe_id_parse n = Ok r)"
    using None by (auto simp: row_recipe_def bind_eq_Some_conv)
  also have "\<dots> \<longleftrightarrow> pr_name row = container_name (recipe_str r) Solo"
    using assms by (auto simp: container_name_def strip_prefix_def)
  finally show ?thesis using None by (simp add: stop_row_def)
qed

lemma dl_ps_log [simp]: "pc_log (snd (dl_ps l st)) = pc_log st @ [ps_argv]"
  by (simp add: dl_ps_def case_prod_beta)

lemma dl_inspect_log [simp]: "pc_log (snd (dl_inspect l cid st)) = pc_log st @ [dl_inspect_argv cid]"
  by (simp add: dl_inspect_def case_prod_beta)

lemma dl_start_log [simp]:
  "pc_log (snd (dl_start l c st)) = pc_log st @ [[''docker'', ''rm'', ''-f'', dc_name c], to_argv c]"
  by (simp add: dl_start_def case_prod_beta Let_def)

lemma parse_owner_generation:
  "parse_unsigned 64 (show_nat (unat (w :: 64 word))) = Some (unat w)"
  using unsigned_less [of w, where ?'a = nat] by (intro parse_show_nat) simp

lemma owner_of_labels:
  assumes "deployment_name_parse (deployment_str (ow_deployment o')) \<noteq> None"
    and "generation_get (ow_generation o') \<noteq> 0"
  shows "owner_of (Some (deployment_str (ow_deployment o')))
    (Some (show_nat (unat (generation_get (ow_generation o'))))) = Some o'"
  using assms
  by (cases "ow_deployment o'"; cases "ow_generation o'")
    (auto simp: owner_of_def deployment_name_parse_def parse_owner_generation generation_new_def split: if_splits)

lemma owner_of_Some:
  assumes "owner_of d g = Some o'"
  shows "\<exists>ds gs. d = Some ds \<and> g = Some gs \<and> is_dns_label ds \<and> ow_deployment o' = DeploymentName ds \<and>
    generation_get (ow_generation o') \<noteq> 0"
  using assms
  by (auto simp: owner_of_def bind_eq_Some_conv deployment_name_parse_def generation_new_def split: if_splits)

section \<open>Claims\<close>

text \<open>
  C12. What is observed is what a stop reaches: from one account of docker's, the workloads of a recipe
  are, in order, exactly the containers that a stop of the recipe stops. So a decision to stop a
  recipe that looked at every workload of it has looked at every container the stop will touch.
\<close>

theorem stop_targets_are_workloads:
  assumes "workloads_of dbg rows = Ok ws" and "recipe_id_parse name = Ok r"
  shows "map Ok (map wl_id (filter (\<lambda>w. in_recipe (wl_instance w) = r) ws)) =
    map (\<lambda>cid. hex_id_parse ''InstanceId'' 16 False (take 32 cid)) (stop_targets name rows)"
  using assms(1)
proof (induction rows arbitrary: ws)
  case Nil
  then show ?case by (simp add: workloads_of_def stop_targets_def List.map_filter_def)
next
  case (Cons row rows)
  have n: "name = recipe_str r" "recipe_id_parse (recipe_str r) = Ok r"
    using assms(2) recipe_id_of_str [of name r] by auto
  show ?case
  proof (cases "row_recipe row")
    case None
    with Cons row_recipe_stop [OF n(2), of row] show ?thesis
      by (auto simp: workloads_of_def stop_targets_def List.map_filter_def n(1))
  next
    case (Some q)
    with Cons.prems obtain w ws' where w: "row_workload dbg (row, q) = Ok w" "ws = w # ws'"
      "workloads_of dbg rows = Ok ws'"
      by (auto simp: workloads_of_def List.map_filter_def collect_results_Ok map_eq_Cons_conv Cons_eq_map_conv)
    from w(1) have id: "hex_id_parse ''InstanceId'' 16 False (take 32 (pr_id row)) = Ok (wl_id w)"
      "in_recipe (wl_instance w) = q"
      by (auto simp: row_workload_def result_bind_eq_Ok row_instance_id_def split: if_splits)
    have "stop_row name row \<longleftrightarrow> q = r"
      using row_recipe_stop [OF n(2), of row] Some by (auto simp: n(1))
    with Cons.IH [OF w(3)] id w(2) show ?thesis by (auto simp: stop_targets_def)
  qed
qed

text \<open>
  A launch starts at most one container, and only where docker lists none of its name: either it
  is refused with at most one listing; or a container of its name was listed, only a question about
  it was asked, and the launch is answered as done exactly when that container is the same launch for
  the same owner; or none was listed, and a dead container of the name is removed and exactly the
  planned command, with the owner's labels and the release's image, is run.
\<close>

lemma launch_idempotent:
  assumes "dl_launch l recipe overrides lf st = (r, st')"
  shows "(\<not> is_ok r \<and> (pc_log st' = pc_log st \<or> pc_log st' = pc_log st @ [ps_argv])) \<or>
    (\<exists>plan c rows st1. dl_plan l recipe overrides = Ok plan \<and> c = launch_command (pl_docker plan) lf \<and>
       dl_ps l st = (Ok rows, st1) \<and>
       ((\<exists>row\<in>set rows. pr_name row = dc_name c \<and>
           pc_log st' = pc_log st @ [ps_argv, dl_inspect_argv (pr_id row)] \<and>
           (is_ok r \<longleftrightarrow> (\<exists>launched st2. dl_inspect l (pr_id row) st1 = (Ok launched, st2) \<and>
              is_same_launch c launched \<and>
              (case lf_owner lf of None \<Rightarrow> True | Some o' \<Rightarrow> is_owned_by launched o')))) \<or>
        (list_all (\<lambda>row. pr_name row \<noteq> dc_name c) rows \<and>
           pc_log st' = pc_log st @ [ps_argv, [''docker'', ''rm'', ''-f'', dc_name c], to_argv c])))"
proof (cases "dl_plan l recipe overrides")
  case (Err e)
  with assms show ?thesis by (auto simp: dl_launch_def)
next
  case (Ok plan)
  define c where "c = launch_command (pl_docker plan) lf"
  show ?thesis
  proof (cases "weights_missing l (pc_world st) recipe c")
    case (Some d)
    with assms Ok show ?thesis by (auto simp: dl_launch_def c_def Let_def)
  next
    case None
    obtain q st1 where q: "dl_ps l st = (q, st1)" by fastforce
    then have log1: "pc_log st1 = pc_log st @ [ps_argv]" using dl_ps_log [of l st] by simp
    show ?thesis
    proof (cases q)
      case (Err e)
      with assms Ok None q log1 show ?thesis by (auto simp: dl_launch_def c_def Let_def)
    next
      case (Ok rows)
      note launch = assms [unfolded dl_launch_def, simplified \<open>dl_plan l recipe overrides = Ok plan\<close> q Ok
          result.case Let_def c_def [symmetric] None option.case st_bind_simps]
      show ?thesis
      proof (cases "running_as (dc_name c) rows")
        case None
        then have "list_all (\<lambda>row. pr_name row \<noteq> dc_name c) rows"
          by (auto simp: running_as_def find_None_all list_all_iff)
        moreover have "pc_log st' = pc_log st @ [ps_argv, [''docker'', ''rm'', ''-f'', dc_name c], to_argv c]"
          using launch None dl_start_log [of l c st1] log1 by simp
        ultimately show ?thesis
          using \<open>dl_plan l recipe overrides = Ok plan\<close> q Ok c_def by blast
      next
        case (Some row)
        then have row: "row \<in> set rows" "pr_name row = dc_name c"
          by (auto simp: running_as_def dest: find_Some_in)
        obtain i st2 where i: "dl_inspect l (pr_id row) st1 = (i, st2)" by fastforce
        then have "pc_log st2 = pc_log st @ [ps_argv, dl_inspect_argv (pr_id row)]"
          using dl_inspect_log [of l "pr_id row" st1] log1 by simp
        with launch Some i have "pc_log st' = pc_log st @ [ps_argv, dl_inspect_argv (pr_id row)]"
          "is_ok r \<longleftrightarrow> (\<exists>launched st2. dl_inspect l (pr_id row) st1 = (Ok launched, st2) \<and>
              is_same_launch c launched \<and>
              (case lf_owner lf of None \<Rightarrow> True | Some o' \<Rightarrow> is_owned_by launched o'))"
          by (cases i; auto split: if_splits)+
        with row show ?thesis
          using \<open>dl_plan l recipe overrides = Ok plan\<close> q Ok c_def by blast
      qed
    qed
  qed
qed

section \<open>Labels read back\<close>

text \<open>How docker prints a container in the listing's format: the columns of \<^const>\<open>ps_format\<close>, a
  label that is not set being empty.\<close>

definition opt_text :: "string option \<Rightarrow> string" where
  "opt_text x = (case x of None \<Rightarrow> [] | Some s \<Rightarrow> s)"

definition print_row :: "ps_row \<Rightarrow> string" where
  "print_row r = pr_id r @ [CHR 0x09] @ pr_name r @ [CHR 0x09] @ opt_text (pr_recipe r) @ [CHR 0x09]
     @ opt_text (pr_deployment r) @ [CHR 0x09] @ opt_text (pr_generation r)"

definition clean :: "string \<Rightarrow> bool" where
  "clean s = list_all (\<lambda>c. is_ascii c \<and> \<not> char_is_whitespace [c]) s"

definition row_clean :: "ps_row \<Rightarrow> bool" where
  "row_clean r = (pr_id r \<noteq> [] \<and> pr_name r \<noteq> [] \<and> pr_recipe r \<noteq> Some [] \<and> pr_deployment r \<noteq> Some [] \<and>
     pr_generation r \<noteq> Some [] \<and>
     list_all clean [pr_id r, pr_name r, opt_text (pr_recipe r), opt_text (pr_deployment r), opt_text (pr_generation r)])"

lemma dropWhile_none: "\<forall>x\<in>set xs. \<not> P x \<Longrightarrow> dropWhile P xs = xs"
  by (cases xs) auto

lemma str_trim_clean: "clean s \<Longrightarrow> str_trim s = s"
proof -
  assume "clean s"
  then have "str_chars s = map (\<lambda>c. [c]) s" and n: "\<forall>x\<in>set (map (\<lambda>c. [c]) s). \<not> char_is_whitespace x"
    by (auto simp: clean_def list_all_iff intro: str_chars_ascii)
  then show ?thesis by (simp add: str_trim_def dropWhile_none n)
qed

lemma clean_no_control: "clean s \<Longrightarrow> CHR 0x09 \<notin> set s \<and> CHR 0x0A \<notin> set s \<and> CHR 0x0D \<notin> set s"
  by (auto simp: clean_def list_all_iff char_is_whitespace_def byte_of_def)

lemma split_on_none: "sep \<notin> set p \<Longrightarrow> split_on sep p = [p]"
  by (induction p) auto

lemma split_on_append: "sep \<notin> set p \<Longrightarrow> split_on sep (p @ sep # s) = p # split_on sep s"
  by (induction p) auto

lemma some_text_opt: "x \<noteq> Some [] \<Longrightarrow> some_text (opt_text x) = x"
  by (cases x) (auto simp: some_text_def opt_text_def)

lemma parse_print_row: "row_clean r \<Longrightarrow> parse_ps_line dbg (print_row r) = Ok r"
proof -
  assume r: "row_clean r"
  have "split_on (CHR 0x09) (print_row r) =
      [pr_id r, pr_name r, opt_text (pr_recipe r), opt_text (pr_deployment r), opt_text (pr_generation r)]"
    using r by (simp add: print_row_def row_clean_def split_on_append split_on_none clean_no_control)
  with r show ?thesis
    by (simp add: parse_ps_line_def Let_def nth_piece_def row_clean_def str_trim_clean some_text_opt)
qed

lemma lines_from_append:
  "CHR 0x0A \<notin> set l \<Longrightarrow> lines_from acc (l @ CHR 0x0A # s) = chomp_cr (acc @ l) # lines_from [] s"
  by (induction l arbitrary: acc) auto

lemma str_lines_unlines:
  assumes "\<forall>l\<in>set ls. CHR 0x0A \<notin> set l \<and> CHR 0x0D \<notin> set l"
  shows "str_lines (concat (map (\<lambda>l. l @ [CHR 0x0A]) ls)) = ls"
proof -
  have "chomp_cr l = l" if "CHR 0x0D \<notin> set l" for l
    using that by (auto simp: chomp_cr_def dest: last_in_set)
  with assms show ?thesis
    unfolding str_lines_def by (induction ls) (auto simp: lines_from_append)
qed

lemma print_row_plain:
  assumes "row_clean r"
  shows "CHR 0x0A \<notin> set (print_row r) \<and> CHR 0x0D \<notin> set (print_row r)"
  using assms by (auto simp: print_row_def row_clean_def dest: clean_no_control)

lemma in_dropWhile: "x \<in> set xs \<Longrightarrow> \<not> P x \<Longrightarrow> x \<in> set (dropWhile P xs)"
  by (induction xs) auto

lemma str_trim_ne:
  assumes "c \<in> set s" and "\<forall>c\<in>set s. is_ascii c" and "\<not> char_is_whitespace [c]"
  shows "str_trim s \<noteq> []"
proof -
  have "[c] \<in> set (str_chars s)" using str_chars_ascii [OF assms(2)] assms(1) by simp
  then have "[c] \<in> set (rev (dropWhile char_is_whitespace (str_chars s)))"
    using assms(3) by (simp add: in_dropWhile)
  then have "[c] \<in> set (rev (dropWhile char_is_whitespace (rev (dropWhile char_is_whitespace (str_chars s)))))"
    using assms(3) by (simp add: in_dropWhile)
  then show ?thesis unfolding str_trim_def by (metis concat_eq_Nil_conv list.distinct(1))
qed

lemma print_row_shown: "row_clean r \<Longrightarrow> str_trim (print_row r) \<noteq> []"
proof -
  assume r: "row_clean r"
  then obtain c cs where "pr_id r = c # cs" by (cases "pr_id r") (auto simp: row_clean_def)
  with r have "c \<in> set (print_row r)" "\<not> char_is_whitespace [c]"
    by (auto simp: row_clean_def clean_def print_row_def)
  moreover have "\<forall>c\<in>set (print_row r). is_ascii c"
    using r by (auto simp: row_clean_def clean_def print_row_def list_all_iff is_ascii_def byte_of_def)
  ultimately show ?thesis by (intro str_trim_ne)
qed

lemma parse_ps_reads_back:
  assumes "list_all row_clean rows"
  shows "parse_ps dbg (concat (map (\<lambda>l. l @ [CHR 0x0A]) (map print_row rows))) = Ok rows"
proof -
  have "str_lines (concat (map (\<lambda>l. l @ [CHR 0x0A]) (map print_row rows))) = map print_row rows"
    by (rule str_lines_unlines) (use assms print_row_plain in \<open>auto simp: list_all_iff\<close>)
  moreover have "filter (\<lambda>l. str_trim l \<noteq> []) (map print_row rows) = map print_row rows"
    using assms print_row_shown by (auto simp: filter_id_conv list_all_iff)
  moreover have "map (parse_ps_line dbg) (map print_row rows) = map Ok rows"
    using assms parse_print_row by (auto simp: list_all_iff)
  ultimately show ?thesis by (simp add: parse_ps_def collect_results_Ok)
qed

lemma plain_charI: "33 \<le> byte_of c \<Longrightarrow> byte_of c < 127 \<Longrightarrow> is_ascii c \<and> \<not> char_is_whitespace [c]"
  by (simp add: is_ascii_def char_is_whitespace_def)

lemma recipe_char_plain: "recipe_char c \<Longrightarrow> is_ascii c \<and> \<not> char_is_whitespace [c]"
proof (rule plain_charI)
  assume c: "recipe_char c"
  have "byte_of (CHR ''.'') = 46" "byte_of (CHR ''-'') = 45" by (simp_all add: byte_of_def)
  with c show "33 \<le> byte_of c" "byte_of c < 127"
    by (auto simp: recipe_char_def is_ascii_lowercase_def is_ascii_digit_def)
qed

lemma clean_recipe_chars: "list_all recipe_char s \<Longrightarrow> clean s"
  using recipe_char_plain by (simp add: clean_def list_all_iff)

lemma clean_label: "is_dns_label s \<Longrightarrow> clean s \<and> s \<noteq> []"
  by (auto simp: is_dns_label_def list_all_iff recipe_char_def intro!: clean_recipe_chars)

lemma clean_show_nat: "clean (show_nat n)"
  by (rule clean_recipe_chars) (auto simp: list_all_iff recipe_char_def dest: show_nat_digits)

lemma dc_labels_launch_command:
  "dc_labels (launch_command c lf) = dc_labels c @
     (case lf_owner lf of Some o' \<Rightarrow> owner_labels o' | None \<Rightarrow> []) @
     (case lf_trace lf of Some t \<Rightarrow> trace_labels t | None \<Rightarrow> [])"
  by (simp add: launch_command_def Let_def split: option.splits)

lemma launch_labels:
  assumes "dl_plan l recipe overrides = Ok plan" and "lf_owner lf = Some o'"
  defines "labels \<equiv> bt_of_list (dc_labels (launch_command (pl_docker plan) lf))"
  shows "bt_get labels LABEL_DEPLOYMENT = Some (deployment_str (ow_deployment o'))"
    and "bt_get labels LABEL_GENERATION = Some (show_nat (unat (generation_get (ow_generation o'))))"
    and "bt_get labels LABEL_RECIPE = Some (rc_name recipe)"
proof -
  have "dc_labels (pl_docker plan) = [(LABEL_MANAGED, ''1''), (LABEL_RECIPE, rc_name recipe)]"
    using assms(1) by (auto simp: dl_plan_def translate_def result_bind_eq_Ok Let_def case_prod_beta)
  then show "bt_get labels LABEL_DEPLOYMENT = Some (deployment_str (ow_deployment o'))"
    "bt_get labels LABEL_GENERATION = Some (show_nat (unat (generation_get (ow_generation o'))))"
    "bt_get labels LABEL_RECIPE = Some (rc_name recipe)"
    using assms(2)
    by (auto simp: labels_def bt_get_def dc_labels_launch_command owner_labels_def trace_labels_def bt_of_list_def
        LABEL_DEPLOYMENT_def LABEL_GENERATION_def LABEL_RECIPE_def LABEL_MANAGED_def LABEL_ATTEMPT_def
        LABEL_TRACE_def split: option.splits)
qed

text \<open>
  The owner survives a restart: a container launched for a deployment and generation carries
  them as labels, and whoever reads docker's account of it later, from the listing or from the
  container's configuration, gets exactly that deployment and generation back, and the recipe.
\<close>

lemma owner_reads_back:
  assumes "dl_plan l recipe overrides = Ok plan" and "lf_owner lf = Some o'"
    and "is_dns_label (deployment_str (ow_deployment o'))" and "generation_get (ow_generation o') \<noteq> 0"
    and "recipe_id_parse (rc_name recipe) = Ok rid"
    and "labels = bt_of_list (dc_labels (launch_command (pl_docker plan) lf))"
    and "cid \<noteq> [] \<and> clean cid" and "name \<noteq> [] \<and> clean name"
  shows "(\<forall>image cmd env o''. is_owned_by \<lparr>la_image = image, la_cmd = cmd, la_env = env,
        la_labels = Some labels\<rparr> o'' \<longleftrightarrow> o'' = o') \<and>
    (\<exists>row. parse_ps_line dbg (cid @ [CHR 0x09] @ name @ [CHR 0x09] @ opt_text (bt_get labels LABEL_RECIPE) @ [CHR 0x09]
        @ opt_text (bt_get labels LABEL_DEPLOYMENT) @ [CHR 0x09] @ opt_text (bt_get labels LABEL_GENERATION)) = Ok row \<and>
       row_recipe row = Some rid \<and> owner_of (pr_deployment row) (pr_generation row) = Some o')"
proof -
  note lab = launch_labels [OF assms(1,2), folded assms(6)]
  have own: "owner_of (bt_get labels LABEL_DEPLOYMENT) (bt_get labels LABEL_GENERATION) = Some o'"
    unfolding lab using owner_of_labels [of o'] assms(3,4) by (simp add: deployment_name_parse_def)
  let ?row = "\<lparr>pr_id = cid, pr_name = name, pr_recipe = bt_get labels LABEL_RECIPE,
    pr_deployment = bt_get labels LABEL_DEPLOYMENT, pr_generation = bt_get labels LABEL_GENERATION\<rparr>"
  have "clean (rc_name recipe)" "rc_name recipe \<noteq> []"
    using recipe_id_parse_Ok [OF assms(5)] by (auto simp: list_all_iff intro!: clean_recipe_chars)
  then have "row_clean ?row"
    using assms(7,8) clean_label [OF assms(3)] clean_show_nat by (simp add: row_clean_def lab opt_text_def)
  from parse_print_row [OF this, of dbg] have "parse_ps_line dbg (print_row ?row) = Ok ?row" .
  moreover have "row_recipe ?row = Some rid" using assms(5) by (simp add: row_recipe_def lab(3))
  ultimately show ?thesis
    using own by (auto simp: print_row_def is_owned_by_def intro!: exI [of _ ?row])
qed

section \<open>An example\<close>

definition ex_solo :: recipe where
  "ex_solo = ex_rec\<lparr>rc_topology := \<lparr>tp_min_nodes = 1, tp_max_nodes = None\<rparr>,
     rc_defaults := [(''port'', SIntV 9)]\<rparr>"

definition ex_dl :: "unit docker_launcher" where
  "ex_dl = \<lparr>dl_run = (\<lambda>argv w. (Ok \<lparr>ou_status = 0, ou_stdout = [], ou_stderr = []\<rparr>, w)),
     dl_host = ex_host [], dl_profile = ROOTLESS_V1, dl_devices = nvidia_devices, dl_alnum = ex_alnum,
     dl_cache_state = (\<lambda>_ _. Weights), dl_inspect_json = (\<lambda>_. Err []), dl_dbg = (\<lambda>s. s), dl_fmt = (\<lambda>_. [])\<rparr>"

definition ex_owner :: owner where
  "ex_owner = \<lparr>ow_deployment = DeploymentName ''chat'', ow_generation = Generation 3\<rparr>"

definition ex_for :: launch_for where
  "ex_for = \<lparr>lf_owner = Some ex_owner, lf_release = None, lf_trace = None\<rparr>"

definition ex_proc :: "unit proc_state" where
  "ex_proc = \<lparr>pc_world = (), pc_log = []\<rparr>"

definition ex_rows :: "ps_row list" where
  "ex_rows =
     [\<lparr>pr_id = replicate 64 (CHR ''a''), pr_name = ''metrale-r'', pr_recipe = Some ''r'',
       pr_deployment = Some ''chat'', pr_generation = Some ''3''\<rparr>,
      \<lparr>pr_id = replicate 64 (CHR ''b''), pr_name = ''postgres'', pr_recipe = None,
       pr_deployment = None, pr_generation = None\<rparr>]"

lemma ex_recipe_id: "recipe_id_parse ''r'' = Ok (RecipeId ''r'')"
  by code_simp

lemma ex_instance_id: "is_ok (hex_id_parse ''InstanceId'' 16 False (replicate 32 (CHR ''a'')))"
  by code_simp

lemma ex_workloads: "\<exists>w. workloads_of (\<lambda>s. s) ex_rows = Ok [w] \<and> in_recipe (wl_instance w) = RecipeId ''r''"
proof -
  obtain i where "hex_id_parse ''InstanceId'' 16 False (replicate 32 (CHR ''a'')) = Ok i"
    using ex_instance_id by (auto simp: is_ok_iff)
  then show ?thesis
    by (simp add: workloads_of_def ex_rows_def List.map_filter_def row_recipe_def ex_recipe_id opt_filter_def
        strip_prefix_def row_workload_def row_instance_id_def min_def)
qed

theorem stop_targets_are_workloads_witness:
  "length (stop_targets ''r'' ex_rows) = 1"
proof -
  obtain w where w: "workloads_of (\<lambda>s. s) ex_rows = Ok [w]" "in_recipe (wl_instance w) = RecipeId ''r''"
    using ex_workloads by blast
  from arg_cong [OF stop_targets_are_workloads [OF w(1) ex_recipe_id], of length] w(2) show ?thesis by simp
qed

lemma ex_solo_translate: "is_ok (translate ex_alnum ex_solo [] [] (ex_host []) Solo ex_ctx)"
  by code_simp

lemma ex_dl_plan: "is_ok (dl_plan ex_dl ex_solo [])"
proof -
  obtain plan where "translate ex_alnum ex_solo [] [] (ex_host []) Solo ex_ctx = Ok plan"
    using ex_solo_translate by (auto simp: is_ok_iff)
  then show ?thesis by (simp add: dl_plan_def ex_dl_def ex_ctx_def)
qed

end
