(* ===== verification/Control.thy ===== *)
theory Control
  imports Launcher Settings
begin

text \<open>
  The one execution core behind every caller (\<open>metralectl-control/src/control.rs\<close>) with the
  admission gate (\<open>admission.rs\<close>), the cap on log requests (\<open>logs.rs\<close>) and, below it, the launcher's
  interface (\<open>launcher.rs\<close>): a record of the six operations over a world \<open>'w\<close>.

  The state pairs that world with the list of the calls made on the launcher, oldest first. What the
  gate says is read from the world, since a host may cordon the node at any moment; a panic inside the
  launcher is the \<open>LaunchFailed\<close> that the operation itself returns.

  The theorem: a launch reaches the launcher only through every gate, and a request that a gate
  refuses touches nothing.
\<close>

section \<open>Admission\<close>

datatype admission = Open | Cordoned string | Draining string

definition admits :: "admission \<Rightarrow> (unit, string) result" where
  "admits a = (case a of
     Open \<Rightarrow> Ok ()
   | Cordoned reason \<Rightarrow> Err (''this machine is cordoned and takes no new launches: '' @ reason)
   | Draining reason \<Rightarrow> Err (''this machine is draining and takes no new launches: '' @ reason))"

section \<open>Logs\<close>

definition MAX_LINES :: "32 word" where
  "MAX_LINES = 500"

definition clamp_lines :: "32 word \<Rightarrow> 32 word" where
  "clamp_lines asked = (if asked = 0 then 200 else min asked MAX_LINES)"

record log_tail =
  lt_container :: string
  lt_lines :: "string list"
  lt_running :: bool

section \<open>The launcher's interface\<close>

record 'w launcher =
  lr_preview :: "recipe \<Rightarrow> config \<Rightarrow> (preview, agent_error) result"
  lr_launch :: "recipe \<Rightarrow> config \<Rightarrow> launch_for \<Rightarrow> 'w \<Rightarrow> (started, agent_error) result \<times> 'w"
  lr_fetch_image :: "oci_image \<Rightarrow> 'w \<Rightarrow> (unit, string) result \<times> 'w"
  lr_stop :: "string \<Rightarrow> 'w \<Rightarrow> (unit, agent_error) result \<times> 'w"
  lr_running :: "'w \<Rightarrow> (running_launch list, agent_error) result \<times> 'w"
  lr_workloads :: "'w \<Rightarrow> (workload list, agent_error) result \<times> 'w"

datatype launcher_call =
    CallLaunch recipe config launch_for
  | CallFetchImage oci_image
  | CallStop string
  | CallRunning
  | CallWorkloads "(workload list, agent_error) result"

record 'w control_state =
  cs_world :: 'w
  cs_calls :: "launcher_call list"

text \<open>The docker launcher behind the interface.\<close>

definition docker_as_launcher :: "'w docker_launcher \<Rightarrow> 'w proc_state launcher" where
  "docker_as_launcher l = \<lparr>lr_preview = dl_preview l, lr_launch = dl_launch l,
     lr_fetch_image = dl_fetch_image l, lr_stop = dl_stop l, lr_running = dl_running l,
     lr_workloads = dl_workloads l\<rparr>"

record ('e, 'w, 'r) local_control =
  lc_registry :: "'e registry_set"
  lc_launcher :: "'w launcher"
  lc_telemetry :: "((recipe_id \<Rightarrow> 'w \<Rightarrow> ('r, string) result) \<times>
    (recipe_id \<Rightarrow> 32 word \<Rightarrow> 'w \<Rightarrow> (log_tail, string) result)) option"
  lc_can_launch :: "(unit, string) result"
  lc_accelerator :: string
  lc_admission :: "'w \<Rightarrow> admission"
  lc_nearest :: nearest_fn

section \<open>Operations\<close>

definition control_resolve ::
    "('e, 'w, 'r) local_control \<Rightarrow> recipe_id \<Rightarrow> (recipe, agent_error) result" where
  "control_resolve c rid =
     map_err (\<lambda>_. UnknownRecipe (recipe_str rid))
       (registry_resolve (lc_nearest c) (lc_registry c) (Bare (recipe_str rid)))"

definition check_settings :: "settings \<Rightarrow> (config, agent_error) result" where
  "check_settings requested = map_err BadSettings (validate requested)"

definition to_wire :: "scalar_value \<Rightarrow> setting_value" where
  "to_wire v = (case v of SBool b \<Rightarrow> VBool b | SIntV i \<Rightarrow> VInt i | SFloatV f \<Rightarrow> VFloat f | SStr s \<Rightarrow> VStr s)"

definition recipe_entry :: "('e, 'w, 'r) local_control \<Rightarrow> string \<Rightarrow> recipe_info option" where
  "recipe_entry c name =
     Option.bind (result_ok (recipe_id_parse name)) (\<lambda>rid.
     Option.bind (result_ok (registry_resolve (lc_nearest c) (lc_registry c) (Bare name))) (\<lambda>r.
     let (runnable, reason) = (case launchable r of
           Ok _ \<Rightarrow> (True, None) | Err why \<Rightarrow> (False, Some (not_launchable_to_string why))) in
     Some \<lparr>ri_id = rid, ri_model = rc_model r, ri_nodes = tp_min_nodes (rc_topology r),
           ri_runnable = runnable, ri_reason = reason,
           ri_defaults = map (\<lambda>(k, v). (k, to_wire v)) (rc_defaults r)\<rparr>))"

definition control_recipes :: "('e, 'w, 'r) local_control \<Rightarrow> recipe_info list" where
  "control_recipes c = List.map_filter (recipe_entry c) (registry_names (lc_registry c))"

definition control_preview ::
    "('e, 'w, 'r) local_control \<Rightarrow> recipe_id \<Rightarrow> settings \<Rightarrow> (preview, agent_error) result" where
  "control_preview c rid requested =
     result_bind (control_resolve c rid) (\<lambda>r.
     result_bind (check_settings requested) (\<lambda>overrides. lr_preview (lc_launcher c) r overrides))"

text \<open>The loop over the overrides: the first float that deserves a caution on this accelerator.\<close>

fun first_caution :: "string \<Rightarrow> (string \<times> scalar_value) list \<Rightarrow> (string \<times> string) option" where
  "first_caution accelerator [] = None"
| "first_caution accelerator ((k, v) # kvs) =
     (case (case v of SFloatV f \<Rightarrow> caution k f accelerator | _ \<Rightarrow> None) of
        Some why \<Rightarrow> Some (k, why)
      | None \<Rightarrow> first_caution accelerator kvs)"

text \<open>The three inner gates of a launch: the hardware the recipe declares, the model the release
  serves, and the cautions on the overrides.\<close>

definition requires_gate :: "('e, 'w, 'r) local_control \<Rightarrow> recipe_id \<Rightarrow> recipe \<Rightarrow> (unit, agent_error) result" where
  "requires_gate c rid r =
     (case rc_requires r of
        None \<Rightarrow> Ok ()
      | Some required \<Rightarrow> map_err (\<lambda>why. NotLaunchable rid (''this machine cannot run it: '' @ why))
          (hw_check required (lc_accelerator c)))"

definition release_gate :: "recipe_id \<Rightarrow> recipe \<Rightarrow> launch_for \<Rightarrow> (unit, agent_error) result" where
  "release_gate rid r lf =
     (case lf_release lf of
        None \<Rightarrow> Ok ()
      | Some release \<Rightarrow>
          if vr_model release \<noteq> rc_model r
          then Err (NotLaunchable rid (''the release serves '' @ vr_model release
                 @ ''; this recipe serves '' @ rc_model r))
          else Ok ())"

definition caution_gate :: "('e, 'w, 'r) local_control \<Rightarrow> config \<Rightarrow> (unit, agent_error) result" where
  "caution_gate c overrides =
     (case first_caution (lc_accelerator c) overrides of
        Some (k, why) \<Rightarrow> Err (BadSettings [Denied k why])
      | None \<Rightarrow> Ok ())"

text \<open>Every check a launch passes before the launcher is asked, in the order of the code.\<close>

definition launch_gates ::
    "('e, 'w, 'r) local_control \<Rightarrow> recipe_id \<Rightarrow> settings \<Rightarrow> launch_for \<Rightarrow> admission \<Rightarrow>
     (recipe \<times> config, agent_error) result" where
  "launch_gates c rid requested lf adm =
     result_bind (map_err (NotLaunchable rid) (lc_can_launch c)) (\<lambda>_.
     result_bind (map_err (NotLaunchable rid) (admits adm)) (\<lambda>_.
     result_bind (control_resolve c rid) (\<lambda>r.
     result_bind (map_err (\<lambda>why. NotLaunchable rid (not_launchable_to_string why)) (launchable r)) (\<lambda>_.
     result_bind (requires_gate c rid r) (\<lambda>_.
     result_bind (release_gate rid r lf) (\<lambda>_.
     result_bind (check_settings requested) (\<lambda>overrides.
     result_bind (caution_gate c overrides) (\<lambda>_. Ok (r, overrides)))))))))"

definition control_launch ::
    "('e, 'w, 'r) local_control \<Rightarrow> recipe_id \<Rightarrow> settings \<Rightarrow> launch_for \<Rightarrow> 'w control_state \<Rightarrow>
     (started, agent_error) result \<times> 'w control_state" where
  "control_launch c rid requested lf st =
     (case launch_gates c rid requested lf (lc_admission c (cs_world st)) of
        Err e \<Rightarrow> (Err e, st)
      | Ok (r, overrides) \<Rightarrow>
          let (res, w) = lr_launch (lc_launcher c) r overrides lf (cs_world st) in
          (res, st\<lparr>cs_world := w, cs_calls := cs_calls st @ [CallLaunch r overrides lf]\<rparr>))"

definition control_stop ::
    "('e, 'w, 'r) local_control \<Rightarrow> recipe_id \<Rightarrow> 'w control_state \<Rightarrow> (unit, agent_error) result \<times> 'w control_state" where
  "control_stop c rid st =
     (let (res, w) = lr_stop (lc_launcher c) (recipe_str rid) (cs_world st) in
      (res, st\<lparr>cs_world := w, cs_calls := cs_calls st @ [CallStop (recipe_str rid)]\<rparr>))"

definition control_fetch_image ::
    "('e, 'w, 'r) local_control \<Rightarrow> oci_image \<Rightarrow> 'w control_state \<Rightarrow> (unit, string) result \<times> 'w control_state" where
  "control_fetch_image c img st =
     (let (res, w) = lr_fetch_image (lc_launcher c) img (cs_world st) in
      (res, st\<lparr>cs_world := w, cs_calls := cs_calls st @ [CallFetchImage img]\<rparr>))"

definition control_status ::
    "('e, 'w, 'r) local_control \<Rightarrow> 'w control_state \<Rightarrow> (running_launch list, agent_error) result \<times> 'w control_state" where
  "control_status c st =
     (let (res, w) = lr_running (lc_launcher c) (cs_world st) in
      (res, st\<lparr>cs_world := w, cs_calls := cs_calls st @ [CallRunning]\<rparr>))"

definition control_workloads ::
    "('e, 'w, 'r) local_control \<Rightarrow> 'w control_state \<Rightarrow> (workload list, agent_error) result \<times> 'w control_state" where
  "control_workloads c st =
     (let (res, w) = lr_workloads (lc_launcher c) (cs_world st) in
      (res, st\<lparr>cs_world := w, cs_calls := cs_calls st @ [CallWorkloads res]\<rparr>))"

definition control_recipe_model :: "('e, 'w, 'r) local_control \<Rightarrow> recipe_id \<Rightarrow> string option" where
  "control_recipe_model c rid = map_option rc_model (result_ok (control_resolve c rid))"

definition control_stats ::
    "('e, 'w, 'r) local_control \<Rightarrow> recipe_id \<Rightarrow> 'w control_state \<Rightarrow> ('r, agent_error) result" where
  "control_stats c rid st =
     (case lc_telemetry c of
        None \<Rightarrow> Err NotReady
      | Some t \<Rightarrow> map_err (NotLaunchable rid) (fst t rid (cs_world st)))"

definition control_logs ::
    "('e, 'w, 'r) local_control \<Rightarrow> recipe_id \<Rightarrow> 32 word \<Rightarrow> 'w control_state \<Rightarrow> (log_tail, agent_error) result" where
  "control_logs c rid lines st =
     (case lc_telemetry c of
        None \<Rightarrow> Err NotReady
      | Some t \<Rightarrow> map_err (NotLaunchable rid) (snd t rid (clamp_lines lines) (cs_world st)))"

definition control_execute ::
    "('e, 'w, 'r) local_control \<Rightarrow> control_req \<Rightarrow> control_trace option \<Rightarrow> 'w control_state \<Rightarrow>
     ('r control_rep, agent_error) result \<times> 'w control_state" where
  "control_execute c req trace st =
     (case req of
        RqListRecipes \<Rightarrow> (Ok (RpRecipes (control_recipes c)), st)
      | RqPreview rid requested \<Rightarrow>
          (result_bind (control_preview c rid requested) (\<lambda>p. Ok (RpPreviewed (pv_command p) (pv_unapplied p))), st)
      | RqLaunch rid requested \<Rightarrow>
          st_bind (control_launch c rid requested \<lparr>lf_owner = None, lf_release = None, lf_trace = trace\<rparr> st)
            (\<lambda>s st. (Ok (RpStarted rid (sd_container s) (sd_endpoint s)), st))
      | RqStop rid \<Rightarrow> st_bind (control_stop c rid st) (\<lambda>_ st. (Ok (RpStopped rid), st))
      | RqStatus \<Rightarrow> st_bind (control_status c st) (\<lambda>running st. (Ok (RpStatus running), st))
      | RqStats rid \<Rightarrow> (result_bind (control_stats c rid st) (\<lambda>s. Ok (RpStats rid s)), st)
      | RqLogs rid lines \<Rightarrow>
          (result_bind (control_logs c rid lines st)
             (\<lambda>t. Ok (RpLogs rid (lt_container t) (lt_lines t) (lt_running t))), st))"

section \<open>Gates\<close>

lemma first_caution_None:
  "first_caution acc kvs = None \<longleftrightarrow> (\<forall>(k, v)\<in>set kvs. \<forall>f. v = SFloatV f \<longrightarrow> caution k f acc = None)"
  by (induction acc kvs rule: first_caution.induct) (auto split: option.splits scalar_value.splits)

lemma admits_Ok: "admits a = Ok () \<longleftrightarrow> a = Open"
  by (auto simp: admits_def split: admission.splits)

lemma requires_gate_Ok:
  "requires_gate c rid r = Ok () \<longleftrightarrow>
     (\<forall>required. rc_requires r = Some required \<longrightarrow> hw_check required (lc_accelerator c) = Ok ())"
  by (simp add: requires_gate_def split: option.splits)

lemma release_gate_Ok:
  "release_gate rid r lf = Ok () \<longleftrightarrow> (\<forall>release. lf_release lf = Some release \<longrightarrow> vr_model release = rc_model r)"
  by (simp add: release_gate_def split: option.splits)

lemma caution_gate_Ok: "caution_gate c ov = Ok () \<longleftrightarrow> first_caution (lc_accelerator c) ov = None"
  by (auto simp: caution_gate_def split: option.splits)

lemmas gate_Ok = admits_Ok requires_gate_Ok release_gate_Ok caution_gate_Ok

lemma launch_gates_Ok:
  "launch_gates c rid requested lf adm = Ok (r, ov) \<longleftrightarrow>
     lc_can_launch c = Ok () \<and> adm = Open \<and> control_resolve c rid = Ok r \<and> launchable r = Ok () \<and>
     (\<forall>required. rc_requires r = Some required \<longrightarrow> hw_check required (lc_accelerator c) = Ok ()) \<and>
     (\<forall>release. lf_release lf = Some release \<longrightarrow> vr_model release = rc_model r) \<and>
     validate requested = Ok ov \<and> first_caution (lc_accelerator c) ov = None"
  by (auto simp: launch_gates_def result_bind_eq_Ok gate_Ok check_settings_def)

lemma control_launch_cases:
  assumes "control_launch c rid requested lf st = (res, st')"
  obtains (refused) "st' = st" "\<not> is_ok res"
  | (asked) r ov w where "launch_gates c rid requested lf (lc_admission c (cs_world st)) = Ok (r, ov)"
      "lr_launch (lc_launcher c) r ov lf (cs_world st) = (res, w)"
      "cs_calls st' = cs_calls st @ [CallLaunch r ov lf]" "cs_world st' = w"
proof (cases "launch_gates c rid requested lf (lc_admission c (cs_world st))")
  case (Ok p)
  with assms that(2) show ?thesis by (cases p) (auto simp: control_launch_def split: prod.splits)
next
  case (Err e)
  with assms that(1) show ?thesis by (auto simp: control_launch_def)
qed

section \<open>Claims\<close>

text \<open>The conditions a launch has to meet, all of them, with the recipe and settings it comes to.\<close>

definition launch_allowed ::
    "('e, 'w, 'r) local_control \<Rightarrow> recipe_id \<Rightarrow> settings \<Rightarrow> launch_for \<Rightarrow> admission \<Rightarrow> recipe \<Rightarrow> config \<Rightarrow> bool" where
  "launch_allowed c rid requested lf adm r ov =
     (lc_can_launch c = Ok () \<and> adm = Open \<and>
      registry_resolve (lc_nearest c) (lc_registry c) (Bare (recipe_str rid)) = Ok r \<and> launchable r = Ok () \<and>
      (\<forall>required. rc_requires r = Some required \<longrightarrow> hw_check required (lc_accelerator c) = Ok ()) \<and>
      (\<forall>release. lf_release lf = Some release \<longrightarrow> vr_model release = rc_model r) \<and>
      validate requested = Ok ov \<and>
      (\<forall>(k, v)\<in>set ov. \<forall>f. v = SFloatV f \<longrightarrow> caution k f (lc_accelerator c) = None))"

lemma launch_gates_allowed:
  "launch_gates c rid requested lf adm = Ok (r, ov) \<longleftrightarrow> launch_allowed c rid requested lf adm r ov"
  unfolding launch_gates_Ok launch_allowed_def first_caution_None control_resolve_def map_err_eq_Ok by blast

text \<open>
  C13. A launch passes every gate or touches nothing: whoever asks, the launcher is asked to launch
  exactly when this machine can launch and takes new work, the recipe is one it ships and may run, on
  the hardware the recipe declares, for the model the release serves, under settings that the schema
  accepts, none of which has a caution on this accelerator; in every other case the request is
  refused and no call is made. It is then asked once, for that recipe and those settings.
\<close>

theorem control_launch_gated:
  "(\<forall>r ov. launch_allowed c rid requested lf (lc_admission c (cs_world st)) r ov \<longrightarrow>
      control_launch c rid requested lf st =
        (fst (lr_launch (lc_launcher c) r ov lf (cs_world st)),
         st\<lparr>cs_world := snd (lr_launch (lc_launcher c) r ov lf (cs_world st)),
            cs_calls := cs_calls st @ [CallLaunch r ov lf]\<rparr>)) \<and>
   ((\<nexists>r ov. launch_allowed c rid requested lf (lc_admission c (cs_world st)) r ov) \<longrightarrow>
      (\<exists>e. control_launch c rid requested lf st = (Err e, st)))"
proof (cases "launch_gates c rid requested lf (lc_admission c (cs_world st))")
  case (Err e)
  then have "\<not> launch_allowed c rid requested lf (lc_admission c (cs_world st)) r ov" for r ov
    unfolding launch_gates_allowed [symmetric] by simp
  with Err show ?thesis by (simp add: control_launch_def)
next
  case (Ok p)
  obtain r ov where p: "p = (r, ov)" by fastforce
  with Ok have "launch_allowed c rid requested lf (lc_admission c (cs_world st)) r' ov' \<longleftrightarrow> r' = r \<and> ov' = ov" for r' ov'
    unfolding launch_gates_allowed [symmetric] by auto
  with Ok p show ?thesis by (simp add: control_launch_def case_prod_beta Let_def)
qed

text \<open>A request for log lines asks for at least one and at most five hundred.\<close>

lemma clamp_lines_bounds: "1 \<le> unat (clamp_lines n) \<and> unat (clamp_lines n) \<le> 500"
  by (auto simp: clamp_lines_def MAX_LINES_def word_le_nat_alt min_def unat_gt_0 Suc_le_eq)

section \<open>An example node\<close>

text \<open>A node whose world is the list of the workloads it runs.\<close>

definition ex_launcher :: "workload list launcher" where
  "ex_launcher = \<lparr>lr_preview = (\<lambda>_ _. Err NotReady),
     lr_launch = (\<lambda>r ov lf w. (Ok \<lparr>sd_container = rc_name r, sd_endpoint = None\<rparr>,
       w @ [\<lparr>wl_id = [], wl_instance = \<lparr>in_recipe = RecipeId (rc_name r), in_owner = lf_owner lf\<rparr>\<rparr>])),
     lr_fetch_image = (\<lambda>_ w. (Ok (), w)),
     lr_stop = (\<lambda>name w. (Ok (), filter (\<lambda>x. recipe_str (in_recipe (wl_instance x)) \<noteq> name) w)),
     lr_running = (\<lambda>w. (Ok [], w)), lr_workloads = (\<lambda>w. (Ok w, w))\<rparr>"

definition ex_node_recipe :: recipe where
  "ex_node_recipe = ex_solo\<lparr>rc_name := recipe_str ex_recipe\<rparr>"

definition ex_control :: "(unit, workload list, unit) local_control" where
  "ex_control = \<lparr>lc_registry = \<lparr>rg_builtin = (\<lambda>n. if n = recipe_str ex_recipe then Some (Ok ex_node_recipe) else None),
       rg_builtin_names = [recipe_str ex_recipe], rg_remotes = []\<rparr>,
     lc_launcher = ex_launcher, lc_telemetry = None, lc_can_launch = Ok (), lc_accelerator = ''NVIDIA GB10'',
     lc_admission = (\<lambda>_. Open), lc_nearest = (\<lambda>_ _. [])\<rparr>"

definition ex_release :: verified_release where
  "ex_release = \<lparr>vr_digest = [], vr_image = \<lparr>oi_repository = ''ghcr.io/metrale/engine'', oi_digest = []\<rparr>,
     vr_model = ''Qwen/Qwen3.6-27B'', vr_signer = []\<rparr>"

lemma ex_gates:
  "lf_release lf = Some ex_release \<Longrightarrow> launch_gates ex_control ex_recipe [] lf Open = Ok (ex_node_recipe, [])"
  by (simp add: launch_gates_Ok control_resolve_def registry_resolve_def resolve_bare_def ex_control_def
      launchable_Ok ex_node_recipe_def ex_solo_def ex_rec_def ex_release_def validate_def)

theorem control_launch_gated_witness:
  "\<exists>res. control_launch ex_control ex_recipe [] \<lparr>lf_owner = None, lf_release = Some ex_release, lf_trace = None\<rparr>
       \<lparr>cs_world = [], cs_calls = []\<rparr> = (Ok res, \<lparr>cs_world = [\<lparr>wl_id = [],
         wl_instance = \<lparr>in_recipe = ex_recipe, in_owner = None\<rparr>\<rparr>], cs_calls = [CallLaunch ex_node_recipe []
         \<lparr>lf_owner = None, lf_release = Some ex_release, lf_trace = None\<rparr>]\<rparr>)"
proof -
  let ?lf = "\<lparr>lf_owner = None, lf_release = Some ex_release, lf_trace = None\<rparr>"
  have "launch_allowed ex_control ex_recipe [] ?lf Open ex_node_recipe []"
    using ex_gates [of ?lf] by (simp add: launch_gates_allowed)
  then show ?thesis
    using control_launch_gated [of ex_control ex_recipe "[]" ?lf "\<lparr>cs_world = [], cs_calls = []\<rparr>"]
    by (simp add: ex_control_def ex_launcher_def ex_node_recipe_def ex_recipe_def)
qed

end
