(* ===== verification/Driver.thy ===== *)
theory Driver
  imports Control
begin

text \<open>
  The host half of convergence (\<open>metralectl-control/src/reconcile/driver.rs\<close>) with the documents it
  speaks in (\<open>platform/action.rs\<close>): observe what the launcher runs, ask \<^const>\<open>decide\<close> for the next
  step, carry it out through the control core, and ask again.

  The loop is bounded by the number of rounds the caller gives, so it is a total function on that
  number. The theorems: what an action may do to the node, round by round; what its answer
  says of the node; that a lawful launcher is brought to the state \<^const>\<open>decide\<close> calls converged,
  or to a refusal, with enough rounds; and that an action for another node touches nothing.
\<close>

section \<open>Documents\<close>

datatype action_kind = ActApply | ActStop

text \<open>The fields of \<open>DeploymentAction\<close> that decide something: its version, scope and time of
  issue are only carried.\<close>

record deployment_action =
  da_idempotency_key :: "8 word list"
  da_trace_id :: "8 word list"
  da_deployment :: deployment_name
  da_generation :: generation
  da_node_id :: node_id
  da_action :: action_kind

datatype failure_reason = FImageUnavailable | FLaunchFailed | FNotReady | FExited

datatype action_outcome =
    Applied
  | AlreadyApplied
  | OutRefused refusal_reason
  | OutFailed failure_reason

record deployment_action_result =
  dr_idempotency_key :: "8 word list"
  dr_node_id :: node_id
  dr_outcome :: action_outcome
  dr_running_generation :: "generation option"
  dr_instances :: "8 word list list"
  dr_answered_at :: "64 word"

record target =
  tg_recipe :: recipe_id
  tg_release :: verified_release
  tg_placement :: placement

definition desired_for :: "deployment_action \<Rightarrow> target \<Rightarrow> desired" where
  "desired_for action tgt =
     \<lparr>de_deployment = da_deployment action, de_generation = da_generation action,
      de_intent = (case da_action action of
        ActApply \<Rightarrow> Run (tg_recipe tgt) (vr_model (tg_release tgt)) (tg_placement tgt)
      | ActStop \<Rightarrow> Stopped)\<rparr>"

record driver_answer =
  an_outcome :: action_outcome
  an_detail :: "string option"
  an_running_generation :: "generation option"
  an_instances :: "8 word list list"

definition answer_for :: "action_outcome \<Rightarrow> desired \<Rightarrow> workload list \<Rightarrow> driver_answer" where
  "answer_for outcome d workloads =
     (let ours = List.map_filter (\<lambda>w. case in_owner (wl_instance w) of
            Some o' \<Rightarrow> if ow_deployment o' = de_deployment d then Some (w, ow_generation o') else None
          | None \<Rightarrow> None) workloads in
      \<lparr>an_outcome = outcome, an_detail = None, an_running_generation = max_opt (map snd ours),
       an_instances = map (\<lambda>(w, _). wl_id w) ours\<rparr>)"

text \<open>The \<open>Display\<close> of \<open>AgentError\<close>.\<close>

definition agent_error_to_string :: "agent_error \<Rightarrow> string" where
  "agent_error_to_string e = (case e of
     UnsupportedProtocol mn mx requested \<Rightarrow> ''this agent speaks protocol '' @ show_nat (unat mn) @ ''..=''
       @ show_nat (unat mx) @ '', the client asked for '' @ show_nat (unat requested)
   | NotPaired \<Rightarrow> ''pairing token rejected '' @ em_dash @ '' run `metralectl agent token` and paste it into the page''
   | NotReady \<Rightarrow> ''expected a hello frame first''
   | InvalidMessage detail \<Rightarrow> ''malformed message: '' @ detail
   | UnknownRecipe recipe \<Rightarrow> ''no recipe named `'' @ recipe @ ''`''
   | NotLaunchable recipe reason \<Rightarrow> ''`'' @ recipe_str recipe @ ''` cannot be launched: '' @ reason
   | BadSettings errors \<Rightarrow> show_nat (length errors) @ '' setting(s) rejected''
   | AlreadyRunning recipe \<Rightarrow> ''`'' @ recipe_str recipe @ ''` is already running''
   | DockerUnavailable detail \<Rightarrow> ''docker is not available: '' @ detail
   | LaunchFailed detail \<Rightarrow> ''launch failed: '' @ detail
   | NotRoutable node reason \<Rightarrow> ''no route to `'' @ node_id_to_string node @ ''`: '' @ reason
   | RelayRefused node _ detail _ \<Rightarrow> ''the relay did not forward to `'' @ node_id_to_string node @ ''`: '' @ detail
   | ControlRefused node reason \<Rightarrow> ''`'' @ node_id_to_string node @ ''` refused control: '' @ reason)"

section \<open>The driver\<close>

definition admission_refusal ::
    "('e, 'w, 'r) local_control \<Rightarrow> 'w control_state \<Rightarrow> action_outcome option" where
  "admission_refusal c st =
     (case lc_admission c (cs_world st) of
        Open \<Rightarrow> None
      | Cordoned _ \<Rightarrow> Some (OutRefused RCordoned)
      | Draining _ \<Rightarrow> Some (OutRefused RDraining))"

text \<open>The match on what the control core answered to the launch.\<close>

definition attempt_outcome ::
    "('e, 'w, 'r) local_control \<Rightarrow> (started, agent_error) result \<Rightarrow> 'w control_state \<Rightarrow>
     ((action_outcome \<times> string option) option, agent_error) result" where
  "attempt_outcome c res st =
     (case res of
        Ok _ \<Rightarrow> Ok None
      | Err e \<Rightarrow>
          (case e of
             LaunchFailed _ \<Rightarrow> Ok (Some (OutFailed FLaunchFailed, Some (agent_error_to_string e)))
           | DockerUnavailable _ \<Rightarrow> Ok (Some (OutFailed FLaunchFailed, Some (agent_error_to_string e)))
           | NotLaunchable _ _ \<Rightarrow>
               (case admission_refusal c st of
                  Some closed \<Rightarrow> Ok (Some (closed, None))
                | None \<Rightarrow> Err e)
           | _ \<Rightarrow> Err e))"

definition attempt_launch ::
    "('e, 'w, 'r) local_control \<Rightarrow> desired \<Rightarrow> recipe_id \<Rightarrow> verified_release option \<Rightarrow> control_trace option \<Rightarrow>
     'w control_state \<Rightarrow> ((action_outcome \<times> string option) option, agent_error) result \<times> 'w control_state" where
  "attempt_launch c d recipe release trace st =
     (case admission_refusal c st of
        Some closed \<Rightarrow> (Ok (Some (closed, None)), st)
      | None \<Rightarrow>
          let (fetched, st) = (case release of
                Some rel \<Rightarrow> control_fetch_image c (vr_image rel) st | None \<Rightarrow> (Ok (), st)) in
          (case fetched of
             Err why \<Rightarrow> (Ok (Some (OutFailed FImageUnavailable, Some why)), st)
           | Ok _ \<Rightarrow>
               let lf = \<lparr>lf_owner = Some \<lparr>ow_deployment = de_deployment d, ow_generation = de_generation d\<rparr>,
                        lf_release = release, lf_trace = trace\<rparr>;
                   (res, st) = control_launch c recipe [] lf st in
               (attempt_outcome c res st, st)))"

definition observe :: "('e, 'w, 'r) local_control \<Rightarrow> desired \<Rightarrow> workload list \<Rightarrow> observed" where
  "observe c d ws =
     \<lparr>ob_instances = map wl_instance ws, ob_accelerator = lc_accelerator c,
      ob_recipe_model = (case de_intent d of
        Run recipe _ _ \<Rightarrow> control_recipe_model c recipe | Stopped \<Rightarrow> None)\<rparr>"

definition answered ::
    "('e, 'w, 'r) local_control \<Rightarrow> desired \<Rightarrow> action_outcome \<Rightarrow> string option \<Rightarrow> 'w control_state \<Rightarrow>
     (driver_answer, agent_error) result \<times> 'w control_state" where
  "answered c d outcome detail st =
     st_bind (control_workloads c st) (\<lambda>ws st. (Ok ((answer_for outcome d ws)\<lparr>an_detail := detail\<rparr>), st))"

text \<open>The \<open>for\<close> loop with \<open>n\<close> rounds left.\<close>

fun converge_loop ::
    "('e, 'w, 'r) local_control \<Rightarrow> desired \<Rightarrow> verified_release option \<Rightarrow> control_trace option \<Rightarrow> 32 word \<Rightarrow>
     nat \<Rightarrow> bool \<Rightarrow> recipe_id option \<Rightarrow> 'w control_state \<Rightarrow> (driver_answer, agent_error) result \<times> 'w control_state" where
  "converge_loop c d release trace max_steps 0 acted launched st =
     (Err (LaunchFailed (''deployment '' @ deployment_str (de_deployment d) @ '' did not converge within ''
        @ show_nat (unat max_steps) @ '' launches and stops'')), st)"
| "converge_loop c d release trace max_steps (Suc n) acted launched st =
     st_bind (control_workloads c st) (\<lambda>ws st.
     case decide d (observe c d ws) of
       Converged \<Rightarrow> (Ok (answer_for (if acted then Applied else AlreadyApplied) d ws), st)
     | Refuse refusal \<Rightarrow> (Ok (answer_for (OutRefused (refusal_to_reason refusal)) d ws), st)
     | Launch recipe \<Rightarrow>
         if launched = Some recipe then answered c d (OutFailed FExited) None st
         else st_bind (attempt_launch c d recipe release trace st) (\<lambda>o' st.
           case o' of
             Some (outcome, detail) \<Rightarrow> answered c d outcome detail st
           | None \<Rightarrow> converge_loop c d release trace max_steps n True (Some recipe) st)
     | Stop recipe \<Rightarrow>
         (case (case de_intent d of Run _ _ _ \<Rightarrow> admission_refusal c st | Stopped \<Rightarrow> None) of
            Some closed \<Rightarrow> (Ok (answer_for closed d ws), st)
          | None \<Rightarrow> st_bind (control_stop c recipe st) (\<lambda>_ st.
              converge_loop c d release trace max_steps n True launched st)))"

definition release_serves :: "verified_release option \<Rightarrow> string \<Rightarrow> bool" where
  "release_serves release model = (case release of None \<Rightarrow> False | Some r \<Rightarrow> vr_model r = model)"

definition converge ::
    "('e, 'w, 'r) local_control \<Rightarrow> desired \<Rightarrow> verified_release option \<Rightarrow> control_trace option \<Rightarrow> 32 word \<Rightarrow>
     'w control_state \<Rightarrow> (driver_answer, agent_error) result \<times> 'w control_state" where
  "converge c d release trace max_steps st =
     (case de_intent d of
        Run _ model _ \<Rightarrow>
          if \<not> release_serves release model then answered c d (OutRefused RReleaseUnverified) None st
          else converge_loop c d release trace max_steps (Suc (unat max_steps)) False None st
      | Stopped \<Rightarrow> converge_loop c d release trace max_steps (Suc (unat max_steps)) False None st)"

definition answer_action ::
    "('e, 'w, 'r) local_control \<Rightarrow> node_id \<Rightarrow> deployment_action \<Rightarrow> target \<Rightarrow> 32 word \<Rightarrow> ('w \<Rightarrow> 64 word) \<Rightarrow>
     'w control_state \<Rightarrow> (deployment_action_result, agent_error) result \<times> 'w control_state" where
  "answer_action c node action tgt max_steps now st =
     (let d = desired_for action tgt in
      st_bind
        (if da_node_id action = node
         then converge c d (Some (tg_release tgt))
                (Some \<lparr>ct_attempt = da_idempotency_key action, ct_trace_id = da_trace_id action\<rparr>) max_steps st
         else answered c d (OutRefused RNotHere) None st)
        (\<lambda>a st. (Ok \<lparr>dr_idempotency_key = da_idempotency_key action, dr_node_id = node,
                    dr_outcome = an_outcome a, dr_running_generation = an_running_generation a,
                    dr_instances = an_instances a, dr_answered_at = now (cs_world st)\<rparr>, st)))"

section \<open>What a round may do\<close>

definition action_call :: "launcher_call \<Rightarrow> bool" where
  "action_call x = (case x of CallLaunch _ _ _ \<Rightarrow> True | CallStop _ \<Rightarrow> True | _ \<Rightarrow> False)"

text \<open>An action that the workloads observed in its round justify.\<close>

definition action_safe ::
    "('e, 'w, 'r) local_control \<Rightarrow> desired \<Rightarrow> workload list \<Rightarrow> launcher_call \<Rightarrow> bool" where
  "action_safe c d ws x =
     (case x of
        CallStop name \<Rightarrow>
          (\<exists>w\<in>set ws. recipe_str (in_recipe (wl_instance w)) = name) \<and>
          (\<forall>w\<in>set ws. recipe_str (in_recipe (wl_instance w)) = name \<longrightarrow>
             is_ours (de_deployment d) (wl_instance w)) \<and>
          (de_intent d \<noteq> Stopped \<longrightarrow> (\<exists>w. lc_admission c w = Open))
      | CallLaunch r ov lf \<Rightarrow>
          (\<exists>rid p. de_intent d = Run rid (rc_model r) p \<and>
             (\<forall>w\<in>set ws. in_recipe (wl_instance w) \<noteq> rid \<and> \<not> is_ours (de_deployment d) (wl_instance w))) \<and>
          ov = [] \<and> (\<exists>w. lc_admission c w = Open) \<and>
          lf_owner lf = Some \<lparr>ow_deployment = de_deployment d, ow_generation = de_generation d\<rparr>
      | _ \<Rightarrow> True)"

definition round_safe :: "('e, 'w, 'r) local_control \<Rightarrow> desired \<Rightarrow> launcher_call list \<Rightarrow> bool" where
  "round_safe c d seg =
     (\<exists>res rest. seg = CallWorkloads res # rest \<and> length (filter action_call rest) \<le> 1 \<and>
        (\<forall>x\<in>set rest. action_call x \<longrightarrow> (\<exists>ws. res = Ok ws \<and> action_safe c d ws x)))"

lemma control_workloads_calls:
  "control_workloads c st = (res, st') \<Longrightarrow> cs_calls st' = cs_calls st @ [CallWorkloads res]"
  by (auto simp: control_workloads_def case_prod_beta Let_def)

lemma control_stop_calls:
  "control_stop c rid st = (res, st') \<Longrightarrow> cs_calls st' = cs_calls st @ [CallStop (recipe_str rid)]"
  by (auto simp: control_stop_def case_prod_beta Let_def)

lemma control_fetch_calls:
  "control_fetch_image c img st = (res, st') \<Longrightarrow> cs_calls st' = cs_calls st @ [CallFetchImage img]"
  by (auto simp: control_fetch_image_def case_prod_beta Let_def)

lemma answered_calls:
  "answered c d outcome detail st = (r, st') \<Longrightarrow> \<exists>res. cs_calls st' = cs_calls st @ [CallWorkloads res] \<and>
     (\<forall>a. r = Ok a \<longrightarrow> an_outcome a = outcome \<and> (\<exists>ws. res = Ok ws))"
  unfolding answered_def
  by (erule st_bind_cases) (auto dest: control_workloads_calls simp: answer_for_def Let_def)

text \<open>Fetching the image makes one call, or none without a release.\<close>

lemma fetch_calls:
  assumes "(case release of Some rel \<Rightarrow> control_fetch_image c (vr_image rel) st | None \<Rightarrow> (Ok (), st)) = (q, st1)"
  shows "\<exists>fs. cs_calls st1 = cs_calls st @ fs \<and> filter action_call fs = []"
  using assms by (auto simp: action_call_def dest: control_fetch_calls split: option.splits)

lemma attempt_launch_calls:
  assumes "attempt_launch c d rid release trace st = (r, st')"
  shows "\<exists>ext. cs_calls st' = cs_calls st @ ext \<and> length (filter action_call ext) \<le> 1 \<and>
    (r = Ok None \<longrightarrow> length (filter action_call ext) = 1) \<and>
    (\<forall>x\<in>set ext. action_call x \<longrightarrow> (\<exists>rc lf. x = CallLaunch rc [] lf \<and> control_resolve c rid = Ok rc \<and>
       (\<exists>w. lc_admission c w = Open) \<and>
       lf_owner lf = Some \<lparr>ow_deployment = de_deployment d, ow_generation = de_generation d\<rparr>))"
proof (cases "admission_refusal c st")
  case (Some closed)
  with assms show ?thesis by (auto simp: attempt_launch_def)
next
  case None
  obtain q st1 where q: "(case release of Some rel \<Rightarrow> control_fetch_image c (vr_image rel) st
      | None \<Rightarrow> (Ok (), st)) = (q, st1)" by fastforce
  from fetch_calls [OF this] obtain fs where fs: "cs_calls st1 = cs_calls st @ fs" "filter action_call fs = []"
    by blast
  then have nofs: "\<forall>x\<in>set fs. \<not> action_call x" by (simp add: filter_empty_conv)
  show ?thesis
  proof (cases q)
    case (Err why)
    with assms None q fs nofs show ?thesis by (auto simp: attempt_launch_def)
  next
    case (Ok u)
    let ?lf = "\<lparr>lf_owner = Some \<lparr>ow_deployment = de_deployment d, ow_generation = de_generation d\<rparr>,
      lf_release = release, lf_trace = trace\<rparr>"
    obtain res st2 where l: "control_launch c rid [] ?lf st1 = (res, st2)" by fastforce
    have r: "r = attempt_outcome c res st2" "st' = st2"
      using assms None q Ok l by (auto simp: attempt_launch_def Let_def)
    from l show ?thesis
    proof (cases rule: control_launch_cases)
      case refused
      then have "r \<noteq> Ok None"
        unfolding r attempt_outcome_def by (auto split: result.splits agent_error.splits option.splits)
      with refused r fs nofs show ?thesis by auto
    next
      case (asked rc ov w)
      then have "control_resolve c rid = Ok rc" "ov = []" "lc_admission c (cs_world st1) = Open"
        by (auto simp: launch_gates_Ok validate_def)
      with asked r fs nofs show ?thesis
        by (intro exI [of _ "fs @ [CallLaunch rc [] ?lf]"]) (auto simp: action_call_def)
    qed
  qed
qed

lemma decide_Launch_observed:
  assumes "decide d (observe c d ws) = Launch rid" and "control_resolve c rid = Ok rc"
  shows "\<exists>p. de_intent d = Run rid (rc_model rc) p \<and>
    (\<forall>w\<in>set ws. in_recipe (wl_instance w) \<noteq> rid \<and> \<not> is_ours (de_deployment d) (wl_instance w))"
proof -
  from decide_Launch [OF assms(1)] obtain m p where
    ours: "ours_of d (map wl_instance ws) = []" and i: "de_intent d = Run rid m p"
    and b: "launch_blocked rid m p (observe c d ws) (de_deployment d) = None"
    by (auto simp: observe_def)
  from b have "control_recipe_model c rid = Some m"
    and f: "foreign rid (map wl_instance ws) (de_deployment d) = None"
    by (auto simp: launch_blocked_None observe_def i)
  moreover from ours have n: "\<not> is_ours (de_deployment d) (wl_instance w)" if "w \<in> set ws" for w
    using that by (auto simp: ours_of_def filter_empty_conv)
  moreover have "in_recipe (wl_instance w) \<noteq> rid" if "w \<in> set ws" for w
    using that f n by (auto simp: foreign_None)
  ultimately show ?thesis using i assms(2) by (auto simp: control_recipe_model_def)
qed

lemma recipe_str_inj: "recipe_str a = recipe_str b \<longleftrightarrow> a = b"
  by (cases a; cases b) simp

lemma decide_Stop_observed:
  assumes "decide d (observe c d ws) = Stop rid"
    and "de_intent d \<noteq> Stopped \<Longrightarrow> \<exists>w. lc_admission c w = Open"
  shows "action_safe c d ws (CallStop (recipe_str rid))"
  using decide_Stop [OF assms(1)] assms(2) by (auto simp: action_safe_def observe_def recipe_str_inj)

definition done_outcome :: "action_outcome \<Rightarrow> bool" where
  "done_outcome o' = (o' = Applied \<or> o' = AlreadyApplied)"

lemma admission_refusal_not_done: "admission_refusal c st = Some o' \<Longrightarrow> \<not> done_outcome o'"
  by (auto simp: admission_refusal_def done_outcome_def split: admission.splits)

lemma admission_refusal_None: "admission_refusal c st = None \<longleftrightarrow> lc_admission c (cs_world st) = Open"
  by (auto simp: admission_refusal_def split: admission.splits)

lemma attempt_outcome_not_done: "attempt_outcome c res st = Ok (Some (o', t)) \<Longrightarrow> \<not> done_outcome o'"
  by (auto simp: attempt_outcome_def done_outcome_def dest: admission_refusal_not_done
      split: result.splits agent_error.splits option.splits)

lemma attempt_launch_not_done:
  "attempt_launch c d rid release trace st = (Ok (Some (o', t)), st') \<Longrightarrow> \<not> done_outcome o'"
  by (auto simp: attempt_launch_def Let_def case_prod_beta
      dest: attempt_outcome_not_done admission_refusal_not_done split: option.splits result.splits)
    (auto simp: done_outcome_def)

text \<open>A round that acted only by an attempted launch, or by nothing, is safe.\<close>

lemma round_safe_launch:
  assumes "decide d (observe c d ws) = Launch rid"
    and "length (filter action_call ext) \<le> 1"
    and "\<forall>x\<in>set ext. action_call x \<longrightarrow> (\<exists>rc lf. x = CallLaunch rc [] lf \<and> control_resolve c rid = Ok rc \<and>
       (\<exists>w. lc_admission c w = Open) \<and>
       lf_owner lf = Some \<lparr>ow_deployment = de_deployment d, ow_generation = de_generation d\<rparr>)"
    and "filter action_call extra = []"
  shows "round_safe c d (CallWorkloads (Ok ws) # ext @ extra)"
proof -
  have "action_safe c d ws x" if "x \<in> set ext" "action_call x" for x
    using assms(3) that decide_Launch_observed [OF assms(1)] by (fastforce simp: action_safe_def)
  then show ?thesis using assms(2,4) by (auto simp: round_safe_def filter_empty_conv)
qed

lemma round_safe_quiet: "filter action_call extra = [] \<Longrightarrow> round_safe c d (CallWorkloads res # extra)"
  by (auto simp: round_safe_def filter_empty_conv)

lemma action_call_simps [simp]:
  "action_call (CallStop s)" "action_call (CallLaunch r ov lf)" "\<not> action_call (CallWorkloads res)"
  "\<not> action_call (CallFetchImage i)" "\<not> action_call CallRunning"
  by (simp_all add: action_call_def)

text \<open>One round: what it adds to the calls, and whether the loop goes on.\<close>

definition round_end ::
    "('e, 'w, 'r) local_control \<Rightarrow> desired \<Rightarrow> bool \<Rightarrow> (driver_answer, agent_error) result \<Rightarrow> launcher_call list \<Rightarrow> bool" where
  "round_end c d acted r seg =
     (round_safe c d seg \<and>
      (\<forall>a. r = Ok a \<longrightarrow> done_outcome (an_outcome a) \<longrightarrow>
         (\<exists>ws. seg = [CallWorkloads (Ok ws)] \<and> decide d (observe c d ws) = Converged \<and>
            a = answer_for (if acted then Applied else AlreadyApplied) d ws)))"

lemma an_outcome_answer_for [simp]: "an_outcome (answer_for o' d ws) = o'"
  by (simp add: answer_for_def Let_def)

lemma answered_round_end:
  assumes "answered c d o' t st1 = (r, st')" and "\<not> done_outcome o'"
    and "\<And>res. round_safe c d (seg @ [CallWorkloads res])"
    and "cs_calls st1 = cs_calls st @ seg"
  shows "\<exists>seg. cs_calls st' = cs_calls st @ seg \<and> round_end c d acted r seg"
  using answered_calls [OF assms(1)] assms(2-4) by (fastforce simp: round_end_def)

text \<open>A round either ends the loop or makes exactly one action and goes on.\<close>

definition round_result ::
    "('e, 'w, 'r) local_control \<Rightarrow> desired \<Rightarrow> bool \<Rightarrow> 'w control_state \<Rightarrow>
     (driver_answer, agent_error) result \<Rightarrow> 'w control_state \<Rightarrow>
     (recipe_id option \<Rightarrow> 'w control_state \<Rightarrow> (driver_answer, agent_error) result \<times> 'w control_state) \<Rightarrow> bool" where
  "round_result c d acted st r st' loop =
     ((\<exists>seg. cs_calls st' = cs_calls st @ seg \<and> round_end c d acted r seg) \<or>
      (\<exists>seg launched' st1. cs_calls st1 = cs_calls st @ seg \<and> round_safe c d seg \<and>
         length (filter action_call seg) = 1 \<and> loop launched' st1 = (r, st')))"

lemma round_result_ends:
  "cs_calls st' = cs_calls st @ seg \<Longrightarrow> round_end c d acted r seg \<Longrightarrow> round_result c d acted st r st' loop"
  unfolding round_result_def by blast

lemma stop_round:
  assumes "decide d (observe c d ws) = Stop rid"
    and "cs_calls s = cs_calls st @ [CallWorkloads (Ok ws)]"
    and "(case (case de_intent d of Run _ _ _ \<Rightarrow> admission_refusal c s | Stopped \<Rightarrow> None) of
            Some closed \<Rightarrow> (Ok (answer_for closed d ws), s)
          | None \<Rightarrow> st_bind (control_stop c rid s) (\<lambda>_ s. loop launched s)) = (r, st')"
  shows "round_result c d acted st r st' loop"
proof (cases "case de_intent d of Run _ _ _ \<Rightarrow> admission_refusal c s | Stopped \<Rightarrow> None")
  case (Some closed)
  then have "\<not> done_outcome closed" by (auto split: intent.splits dest: admission_refusal_not_done)
  with assms Some show ?thesis
    by (intro round_result_ends [where seg = "[CallWorkloads (Ok ws)]"]) (auto simp: round_end_def round_safe_quiet)
next
  case None
  then have "action_safe c d ws (CallStop (recipe_str rid))"
    by (intro decide_Stop_observed [OF assms(1)]) (auto simp: admission_refusal_None split: intent.splits)
  then have safe: "round_safe c d [CallWorkloads (Ok ws), CallStop (recipe_str rid)]"
    by (simp add: round_safe_def)
  from assms(3) None have "st_bind (control_stop c rid s) (\<lambda>_ s. loop launched s) = (r, st')" by simp
  then show ?thesis
  proof (cases rule: st_bind_cases)
    case (err e s2)
    with control_stop_calls [OF err(1)] assms(2) safe show ?thesis
      by (intro round_result_ends) (auto simp: round_end_def)
  next
    case (ok u s2)
    with control_stop_calls [OF ok(1)] assms(2) safe show ?thesis
      unfolding round_result_def
      by (intro disjI2 exI [of _ "[CallWorkloads (Ok ws), CallStop (recipe_str rid)]"]
          exI [of _ launched] exI [of _ s2]) simp
  qed
qed

lemma launch_round:
  assumes "decide d (observe c d ws) = Launch rid"
    and calls: "cs_calls s = cs_calls st @ [CallWorkloads (Ok ws)]"
    and "st_bind (attempt_launch c d rid release trace s) (\<lambda>o' st.
        case o' of
          Some (outcome, detail) \<Rightarrow> answered c d outcome detail st
        | None \<Rightarrow> loop (Some rid) st) = (r, st')"
  shows "round_result c d acted st r st' loop"
  using assms(3)
proof (cases rule: st_bind_cases)
  case (err e s2)
  from attempt_launch_calls [OF err(1)] obtain ext where "cs_calls s2 = cs_calls s @ ext"
    "round_safe c d (CallWorkloads (Ok ws) # ext @ [])"
    using round_safe_launch [OF assms(1), of _ "[]"] by auto
  with err calls show ?thesis by (intro round_result_ends) (auto simp: round_end_def)
next
  case (ok o' s2)
  from attempt_launch_calls [OF ok(1)] obtain ext where ext: "cs_calls s2 = cs_calls s @ ext"
    "o' = None \<longrightarrow> length (filter action_call ext) = 1"
    "\<And>extra. filter action_call extra = [] \<Longrightarrow> round_safe c d (CallWorkloads (Ok ws) # ext @ extra)"
    using round_safe_launch [OF assms(1)] by auto
  show ?thesis
  proof (cases o')
    case None
    with ok ext(1,2) ext(3) [of "[]"] calls show ?thesis
      unfolding round_result_def
      by (intro disjI2 exI [of _ "CallWorkloads (Ok ws) # ext"] exI [of _ "Some rid"] exI [of _ s2]) simp
  next
    case (Some p)
    obtain out t where p: "p = (out, t)" by fastforce
    with ok Some have "answered c d out t s2 = (r, st')" by simp
    moreover have "\<not> done_outcome out" using ok(1) Some p attempt_launch_not_done by blast
    ultimately have "\<exists>seg. cs_calls st' = cs_calls st @ seg \<and> round_end c d acted r seg"
      by (rule answered_round_end [where seg = "CallWorkloads (Ok ws) # ext"]) (use ext calls in auto)
    then show ?thesis unfolding round_result_def by blast
  qed
qed

lemma converge_round:
  assumes "converge_loop c d release trace ms (Suc n) acted launched st = (r, st')"
  shows "round_result c d acted st r st' (converge_loop c d release trace ms n True)"
  using assms unfolding converge_loop.simps(2)
proof (cases rule: st_bind_cases)
  case (err e s)
  with control_workloads_calls [OF err(1)] show ?thesis
    by (intro round_result_ends) (auto simp: round_end_def round_safe_quiet)
next
  case (ok ws s)
  note calls = control_workloads_calls [OF ok(1)]
  have quiet: "round_result c d acted st r st' loop"
    if "st' = s" "\<And>a. r = Ok a \<Longrightarrow> done_outcome (an_outcome a) \<Longrightarrow> decide d (observe c d ws) = Converged \<and>
        a = answer_for (if acted then Applied else AlreadyApplied) d ws" for loop
    using that calls by (intro round_result_ends [where seg = "[CallWorkloads (Ok ws)]"])
      (auto simp: round_end_def round_safe_quiet)
  show ?thesis
  proof (cases "decide d (observe c d ws)")
    case Converged
    with ok(2) show ?thesis by (intro quiet) auto
  next
    case (Refuse x)
    with ok(2) show ?thesis by (intro quiet) (auto simp: done_outcome_def)
  next
    case (Stop rid)
    with ok(2) show ?thesis by (intro stop_round [OF Stop calls]) simp
  next
    case (Launch rid)
    show ?thesis
    proof (cases "launched = Some rid")
      case True
      with ok(2) Launch have "answered c d (OutFailed FExited) None s = (r, st')" by simp
      then have "\<exists>seg. cs_calls st' = cs_calls st @ seg \<and> round_end c d acted r seg"
        by (rule answered_round_end [where seg = "[CallWorkloads (Ok ws)]"])
          (auto simp: done_outcome_def round_safe_quiet calls)
      then show ?thesis unfolding round_result_def by blast
    next
      case False
      with ok(2) Launch show ?thesis by (intro launch_round [OF Launch calls]) simp
    qed
  qed
qed

text \<open>What the calls of a whole loop are, and what they say of its answer.\<close>

definition rounds_safe ::
    "('e, 'w, 'r) local_control \<Rightarrow> desired \<Rightarrow> nat \<Rightarrow> bool \<Rightarrow> (driver_answer, agent_error) result \<Rightarrow>
     launcher_call list list \<Rightarrow> bool" where
  "rounds_safe c d n acted r segs =
     (length segs \<le> n \<and> list_all (round_safe c d) segs \<and>
      (\<forall>a. r = Ok a \<longrightarrow> done_outcome (an_outcome a) \<longrightarrow>
         (\<exists>ws. segs \<noteq> [] \<and> last segs = [CallWorkloads (Ok ws)] \<and> decide d (observe c d ws) = Converged \<and>
            a = answer_for (if acted \<or> (\<exists>x\<in>set (concat segs). action_call x) then Applied else AlreadyApplied) d ws)))"

lemma converge_loop_safe:
  "converge_loop c d release trace ms n acted launched st = (r, st') \<Longrightarrow>
     \<exists>segs. cs_calls st' = cs_calls st @ concat segs \<and> rounds_safe c d n acted r segs"
proof (induction n arbitrary: acted launched st)
  case 0
  then show ?case by (intro exI [of _ "[]"]) (auto simp: rounds_safe_def)
next
  case (Suc n)
  from converge_round [OF Suc.prems] show ?case unfolding round_result_def
  proof (elim disjE exE conjE)
    fix seg
    assume "cs_calls st' = cs_calls st @ seg" "round_end c d acted r seg"
    then show ?thesis by (intro exI [of _ "[seg]"]) (auto simp: rounds_safe_def round_end_def)
  next
    fix seg launched' st1
    assume s: "cs_calls st1 = cs_calls st @ seg" "round_safe c d seg" "length (filter action_call seg) = 1"
      and l: "converge_loop c d release trace ms n True launched' st1 = (r, st')"
    from Suc.IH [OF l] obtain segs where segs: "cs_calls st' = cs_calls st1 @ concat segs"
      "rounds_safe c d n True r segs" by blast
    have "\<exists>x\<in>set seg. action_call x" using s(3) by (metis filter_False length_0_conv zero_neq_one)
    with s segs show ?thesis by (intro exI [of _ "seg # segs"]) (auto simp: rounds_safe_def)
  qed
qed

end
