(* ===== verification/Converge.thy ===== *)
theory Converge
  imports Driver
begin

text \<open>
  What the driver's loop amounts to (\<open>metralectl-control/src/reconcile/driver.rs\<close>): the claims on
  \<^const>\<open>converge\<close> and \<^const>\<open>answer_action\<close>.

  On a node that does what it is told, the loop refines the abstract convergence of \<^const>\<open>rounds\<close>:
  it ends in the state that following \<^const>\<open>decide\<close> reaches, and answers with what
  \<^const>\<open>decide\<close> says there. On any node at all, a round takes at most one action and only one that
  the workloads observed in that round justify.
\<close>

section \<open>A node that does what it is told\<close>

definition launch_for_desired ::
    "desired \<Rightarrow> verified_release option \<Rightarrow> control_trace option \<Rightarrow> launch_for" where
  "launch_for_desired d release trace =
     \<lparr>lf_owner = Some \<lparr>ow_deployment = de_deployment d, ow_generation = de_generation d\<rparr>,
      lf_release = release, lf_trace = trace\<rparr>"

text \<open>The laws, for a view \<open>running\<close> of what the world runs: it takes new work, it can be observed,
  images can be fetched, a stop ends every workload of the recipe, and a launch of a recipe that
  passes the gates and runs nowhere starts one workload with the owner it is given.\<close>

definition lawful_node ::
    "('e, 'w, 'r) local_control \<Rightarrow> desired \<Rightarrow> verified_release option \<Rightarrow> control_trace option \<Rightarrow>
     ('w \<Rightarrow> workload list) \<Rightarrow> bool" where
  "lawful_node c d release trace running =
     (let l = lc_launcher c; lf = launch_for_desired d release trace in
      (\<forall>w. lc_admission c w = Open) \<and>
      (\<forall>w. fst (lr_workloads l w) = Ok (running w) \<and> running (snd (lr_workloads l w)) = running w) \<and>
      (\<forall>i w. fst (lr_fetch_image l i w) = Ok () \<and> running (snd (lr_fetch_image l i w)) = running w) \<and>
      (\<forall>name w. fst (lr_stop l name w) = Ok () \<and>
         running (snd (lr_stop l name w)) =
           filter (\<lambda>x. recipe_str (in_recipe (wl_instance x)) \<noteq> name) (running w)) \<and>
      (\<forall>rid m p. de_intent d = Run rid m p \<longrightarrow> control_recipe_model c rid = Some m \<longrightarrow>
         (\<exists>r. launch_gates c rid [] lf Open = Ok (r, []) \<and>
            (\<forall>w. (\<forall>x\<in>set (running w). in_recipe (wl_instance x) \<noteq> rid) \<longrightarrow>
               is_ok (fst (lr_launch l r [] lf w)) \<and>
               map wl_instance (running (snd (lr_launch l r [] lf w))) =
                 map wl_instance (running w) @ [\<lparr>in_recipe = rid, in_owner = lf_owner lf\<rparr>]))))"

text \<open>What \<open>decide\<close> sees of a state.\<close>

definition seen ::
    "('e, 'w, 'r) local_control \<Rightarrow> desired \<Rightarrow> ('w \<Rightarrow> workload list) \<Rightarrow> 'w control_state \<Rightarrow> observed" where
  "seen c d running st = observe c d (running (cs_world st))"

lemma lawful_workloads:
  assumes "lawful_node c d release trace running"
  obtains st' where "control_workloads c st = (Ok (running (cs_world st)), st')"
    "running (cs_world st') = running (cs_world st)"
  using assms that unfolding lawful_node_def Let_def control_workloads_def case_prod_beta by auto

lemma lawful_stop:
  assumes "lawful_node c d release trace running"
  obtains st' where "control_stop c rid st = (Ok (), st')"
    "running (cs_world st') = filter (\<lambda>x. in_recipe (wl_instance x) \<noteq> rid) (running (cs_world st))"
  using assms that unfolding lawful_node_def Let_def control_stop_def case_prod_beta
  by (auto simp: recipe_str_inj)

lemma lawful_fetch:
  assumes "lawful_node c d release trace running"
  obtains st' where "control_fetch_image c i st = (Ok (), st')" "running (cs_world st') = running (cs_world st)"
  using assms that unfolding lawful_node_def Let_def control_fetch_image_def case_prod_beta by auto

lemma lawful_open: "lawful_node c d release trace running \<Longrightarrow> lc_admission c w = Open"
  unfolding lawful_node_def Let_def by blast

lemma lawful_launch:
  assumes "lawful_node c d release trace running" and "de_intent d = Run rid m p"
    and "control_recipe_model c rid = Some m"
    and "\<forall>x\<in>set (running (cs_world st)). in_recipe (wl_instance x) \<noteq> rid"
  obtains s st' where "control_launch c rid [] (launch_for_desired d release trace) st = (Ok s, st')"
    "map wl_instance (running (cs_world st')) = map wl_instance (running (cs_world st)) @
       [\<lparr>in_recipe = rid, in_owner = Some \<lparr>ow_deployment = de_deployment d, ow_generation = de_generation d\<rparr>\<rparr>]"
proof -
  let ?lf = "launch_for_desired d release trace"
  from assms obtain r where g: "launch_gates c rid [] ?lf Open = Ok (r, [])"
    and l: "is_ok (fst (lr_launch (lc_launcher c) r [] ?lf (cs_world st)))"
      "map wl_instance (running (snd (lr_launch (lc_launcher c) r [] ?lf (cs_world st)))) =
         map wl_instance (running (cs_world st)) @ [\<lparr>in_recipe = rid, in_owner = lf_owner ?lf\<rparr>]"
    unfolding lawful_node_def Let_def by blast
  with that lawful_open [OF assms(1)] show ?thesis
    by (auto simp: control_launch_def case_prod_beta Let_def is_ok_iff launch_for_desired_def)
qed

lemma lawful_attempt:
  assumes law: "lawful_node c d release trace running" and l: "decide d (seen c d running st) = Launch rid"
  obtains st' where "attempt_launch c d rid release trace st = (Ok None, st')"
    "seen c d running st' = step_effect d (Launch rid) (seen c d running st)"
proof -
  from decide_Launch(2) [OF l] obtain m p where i: "de_intent d = Run rid m p"
    and b: "launch_blocked rid m p (seen c d running st) (de_deployment d) = None" by blast
  then have m: "control_recipe_model c rid = Some m"
    by (auto simp: launch_blocked_None seen_def observe_def)
  then obtain rc where rc: "control_resolve c rid = Ok rc"
    by (auto simp: control_recipe_model_def result_ok_def split: result.splits)
  have none: "\<forall>x\<in>set (running (cs_world st)). in_recipe (wl_instance x) \<noteq> rid"
    using decide_Launch_observed [OF l [unfolded seen_def] rc] by blast
  obtain st1 where f: "(case release of Some rel \<Rightarrow> control_fetch_image c (vr_image rel) st | None \<Rightarrow> (Ok (), st)) = (Ok (), st1)"
    and w: "running (cs_world st1) = running (cs_world st)"
  proof (cases release)
    case None
    with that [of st] show ?thesis by simp
  next
    case (Some rel)
    with lawful_fetch [OF law, of "vr_image rel" st] that show ?thesis by auto
  qed
  obtain s st2 where "control_launch c rid [] (launch_for_desired d release trace) st1 = (Ok s, st2)"
    "map wl_instance (running (cs_world st2)) = map wl_instance (running (cs_world st1)) @
       [\<lparr>in_recipe = rid, in_owner = Some \<lparr>ow_deployment = de_deployment d, ow_generation = de_generation d\<rparr>\<rparr>]"
    using lawful_launch [OF law i m, of st1] none w by auto
  with f w that show ?thesis
    by (auto simp: attempt_launch_def admission_refusal_None [THEN iffD2, OF lawful_open [OF law]] Let_def
        launch_for_desired_def attempt_outcome_def seen_def observe_def step_effect_def)
qed

section \<open>Refinement\<close>

text \<open>The outcome of a settled step.\<close>

definition settled_outcome :: "bool \<Rightarrow> step \<Rightarrow> action_outcome \<Rightarrow> bool" where
  "settled_outcome acted s o' =
     (case s of
        Converged \<Rightarrow> o' = (if acted then Applied else AlreadyApplied)
      | Refuse r \<Rightarrow> o' = OutRefused (refusal_to_reason r)
      | _ \<Rightarrow> False)"

definition loop_refines ::
    "('e, 'w, 'r) local_control \<Rightarrow> desired \<Rightarrow> ('w \<Rightarrow> workload list) \<Rightarrow> nat \<Rightarrow> bool \<Rightarrow> 'w control_state \<Rightarrow>
     (driver_answer, agent_error) result \<times> 'w control_state \<Rightarrow> bool" where
  "loop_refines c d running n acted st res =
     (\<exists>k a st'. k < n \<and> res = (Ok a, st') \<and> seen c d running st' = rounds k d (seen c d running st) \<and>
        settled_outcome (acted \<or> 0 < k) (decide d (seen c d running st')) (an_outcome a))"

lemma loop_refines_settled:
  assumes "lawful_node c d release trace running" and "settled (decide d (seen c d running st))" and "0 < n"
  shows "loop_refines c d running n acted st (converge_loop c d release trace ms (Suc m) acted launched st)"
proof -
  from assms(1) obtain st' where "control_workloads c st = (Ok (running (cs_world st)), st')"
    "running (cs_world st') = running (cs_world st)" by (rule lawful_workloads)
  with assms(2,3) show ?thesis unfolding loop_refines_def
    by (intro exI [of _ 0]) (auto simp: settled_def settled_outcome_def seen_def split: step.splits)
qed

lemma loop_refines_step:
  assumes "loop_refines c d running n True st1 res"
    and "seen c d running st1 = step_effect d (decide d (seen c d running st)) (seen c d running st)"
  shows "loop_refines c d running (Suc n) acted st res"
proof -
  from assms(1) obtain k a st' where "k < n" "res = (Ok a, st')"
    "seen c d running st' = rounds k d (seen c d running st1)"
    "settled_outcome True (decide d (seen c d running st')) (an_outcome a)"
    unfolding loop_refines_def by auto
  with assms(2) show ?thesis unfolding loop_refines_def by (intro exI [of _ "Suc k"]) simp
qed

lemma loop_refines_rounds:
  assumes law: "lawful_node c d release trace running"
  shows "Suc (length (ours_of d (ob_instances (seen c d running st)))) < n \<Longrightarrow>
    loop_refines c d running n acted st (converge_loop c d release trace ms n acted None st)"
proof (induction n arbitrary: acted st)
  case (Suc n)
  from law obtain s1 where ws: "control_workloads c st = (Ok (running (cs_world st)), s1)"
    and w: "running (cs_world s1) = running (cs_world st)" by (rule lawful_workloads)
  have s1: "seen c d running s1 = seen c d running st" using w by (simp add: seen_def)
  show ?case
  proof (cases "decide d (seen c d running st)")
    case (Launch rid)
    then have "decide d (seen c d running s1) = Launch rid" by (simp add: s1)
    with law obtain s2 where a: "attempt_launch c d rid release trace s1 = (Ok None, s2)"
      and s2: "seen c d running s2 = step_effect d (Launch rid) (seen c d running s1)"
      by (rule lawful_attempt)
    obtain m where n: "n = Suc m" using Suc.prems by (cases n) auto
    have "settled (decide d (seen c d running s2))"
      using step_effect_launch_settles [OF Launch] by (simp add: s2 s1 settled_def)
    then have "loop_refines c d running n True s2 (converge_loop c d release trace ms n True (Some rid) s2)"
      unfolding n by (rule loop_refines_settled [OF law]) simp
    then have "loop_refines c d running (Suc n) acted st (converge_loop c d release trace ms n True (Some rid) s2)"
      by (rule loop_refines_step) (simp add: s2 s1 Launch)
    with Launch ws a show ?thesis by (simp add: seen_def)
  next
    case (Stop rid)
    from law obtain s2 where c2: "control_stop c rid s1 = (Ok (), s2)"
      and r2: "running (cs_world s2) = filter (\<lambda>x. in_recipe (wl_instance x) \<noteq> rid) (running (cs_world s1))"
      by (rule lawful_stop)
    have s2: "seen c d running s2 = step_effect d (Stop rid) (seen c d running st)"
      using r2 w by (simp add: seen_def observe_def step_effect_def filter_map o_def)
    have "Suc (length (ours_of d (ob_instances (seen c d running s2)))) < n"
      using step_effect_stop_shrinks [OF Stop] Suc.prems by (simp add: s2)
    from Suc.IH [OF this, of True]
    have "loop_refines c d running (Suc n) acted st (converge_loop c d release trace ms n True None s2)"
      by (rule loop_refines_step) (simp add: s2 Stop)
    moreover have "(case de_intent d of Run _ _ _ \<Rightarrow> admission_refusal c s1 | Stopped \<Rightarrow> None) = None"
      by (simp add: admission_refusal_None [THEN iffD2, OF lawful_open [OF law]] split: intent.splits)
    ultimately show ?thesis using Stop ws c2 by (simp add: seen_def)
  qed (use loop_refines_settled [OF law] settled_def in auto)
qed simp

lemma converge_is_loop:
  "\<forall>rid m p. de_intent d = Run rid m p \<longrightarrow> release_serves release m \<Longrightarrow>
     converge c d release trace ms st = converge_loop c d release trace ms (Suc (unat ms)) False None st"
  by (auto simp: converge_def split: intent.splits)

text \<open>
  C14. The driver implements the reconciler: on a node that does what it is told, and with more steps
  allowed than the deployment has workloads there, \<open>converge\<close> returns an answer; the
  state it leaves is one that following \<open>decide\<close> reaches from the state it found, in at
  most the steps allowed; and the answer is \<open>applied\<close> (or \<open>already_applied\<close> when no step was needed)
  where \<open>decide\<close> finds that state converged, and the refusal that \<open>decide\<close> gives otherwise.
\<close>

theorem converge_refines_rounds:
  assumes "lawful_node c d release trace running"
    and "\<forall>rid m p. de_intent d = Run rid m p \<longrightarrow> release_serves release m"
    and "length (ours_of d (map wl_instance (running (cs_world st)))) < unat max_steps"
  shows "\<exists>k a st'. converge c d release trace max_steps st = (Ok a, st') \<and> k \<le> unat max_steps \<and>
    seen c d running st' = rounds k d (seen c d running st) \<and>
    settled_outcome (0 < k) (decide d (seen c d running st')) (an_outcome a)"
proof -
  have "Suc (length (ours_of d (ob_instances (seen c d running st)))) < Suc (unat max_steps)"
    using assms(3) by (simp add: seen_def observe_def)
  from loop_refines_rounds [OF assms(1) this, of False max_steps] show ?thesis
    unfolding converge_is_loop [OF assms(2)] loop_refines_def
    by (auto simp del: converge_loop.simps simp: less_Suc_eq_le)
qed

section \<open>Safety\<close>

lemma an_instances_answer_for:
  "an_instances (answer_for o' d ws) = map wl_id (filter (\<lambda>w. is_ours (de_deployment d) (wl_instance w)) ws)"
  by (induction ws) (auto simp: answer_for_def Let_def List.map_filter_def is_ours_def split: option.splits)

lemma converge_calls:
  assumes "converge c d release trace ms st = (r, st')"
  shows "\<exists>segs. cs_calls st' = cs_calls st @ concat segs \<and> rounds_safe c d (Suc (unat ms)) False r segs"
proof (cases "\<forall>rid m p. de_intent d = Run rid m p \<longrightarrow> release_serves release m")
  case True
  with assms converge_loop_safe show ?thesis unfolding converge_is_loop [OF True] by blast
next
  case False
  with assms have "answered c d (OutRefused RReleaseUnverified) None st = (r, st')"
    by (auto simp: converge_def)
  from answered_calls [OF this] show ?thesis
    by (elim exE conjE) (rule exI [of _ "[[CallWorkloads _]]"],
      auto simp: rounds_safe_def round_safe_quiet done_outcome_def)
qed

text \<open>
  C15. Whatever the launcher does, a convergence stays within its rights: its calls fall into rounds,
  at most one more than the steps allowed, each of which begins by observing the node and takes at
  most one action; a stop reaches only workloads of the deployment, as observed in
  that round; a launch is of the recipe and model the deployment runs, when neither the deployment nor anyone
  else runs that recipe, under the deployment's name and generation and with no
  settings; and, for a deployment that should run, neither happens on a node that never takes new work.
\<close>

theorem converge_acts_safely:
  assumes "converge c d release trace max_steps st = (r, st')"
  shows "\<exists>segs. cs_calls st' = cs_calls st @ concat segs \<and> length segs \<le> unat max_steps + 1 \<and>
    list_all (round_safe c d) segs"
  using converge_calls [OF assms] by (auto simp: rounds_safe_def)

text \<open>
  The answer is what was observed: when \<open>converge\<close> answers \<open>applied\<close> or \<open>already_applied\<close>, its last call
  observed workloads among which no newer generation of the deployment runs and exactly the
  desired state is in place, the answer lists the deployment's workloads of that observation, and it is
  \<open>already_applied\<close> exactly when no launch and no stop was made.
\<close>

lemma converge_answer_sound:
  assumes "converge c d release trace max_steps st = (Ok a, st')"
    and "an_outcome a = Applied \<or> an_outcome a = AlreadyApplied"
  shows "\<exists>calls ws. cs_calls st' = cs_calls st @ calls @ [CallWorkloads (Ok ws)] \<and>
    no_newer d (map wl_instance ws) \<and> in_place d (map wl_instance ws) \<and>
    an_instances a = map wl_id (filter (\<lambda>w. is_ours (de_deployment d) (wl_instance w)) ws) \<and>
    (an_outcome a = AlreadyApplied \<longleftrightarrow> filter action_call calls = [])"
proof -
  from converge_calls [OF assms(1)] assms(2) obtain segs ws where s:
    "cs_calls st' = cs_calls st @ concat segs" "segs \<noteq> []" "last segs = [CallWorkloads (Ok ws)]"
    "decide d (observe c d ws) = Converged"
    "a = answer_for (if \<exists>x\<in>set (concat segs). action_call x then Applied else AlreadyApplied) d ws"
    by (auto simp: rounds_safe_def done_outcome_def)
  then have cat: "concat segs = concat (butlast segs) @ [CallWorkloads (Ok ws)]"
    by (metis append_butlast_last_id concat.simps concat_append append.right_neutral)
  have "an_outcome a = AlreadyApplied \<longleftrightarrow> filter action_call (concat (butlast segs)) = []"
    unfolding s(5) cat by (auto simp: filter_empty_conv)
  moreover have "an_instances a = map wl_id (filter (\<lambda>w. is_ours (de_deployment d) (wl_instance w)) ws)"
    unfolding s(5) by (rule an_instances_answer_for)
  ultimately show ?thesis using s(1,4) cat
    by (intro exI [of _ "concat (butlast segs)"] exI [of _ ws]) (simp add: decide_Converged observe_def)
qed

text \<open>
  An action for another node touches nothing: the only call is one observation; the answer
  exists exactly when that succeeds, and is then the refusal \<open>not_here\<close> under the action's own key.
\<close>

lemma answer_action_elsewhere:
  assumes "da_node_id action \<noteq> node"
    and "answer_action c node action tgt max_steps now st = (r, st')"
  shows "\<exists>res. cs_calls st' = cs_calls st @ [CallWorkloads res] \<and>
    (\<forall>a. r = Ok a \<longrightarrow> dr_outcome a = OutRefused RNotHere \<and> dr_node_id a = node \<and>
       dr_idempotency_key a = da_idempotency_key action) \<and> (is_ok r \<longleftrightarrow> is_ok res)"
proof -
  obtain res st1 where w: "control_workloads c st = (res, st1)" by fastforce
  with assms show ?thesis
    by (cases res) (auto simp: answer_action_def answered_def Let_def control_workloads_calls
        intro!: exI [of _ res])
qed

section \<open>An example\<close>

definition ex_running :: "64 word list \<Rightarrow> workload list control_state" where
  "ex_running gs = \<lparr>cs_world = map (\<lambda>g. \<lparr>wl_id = [], wl_instance = ex_inst g\<rparr>) gs, cs_calls = []\<rparr>"

lemma ex_model: "control_recipe_model ex_control ex_recipe = Some ''Qwen/Qwen3.6-27B''"
  by (simp add: control_recipe_model_def control_resolve_def registry_resolve_def resolve_bare_def ex_control_def
      ex_node_recipe_def ex_solo_def ex_rec_def)

lemma ex_lawful: "lawful_node ex_control ex_desired (Some ex_release) None (\<lambda>w. w)"
proof -
  have c: "lc_launcher ex_control = ex_launcher" "lc_admission ex_control = (\<lambda>_. Open)" by (simp_all add: ex_control_def)
  have i: "de_intent ex_desired = Run rid m p \<longleftrightarrow>
      rid = ex_recipe \<and> m = ''Qwen/Qwen3.6-27B'' \<and> p = PlacedOn (HardwareClass ''gb10'')" for rid m p
    by (auto simp: ex_desired_def)
  have n: "RecipeId (rc_name ex_node_recipe) = ex_recipe" by (simp add: ex_node_recipe_def ex_recipe_def)
  show ?thesis
    unfolding lawful_node_def Let_def c i
    by (auto simp: ex_launcher_def n intro!: exI [of _ ex_node_recipe] ex_gates)
      (auto simp: launch_for_desired_def)
qed

lemma ex_serves: "\<forall>rid m p. de_intent ex_desired = Run rid m p \<longrightarrow> release_serves (Some ex_release) m"
  by (simp add: ex_desired_def release_serves_def ex_release_def)

theorem converge_refines_rounds_witness:
  "\<exists>k a st'. converge ex_control ex_desired (Some ex_release) None 2 (ex_running [1]) = (Ok a, st') \<and> k \<le> 2 \<and>
     seen ex_control ex_desired (\<lambda>w. w) st' = rounds k ex_desired (seen ex_control ex_desired (\<lambda>w. w) (ex_running [1]))"
  using converge_refines_rounds [OF ex_lawful ex_serves, of "ex_running [1]" 2]
  by (auto simp: ex_running_def ours_of_def ex_defs is_ours_def)

lemma ex_seen: "observe ex_control ex_desired (map (\<lambda>g. \<lparr>wl_id = [], wl_instance = ex_inst g\<rparr>) gs) =
    ex_observed (map ex_inst gs)"
  using ex_model by (simp add: observe_def ex_desired_def ex_observed_def o_def ex_control_def)

lemma ex_settled: "decide ex_desired (ex_observed [ex_inst 2]) = Converged"
  by (simp add: decide_Converged no_newer_def in_place_def ours_of_def ex_defs is_ours_def generation_of_def)

lemma ex_already: "\<exists>a. converge ex_control ex_desired (Some ex_release) None 2 (ex_running [2]) =
    (Ok a, (ex_running [2])\<lparr>cs_calls := [CallWorkloads (Ok (cs_world (ex_running [2])))]\<rparr>) \<and> an_outcome a = AlreadyApplied"
proof -
  have w: "control_workloads ex_control (ex_running [2]) = (Ok (cs_world (ex_running [2])),
      (ex_running [2])\<lparr>cs_calls := [CallWorkloads (Ok (cs_world (ex_running [2])))]\<rparr>)"
    by (simp add: control_workloads_def ex_running_def ex_control_def ex_launcher_def)
  have d: "decide ex_desired (observe ex_control ex_desired (cs_world (ex_running [2]))) = Converged"
    using ex_seen [of "[2]"] ex_settled by (simp add: ex_running_def)
  show ?thesis unfolding converge_is_loop [OF ex_serves] converge_loop.simps(2) w by (simp add: d)
qed

theorem converge_acts_safely_witness:
  "\<exists>segs st'. cs_calls st' = concat segs \<and> length segs \<le> 3 \<and> list_all (round_safe ex_control ex_desired) segs \<and>
     snd (converge ex_control ex_desired (Some ex_release) None 2 (ex_running [2])) = st'"
proof -
  obtain r st' where c: "converge ex_control ex_desired (Some ex_release) None 2 (ex_running [2]) = (r, st')" by fastforce
  moreover have "cs_calls (ex_running [2]) = []" by (simp add: ex_running_def)
  ultimately show ?thesis using converge_acts_safely [OF c] by auto
qed

definition ex_action :: deployment_action where
  "ex_action = \<lparr>da_idempotency_key = [1], da_trace_id = [], da_deployment = ex_name, da_generation = Generation 2,
     da_node_id = NodeId [7], da_action = ActApply\<rparr>"

definition ex_target :: target where
  "ex_target = \<lparr>tg_recipe = ex_recipe, tg_release = ex_release, tg_placement = PlacedOn (HardwareClass ''gb10'')\<rparr>"

text \<open>With one step allowed, a stop and a launch are both carried out before the driver gives up:
  the loop runs once more than its bound.\<close>

lemma converge_one_step_takes_two:
  "length (filter action_call (cs_calls (snd (converge ex_control ex_desired (Some ex_release) None 1 (ex_running [1]))))) = 2 \<and>
   \<not> is_ok (fst (converge ex_control ex_desired (Some ex_release) None 1 (ex_running [1])))"
proof -
  have w: "control_workloads ex_control st = (Ok (cs_world st), st\<lparr>cs_calls := cs_calls st @ [CallWorkloads (Ok (cs_world st))]\<rparr>)" for st
    by (simp add: control_workloads_def ex_control_def ex_launcher_def)
  have o: "admission_refusal ex_control st = None" for st by (simp add: admission_refusal_def ex_control_def)
  have r: "de_intent ex_desired = Run ex_recipe ''Qwen/Qwen3.6-27B'' (PlacedOn (HardwareClass ''gb10''))" by (simp add: ex_desired_def)
  have s: "control_stop ex_control ex_recipe st = (Ok (), st\<lparr>
      cs_world := filter (\<lambda>x. recipe_str (in_recipe (wl_instance x)) \<noteq> recipe_str ex_recipe) (cs_world st),
      cs_calls := cs_calls st @ [CallStop (recipe_str ex_recipe)]\<rparr>)" for st
    by (simp add: control_stop_def ex_control_def ex_launcher_def)
  have d1: "decide ex_desired (observe ex_control ex_desired [\<lparr>wl_id = [], wl_instance = ex_inst 1\<rparr>]) = Stop ex_recipe"
    using ex_seen [of "[1]"] ex_stop by simp
  have d2: "decide ex_desired (observe ex_control ex_desired []) = Launch ex_recipe"
    using ex_seen [of "[]"] ex_launch by simp
  have f: "control_fetch_image ex_control i st = (Ok (), st\<lparr>cs_calls := cs_calls st @ [CallFetchImage i]\<rparr>)" for i st
    by (simp add: control_fetch_image_def ex_control_def ex_launcher_def)
  have e: "in_recipe (ex_inst g) = ex_recipe" for g by (simp add: ex_inst_def)
  have a: "lc_admission ex_control w = Open" for w by (simp add: ex_control_def)
  have l: "lf_release lf = Some ex_release \<Longrightarrow> fst (control_launch ex_control ex_recipe [] lf st) =
      Ok \<lparr>sd_container = recipe_str ex_recipe, sd_endpoint = None\<rparr> \<and>
      cs_calls (snd (control_launch ex_control ex_recipe [] lf st)) = cs_calls st @ [CallLaunch ex_node_recipe [] lf]" for lf st
    by (simp add: control_launch_def a ex_gates case_prod_beta Let_def)
      (simp add: ex_control_def ex_launcher_def ex_node_recipe_def)
  show ?thesis unfolding converge_is_loop [OF ex_serves]
    by (simp add: ex_running_def w d1 o r s d2 e f attempt_launch_def Let_def case_prod_beta l
        attempt_outcome_def st_bind_def split: result.splits)
qed

end
