(* ===== verification/Canonical.thy ===== *)
theory Canonical
  imports Protocol "HOL-Library.Multiset"
begin

text \<open>
  Canonical JSON and the content digest built on it
  (\<open>metralectl-control/src/platform/canonical.rs\<close>).

  A \<open>serde_json::Value\<close> is a \<open>json\<close>: an object is the list of its entries in the order the
  map happens to keep them, and a number is either one that \<open>as_u64\<close> or \<open>as_i64\<close> reads, as an
  integer, or another one, as it is displayed. SHA-256 and the serialization of a document into a value
  are parameters.

  The theorem: a canonical text identifies its content. Two values have the same canonical text
  exactly when they differ at most in the order of the entries of their objects.
\<close>

section \<open>Values\<close>

datatype json =
    JNull
  | JBool bool
  | JInt int
  | JFloat string
  | JString string
  | JArray "json list"
  | JObject "(string \<times> json) list"

text \<open>\<open>str::encode_utf16\<close>, from the UTF-8 form.\<close>

definition code_point :: "string \<Rightarrow> nat" where
  "code_point ch =
     (case map byte_of ch of
        [a] \<Rightarrow> a
      | [a, b] \<Rightarrow> (a - 192) * 64 + (b - 128)
      | [a, b, c] \<Rightarrow> ((a - 224) * 64 + (b - 128)) * 64 + (c - 128)
      | [a, b, c, d] \<Rightarrow> (((a - 240) * 64 + (b - 128)) * 64 + (c - 128)) * 64 + (d - 128)
      | _ \<Rightarrow> 0)"

definition utf16_units :: "nat \<Rightarrow> nat list" where
  "utf16_units cp =
     (if cp < 65536 then [cp] else [55296 + (cp - 65536) div 1024, 56320 + (cp - 65536) mod 1024])"

definition encode_utf16 :: "string \<Rightarrow> nat list" where
  "encode_utf16 s = concat (map (\<lambda>ch. utf16_units (code_point ch)) (str_chars s))"

section \<open>Writing\<close>

text \<open>\<open>string\<close>: the quoted form. Every escaped character is ASCII, so a byte at a time.\<close>

definition json_escape :: "char \<Rightarrow> string" where
  "json_escape c =
     (let b = byte_of c in
      if b = 34 then [CHR 92, CHR 34]
      else if b = 92 then [CHR 92, CHR 92]
      else if b = 8 then CHR 92 # ''b''
      else if b = 9 then CHR 92 # ''t''
      else if b = 10 then CHR 92 # ''n''
      else if b = 12 then CHR 92 # ''f''
      else if b = 13 then CHR 92 # ''r''
      else if b < 32 then CHR 92 # ''u00'' @ hex_byte (of_nat b)
      else [c])"

definition json_string :: "string \<Rightarrow> string" where
  "json_string s = CHR 34 # concat (map json_escape s) @ [CHR 34]"

text \<open>The loops over the items of an array and the entries of an object: separated by commas, up to
  the first item that cannot be written.\<close>

fun join_items :: "(string, 'e) result list \<Rightarrow> (string, 'e) result" where
  "join_items [] = Ok []"
| "join_items [r] = r"
| "join_items (r # rs) = result_bind r (\<lambda>s. result_bind (join_items rs) (\<lambda>t. Ok (s @ CHR '','' # t)))"

definition write_entry :: "string \<times> (string, string) result \<Rightarrow> (string, string) result" where
  "write_entry e = result_bind (snd e) (\<lambda>s. Ok (json_string (fst e) @ CHR '':'' # s))"

fun json_write :: "json \<Rightarrow> (string, string) result" where
  "json_write JNull = Ok ''null''"
| "json_write (JBool b) = Ok (if b then ''true'' else ''false'')"
| "json_write (JInt i) = Ok (show_int i)"
| "json_write (JFloat n) = Err (n @ '' is not an integer'')"
| "json_write (JString s) = Ok (json_string s)"
| "json_write (JArray items) =
     result_bind (join_items (map json_write items)) (\<lambda>s. Ok (CHR ''['' # s @ '']''))"
| "json_write (JObject entries) =
     result_bind
       (join_items (map write_entry
         (sort_key (\<lambda>e. encode_utf16 (fst e)) (map (\<lambda>(k, v). (k, json_write v)) entries))))
       (\<lambda>s. Ok (CHR ''{'' # s @ ''}''))"

definition canonical :: "json \<Rightarrow> (string, string) result" where
  "canonical v = json_write v"

definition digest ::
    "(string \<Rightarrow> 8 word list) \<Rightarrow> ('d \<Rightarrow> (json, string) result) \<Rightarrow> 'd \<Rightarrow> (8 word list, string) result" where
  "digest sha256 to_value doc =
     result_bind (to_value doc) (\<lambda>v. result_bind (canonical v) (\<lambda>s. Ok (sha256 s)))"

section \<open>Content\<close>

text \<open>Text that is UTF-8, as every \<open>str\<close> is: no overlong form, no surrogate.\<close>

definition utf8_char :: "string \<Rightarrow> bool" where
  "utf8_char ch =
     (case map byte_of ch of
        [a] \<Rightarrow> a < 128
      | [a, b] \<Rightarrow> 194 \<le> a \<and> a < 224 \<and> 128 \<le> b \<and> b < 192
      | [a, b, c] \<Rightarrow> 224 \<le> a \<and> a < 240 \<and> 128 \<le> b \<and> b < 192 \<and> 128 \<le> c \<and> c < 192 \<and>
          (a = 224 \<longrightarrow> 160 \<le> b) \<and> (a = 237 \<longrightarrow> b < 160)
      | [a, b, c, d] \<Rightarrow> 240 \<le> a \<and> a < 245 \<and> 128 \<le> b \<and> b < 192 \<and> 128 \<le> c \<and> c < 192 \<and> 128 \<le> d \<and> d < 192 \<and>
          (a = 240 \<longrightarrow> 144 \<le> b) \<and> (a = 244 \<longrightarrow> b < 144)
      | _ \<Rightarrow> False)"

definition utf8 :: "string \<Rightarrow> bool" where
  "utf8 s = list_all utf8_char (str_chars s)"

text \<open>A value as \<open>serde_json\<close> holds one: an object has each key once.\<close>

fun json_wf :: "json \<Rightarrow> bool" where
  "json_wf (JArray items) = list_all json_wf items"
| "json_wf (JObject entries) =
     (distinct (map fst entries) \<and> list_all utf8 (map fst entries) \<and> list_all (\<lambda>(_, v). json_wf v) entries)"
| "json_wf _ = True"

text \<open>The same content: equal but for the order of entries.\<close>

inductive json_same :: "json \<Rightarrow> json \<Rightarrow> bool" where
  same_null: "json_same JNull JNull"
| same_bool: "json_same (JBool b) (JBool b)"
| same_int: "json_same (JInt i) (JInt i)"
| same_float: "json_same (JFloat n) (JFloat n)"
| same_string: "json_same (JString s) (JString s)"
| same_array: "list_all2 json_same xs ys \<Longrightarrow> json_same (JArray xs) (JArray ys)"
| same_object: "list_all2 (rel_prod (=) json_same) kvs kvs' \<Longrightarrow> mset kvs' = mset kvs'' \<Longrightarrow>
    json_same (JObject kvs) (JObject kvs'')"

section \<open>UTF-16 order\<close>

lemma digit64_inj:
  "y < 64 \<Longrightarrow> y' < 64 \<Longrightarrow> x * 64 + y = x' * 64 + y' \<longleftrightarrow> x = x' \<and> y = (y'::nat)"
  by (metis add.commute div_mult_self3 mod_mult_self3 div_less mod_less add_0_right zero_neq_numeral)

lemma utf8_char_cases:
  assumes "utf8_char ch"
  obtains (1) a where "map byte_of ch = [a]" "code_point ch = a" "a < 128"
  | (2) a b where "map byte_of ch = [192 + a, 128 + b]" "b < 64" "code_point ch = a * 64 + b"
      "128 \<le> code_point ch" "code_point ch < 2048"
  | (3) a b c where "map byte_of ch = [224 + a, 128 + b, 128 + c]" "b < 64" "c < 64"
      "code_point ch = (a * 64 + b) * 64 + c" "2048 \<le> code_point ch" "code_point ch < 65536"
      "code_point ch < 55296 \<or> 57344 \<le> code_point ch"
  | (4) a b c d where "map byte_of ch = [240 + a, 128 + b, 128 + c, 128 + d]" "b < 64" "c < 64" "d < 64"
      "code_point ch = ((a * 64 + b) * 64 + c) * 64 + d" "65536 \<le> code_point ch" "code_point ch < 1114112"
proof -
  from assms consider
    (1) a where "map byte_of ch = [a]" "a < 128"
  | (2) a b where "map byte_of ch = [a, b]" "194 \<le> a" "a < 224" "128 \<le> b" "b < 192"
  | (3) a b c where "map byte_of ch = [a, b, c]" "224 \<le> a" "a < 240" "128 \<le> b" "b < 192" "128 \<le> c" "c < 192"
      "a = 224 \<longrightarrow> 160 \<le> b" "a = 237 \<longrightarrow> b < 160"
  | (4) a b c d where "map byte_of ch = [a, b, c, d]" "240 \<le> a" "a < 245" "128 \<le> b" "b < 192" "128 \<le> c" "c < 192"
      "128 \<le> d" "d < 192" "a = 240 \<longrightarrow> 144 \<le> b" "a = 244 \<longrightarrow> b < 144"
    unfolding utf8_char_def by (auto split: list.splits)
  then show ?thesis
  proof cases
    case 1
    then show ?thesis using that(1) by (simp add: code_point_def)
  next
    case (2 a b)
    define a' b' where "a' = a - 192" "b' = b - 128"
    with 2 have o: "a = 192 + a'" "b = 128 + b'" "2 \<le> a'" "a' < 32" "b' < 64" by simp_all
    show ?thesis by (rule that(2) [of a' b']) (use 2(1) o in \<open>simp_all add: code_point_def\<close>)
  next
    case (3 a b c)
    define a' b' c' where "a' = a - 224" "b' = b - 128" "c' = c - 128"
    with 3 have o: "a = 224 + a'" "b = 128 + b'" "c = 128 + c'" and r: "a' < 16" "b' < 64" "c' < 64"
      "a' = 0 \<longrightarrow> 32 \<le> b'" "a' = 13 \<longrightarrow> b' < 32" by auto
    have cp: "code_point ch = (a' * 64 + b') * 64 + c'" using 3(1) o by (simp add: code_point_def)
    have "2048 \<le> (a' * 64 + b') * 64 + c'" using r by (cases "a' = 0") simp_all
    moreover have "(a' * 64 + b') * 64 + c' < 55296 \<or> 57344 \<le> (a' * 64 + b') * 64 + c'"
      using r by (cases a' "13::nat" rule: linorder_cases) simp_all
    ultimately show ?thesis using 3(1) o r cp by (intro that(3) [of a' b' c']) simp_all
  next
    case (4 a b c d)
    define a' b' c' d' where "a' = a - 240" "b' = b - 128" "c' = c - 128" "d' = d - 128"
    with 4 have o: "a = 240 + a'" "b = 128 + b'" "c = 128 + c'" "d = 128 + d'" and r: "a' < 5" "b' < 64" "c' < 64" "d' < 64"
      "a' = 0 \<longrightarrow> 16 \<le> b'" "a' = 4 \<longrightarrow> b' < 16" by auto
    have cp: "code_point ch = ((a' * 64 + b') * 64 + c') * 64 + d'" using 4(1) o by (simp add: code_point_def)
    have "65536 \<le> ((a' * 64 + b') * 64 + c') * 64 + d'" using r by (cases "a' = 0") simp_all
    moreover have "((a' * 64 + b') * 64 + c') * 64 + d' < 1114112" using r by (cases "a' = 4") simp_all
    ultimately show ?thesis using 4(1) o r cp by (intro that(4) [of a' b' c' d']) simp_all
  qed
qed

lemma map_byte_of_inj: "map byte_of s = map byte_of t \<Longrightarrow> s = t"
  using byte_of_inj by (metis list.inj_map_strong)

lemma code_point_inj:
  assumes "utf8_char s" "utf8_char t" "code_point s = code_point t"
  shows "s = t"
proof -
  have "map byte_of s = map byte_of t"
    using assms(1)
  proof (cases rule: utf8_char_cases)
    case s: (1 a)
    from assms(2) show ?thesis by (cases rule: utf8_char_cases) (use assms(3) s in simp_all)
  next
    case s: (2 a b)
    from assms(2) show ?thesis by (cases rule: utf8_char_cases) (use assms(3) s in \<open>simp_all add: digit64_inj del: distrib_right_numeral\<close>)
  next
    case s: (3 a b c)
    from assms(2) show ?thesis by (cases rule: utf8_char_cases) (use assms(3) s in \<open>simp_all add: digit64_inj del: distrib_right_numeral\<close>)
  next
    case s: (4 a b c d)
    from assms(2) show ?thesis by (cases rule: utf8_char_cases) (use assms(3) s in \<open>simp_all add: digit64_inj del: distrib_right_numeral\<close>)
  qed
  then show ?thesis by (rule map_byte_of_inj)
qed

text \<open>A code point is below the end of the last plane and no surrogate.\<close>

lemma code_point_range:
  assumes "utf8_char ch"
  shows "code_point ch < 1114112" and "code_point ch < 55296 \<or> 57344 \<le> code_point ch"
  using assms by (cases rule: utf8_char_cases; simp)+

text \<open>The UTF-16 form of a character is one unit that is no surrogate, or a pair of surrogates.\<close>

lemma utf16_units_prefix:
  assumes "cp < 1114112" "cp' < 1114112" "cp < 55296 \<or> 57344 \<le> cp" "cp' < 55296 \<or> 57344 \<le> cp'"
    and "utf16_units cp @ xs = utf16_units cp' @ ys"
  shows "cp = cp' \<and> xs = ys"
proof (cases "cp < 65536 \<or> cp' < 65536")
  case True
  have "(n - 65536) div 1024 < 1024" if "n < 1114112" for n :: nat using that by (simp add: less_mult_imp_div_less)
  from this [of cp] this [of cp'] True assms show ?thesis by (auto simp: utf16_units_def split: if_splits)
next
  case False
  with assms(5) have "(cp - 65536) div 1024 = (cp' - 65536) div 1024" "(cp - 65536) mod 1024 = (cp' - 65536) mod 1024" "xs = ys"
    by (auto simp: utf16_units_def)
  with False show ?thesis by (metis div_mult_mod_eq le_add_diff_inverse not_le)
qed

lemma utf16_chars_inj:
  "list_all utf8_char cs \<Longrightarrow> list_all utf8_char ds \<Longrightarrow>
   concat (map (\<lambda>ch. utf16_units (code_point ch)) cs) = concat (map (\<lambda>ch. utf16_units (code_point ch)) ds) \<Longrightarrow> cs = ds"
proof (induction cs arbitrary: ds)
  case Nil
  then show ?case by (cases ds) (auto simp: utf16_units_def split: if_splits)
next
  case (Cons c cs)
  then obtain d ds' where ds: "ds = d # ds'" by (cases ds) (auto simp: utf16_units_def split: if_splits)
  with Cons.prems have "code_point c = code_point d \<and>
      concat (map (\<lambda>ch. utf16_units (code_point ch)) cs) = concat (map (\<lambda>ch. utf16_units (code_point ch)) ds')"
    by (intro utf16_units_prefix) (auto dest: code_point_range)
  with Cons ds show ?case by (auto dest: code_point_inj)
qed

lemma encode_utf16_inj: "utf8 s \<Longrightarrow> utf8 t \<Longrightarrow> encode_utf16 s = encode_utf16 t \<Longrightarrow> s = t"
  unfolding utf8_def encode_utf16_def by (drule (2) utf16_chars_inj) (metis concat_str_chars)

section \<open>Reading back\<close>

text \<open>A character's escaped form says where it ends, and is never a closing quote.\<close>

fun unescape :: "string \<Rightarrow> (char \<times> string) option" where
  "unescape (a # r) =
     (if a \<noteq> CHR 92 then Some (a, r)
      else case r of
        b # r \<Rightarrow>
          if b = CHR ''b'' then Some (CHR 8, r) else if b = CHR ''t'' then Some (CHR 9, r)
          else if b = CHR ''n'' then Some (CHR 10, r) else if b = CHR ''f'' then Some (CHR 12, r)
          else if b = CHR ''r'' then Some (CHR 13, r)
          else if b = CHR ''u'' then
            (case parse_hex_pairs 0 (take 4 r) of
               Ok [_, x] \<Rightarrow> Some (char_of (unat x), drop 4 r)
             | _ \<Rightarrow> None)
          else Some (b, r)
      | [] \<Rightarrow> None)"
| "unescape [] = None"

lemma char_of_byte_of [simp]: "char_of (byte_of c) = c"
  by (simp add: byte_of_def)

lemma char_literals:
  "char_of (34::nat) = CHR 34" "char_of (92::nat) = CHR 92" "char_of (8::nat) = CHR 8" "char_of (9::nat) = CHR 9"
  "char_of (10::nat) = CHR 10" "char_of (12::nat) = CHR 12" "char_of (13::nat) = CHR 13" "char_of (48::nat) = CHR ''0''"
  by code_simp+

lemma hex_u: "''00'' @ hex_byte b = hex_encode [0, b]"
  by (simp add: hex_encode_def hex_byte_def hex_digit_def char_literals)

lemma escape_u:
  "unescape (CHR 92 # ''u00'' @ hex_byte b @ r) = Some (char_of (unat b), r)"
proof -
  have q: "''00'' @ hex_byte b @ r = hex_encode [0, b] @ r" using hex_u [of b] by simp
  have "take 4 (hex_encode [0, b] @ r) = hex_encode [0, b]" "drop 4 (hex_encode [0, b] @ r) = r" by simp_all
  then have "take 4 (''00'' @ hex_byte b @ r) = hex_encode [0, b]" "drop 4 (''00'' @ hex_byte b @ r) = r"
    unfolding q .
  then show ?thesis by (simp add: parse_hex_pairs_encode del: take_Cons_numeral drop_Cons_numeral)
qed

lemma unescape_escape: "unescape (json_escape c @ r) = Some (c, r)"
proof (cases "byte_of c \<in> {34, 92, 8, 9, 10, 12, 13}")
  case True
  then have "c \<in> char_of ` {34, 92, 8, 9, 10, 12, 13::nat}" by (metis char_of_byte_of image_eqI)
  then show ?thesis by (auto simp: json_escape_def byte_of_def char_literals)
next
  case False
  show ?thesis
  proof (cases "byte_of c < 32")
    case True
    then have "unat (of_nat (byte_of c) :: 8 word) = byte_of c" by (simp add: unat_of_nat)
    with True False escape_u [of "of_nat (byte_of c)" r] show ?thesis by (simp add: json_escape_def)
  next
    case no: False
    have "c \<noteq> CHR 92" using False by (auto simp: byte_of_def)
    with no False show ?thesis by (simp add: json_escape_def)
  qed
qed

lemma json_escape_inj: "json_escape c @ r = json_escape d @ r' \<Longrightarrow> c = d \<and> r = r'"
  by (metis unescape_escape option.inject prod.inject)

lemma json_escape_hd: "\<exists>a s. json_escape c = a # s \<and> a \<noteq> CHR 34"
proof -
  have "c \<noteq> CHR 34" if "byte_of c \<noteq> 34" using that by (auto simp: byte_of_def)
  then show ?thesis by (auto simp: json_escape_def Let_def)
qed

lemma escapes_inj:
  "concat (map json_escape s) @ CHR 34 # r = concat (map json_escape t) @ CHR 34 # r' \<Longrightarrow> s = t \<and> r = r'"
proof (induction s arbitrary: t)
  case Nil
  then show ?case using json_escape_hd by (cases t) (auto, metis append_Cons list.inject)
next
  case (Cons c s)
  show ?case
  proof (cases t)
    case Nil
    with Cons.prems json_escape_hd [of c] show ?thesis by auto
  next
    case (Cons d t')
    with Cons.prems json_escape_inj [of c "concat (map json_escape s) @ CHR 34 # r" d "concat (map json_escape t') @ CHR 34 # r'"]
    have "c = d" "concat (map json_escape s) @ CHR 34 # r = concat (map json_escape t') @ CHR 34 # r'" by auto
    with Cons.IH [of t'] Cons show ?thesis by simp
  qed
qed

lemma json_string_inj: "json_string s @ r = json_string t @ r' \<Longrightarrow> s = t \<and> r = r'"
  using escapes_inj [of s r t r'] by (simp add: json_string_def)

text \<open>What may follow a value: nothing, a comma or a closing bracket. A number ends where it does.\<close>

definition delimited :: "string \<Rightarrow> bool" where
  "delimited r = (r = [] \<or> hd r = CHR '','' \<or> hd r = CHR '']'' \<or> hd r = CHR ''}'')"

lemma delimited_no_digit: "delimited r \<Longrightarrow> r = [] \<or> \<not> is_ascii_digit (hd r)"
  by (auto simp: delimited_def is_ascii_digit_def byte_of_def)

lemma digits_split:
  assumes "list_all P xs" "list_all P ys" "r = [] \<or> \<not> P (hd r)" "r' = [] \<or> \<not> P (hd r')" "xs @ r = ys @ r'"
  shows "xs = ys"
proof -
  have tw: "takeWhile P (zs @ q) = zs" if "list_all P zs" "q = [] \<or> \<not> P (hd q)" for zs q
    using that by (cases q) (auto simp: takeWhile_append2 list_all_iff)
  from tw [OF assms(1,3)] tw [OF assms(2,4)] assms(5) show ?thesis by simp
qed

lemma show_int_split:
  assumes "delimited r" "delimited r'" "show_int i @ r = show_int j @ r'"
  shows "i = j"
proof -
  have d: "list_all is_ascii_digit (show_nat n)" for n by (auto simp: list_all_iff show_nat_digits)
  have m: "\<not> is_ascii_digit (CHR ''-'')" by (simp add: is_ascii_digit_def byte_of_def)
  have hd: "show_nat n @ x \<noteq> CHR ''-'' # y" for n x y using d [of n] m by (cases "show_nat n") auto
  have n: "m = k" if "show_nat m @ r = show_nat k @ r'" for m k
    using digits_split [OF d d delimited_no_digit [OF assms(1)] delimited_no_digit [OF assms(2)] that] by (rule show_nat_inj)
  show ?thesis
  proof (cases "i < 0"; cases "j < 0")
    assume "i < 0" "j < 0"
    with assms(3) n [of "nat (- i)" "nat (- j)"] show ?thesis by (simp add: show_int_def)
  next
    assume "i < 0" "\<not> j < 0"
    with assms(3) hd [of "nat j" r'] show ?thesis by (simp add: show_int_def) metis
  next
    assume "\<not> i < 0" "j < 0"
    with assms(3) hd [of "nat i" r] show ?thesis by (simp add: show_int_def)
  next
    assume "\<not> i < 0" "\<not> j < 0"
    with assms(3) n [of "nat i" "nat j"] show ?thesis by (simp add: show_int_def)
  qed
qed

section \<open>Joined items\<close>

fun join_text :: "string list \<Rightarrow> string" where
  "join_text [] = []"
| "join_text [t] = t"
| "join_text (t # ts) = t @ CHR '','' # join_text ts"

lemma join_text_Cons: "join_text (t # ts) = t @ (if ts = [] then [] else CHR '','' # join_text ts)"
  by (cases ts) auto

lemma join_items_texts [simp]: "join_items (map Ok ts) = Ok (join_text ts)"
  by (induction ts rule: join_text.induct) simp_all

lemma join_items_is_texts: "join_items rs = Ok s \<Longrightarrow> \<exists>ts. rs = map Ok ts"
proof (induction rs arbitrary: s)
  case (Cons r rs)
  show ?case
  proof (cases rs)
    case Nil
    with Cons.prems show ?thesis by (intro exI [of _ "[s]"]) simp
  next
    case c: (Cons r2 rs')
    with Cons.prems obtain a t where r: "r = Ok a" and "join_items rs = Ok t" by (auto simp: result_bind_eq_Ok)
    from Cons.IH [OF this(2)] obtain ts where "rs = map Ok ts" by blast
    with r show ?thesis by (intro exI [of _ "a # ts"]) simp
  qed
qed simp

lemma join_items_Ok: "join_items rs = Ok s \<longleftrightarrow> (\<exists>ts. rs = map Ok ts \<and> s = join_text ts)"
  by (metis join_items_is_texts join_items_texts result.inject(1))

text \<open>Texts of which no one runs into the other, whatever may follow them.\<close>

definition apart :: "string \<Rightarrow> string \<Rightarrow> bool" where
  "apart t t' = (\<forall>r r'. delimited r \<longrightarrow> delimited r' \<longrightarrow> t @ r = t' @ r' \<longrightarrow> t = t')"

definition item_text :: "string \<Rightarrow> bool" where
  "item_text t = (t \<noteq> [] \<and> hd t \<noteq> CHR '']'' \<and> hd t \<noteq> CHR ''}'')"

lemma join_text_split:
  assumes "c = CHR '']'' \<or> c = CHR ''}''"
  shows "list_all item_text ts \<Longrightarrow> list_all item_text us \<Longrightarrow> \<forall>t\<in>set ts. \<forall>u\<in>set us. apart t u \<Longrightarrow>
    join_text ts @ c # r = join_text us @ c # r' \<Longrightarrow> ts = us \<and> r = r'"
proof (induction ts arbitrary: us)
  case Nil
  then show ?case using assms by (cases us) (auto simp: join_text_Cons item_text_def Cons_eq_append_conv)
next
  case (Cons t ts)
  show ?case
  proof (cases us)
    case Nil
    with Cons.prems assms show ?thesis by (cases t) (auto simp: join_text_Cons item_text_def)
  next
    case u: (Cons u us')
    let ?q = "\<lambda>ts r. (if ts = [] then [] else CHR '','' # join_text ts) @ c # r"
    have eq: "t @ ?q ts r = u @ ?q us' r'" using Cons.prems(4) unfolding u join_text_Cons by simp
    have dl: "delimited (?q x y)" for x y using assms by (auto simp: delimited_def)
    from Cons.prems(3) u have "apart t u" by simp
    with eq dl have tu: "t = u" unfolding apart_def by blast
    with eq have q: "?q ts r = ?q us' r'" by simp
    with assms have e: "ts = [] \<longleftrightarrow> us' = []" by (auto split: if_splits)
    with q have "join_text ts @ c # r = join_text us' @ c # r'" by (cases "ts = []") auto
    with Cons.IH [of us'] Cons.prems(1-3) u tu show ?thesis by simp
  qed
qed

section \<open>Values apart\<close>

lemma insort_key_map: "insort_key f (g x) (map g ys) = map g (insort_key (\<lambda>y. f (g y)) x ys)"
  by (induction ys) auto

lemma sort_key_map: "sort_key f (map g xs) = map g (sort_key (\<lambda>x. f (g x)) xs)"
  by (induction xs) (simp_all add: insort_key_map)

abbreviation by_key :: "(string \<times> 'a) list \<Rightarrow> (string \<times> 'a) list" where
  "by_key \<equiv> sort_key (\<lambda>e. encode_utf16 (fst e))"

definition entry_text :: "string \<times> json \<Rightarrow> string \<Rightarrow> bool" where
  "entry_text e t = (\<exists>u. json_write (snd e) = Ok u \<and> t = json_string (fst e) @ CHR '':'' # u)"

lemma map_Ok_rel: "map f xs = map Ok ts \<longleftrightarrow> list_all2 (\<lambda>x t. f x = Ok t) xs ts"
  by (auto simp: list_all2_conv_all_nth list_eq_iff_nth_eq)

lemma write_array:
  "json_write (JArray items) = Ok s \<longleftrightarrow>
     (\<exists>ts. list_all2 (\<lambda>x t. json_write x = Ok t) items ts \<and> s = CHR ''['' # join_text ts @ '']'')"
  by (auto simp: result_bind_eq_Ok join_items_Ok map_Ok_rel)

lemma write_object:
  "json_write (JObject entries) = Ok s \<longleftrightarrow>
     (\<exists>ts. list_all2 entry_text (by_key entries) ts \<and> s = CHR ''{'' # join_text ts @ ''}'')"
proof -
  have "write_entry (k, json_write v) = Ok t \<longleftrightarrow> entry_text (k, v) t" for k v t
    by (auto simp: write_entry_def entry_text_def result_bind_eq_Ok)
  then have "(\<lambda>e t. write_entry (case e of (k, v) \<Rightarrow> (k, json_write v)) = Ok t) = entry_text" by (intro ext) auto
  then show ?thesis
    by (auto simp: result_bind_eq_Ok join_items_Ok sort_key_map map_Ok_rel case_prod_beta o_def)
qed

lemma show_int_hd: "\<exists>c t. show_int i = c # t \<and> (c = CHR ''-'' \<or> is_ascii_digit c)"
  using show_nat_digits [of _ "nat i"] by (cases "show_nat (nat i)") (auto simp: show_int_def)

text \<open>The first character tells what a text is of.\<close>

definition json_first :: "json \<Rightarrow> char \<Rightarrow> bool" where
  "json_first v c =
     (case v of
        JNull \<Rightarrow> c = CHR ''n''
      | JBool b \<Rightarrow> c = (if b then CHR ''t'' else CHR ''f'')
      | JInt _ \<Rightarrow> c = CHR ''-'' \<or> is_ascii_digit c
      | JFloat _ \<Rightarrow> False
      | JString _ \<Rightarrow> c = CHR 34
      | JArray _ \<Rightarrow> c = CHR ''[''
      | JObject _ \<Rightarrow> c = CHR ''{'')"

lemma write_first: "json_write v = Ok s \<Longrightarrow> \<exists>c t. s = c # t \<and> json_first v c"
  using show_int_hd
  by (cases v) (auto simp: json_first_def json_string_def write_array write_object simp del: json_write.simps(6,7))

lemma write_item_text: "json_write v = Ok s \<Longrightarrow> item_text s"
  by (drule write_first, cases v)
    (auto simp: item_text_def json_first_def is_ascii_digit_def byte_of_def split: if_splits)

lemma write_no_float [simp]: "json_write (JFloat n) \<noteq> Ok s"
  by simp

lemma first_tells:
  assumes "json_first v c" "json_first v' c"
  obtains "v = JNull" "v' = JNull" | b where "v = JBool b" "v' = JBool b"
  | i j where "v = JInt i" "v' = JInt j" | x y where "v = JString x" "v' = JString y"
  | x y where "v = JArray x" "v' = JArray y" | x y where "v = JObject x" "v' = JObject y"
proof -
  have "\<not> is_ascii_digit (CHR ''n'')" "\<not> is_ascii_digit (CHR ''t'')" "\<not> is_ascii_digit (CHR ''f'')"
    "\<not> is_ascii_digit (CHR 34)" "\<not> is_ascii_digit (CHR ''['')" "\<not> is_ascii_digit (CHR ''{'')"
    by (simp_all add: is_ascii_digit_def byte_of_def)
  with assms that show ?thesis by (cases v; cases v') (auto simp: json_first_def split: if_splits)
qed

lemma same_first:
  assumes "json_write v = Ok s" "json_write v' = Ok s'" "s @ r = s' @ r'"
  obtains "v = JNull" "v' = JNull" | b where "v = JBool b" "v' = JBool b"
  | i j where "v = JInt i" "v' = JInt j" | x y where "v = JString x" "v' = JString y"
  | x y where "v = JArray x" "v' = JArray y" | x y where "v = JObject x" "v' = JObject y"
proof -
  from write_first [OF assms(1)] write_first [OF assms(2)] assms(3)
  obtain c where "json_first v c" "json_first v' c" by auto
  then show ?thesis by (rule first_tells) (use that in blast)+
qed

lemma entry_text_apart:
  assumes "entry_text e t" "entry_text e' t'"
    and "\<And>s s'. json_write (snd e) = Ok s \<Longrightarrow> json_write (snd e') = Ok s' \<Longrightarrow> apart s s'"
  shows "apart t t'"
  unfolding apart_def
proof (intro allI impI)
  fix r r'
  assume d: "delimited r" "delimited r'" and eq: "t @ r = t' @ r'"
  from assms(1,2) obtain u u' where u: "json_write (snd e) = Ok u" "t = json_string (fst e) @ CHR '':'' # u"
    "json_write (snd e') = Ok u'" "t' = json_string (fst e') @ CHR '':'' # u'" by (auto simp: entry_text_def)
  with eq json_string_inj [of "fst e" "CHR '':'' # u @ r" "fst e'" "CHR '':'' # u' @ r'"]
  have k: "fst e = fst e'" "u @ r = u' @ r'" by auto
  with assms(3) [OF u(1,3)] d have "u = u'" unfolding apart_def by blast
  with k u show "t = t'" by simp
qed

lemma entry_item_text: "entry_text e t \<Longrightarrow> item_text t"
  by (auto simp: entry_text_def item_text_def json_string_def)

lemma bracket_apart:
  assumes "c = CHR '']'' \<or> c = CHR ''}''" "list_all item_text ts" "list_all item_text us"
    and "\<forall>t\<in>set ts. \<forall>u\<in>set us. apart t u"
  shows "apart (b # join_text ts @ [c]) (b # join_text us @ [c])"
  unfolding apart_def using join_text_split [OF assms] by auto

lemma rel_set: "list_all2 R xs ts \<Longrightarrow> t \<in> set ts \<Longrightarrow> \<exists>x\<in>set xs. R x t"
  by (induction xs ts rule: list_all2_induct) auto

lemma atom_apart:
  assumes "json_write v = Ok s" "json_write v' = Ok s'"
    and "case v of JArray _ \<Rightarrow> False | JObject _ \<Rightarrow> False | _ \<Rightarrow> True"
  shows "apart s s'"
  unfolding apart_def
proof (intro allI impI)
  fix r r'
  assume d: "delimited r" "delimited r'" and eq: "s @ r = s' @ r'"
  show "s = s'"
    by (rule same_first [OF assms(1,2) eq]) (use assms d eq in \<open>auto dest: show_int_split json_string_inj\<close>)
qed

lemma write_apart: "json_write v = Ok s \<Longrightarrow> json_write v' = Ok s' \<Longrightarrow> apart s s'"
proof (induction v arbitrary: v' s s')
  case (JArray items)
  show ?case unfolding apart_def
  proof (intro allI impI)
    fix r r'
    assume d: "delimited r" "delimited r'" and eq: "s @ r = s' @ r'"
    obtain items' where v': "v' = JArray items'"
      by (rule same_first [OF JArray.prems eq]) auto
    from JArray.prems(1) obtain ts where ts: "list_all2 (\<lambda>x t. json_write x = Ok t) items ts"
      "s = CHR ''['' # join_text ts @ '']''" unfolding write_array by blast
    from JArray.prems(2) obtain us where us: "list_all2 (\<lambda>x t. json_write x = Ok t) items' us"
      "s' = CHR ''['' # join_text us @ '']''" unfolding v' write_array by blast
    have "apart s s'" unfolding ts us
    proof (rule bracket_apart)
      show "list_all item_text ts" "list_all item_text us"
        using rel_set [OF ts(1)] rel_set [OF us(1)] write_item_text by (fastforce simp: list_all_iff)+
      show "\<forall>t\<in>set ts. \<forall>u\<in>set us. apart t u"
        using rel_set [OF ts(1)] rel_set [OF us(1)] JArray.IH by blast
    qed simp
    with d eq show "s = s'" unfolding apart_def by blast
  qed
next
  case (JObject entries)
  show ?case unfolding apart_def
  proof (intro allI impI)
    fix r r'
    assume d: "delimited r" "delimited r'" and eq: "s @ r = s' @ r'"
    obtain entries' where v': "v' = JObject entries'"
      by (rule same_first [OF JObject.prems eq]) auto
    from JObject.prems(1) obtain ts where ts: "list_all2 entry_text (by_key entries) ts"
      "s = CHR ''{'' # join_text ts @ ''}''" unfolding write_object by blast
    from JObject.prems(2) obtain us where us: "list_all2 entry_text (by_key entries') us"
      "s' = CHR ''{'' # join_text us @ ''}''" unfolding v' write_object by blast
    have "apart s s'" unfolding ts us
    proof (rule bracket_apart)
      show "list_all item_text ts" "list_all item_text us"
        using rel_set [OF ts(1)] rel_set [OF us(1)] entry_item_text by (fastforce simp: list_all_iff)+
      have "apart t u" if t: "t \<in> set ts" and u: "u \<in> set us" for t u
      proof -
        from rel_set [OF ts(1) t] obtain e where e: "e \<in> set entries" "entry_text e t" by auto
        from rel_set [OF us(1) u] obtain e' where e': "entry_text e' u" by auto
        from e(2) e' show ?thesis
          by (rule entry_text_apart) (use JObject.IH [OF e(1), of "snd e"] in \<open>auto simp: snds.simps\<close>)
      qed
      then show "\<forall>t\<in>set ts. \<forall>u\<in>set us. apart t u" by blast
    qed simp
    with d eq show "s = s'" unfolding apart_def by blast
  qed
qed (erule (1) atom_apart, simp)+

text \<open>Equal texts have the same content.\<close>

lemma reorder_sorted:
  assumes "list_all2 R (sort_key f xs) (sort_key g ys)"
  shows "\<exists>zs. list_all2 R xs zs \<and> mset zs = mset ys"
  using list_all2_reorder_left_invariance [OF assms, of xs] by simp

lemma rel_join:
  assumes "list_all2 R xs ts" "list_all2 R' ys ts"
    and "\<And>x y t. x \<in> set xs \<Longrightarrow> y \<in> set ys \<Longrightarrow> R x t \<Longrightarrow> R' y t \<Longrightarrow> Q x y"
  shows "list_all2 Q xs ys"
  using assms by (force simp: list_all2_conv_all_nth)

lemma write_texts_eq:
  assumes "list_all item_text ts" "list_all item_text us" "\<forall>t\<in>set ts. \<forall>u\<in>set us. apart t u"
    and "join_text ts @ [c] = join_text us @ [c]" "c = CHR '']'' \<or> c = CHR ''}''"
  shows "ts = us"
  using join_text_split [OF assms(5,1-3), of "[]" "[]"] assms(4) by simp

lemma array_texts_eq:
  assumes "list_all2 (\<lambda>x t. json_write x = Ok t) items ts" "list_all2 (\<lambda>x t. json_write x = Ok t) items' us"
    and "CHR ''['' # join_text ts @ '']'' = CHR ''['' # join_text us @ '']''"
  shows "ts = us"
proof (rule write_texts_eq [where c = "CHR '']''"])
  show "list_all item_text ts" "list_all item_text us" "\<forall>t\<in>set ts. \<forall>u\<in>set us. apart t u"
    using rel_set [OF assms(1)] rel_set [OF assms(2)] write_item_text write_apart by (fastforce simp: list_all_iff)+
qed (use assms(3) in simp_all)

lemma object_texts_eq:
  assumes "list_all2 entry_text es ts" "list_all2 entry_text es' us"
    and "CHR ''{'' # join_text ts @ ''}'' = CHR ''{'' # join_text us @ ''}''"
  shows "ts = us"
proof (rule write_texts_eq [where c = "CHR ''}''"])
  show "list_all item_text ts" "list_all item_text us" "\<forall>t\<in>set ts. \<forall>u\<in>set us. apart t u"
    using rel_set [OF assms(1)] rel_set [OF assms(2)] entry_item_text entry_text_apart write_apart
    by (fastforce simp: list_all_iff)+
qed (use assms(3) in simp_all)

lemma entry_text_eq:
  assumes "entry_text e t" "entry_text e' t"
  shows "fst e = fst e' \<and> (\<exists>u. json_write (snd e) = Ok u \<and> json_write (snd e') = Ok u)"
proof -
  from assms obtain u u' where u: "json_write (snd e) = Ok u" "json_write (snd e') = Ok u'"
    "json_string (fst e) @ CHR '':'' # u = json_string (fst e') @ CHR '':'' # u'" by (auto simp: entry_text_def)
  from json_string_inj [OF u(3)] u(1,2) show ?thesis by auto
qed

lemma write_same: "json_write v = Ok s \<Longrightarrow> json_write v' = Ok s \<Longrightarrow> json_same v v'"
proof (induction v arbitrary: v' s)
  case (JArray items)
  obtain items' where v': "v' = JArray items'" by (rule same_first [OF JArray.prems refl]) auto
  from JArray.prems obtain ts us where ts: "list_all2 (\<lambda>x t. json_write x = Ok t) items ts"
    "list_all2 (\<lambda>x t. json_write x = Ok t) items' us"
    "CHR ''['' # join_text ts @ '']'' = CHR ''['' # join_text us @ '']''" unfolding v' write_array by blast
  have "list_all2 json_same items items'"
    by (rule rel_join [OF ts(1) ts(2) [folded array_texts_eq [OF ts]]]) (rule JArray.IH)
  then show ?case unfolding v' by (rule same_array)
next
  case (JObject entries)
  obtain entries' where v': "v' = JObject entries'" by (rule same_first [OF JObject.prems refl]) auto
  from JObject.prems obtain ts us where ts: "list_all2 entry_text (by_key entries) ts"
    "list_all2 entry_text (by_key entries') us"
    "CHR ''{'' # join_text ts @ ''}'' = CHR ''{'' # join_text us @ ''}''" unfolding v' write_object by blast
  have "list_all2 (rel_prod (=) json_same) (by_key entries) (by_key entries')"
  proof (rule rel_join [OF ts(1) ts(2) [folded object_texts_eq [OF ts]]])
    fix e e' t
    assume e: "e \<in> set (by_key entries)" and "entry_text e t" "entry_text e' t"
    from entry_text_eq [OF this(2,3)] JObject.IH [of e "snd e"] e show "rel_prod (=) json_same e e'"
      by (auto simp: rel_prod_sel snds.simps)
  qed
  from reorder_sorted [OF this] show ?case unfolding v' by (auto intro: same_object)
next
  case (JInt i)
  obtain j where v': "v' = JInt j" by (rule same_first [OF JInt.prems refl]) auto
  with JInt.prems show ?case using show_int_split [of "[]" "[]" i j] by (auto simp: delimited_def intro: same_int)
next
  case (JString x)
  obtain y where v': "v' = JString y" by (rule same_first [OF JString.prems refl]) auto
  with JString.prems show ?case using json_string_inj [of x "[]" y "[]"] by (auto intro: same_string)
next
  case JNull
  then show ?case by (rule same_first [OF _ _ refl]) (auto intro: same_null)
next
  case (JBool b)
  show ?case by (rule same_first [OF JBool.prems refl]) (auto intro: same_bool)
qed simp

text \<open>The same content has equal texts.\<close>

lemma keys_inj:
  assumes "json_wf (JObject es)"
  shows "inj_on (\<lambda>e. encode_utf16 (fst e)) (set (map (\<lambda>(k, v). (k, f v)) es))"
proof (rule inj_onI)
  fix e e'
  assume e: "e \<in> set (map (\<lambda>(k, v). (k, f v)) es)" "e' \<in> set (map (\<lambda>(k, v). (k, f v)) es)"
    and k: "encode_utf16 (fst e) = encode_utf16 (fst e')"
  have "utf8 (fst e)" "utf8 (fst e')" using e assms by (auto simp: list_all_iff)
  from encode_utf16_inj [OF this k] have "fst e = fst e'" .
  moreover have "distinct (map fst (map (\<lambda>(k, v). (k, f v)) es))" using assms by (simp add: case_prod_beta o_def)
  ultimately show "e = e'" using e by (metis eq_key_imp_eq_value prod.collapse)
qed

lemma sorted_entries_eq:
  assumes "json_wf (JObject es)" "mset es' = mset es"
  shows "by_key (map (\<lambda>(k, v). (k, f v)) es) = by_key (map (\<lambda>(k, v). (k, f v)) es')"
proof (rule sort_key_inj_key_eq)
  show "mset (map (\<lambda>(k, v). (k, f v)) es) = mset (by_key (map (\<lambda>(k, v). (k, f v)) es'))"
    using assms(2) by simp
qed (use keys_inj [OF assms(1)] in auto)

lemma rel_map_eq:
  "list_all2 P xs ys \<Longrightarrow> list_all W xs \<Longrightarrow> list_all W ys \<Longrightarrow> (\<And>x y. P x y \<Longrightarrow> W x \<Longrightarrow> W y \<Longrightarrow> f x = f y) \<Longrightarrow>
     map f xs = map f ys"
  by (induction rule: list_all2_induct) auto

lemma same_write: "json_same v v' \<Longrightarrow> json_wf v \<Longrightarrow> json_wf v' \<Longrightarrow> json_write v = json_write v'"
proof (induction rule: json_same.induct)
  case (same_array xs ys)
  have "map json_write xs = map json_write ys"
    by (rule rel_map_eq [where W = json_wf, OF same_array.IH]) (use same_array.prems in auto)
  then show ?case by simp
next
  case (same_object kvs kvs' kvs'')
  have "list_all (\<lambda>(_, v). json_wf v) kvs'"
    using same_object.prems(2) mset_eq_setD [OF same_object.hyps] by (simp add: list_all_iff)
  with same_object.prems(1) have "map (\<lambda>(k, v). (k, json_write v)) kvs = map (\<lambda>(k, v). (k, json_write v)) kvs'"
    by (intro rel_map_eq [where W = "\<lambda>(_, v). json_wf v", OF same_object.IH]) auto
  with sorted_entries_eq [OF same_object.prems(2) same_object.hyps, of json_write] show ?case by simp
qed simp_all

section \<open>Claims\<close>

text \<open>
  C16. A canonical text identifies its content: two values, of which one has the canonical text
  \<open>s\<close>, have the same canonical text exactly when they are equal but for the order of the entries of
  their objects, at every depth. So a digest of the text pins the content, and nothing else.
\<close>

theorem canonical_identifies_content:
  assumes "json_wf v" and "json_wf v'" and "canonical v = Ok s"
  shows "canonical v' = Ok s \<longleftrightarrow> json_same v v'"
  using assms same_write [of v v'] write_same [of v s v'] unfolding canonical_def by auto

text \<open>A value is refused exactly when a number in it, at any depth, is not an integer.\<close>

fun has_float :: "json \<Rightarrow> bool" where
  "has_float (JFloat n) = True"
| "has_float (JArray items) = list_ex has_float items"
| "has_float (JObject entries) = list_ex (\<lambda>(_, v). has_float v) entries"
| "has_float _ = False"

lemma ok_list: "(\<exists>ts. list_all2 (\<lambda>x t. f x = Ok t) xs ts) \<longleftrightarrow> list_all (\<lambda>x. is_ok (f x)) xs"
proof -
  have "(\<exists>ts. list_all2 (\<lambda>x t. f x = Ok t) xs ts)" if "list_all (\<lambda>x. is_ok (f x)) xs"
    using that by (induction xs) (auto simp: is_ok_iff intro: exI [of _ "_ # _"])
  moreover have "list_all (\<lambda>x. is_ok (f x)) xs" if "list_all2 (\<lambda>x t. f x = Ok t) xs ts" for ts
    using that by (induction rule: list_all2_induct) auto
  ultimately show ?thesis by blast
qed

lemma canonical_refused_iff: "is_ok (canonical v) \<longleftrightarrow> \<not> has_float v"
  unfolding canonical_def
proof (induction v)
  case (JArray items)
  have "is_ok (json_write (JArray items)) \<longleftrightarrow> list_all (\<lambda>x. is_ok (json_write x)) items"
    unfolding is_ok_iff [of "json_write (JArray items)"] write_array ok_list [symmetric] by blast
  with JArray show ?case by (simp add: list_all_iff list_ex_iff)
next
  case (JObject es)
  have "entry_text = (\<lambda>e t. write_entry (fst e, json_write (snd e)) = Ok t)"
    by (intro ext) (auto simp: entry_text_def write_entry_def result_bind_eq_Ok)
  then have "is_ok (json_write (JObject es)) \<longleftrightarrow> list_all (\<lambda>e. is_ok (write_entry (fst e, json_write (snd e)))) (by_key es)"
    unfolding is_ok_iff [of "json_write (JObject es)"] write_object ok_list [symmetric] by simp
  also have "\<dots> \<longleftrightarrow> list_all (\<lambda>e. is_ok (json_write (snd e))) es"
    by (auto simp: list_all_iff write_entry_def is_ok_iff result_bind_eq_Ok)
  finally show ?case using JObject by (auto simp: list_all_iff list_ex_iff snds.simps)
qed simp_all

theorem canonical_identifies_content_witness:
  "canonical (JObject [(''b'', JInt 1), (''a'', JNull)]) = canonical (JObject [(''a'', JNull), (''b'', JInt 1)])"
proof -
  let ?v = "JObject [(''b'', JInt 1), (''a'', JNull)]" and ?v' = "JObject [(''a'', JNull), (''b'', JInt 1)]"
  have wf: "json_wf ?v" "json_wf ?v'" by code_simp+
  obtain s where s: "canonical ?v = Ok s" using canonical_refused_iff [of ?v] by (auto simp: is_ok_iff)
  have "json_same ?v ?v'"
    by (rule same_object [where kvs' = "[(''b'', JInt 1), (''a'', JNull)]"]) (auto intro: same_int same_null)
  with canonical_identifies_content [OF wf s] s show ?thesis by simp
qed

end
