(* ===== verification/Release.thy ===== *)
theory Release
  imports Documents
begin

text \<open>
  Releases verified before anything of them is launched (\<open>metralectl-control/src/release.rs\<close>), the
  signature scheme over registry principals (\<open>release/signing.rs\<close>) and revocation lists
  (\<open>release/revocations.rs\<close>).

  SHA-256, SHA3-256, the two signature schemes and the serialization of documents are not
  this program's code: they are the parameters \<open>hashing\<close> and \<open>crypto\<close>.

  The theorems: a release that verifies is the content the deployment names, signed by a
  principal the host trusts with both halves over a string that no other kind of
  document shares, not withdrawn, bound to its recipe and qualified for this machine; a revocation list is
  accepted only fresh, in order, and from a signer it does not itself revoke.
\<close>

section \<open>Parameters\<close>

record hashing =
  ha_sha256 :: "string \<Rightarrow> sha_digest"
  ha_manifest :: "release_manifest \<Rightarrow> (json, string) result"
  ha_recipe :: "model_recipe \<Rightarrow> (json, string) result"
  ha_weights :: "weight_file list \<Rightarrow> (json, string) result"
  ha_list :: "revocation_list \<Rightarrow> (json, string) result"

record ('ek, 'mk, 'ms) crypto =
  cr_sha3_256 :: "8 word list \<Rightarrow> 8 word list"
  cr_ed_key :: "8 word list \<Rightarrow> ('ek, string) result"
  cr_ml_key :: "8 word list \<Rightarrow> 'mk option"
  cr_ed_verify_strict :: "'ek \<Rightarrow> 8 word list \<Rightarrow> 8 word list \<Rightarrow> bool"
  cr_ml_signature :: "8 word list \<Rightarrow> 'ms option"
  cr_ml_verify :: "'mk \<Rightarrow> 8 word list \<Rightarrow> 'ms \<Rightarrow> bool"

section \<open>Signing\<close>

definition to_bytes :: "string \<Rightarrow> 8 word list" where
  "to_bytes s = map (\<lambda>c. of_nat (byte_of c)) s"

definition NODE_ID_DOMAIN :: string where
  "NODE_ID_DOMAIN = ''mfs/node-id/v1''"

record signing_keys =
  sk_ed25519 :: "8 word list"
  sk_ml_dsa_65 :: "8 word list"

definition keys_node_id :: "('ek, 'mk, 'ms) crypto \<Rightarrow> signing_keys \<Rightarrow> signer_id" where
  "keys_node_id cr k = cr_sha3_256 cr (to_bytes NODE_ID_DOMAIN @ sk_ed25519 k @ sk_ml_dsa_65 k)"

record registry_principal =
  rp_node_id :: signer_id
  rp_signing :: signing_keys

record ('ek, 'mk) trusted =
  tr_id :: signer_id
  tr_ed25519 :: 'ek
  tr_ml_dsa_65 :: 'mk

definition principal_str :: "registry_principal \<Rightarrow> string" where
  "principal_str p = ''registry principal '' @ hex_encode (rp_node_id p)"

text \<open>The loop body of \<open>RegistryPrincipals::new\<close>, with the principals accepted so far.\<close>

definition trust_principal ::
    "('ek, 'mk, 'ms) crypto \<Rightarrow> ('ek, 'mk) trusted list \<Rightarrow> registry_principal \<Rightarrow> (('ek, 'mk) trusted list, string) result" where
  "trust_principal cr trusted p =
     (let derived = keys_node_id cr (rp_signing p) in
      if derived \<noteq> rp_node_id p then Err (principal_str p @ '' has keys of '' @ hex_encode derived)
      else if list_ex (\<lambda>t. tr_id t = rp_node_id p) trusted then Err (principal_str p @ '' is listed twice'')
      else result_bind (map_err (\<lambda>e. principal_str p @ '': Ed25519 key: '' @ e) (cr_ed_key cr (sk_ed25519 (rp_signing p)))) (\<lambda>ed.
        case cr_ml_key cr (sk_ml_dsa_65 (rp_signing p)) of
          None \<Rightarrow> Err (principal_str p @ '': ML-DSA-65 key'')
        | Some ml \<Rightarrow> Ok (trusted @ [\<lparr>tr_id = rp_node_id p, tr_ed25519 = ed, tr_ml_dsa_65 = ml\<rparr>])))"

fun trust_principals ::
    "('ek, 'mk, 'ms) crypto \<Rightarrow> ('ek, 'mk) trusted list \<Rightarrow> registry_principal list \<Rightarrow> (('ek, 'mk) trusted list, string) result" where
  "trust_principals cr trusted [] = Ok trusted"
| "trust_principals cr trusted (p # ps) =
     result_bind (trust_principal cr trusted p) (\<lambda>trusted. trust_principals cr trusted ps)"

definition principals_new ::
    "('ek, 'mk, 'ms) crypto \<Rightarrow> registry_principal list \<Rightarrow> (('ek, 'mk) trusted list, string) result" where
  "principals_new cr ps =
     (if ps = [] then Err ''no registry principal is trusted: name at least one'' else trust_principals cr [] ps)"

definition signed_string :: "signed_kind \<Rightarrow> sha_digest \<Rightarrow> 8 word list" where
  "signed_string kind document = to_bytes (kind_domain kind) @ document"

definition kind_debug :: "signed_kind \<Rightarrow> string" where
  "kind_debug k = (case k of KindReleaseManifest \<Rightarrow> ''ReleaseManifest'' | KindRevocationList \<Rightarrow> ''RevocationList'')"

type_synonym signature_verifier = "signed_kind \<Rightarrow> sha_digest \<Rightarrow> document_signature \<Rightarrow> (signer_id, string) result"

definition principals_verify ::
    "('ek, 'mk, 'ms) crypto \<Rightarrow> ('ek, 'mk) trusted list \<Rightarrow> signature_verifier" where
  "principals_verify cr trusted kind document signature =
     (if ds_kind signature \<noteq> kind
      then Err (''the signature is over a '' @ kind_debug (ds_kind signature) @ '', not a '' @ kind_debug kind)
      else if ds_document signature \<noteq> document
      then Err (''the signature is over '' @ hex_encode (ds_document signature) @ '', not '' @ hex_encode document)
      else case find (\<lambda>t. tr_id t = ds_signer signature) trusted of
        None \<Rightarrow> Err (hex_encode (ds_signer signature) @ '' is not a trusted registry principal'')
      | Some key \<Rightarrow>
          let signed = signed_string kind document in
          if \<not> cr_ed_verify_strict cr (tr_ed25519 key) signed (hs_ed25519 (ds_signature signature))
          then Err ''the Ed25519 half does not verify''
          else case cr_ml_signature cr (hs_ml_dsa_65 (ds_signature signature)) of
            None \<Rightarrow> Err ''the ML-DSA-65 half is not an encoded signature''
          | Some ml \<Rightarrow>
              if \<not> cr_ml_verify cr (tr_ml_dsa_65 key) signed ml then Err ''the ML-DSA-65 half does not verify''
              else Ok (ds_signer signature))"

section \<open>Verifying a release\<close>

record revoked =
  rk_manifests :: "sha_digest set"
  rk_receipts :: "sha_digest set"
  rk_signers :: "signer_id set"

record this_machine =
  tm_accelerator :: string
  tm_fingerprint :: "sha_digest option"
  tm_recipe_model :: string

datatype unverified =
    Changed sha_digest sha_digest
  | ManifestRevoked
  | SignerRevoked signer_id
  | ReceiptsRevoked
  | UnsignedRelease string
  | RecipeUnbound string
  | OtherHardwareClass hardware_class "hardware_class option"
  | FingerprintNotQualified
  | OtherModel string string

definition unverified_to_string :: "unverified \<Rightarrow> string" where
  "unverified_to_string e = (case e of
     Changed expected actual \<Rightarrow> ''the release manifest is '' @ hex_encode actual @ '', not the ''
       @ hex_encode expected @ '' the deployment names''
   | ManifestRevoked \<Rightarrow> ''the release manifest is revoked''
   | SignerRevoked s \<Rightarrow> ''the release was signed by revoked signer '' @ hex_encode s
   | ReceiptsRevoked \<Rightarrow> ''every compatibility receipt the release cites is revoked''
   | UnsignedRelease why \<Rightarrow> ''the release manifest is not signed: '' @ why
   | RecipeUnbound at \<Rightarrow> ''the recipe shipped with the release does not match the manifest at '' @ at
   | OtherHardwareClass release here \<Rightarrow>
       (case here of
          Some here \<Rightarrow> ''the release is for '' @ class_str release @ '' hardware; this is '' @ class_str here
        | None \<Rightarrow> ''the release is for '' @ class_str release @ '' hardware; this machine'' @ [CHR 39]
            @ ''s class is unknown'')
   | FingerprintNotQualified \<Rightarrow>
       ''the release was not qualified on this machine'' @ [CHR 39] @ ''s hardware fingerprint''
   | OtherModel release recipe \<Rightarrow>
       ''the release serves '' @ release @ ''; this machine'' @ [CHR 39] @ ''s recipe serves '' @ recipe)"

definition release_bound :: "hashing \<Rightarrow> release_manifest \<Rightarrow> model_recipe \<Rightarrow> (unit, unverified) result" where
  "release_bound h manifest recipe =
     (if result_ok (digest (ha_sha256 h) (ha_recipe h) recipe) \<noteq> Some (rl_recipe manifest)
      then Err (RecipeUnbound ''/recipe'')
      else if ry_source (mr_model recipe) \<noteq> rm_source (rl_model manifest)
      then Err (RecipeUnbound ''/model/source'')
      else if result_ok (digest (ha_sha256 h) (ha_weights h) (ry_weights (mr_model recipe))) \<noteq> Some (rm_weights (rl_model manifest))
      then Err (RecipeUnbound ''/model/weights'')
      else if ru_image (mr_runtime recipe) \<noteq> rr_image (rl_runtime manifest)
      then Err (RecipeUnbound ''/runtime/image'')
      else if rh_hardware_class (rl_hardware manifest) \<notin> set (ru_hardware_classes (mr_runtime recipe))
      then Err (RecipeUnbound ''/hardware/hardware_class'')
      else Ok ())"

definition release_verify ::
    "hashing \<Rightarrow> release_manifest \<Rightarrow> model_recipe \<Rightarrow> sha_digest \<Rightarrow> document_signature \<Rightarrow> signature_verifier \<Rightarrow>
     revoked \<Rightarrow> this_machine \<Rightarrow> (verified_release, unverified) result" where
  "release_verify h manifest recipe expected signature verifier withdrawn here =
     result_bind (map_err UnsignedRelease (digest (ha_sha256 h) (ha_manifest h) manifest)) (\<lambda>actual.
     if actual \<noteq> expected then Err (Changed expected actual)
     else if actual \<in> rk_manifests withdrawn then Err ManifestRevoked
     else result_bind (map_err UnsignedRelease (verifier KindReleaseManifest actual signature)) (\<lambda>signer.
     if signer \<in> rk_signers withdrawn then Err (SignerRevoked signer)
     else if list_all (\<lambda>r. r \<in> rk_receipts withdrawn) (rl_receipts manifest) then Err ReceiptsRevoked
     else result_bind (release_bound h manifest recipe) (\<lambda>_.
     let class = hw_classify (tm_accelerator here) in
     if class \<noteq> Some (rh_hardware_class (rl_hardware manifest))
     then Err (OtherHardwareClass (rh_hardware_class (rl_hardware manifest)) class)
     else if \<not> (case tm_fingerprint here of None \<Rightarrow> False | Some fp \<Rightarrow> fp \<in> set (rh_fingerprints (rl_hardware manifest)))
     then Err FingerprintNotQualified
     else
       let model = mv_repository (rm_source (rl_model manifest)) in
       if model \<noteq> tm_recipe_model here then Err (OtherModel model (tm_recipe_model here))
       else Ok \<lparr>vr_digest = actual, vr_image = rr_image (rl_runtime manifest), vr_model = model, vr_signer = signer\<rparr>)))"

section \<open>Revocation lists\<close>

record list_policy =
  lp_max_age_ms :: "64 word"
  lp_held_sequence :: "64 word option"
  lp_now_unix_ms :: "64 word"

datatype list_refused =
    ListUnsigned string
  | SignedByARevokedSigner signer_id
  | Rollback "64 word" "64 word"
  | Stale "64 word" "64 word"

definition list_refused_to_string :: "list_refused \<Rightarrow> string" where
  "list_refused_to_string e = (case e of
     ListUnsigned why \<Rightarrow> ''the revocation list is not signed: '' @ why
   | SignedByARevokedSigner s \<Rightarrow> ''the revocation list is signed by '' @ hex_encode s @ '', which it revokes''
   | Rollback held got \<Rightarrow> ''the revocation list is sequence '' @ show_nat (unat got) @ '', older than the ''
       @ show_nat (unat held) @ '' already held''
   | Stale age_ms max_age_ms \<Rightarrow> ''the revocation list was issued '' @ show_nat (unat age_ms) @ '' ms ago; at most ''
       @ show_nat (unat max_age_ms) @ '' ms is accepted'')"

record accepted_list =
  al_revoked :: revoked
  al_sequence :: "64 word"

definition revoke_one :: "revoked \<Rightarrow> revocation \<Rightarrow> revoked" where
  "revoke_one rk r =
     (case rv_subject r of
        RsReleaseManifest d \<Rightarrow> rk\<lparr>rk_manifests := insert d (rk_manifests rk)\<rparr>
      | RsCompatibilityReceipt d \<Rightarrow> rk\<lparr>rk_receipts := insert d (rk_receipts rk)\<rparr>
      | RsSigner s \<Rightarrow> rk\<lparr>rk_signers := insert s (rk_signers rk)\<rparr>)"

definition nothing_revoked :: revoked where
  "nothing_revoked = \<lparr>rk_manifests = {}, rk_receipts = {}, rk_signers = {}\<rparr>"

text \<open>\<open>u64::saturating_sub\<close>.\<close>

definition saturating_sub :: "64 word \<Rightarrow> 64 word \<Rightarrow> 64 word" where
  "saturating_sub a b = (if a < b then 0 else a - b)"

definition accept_list ::
    "hashing \<Rightarrow> signature_verifier \<Rightarrow> revocation_list \<Rightarrow> document_signature \<Rightarrow> list_policy \<Rightarrow>
     (accepted_list, list_refused) result" where
  "accept_list h verifier rlist signature policy =
     result_bind (map_err ListUnsigned (digest (ha_sha256 h) (ha_list h) rlist)) (\<lambda>document.
     result_bind (map_err ListUnsigned (verifier KindRevocationList document signature)) (\<lambda>signer.
     let withdrawn = foldl revoke_one nothing_revoked (rvl_revoked rlist) in
     if signer \<in> rk_signers withdrawn then Err (SignedByARevokedSigner signer)
     else if (case lp_held_sequence policy of None \<Rightarrow> False | Some held \<Rightarrow> rvl_sequence rlist < held)
     then Err (Rollback (the (lp_held_sequence policy)) (rvl_sequence rlist))
     else
       let age_ms = saturating_sub (lp_now_unix_ms policy) (rvl_issued_at rlist) in
       if lp_max_age_ms policy < age_ms then Err (Stale age_ms (lp_max_age_ms policy))
       else Ok \<lparr>al_revoked = withdrawn, al_sequence = rvl_sequence rlist\<rparr>))"

section \<open>Trust\<close>

definition trusts :: "('ek, 'mk, 'ms) crypto \<Rightarrow> registry_principal \<Rightarrow> ('ek, 'mk) trusted \<Rightarrow> bool" where
  "trusts cr p t =
     (tr_id t = rp_node_id p \<and> keys_node_id cr (rp_signing p) = rp_node_id p \<and>
      cr_ed_key cr (sk_ed25519 (rp_signing p)) = Ok (tr_ed25519 t) \<and>
      cr_ml_key cr (sk_ml_dsa_65 (rp_signing p)) = Some (tr_ml_dsa_65 t))"

lemma trust_principal_Ok:
  "trust_principal cr trusted p = Ok ts \<longleftrightarrow>
     (\<exists>t. ts = trusted @ [t] \<and> trusts cr p t \<and> rp_node_id p \<notin> set (map tr_id trusted))"
proof -
  have "list_ex (\<lambda>t. tr_id t = rp_node_id p) trusted \<longleftrightarrow> rp_node_id p \<in> set (map tr_id trusted)"
    by (simp add: list_ex_iff image_iff) metis
  then show ?thesis
    by (auto simp: trust_principal_def trusts_def Let_def result_bind_eq_Ok split: option.splits if_splits)
qed

lemma trust_principals_Ok:
  "trust_principals cr trusted ps = Ok ts \<Longrightarrow> distinct (map tr_id trusted) \<Longrightarrow>
     \<exists>new. ts = trusted @ new \<and> list_all2 (trusts cr) ps new \<and> distinct (map tr_id ts)"
proof (induction ps arbitrary: trusted)
  case (Cons p ps)
  from Cons.prems(1) obtain t where t: "trusts cr p t" "rp_node_id p \<notin> set (map tr_id trusted)"
    and r: "trust_principals cr (trusted @ [t]) ps = Ok ts"
    by (auto simp: result_bind_eq_Ok trust_principal_Ok)
  have "distinct (map tr_id (trusted @ [t]))" using t Cons.prems(2) by (auto simp: trusts_def)
  from Cons.IH [OF r this] t(1) show ?case by auto
qed simp

lemma principals_trusted:
  assumes "principals_new cr ps = Ok ts" "t \<in> set ts"
  shows "\<exists>p\<in>set ps. trusts cr p t"
proof -
  from assms(1) have "trust_principals cr [] ps = Ok ts" by (auto simp: principals_new_def split: if_splits)
  from trust_principals_Ok [OF this] have "list_all2 (trusts cr) ps ts" by auto
  from rel_set [OF this assms(2)] show ?thesis .
qed

text \<open>Both halves of a signature verify under a principal's own keys.\<close>

definition signed_by ::
    "('ek, 'mk, 'ms) crypto \<Rightarrow> registry_principal \<Rightarrow> signed_kind \<Rightarrow> sha_digest \<Rightarrow> document_signature \<Rightarrow> bool" where
  "signed_by cr p kind document signature =
     (keys_node_id cr (rp_signing p) = rp_node_id p \<and> ds_signer signature = rp_node_id p \<and>
      ds_kind signature = kind \<and> ds_document signature = document \<and>
      (\<exists>ed ml mls. cr_ed_key cr (sk_ed25519 (rp_signing p)) = Ok ed \<and>
         cr_ed_verify_strict cr ed (signed_string kind document) (hs_ed25519 (ds_signature signature)) \<and>
         cr_ml_key cr (sk_ml_dsa_65 (rp_signing p)) = Some ml \<and>
         cr_ml_signature cr (hs_ml_dsa_65 (ds_signature signature)) = Some mls \<and>
         cr_ml_verify cr ml (signed_string kind document) mls))"

lemma principals_verify_sound:
  assumes "principals_new cr ps = Ok trusted" "principals_verify cr trusted kind document signature = Ok signer"
  shows "\<exists>p\<in>set ps. rp_node_id p = signer \<and> signed_by cr p kind document signature"
proof -
  from assms(2) obtain t mls where t: "find (\<lambda>t. tr_id t = ds_signer signature) trusted = Some t"
    and v: "ds_kind signature = kind" "ds_document signature = document" "signer = ds_signer signature"
      "cr_ed_verify_strict cr (tr_ed25519 t) (signed_string kind document) (hs_ed25519 (ds_signature signature))"
      "cr_ml_signature cr (hs_ml_dsa_65 (ds_signature signature)) = Some mls"
      "cr_ml_verify cr (tr_ml_dsa_65 t) (signed_string kind document) mls"
    by (auto simp: principals_verify_def Let_def split: option.splits if_splits)
  from find_Some_in [OF t] have tr: "t \<in> set trusted" "tr_id t = ds_signer signature" by auto
  from principals_trusted [OF assms(1) tr(1)] obtain p where "p \<in> set ps" "trusts cr p t" by blast
  with tr(2) v show ?thesis by (intro bexI [of _ p]) (auto simp: signed_by_def trusts_def)
qed

lemma release_bound_Ok:
  "release_bound h manifest recipe = Ok () \<longleftrightarrow>
     digest (ha_sha256 h) (ha_recipe h) recipe = Ok (rl_recipe manifest) \<and>
     ry_source (mr_model recipe) = rm_source (rl_model manifest) \<and>
     digest (ha_sha256 h) (ha_weights h) (ry_weights (mr_model recipe)) = Ok (rm_weights (rl_model manifest)) \<and>
     ru_image (mr_runtime recipe) = rr_image (rl_runtime manifest) \<and>
     rh_hardware_class (rl_hardware manifest) \<in> set (ru_hardware_classes (mr_runtime recipe))"
  by (auto simp: release_bound_def split: if_splits)

text \<open>The conditions on the content, beside the signature.\<close>

definition release_fit :: "hashing \<Rightarrow> release_manifest \<Rightarrow> model_recipe \<Rightarrow> revoked \<Rightarrow> this_machine \<Rightarrow> bool" where
  "release_fit h manifest recipe withdrawn here =
     ((\<exists>r\<in>set (rl_receipts manifest). r \<notin> rk_receipts withdrawn) \<and>
      digest (ha_sha256 h) (ha_recipe h) recipe = Ok (rl_recipe manifest) \<and>
      ry_source (mr_model recipe) = rm_source (rl_model manifest) \<and>
      digest (ha_sha256 h) (ha_weights h) (ry_weights (mr_model recipe)) = Ok (rm_weights (rl_model manifest)) \<and>
      ru_image (mr_runtime recipe) = rr_image (rl_runtime manifest) \<and>
      rh_hardware_class (rl_hardware manifest) \<in> set (ru_hardware_classes (mr_runtime recipe)) \<and>
      hw_classify (tm_accelerator here) = Some (rh_hardware_class (rl_hardware manifest)) \<and>
      (\<exists>fp\<in>set (rh_fingerprints (rl_hardware manifest)). tm_fingerprint here = Some fp) \<and>
      mv_repository (rm_source (rl_model manifest)) = tm_recipe_model here)"

lemma release_verify_Ok:
  "release_verify h manifest recipe expected signature verifier withdrawn here = Ok vr \<longleftrightarrow>
     digest (ha_sha256 h) (ha_manifest h) manifest = Ok expected \<and> expected \<notin> rk_manifests withdrawn \<and>
     (\<exists>signer. verifier KindReleaseManifest expected signature = Ok signer \<and> signer \<notin> rk_signers withdrawn \<and>
        vr = \<lparr>vr_digest = expected, vr_image = rr_image (rl_runtime manifest),
              vr_model = mv_repository (rm_source (rl_model manifest)), vr_signer = signer\<rparr>) \<and>
     release_fit h manifest recipe withdrawn here"
  unfolding release_verify_def release_fit_def result_bind_eq_Ok map_err_eq_Ok Let_def
  by (auto simp: result_bind_eq_Ok release_bound_Ok list_all_iff split: if_splits option.splits)

section \<open>Claims\<close>

text \<open>
  C18. What launches was signed for this machine: when a release verifies against the principals the
  host trusts, the manifest's content digest is the one the deployment names and is not withdrawn; a listed
  principal, whose identity is derived from its keys and is not withdrawn, signed exactly that digest as a release,
  with both halves; some receipt still stands; the shipped recipe is the one the manifest
  binds, with the same source, weights and image; the machine is of the release's class and has one of its qualified
  fingerprints; and the image and model that will be launched are the manifest's.
\<close>

theorem release_verified_sound:
  assumes "principals_new cr ps = Ok trusted"
    and "release_verify h manifest recipe expected signature (principals_verify cr trusted) withdrawn here = Ok vr"
  shows "digest (ha_sha256 h) (ha_manifest h) manifest = Ok expected \<and> expected \<notin> rk_manifests withdrawn \<and>
    (\<exists>p\<in>set ps. signed_by cr p KindReleaseManifest expected signature \<and> rp_node_id p \<notin> rk_signers withdrawn \<and>
       vr_signer vr = rp_node_id p) \<and>
    release_fit h manifest recipe withdrawn here \<and> vr_digest vr = expected \<and>
    vr_image vr = ru_image (mr_runtime recipe) \<and> vr_model vr = tm_recipe_model here"
proof -
  from assms(2) obtain signer where s: "principals_verify cr trusted KindReleaseManifest expected signature = Ok signer"
    "signer \<notin> rk_signers withdrawn" "vr_signer vr = signer"
    and r: "digest (ha_sha256 h) (ha_manifest h) manifest = Ok expected" "expected \<notin> rk_manifests withdrawn"
      "release_fit h manifest recipe withdrawn here" "vr_digest vr = expected"
      "vr_image vr = rr_image (rl_runtime manifest)" "vr_model vr = mv_repository (rm_source (rl_model manifest))"
    unfolding release_verify_Ok by auto
  from principals_verify_sound [OF assms(1) s(1)] s r show ?thesis by (auto simp: release_fit_def)
qed

text \<open>
  A deployment's digest pins its release: two manifests that verify against the same digest have
  the same content, unless their canonical texts are a collision of the hash.
\<close>

lemma verified_content_pinned:
  assumes "release_verify h m1 recipe1 expected sig1 verifier1 withdrawn1 here1 = Ok vr1"
    and "release_verify h m2 recipe2 expected sig2 verifier2 withdrawn2 here2 = Ok vr2"
    and "ha_manifest h m1 = Ok v1" and "ha_manifest h m2 = Ok v2"
    and "\<And>s1 s2. canonical v1 = Ok s1 \<Longrightarrow> canonical v2 = Ok s2 \<Longrightarrow> ha_sha256 h s1 = ha_sha256 h s2 \<Longrightarrow> s1 = s2"
  shows "json_same v1 v2"
proof -
  from assms(1-4) obtain s1 s2 where s: "canonical v1 = Ok s1" "canonical v2 = Ok s2" "ha_sha256 h s1 = ha_sha256 h s2"
    by (auto simp: release_verify_Ok digest_def result_bind_eq_Ok)
  with assms(5) [OF s] have "canonical v2 = Ok s1" by simp
  with s(1) show ?thesis unfolding canonical_def by (rule write_same)
qed

lemma revoke_all:
  "foldl revoke_one rk rs =
     \<lparr>rk_manifests = rk_manifests rk \<union> {d. RsReleaseManifest d \<in> rv_subject ` set rs},
      rk_receipts = rk_receipts rk \<union> {d. RsCompatibilityReceipt d \<in> rv_subject ` set rs},
      rk_signers = rk_signers rk \<union> {d. RsSigner d \<in> rv_subject ` set rs}\<rparr>"
  by (induction rs arbitrary: rk) (auto simp: revoke_one_def split: revoked_subject.splits)

lemma saturating_sub_le: "saturating_sub a b \<le> c \<longleftrightarrow> uint a \<le> uint b + uint c"
proof (cases "a < b")
  case True
  then have "uint a < uint b" by (simp add: word_less_def)
  with uint_ge_0 [of c] have "uint a \<le> uint b + uint c" by linarith
  with True show ?thesis by (simp add: saturating_sub_def)
next
  case False
  then have "uint (a - b) = uint a - uint b" by (simp add: uint_minus_simple_alt [symmetric] word_le_def not_less)
  with False show ?thesis by (auto simp: saturating_sub_def word_le_def)
qed

text \<open>
  A revocation list is believed only in order: an accepted list was signed as a revocation list, with both halves,
  by a listed principal that the list itself does not withdraw; its sequence is not below the one already held; it was issued
  at most the maximum age before now, with no wrap-around when it was issued in the future; and what
  it withdraws is exactly what it lists, each as what it is.
\<close>

lemma accept_list_sound:
  assumes "principals_new cr ps = Ok trusted"
    and "accept_list h (principals_verify cr trusted) rlist signature policy = Ok a"
  shows "(\<exists>p\<in>set ps. \<exists>document. digest (ha_sha256 h) (ha_list h) rlist = Ok document \<and>
      signed_by cr p KindRevocationList document signature \<and> RsSigner (rp_node_id p) \<notin> rv_subject ` set (rvl_revoked rlist)) \<and>
    (\<forall>held. lp_held_sequence policy = Some held \<longrightarrow> held \<le> al_sequence a) \<and> al_sequence a = rvl_sequence rlist \<and>
    uint (lp_now_unix_ms policy) \<le> uint (rvl_issued_at rlist) + uint (lp_max_age_ms policy) \<and>
    rk_manifests (al_revoked a) = {d. RsReleaseManifest d \<in> rv_subject ` set (rvl_revoked rlist)} \<and>
    rk_receipts (al_revoked a) = {d. RsCompatibilityReceipt d \<in> rv_subject ` set (rvl_revoked rlist)} \<and>
    rk_signers (al_revoked a) = {s. RsSigner s \<in> rv_subject ` set (rvl_revoked rlist)}"
proof -
  from assms(2) obtain document signer where d: "digest (ha_sha256 h) (ha_list h) rlist = Ok document"
    and v: "principals_verify cr trusted KindRevocationList document signature = Ok signer"
    and r: "RsSigner signer \<notin> rv_subject ` set (rvl_revoked rlist)"
      "\<forall>held. lp_held_sequence policy = Some held \<longrightarrow> held \<le> rvl_sequence rlist"
      "saturating_sub (lp_now_unix_ms policy) (rvl_issued_at rlist) \<le> lp_max_age_ms policy"
      "a = \<lparr>al_revoked = foldl revoke_one nothing_revoked (rvl_revoked rlist), al_sequence = rvl_sequence rlist\<rparr>"
    by (auto simp: accept_list_def Let_def result_bind_eq_Ok revoke_all nothing_revoked_def
        split: if_splits option.splits)
  from principals_verify_sound [OF assms(1) v] d r show ?thesis
    by (auto simp: revoke_all nothing_revoked_def saturating_sub_le)
qed

text \<open>
  Kinds of document are kept apart: the strings that are signed for two documents are equal only
  when both the kind and the digest are.
\<close>

lemma signed_string_separates:
  "signed_string k d = signed_string k' d' \<longleftrightarrow> k = k' \<and> d = d'"
proof -
  have "to_bytes (kind_domain KindReleaseManifest) @ x \<noteq> to_bytes (kind_domain KindRevocationList) @ y" for x y
    by (simp add: to_bytes_def kind_domain_def byte_of_def)
  then show ?thesis by (cases k; cases k') (auto simp: signed_string_def dest: sym)
qed

section \<open>An example\<close>

definition ex_crypto :: "(8 word list, 8 word list, 8 word list) crypto" where
  "ex_crypto = \<lparr>cr_sha3_256 = (\<lambda>b. drop 14 b), cr_ed_key = (\<lambda>b. Ok b), cr_ml_key = (\<lambda>b. Some b),
     cr_ed_verify_strict = (\<lambda>k m s. s = k @ m), cr_ml_signature = (\<lambda>b. Some b),
     cr_ml_verify = (\<lambda>k m s. s = k @ m)\<rparr>"

definition ex_principal :: registry_principal where
  "ex_principal = \<lparr>rp_node_id = [1, 2], rp_signing = \<lparr>sk_ed25519 = [1], sk_ml_dsa_65 = [2]\<rparr>\<rparr>"

definition ex_trusted :: "(8 word list, 8 word list) trusted" where
  "ex_trusted = \<lparr>tr_id = [1, 2], tr_ed25519 = [1], tr_ml_dsa_65 = [2]\<rparr>"

definition ex_hashing :: hashing where
  "ex_hashing = \<lparr>ha_sha256 = to_bytes, ha_manifest = (\<lambda>m. Ok (JString (rl_release m))),
     ha_recipe = (\<lambda>r. Ok (JString (mr_recipe_id r))), ha_weights = (\<lambda>w. Ok (JInt (int (length w)))),
     ha_list = (\<lambda>l. Ok (JInt (uint (rvl_sequence l))))\<rparr>"

definition ex_source :: model_revision where
  "ex_source = \<lparr>mv_repository = ''Qwen/Qwen3.6-27B'', mv_revision = replicate 20 1\<rparr>"

definition ex_artifact :: artifact_ref where
  "ex_artifact = \<lparr>ar_uri = ''a'', ar_sha256 = []\<rparr>"

definition ex_manifest :: release_manifest where
  "ex_manifest = \<lparr>rl_release = ''r1'', rl_created_at = 1, rl_runtime = \<lparr>rr_git_commit = replicate 20 1, rr_image = ex_image\<rparr>,
     rl_recipe = to_bytes (json_string ''chat''), rl_model = \<lparr>rm_source = ex_source, rm_weights = to_bytes ''0''\<rparr>,
     rl_hardware = \<lparr>rh_hardware_class = HardwareClass ''gb10'', rh_fingerprints = [[5]]\<rparr>,
     rl_sbom = \<lparr>sb_format = SpdxJson, sb_artifact = ex_artifact\<rparr>, rl_receipts = [[7], [8]]\<rparr>"

definition ex_model_recipe :: model_recipe where
  "ex_model_recipe = \<lparr>mr_recipe_id = ''chat'', mr_model = \<lparr>ry_source = ex_source, ry_weights = []\<rparr>,
     mr_architecture = \<lparr>ac_family = ''qwen'', ac_tokenizer = ex_artifact, ac_chat_template = ex_artifact\<rparr>,
     mr_quantization = \<lparr>qz_weights = Fp8, qz_activations = Adaptive, qz_kv_cache = Fp8\<rparr>,
     mr_limits = \<lparr>lm_max_context_tokens = 1, lm_max_concurrent_sequences = 1, lm_gpu_memory_permille = 900\<rparr>,
     mr_runtime = \<lparr>ru_engine = EngMetrale, ru_image = ex_image, ru_hardware_classes = [HardwareClass ''gb10''],
       ru_min_nodes = 1, ru_serve_flags = [], ru_env = []\<rparr>,
     mr_semantics = \<lparr>sm_tool_calls = Unsupported, sm_structured_output = Unsupported, sm_reasoning = Unsupported,
       sm_input_modalities = [ModText], sm_output_modalities = [ModText]\<rparr>, mr_evidence = []\<rparr>"

definition ex_signature :: "signed_kind \<Rightarrow> sha_digest \<Rightarrow> document_signature" where
  "ex_signature k d = \<lparr>ds_kind = k, ds_document = d, ds_signer = [1, 2],
     ds_signature = \<lparr>hs_ed25519 = [1] @ signed_string k d, hs_ml_dsa_65 = [2] @ signed_string k d\<rparr>\<rparr>"

definition ex_expected :: sha_digest where
  "ex_expected = to_bytes (json_string ''r1'')"

definition ex_here :: this_machine where
  "ex_here = \<lparr>tm_accelerator = ''NVIDIA GB10'', tm_fingerprint = Some [5], tm_recipe_model = ''Qwen/Qwen3.6-27B''\<rparr>"

lemma ex_principals: "principals_new ex_crypto [ex_principal] = Ok [ex_trusted]"
  by code_simp

lemma ex_signed: "principals_verify ex_crypto [ex_trusted] k d (ex_signature k d) = Ok [1, 2]"
  by (simp add: principals_verify_def ex_signature_def ex_crypto_def ex_trusted_def)

lemma ex_fit: "release_fit ex_hashing ex_manifest ex_model_recipe nothing_revoked ex_here"
  by (simp add: release_fit_def ex_manifest_def ex_model_recipe_def ex_here_def ex_hashing_def digest_def canonical_def
      nothing_revoked_def ex_classify show_int_def show_nat.simps [of 0] char_literals ex_source_def) blast

lemma ex_verified:
  "\<exists>vr. release_verify ex_hashing ex_manifest ex_model_recipe ex_expected
     (ex_signature KindReleaseManifest ex_expected) (principals_verify ex_crypto [ex_trusted]) nothing_revoked ex_here = Ok vr"
proof -
  have "digest (ha_sha256 ex_hashing) (ha_manifest ex_hashing) ex_manifest = Ok ex_expected"
    by (simp add: digest_def ex_hashing_def ex_manifest_def canonical_def ex_expected_def)
  then show ?thesis unfolding release_verify_Ok using ex_signed ex_fit by (auto simp: nothing_revoked_def)
qed

theorem release_verified_sound_witness:
  "signed_by ex_crypto ex_principal KindReleaseManifest ex_expected (ex_signature KindReleaseManifest ex_expected)"
proof -
  from ex_verified obtain vr where "release_verify ex_hashing ex_manifest ex_model_recipe ex_expected
     (ex_signature KindReleaseManifest ex_expected) (principals_verify ex_crypto [ex_trusted]) nothing_revoked ex_here = Ok vr" by blast
  from release_verified_sound [OF ex_principals this] show ?thesis by auto
qed

definition ex_list :: revocation_list where
  "ex_list = \<lparr>rvl_issuer = NodeId [9], rvl_sequence = 3, rvl_issued_at = 10,
     rvl_revoked = [\<lparr>rv_subject = RsReleaseManifest [4], rv_reason = Defect, rv_revoked_at = 9\<rparr>]\<rparr>"

definition ex_policy :: list_policy where
  "ex_policy = \<lparr>lp_max_age_ms = 5, lp_held_sequence = Some 2, lp_now_unix_ms = 12\<rparr>"

lemma ex_accepted:
  "\<exists>a. accept_list ex_hashing (principals_verify ex_crypto [ex_trusted]) ex_list
     (ex_signature KindRevocationList (to_bytes ''3'')) ex_policy = Ok a \<and> al_sequence a = 3"
proof -
  have "digest (ha_sha256 ex_hashing) (ha_list ex_hashing) ex_list = Ok (to_bytes ''3'')" by code_simp
  then show ?thesis
    by (simp add: accept_list_def ex_signed Let_def)
      (simp add: nothing_revoked_def revoke_one_def ex_list_def ex_policy_def saturating_sub_def)
qed

end
