(* ===== verification/Logs.thy ===== *)
theory Logs
  imports Canonical
begin

text \<open>
  Cleaning a log line (\<open>sanitize\<close> of \<open>metralectl-control/src/logs.rs\<close>): escape sequences, control
  characters and bidirectional overrides are removed and the width is capped. The loop over the
  characters is a recursion on those still to be read, with the number already written.
  The theorem: the line that is shown is short, holds nothing a terminal acts on, and is a
  fixed point; a clean line that is not too long is left alone.
\<close>

definition MAX_LINE :: nat where
  "MAX_LINE = 2000"

abbreviation esc :: string where
  "esc \<equiv> [CHR 27]"

definition ellipsis :: string where
  "ellipsis = [CHR 226, CHR 128, CHR 166]"

definition char_is_alphabetic :: "string \<Rightarrow> bool" where
  "char_is_alphabetic ch =
     (case ch of [c] \<Rightarrow> is_ascii_lowercase c \<or> is_ascii_uppercase c | _ \<Rightarrow> False)"

text \<open>The two inner loops: past the first character that ends the sequence.\<close>

fun skip_past :: "(string \<Rightarrow> bool) \<Rightarrow> string list \<Rightarrow> string list" where
  "skip_past P [] = []"
| "skip_past P (t # ts) = (if P t then ts else skip_past P ts)"

definition dropped :: "string \<Rightarrow> bool" where
  "dropped c =
     (let n = code_point c in
      (n < 32 \<and> n \<noteq> 9) \<or> (127 \<le> n \<and> n \<le> 159) \<or> (8234 \<le> n \<and> n \<le> 8238) \<or> (8294 \<le> n \<and> n \<le> 8297))"

definition skip_escape :: "string list \<Rightarrow> string list" where
  "skip_escape cs =
     (case cs of
        [] \<Rightarrow> []
      | d # ds \<Rightarrow>
          if d = ''['' then skip_past char_is_alphabetic ds
          else if d = '']'' then skip_past (\<lambda>t. t = [CHR 7] \<or> t = esc) ds
          else ds)"

lemma skip_past_shorter [simp]: "length (skip_past P ts) \<le> length ts"
  by (induction ts) auto

lemma skip_escape_shorter [simp]: "length (skip_escape cs) \<le> length cs"
  by (auto simp: skip_escape_def intro: le_SucI split: list.splits)

function sanitize_loop :: "nat \<Rightarrow> string list \<Rightarrow> string list" where
  "sanitize_loop n [] = []"
| "sanitize_loop n (c # cs) =
     (if c = esc then sanitize_loop n (skip_escape cs)
      else if dropped c then sanitize_loop n cs
      else c # (if MAX_LINE \<le> n + 1 then [ellipsis] else sanitize_loop (n + 1) cs))"
  by pat_completeness auto
termination by (relation "measure (\<lambda>(_, cs). length cs)") (auto simp: less_Suc_eq_le)

definition sanitize :: "string \<Rightarrow> string" where
  "sanitize raw = concat (sanitize_loop 0 (str_chars raw))"

section \<open>What is left\<close>

definition clean_char :: "string \<Rightarrow> bool" where
  "clean_char c = (utf8_char c \<and> c \<noteq> esc \<and> \<not> dropped c)"

lemma esc_dropped: "dropped esc"
  by (simp add: dropped_def code_point_def byte_of_def)

lemma clean_ellipsis: "clean_char ellipsis"
  by (simp add: clean_char_def ellipsis_def utf8_char_def byte_of_def dropped_def code_point_def)

lemma set_skip_past: "set (skip_past P ts) \<subseteq> set ts"
  by (induction ts) auto

lemma set_skip_escape: "set (skip_escape cs) \<subseteq> set cs"
  by (auto simp: skip_escape_def dest: subsetD [OF set_skip_past] split: list.splits if_splits)

lemma sanitize_loop_clean:
  "list_all utf8_char cs \<Longrightarrow> list_all clean_char (sanitize_loop n cs)"
proof (induction n cs rule: sanitize_loop.induct)
  case (2 n c cs)
  have "list_all utf8_char (skip_escape cs)" using "2.prems" set_skip_escape by (fastforce simp: list_all_iff)
  with 2 show ?case using clean_ellipsis by (auto simp: clean_char_def)
qed simp

lemma sanitize_loop_length: "n < MAX_LINE \<Longrightarrow> n + length (sanitize_loop n cs) \<le> MAX_LINE + 1"
proof (induction n cs rule: sanitize_loop.induct)
  case (2 n c cs)
  show ?case
  proof (cases "MAX_LINE \<le> n + 1")
    case False
    with 2 show ?thesis by auto
  qed (use 2 in auto)
qed simp

text \<open>Clean characters are copied until the line is full.\<close>

lemma sanitize_loop_short:
  "list_all clean_char cs \<Longrightarrow> n + length cs < MAX_LINE \<Longrightarrow> sanitize_loop n cs = cs"
  by (induction n cs rule: sanitize_loop.induct) (auto simp: clean_char_def)

lemma sanitize_loop_full:
  "list_all clean_char cs \<Longrightarrow> n + length cs = MAX_LINE \<Longrightarrow> cs \<noteq> [] \<Longrightarrow> sanitize_loop n (cs @ xs) = cs @ [ellipsis]"
proof (induction cs arbitrary: n)
  case (Cons c cs)
  have "MAX_LINE \<le> n + 1 \<longleftrightarrow> cs = []" using Cons.prems(2) by (cases cs) auto
  with Cons show ?case by (cases "cs = []") (auto simp: clean_char_def)
qed simp

text \<open>What the loop writes is short, or a full line and the mark.\<close>

lemma sanitize_loop_shape:
  "n < MAX_LINE \<Longrightarrow> n + length (sanitize_loop n cs) < MAX_LINE \<or>
     (\<exists>ds. sanitize_loop n cs = ds @ [ellipsis] \<and> n + length ds = MAX_LINE \<and> ds \<noteq> [])"
proof (induction n cs rule: sanitize_loop.induct)
  case (2 n c cs)
  consider "c = esc" | "c \<noteq> esc" "dropped c" | "c \<noteq> esc" "\<not> dropped c" "MAX_LINE \<le> n + 1"
    | "c \<noteq> esc" "\<not> dropped c" "\<not> MAX_LINE \<le> n + 1" by blast
  then show ?case
  proof cases
    case 3
    then have "sanitize_loop n (c # cs) = [c] @ [ellipsis]" by simp
    moreover have "n + length [c] = MAX_LINE" using 3 "2.prems" by simp
    ultimately show ?thesis by blast
  next
    case 4
    then have "sanitize_loop n (c # cs) = c # sanitize_loop (n + 1) cs" by simp
    moreover from 4 "2.IH"(3) have "n + 1 + length (sanitize_loop (n + 1) cs) < MAX_LINE \<or>
      (\<exists>ds. sanitize_loop (n + 1) cs = ds @ [ellipsis] \<and> n + 1 + length ds = MAX_LINE \<and> ds \<noteq> [])" by simp
    ultimately show ?thesis by (auto intro: exI [of _ "c # _"])
  qed (use 2 in auto)
qed simp

lemma sanitize_loop_idem:
  assumes "list_all utf8_char cs"
  shows "sanitize_loop 0 (sanitize_loop 0 cs) = sanitize_loop 0 cs"
proof -
  note clean = sanitize_loop_clean [OF assms, of 0]
  have "0 < MAX_LINE" by (simp add: MAX_LINE_def)
  from sanitize_loop_shape [OF this, of cs] show ?thesis
  proof (elim disjE exE conjE)
    assume "0 + length (sanitize_loop 0 cs) < MAX_LINE"
    then show ?thesis by (intro sanitize_loop_short [OF clean])
  next
    fix ds
    assume "sanitize_loop 0 cs = ds @ [ellipsis]" "0 + length ds = MAX_LINE" "ds \<noteq> []"
    with sanitize_loop_full [of ds 0 "[ellipsis]"] clean show ?thesis by simp
  qed
qed

text \<open>The characters written are read back.\<close>

lemma str_chars_append_char:
  assumes "utf8_char c"
  shows "str_chars (c @ s) = c # str_chars s"
proof -
  obtain a r where c: "c = a # r" using assms by (cases c) (auto simp: utf8_char_def)
  have "length r = utf8_extra a"
    using assms unfolding c by (cases rule: utf8_char_cases) (auto simp: utf8_extra_def)
  then show ?thesis unfolding c by simp
qed

lemma str_chars_concat: "list_all utf8_char cs \<Longrightarrow> str_chars (concat cs) = cs"
  by (induction cs) (simp_all add: str_chars_append_char)

section \<open>Claims\<close>

text \<open>
  A shown log line is bounded and inert: it has at most 2001 characters; none of them is an escape, a
  control character other than tab, or a bidirectional override or isolate; cleaning it again changes nothing;
  and a line that is already clean and shorter than the cap is shown as it is.
\<close>

lemma sanitize_bounded_inert:
  assumes "utf8 raw"
  shows "length (str_chars (sanitize raw)) \<le> 2001 \<and> list_all clean_char (str_chars (sanitize raw)) \<and>
    sanitize (sanitize raw) = sanitize raw \<and>
    (list_all clean_char (str_chars raw) \<and> length (str_chars raw) < 2000 \<longrightarrow> sanitize raw = raw)"
proof -
  have u: "list_all utf8_char (str_chars raw)" using assms by (simp add: utf8_def)
  note clean = sanitize_loop_clean [OF u, of 0]
  then have "list_all utf8_char (sanitize_loop 0 (str_chars raw))" by (auto simp: list_all_iff clean_char_def)
  then have s: "str_chars (sanitize raw) = sanitize_loop 0 (str_chars raw)"
    unfolding sanitize_def by (rule str_chars_concat)
  have "length (sanitize_loop 0 (str_chars raw)) \<le> 2001"
    using sanitize_loop_length [of 0 "str_chars raw"] by (simp add: MAX_LINE_def)
  moreover have "sanitize (sanitize raw) = sanitize raw"
    using sanitize_loop_idem [OF u] unfolding sanitize_def [of "sanitize raw"] s by (simp add: sanitize_def)
  moreover have "sanitize raw = raw" if "list_all clean_char (str_chars raw)" "length (str_chars raw) < 2000"
    using sanitize_loop_short [OF that(1), of 0] that(2) by (simp add: sanitize_def MAX_LINE_def)
  ultimately show ?thesis using clean s by simp
qed

lemma ex_log_utf8: "utf8 (esc @ ''[31mred'' @ esc @ ''[0m'')"
  by code_simp

end
