(* ===== verification/Cluster_Driver.thy ===== *)
theory Cluster_Driver
  imports Rank
begin

text \<open>
  Driving a cluster from the head (\<open>metralectl-agent/src/clusterdriver.rs\<close> with \<open>plan.rs\<close>,
  \<open>types.rs\<close> and \<open>ceremonies.rs\<close>): resolve a selection, preview, prepare every rank, commit, abort,
  stop and supervise.

  This machine's rank service and the transport to the others are operations over one world
  \<open>'w\<close>: a rank is asked through \<^term>\<open>ops\<close>, local or remote. The state holds the two slots of the
  driver, that world, and the questions asked with their answers, oldest first. A ceremony is one step: two
  sessions that interleave inside one are not modelled. The rank service of theory \<open>Rank\<close> provides the
  local operations, and keeps the contract that a roll back rests on.

  The theorems: prepare asks every rank and either keeps the whole attempt or releases what was
  granted; a commit leaves a whole cluster or asks every started rank to stop and every other to release; a stop
  that fails keeps exactly what is still up; and in every run only prepared ranks are committed, and only
  started containers stopped.
\<close>

section \<open>Addresses to dial\<close>

text \<open>\<open>SocketAddr::from_str\<close>.\<close>

record sock_addr =
  so_ip :: ip_addr
  so_port :: "16 word"

definition read_port :: "string \<Rightarrow> (16 word \<times> string) option" where
  "read_port s =
     Option.bind (read_char CHR '':'' s) (\<lambda>s.
       map_option (\<lambda>(n, rest). (of_nat n, rest)) (read_number 10 (length s) True 16 s))"

definition read_scope :: "string \<Rightarrow> string option" where
  "read_scope s =
     (case read_char CHR ''%'' s of
        None \<Rightarrow> Some s
      | Some s \<Rightarrow> map_option snd (read_number 10 (length s) True 32 s))"

definition sock_addr_parse :: "string \<Rightarrow> sock_addr option" where
  "sock_addr_parse s =
     (case Option.bind (read_ipv4 s) (\<lambda>(a, rest).
           Option.bind (read_port rest) (\<lambda>(p, rest). if rest = [] then Some \<lparr>so_ip = V4 a, so_port = p\<rparr> else None)) of
        Some r \<Rightarrow> Some r
      | None \<Rightarrow>
          Option.bind (read_char CHR ''['' s) (\<lambda>s.
          Option.bind (read_ipv6 s) (\<lambda>(g, s).
          Option.bind (read_scope s) (\<lambda>s.
          Option.bind (read_char CHR '']'' s) (\<lambda>s.
          Option.bind (read_port s) (\<lambda>(p, rest).
            if rest = [] then Some \<lparr>so_ip = V6 g, so_port = p\<rparr> else None))))))"

section \<open>State\<close>

record cluster_target =
  tg_assignment :: rank_assignment
  tg_addr :: "sock_addr option"
  tg_name :: display_name

record rank_started =
  rt_node :: node_id
  rt_name :: display_name
  rt_rank :: "16 word"
  rt_container :: string
  rt_endpoint :: "string option"

record rank_preview =
  rw_node :: node_id
  rw_name :: display_name
  rw_rank :: "16 word"
  rw_master_addr :: string
  rw_command :: string
  rw_unmapped :: "string list"

record rank_prepared =
  rq_node :: node_id
  rq_name :: display_name
  rq_rank :: "16 word"
  rq_prepared :: bool
  rq_reason :: string

record cluster_pending =
  pn_epoch :: string
  pn_port :: "16 word"
  pn_targets :: "cluster_target list"

record cluster_running =
  ru_targets :: "cluster_target list"
  ru_started :: "rank_started list"

record torn =
  to_nodes :: "node_id list"
  to_why :: string

text \<open>What a rank is asked: \<open>RankService\<close> on this machine, \<open>RankTransport\<close> on another.\<close>

record 'w rank_ops =
  ro_prepare :: "string \<Rightarrow> rank_assignment \<Rightarrow> 'w \<Rightarrow> prepare_reply \<times> 'w"
  ro_commit :: "string \<Rightarrow> 'w \<Rightarrow> (string, string) result \<times> 'w"
  ro_alive :: "string \<Rightarrow> 'w \<Rightarrow> (bool, string) result \<times> 'w"
  ro_stop :: "string \<Rightarrow> 'w \<Rightarrow> (unit, string) result \<times> 'w"
  ro_abort :: "string \<Rightarrow> 'w \<Rightarrow> 'w"

record 'w cluster_driver =
  cd_fleet :: "'w \<Rightarrow> node_descriptor list"
  cd_content_hash :: "string \<Rightarrow> (string, string) result"
  cd_recipe_port :: "string \<Rightarrow> (16 word option, string) result"
  cd_render :: "rank_assignment \<Rightarrow> (string \<times> string list, string) result"
  cd_remote_preview :: "node_id \<Rightarrow> sock_addr \<Rightarrow> rank_assignment \<Rightarrow> 'w \<Rightarrow> (string \<times> string list, string) result \<times> 'w"
  cd_local :: "'w rank_ops"
  cd_remote :: "node_id \<Rightarrow> sock_addr \<Rightarrow> 'w rank_ops"
  cd_peer_port :: "16 word"
  cd_settle_secs :: nat

type_synonym rank_peer = "node_id \<times> sock_addr option"

datatype rank_ask =
    AskPreview rank_peer
  | AskPrepare rank_peer string prepare_reply
  | AskCommit rank_peer string "(string, string) result"
  | AskAlive rank_peer string "(bool, string) result"
  | AskStop rank_peer string "(unit, string) result"
  | AskAbort rank_peer string

record 'w cluster_state =
  cl_world :: 'w
  cl_pending :: "cluster_pending option"
  cl_running :: "cluster_running option"
  cl_asked :: "rank_ask list"

definition tg_node :: "cluster_target \<Rightarrow> node_id" where
  "tg_node t = ra_node (tg_assignment t)"

definition tg_peer :: "cluster_target \<Rightarrow> rank_peer" where
  "tg_peer t = (tg_node t, tg_addr t)"

text \<open>The \<open>match t.addr\<close> of every ceremony.\<close>

definition ops :: "'w cluster_driver \<Rightarrow> cluster_target \<Rightarrow> 'w rank_ops" where
  "ops d t = (case tg_addr t of None \<Rightarrow> cd_local d | Some addr \<Rightarrow> cd_remote d (tg_node t) addr)"

definition asked :: "'w cluster_state \<Rightarrow> 'w \<Rightarrow> rank_ask \<Rightarrow> 'w cluster_state" where
  "asked st w a = st\<lparr>cl_world := w, cl_asked := cl_asked st @ [a]\<rparr>"

definition ask_prepare ::
    "'w cluster_driver \<Rightarrow> string \<Rightarrow> cluster_target \<Rightarrow> 'w cluster_state \<Rightarrow> prepare_reply \<times> 'w cluster_state" where
  "ask_prepare d epoch t st =
     (let (r, w) = ro_prepare (ops d t) epoch (tg_assignment t) (cl_world st) in
      (r, asked st w (AskPrepare (tg_peer t) epoch r)))"

definition ask_commit ::
    "'w cluster_driver \<Rightarrow> string \<Rightarrow> cluster_target \<Rightarrow> 'w cluster_state \<Rightarrow> (string, string) result \<times> 'w cluster_state" where
  "ask_commit d epoch t st =
     (let (r, w) = ro_commit (ops d t) epoch (cl_world st) in (r, asked st w (AskCommit (tg_peer t) epoch r)))"

definition ask_alive ::
    "'w cluster_driver \<Rightarrow> string \<Rightarrow> cluster_target \<Rightarrow> 'w cluster_state \<Rightarrow> bool \<times> 'w cluster_state" where
  "ask_alive d container t st =
     (let (r, w) = ro_alive (ops d t) container (cl_world st) in
      ((case r of Ok b \<Rightarrow> b | Err _ \<Rightarrow> False), asked st w (AskAlive (tg_peer t) container r)))"

definition ask_stop ::
    "'w cluster_driver \<Rightarrow> string \<Rightarrow> cluster_target \<Rightarrow> 'w cluster_state \<Rightarrow> (unit, string) result \<times> 'w cluster_state" where
  "ask_stop d container t st =
     (let (r, w) = ro_stop (ops d t) container (cl_world st) in (r, asked st w (AskStop (tg_peer t) container r)))"

definition ask_abort :: "'w cluster_driver \<Rightarrow> string \<Rightarrow> cluster_target \<Rightarrow> 'w cluster_state \<Rightarrow> 'w cluster_state" where
  "ask_abort d epoch t st = asked st (ro_abort (ops d t) epoch (cl_world st)) (AskAbort (tg_peer t) epoch)"

section \<open>Resolving a selection\<close>

definition plan_error_to_string :: "plan_error \<Rightarrow> string" where
  "plan_error_to_string e = (case e of
     PlanNodeCount recipe required selected \<Rightarrow> recipe @ '' needs exactly '' @ show_nat (unat required)
       @ '' nodes, '' @ show_nat selected @ '' selected''
   | PlanNotLaunchable name reason \<Rightarrow> name @ '' cannot run a model: '' @ reason
   | PlanNotPaired name \<Rightarrow> name @ '' is not paired; pair it before launching on it''
   | PlanNoUsableLink name \<Rightarrow> name @ '' has no usable network link for a cluster''
   | PlanHeadNotSelected \<Rightarrow> ''the head must be one of the selected nodes''
   | PlanDuplicateNode \<Rightarrow> ''a node cannot take two ranks in one launch'')"

definition address_of :: "'w cluster_driver \<Rightarrow> 'w \<Rightarrow> node_descriptor \<Rightarrow> (sock_addr option, string) result" where
  "address_of d w node =
     (if nd_is_local node then Ok None
      else
        let mine = (case find nd_is_local (cd_fleet d w) of None \<Rightarrow> [] | Some n \<Rightarrow> nd_addresses n) in
        case best_reachable (nd_addresses node) mine of
          None \<Rightarrow> Err (display_str (nd_name node) @ '' has no usable network link'')
        | Some addr \<Rightarrow>
            (case sock_addr_parse (na_addr addr @ '':'' @ show_nat (unat (cd_peer_port d))) of
               None \<Rightarrow> Err (display_str (nd_name node) @ '' has an address we cannot dial'')
             | Some a \<Rightarrow> Ok (Some a)))"

definition DRIVER_SERVE_PORT :: "16 word" where
  "DRIVER_SERVE_PORT = 8888"

definition serve_port :: "'w cluster_driver \<Rightarrow> recipe_id \<Rightarrow> cluster_target list \<Rightarrow> 16 word" where
  "serve_port d recipe targets =
     (let overridden =
        Option.bind (find (\<lambda>t. ra_rank (tg_assignment t) = 0) targets) (\<lambda>t.
        Option.bind (bt_get (ra_settings (tg_assignment t)) ''port'') (\<lambda>v.
          case v of VInt p \<Rightarrow> if 0 \<le> p \<and> p < 65536 then Some (of_int p) else None | _ \<Rightarrow> None)) in
      case overridden of
        Some p \<Rightarrow> p
      | None \<Rightarrow> (case cd_recipe_port d (recipe_str recipe) of Ok (Some p) \<Rightarrow> p | _ \<Rightarrow> DRIVER_SERVE_PORT))"

text \<open>The loop over the planned ranks.\<close>

fun targets_of ::
    "'w cluster_driver \<Rightarrow> 'w \<Rightarrow> node_descriptor list \<Rightarrow> rank_assignment list \<Rightarrow> (cluster_target list, string) result" where
  "targets_of d w selected [] = Ok []"
| "targets_of d w selected (a # as) =
     (case find (\<lambda>n. nd_id n = ra_node a) selected of
        None \<Rightarrow> Err ''the plan named a machine that left the fleet''
      | Some node \<Rightarrow>
          result_bind (address_of d w node) (\<lambda>addr.
          result_bind (targets_of d w selected as) (\<lambda>ts.
            Ok (\<lparr>tg_assignment = a, tg_addr = addr, tg_name = nd_name node\<rparr> # ts))))"

definition u32_len :: "'a list \<Rightarrow> 32 word" where
  "u32_len xs = (if length xs < 2 ^ 32 then of_nat (length xs) else - 1)"

definition selected_nodes :: "'w cluster_driver \<Rightarrow> 'w \<Rightarrow> node_id list \<Rightarrow> node_descriptor list" where
  "selected_nodes d w nodes = List.map_filter (\<lambda>i. find (\<lambda>n. nd_id n = i) (cd_fleet d w)) nodes"

definition driver_resolve ::
    "'w cluster_driver \<Rightarrow> 'w \<Rightarrow> recipe_id \<Rightarrow> node_id list \<Rightarrow> node_id \<Rightarrow> settings \<Rightarrow> string \<Rightarrow>
     (cluster_pending, string) result" where
  "driver_resolve d w recipe nodes head settings epoch =
     (let selected = selected_nodes d w nodes in
      if length selected \<noteq> length nodes then Err ''one of those machines is not in this fleet''
      else
        result_bind (cd_content_hash d (recipe_str recipe)) (\<lambda>hash.
        result_bind (map_err plan_error_to_string
          (cluster_plan_for (recipe_str recipe) hash (u32_len nodes) selected head settings epoch)) (\<lambda>plan.
        result_bind (targets_of d w selected (cp_ranks plan)) (\<lambda>targets.
          Ok \<lparr>pn_epoch = epoch, pn_port = serve_port d recipe targets, pn_targets = targets\<rparr>))))"

definition driver_link_warning ::
    "'w cluster_driver \<Rightarrow> 'w \<Rightarrow> recipe_id \<Rightarrow> node_id list \<Rightarrow> node_id \<Rightarrow> settings \<Rightarrow> string option" where
  "driver_link_warning d w recipe nodes head settings =
     Option.bind (result_ok (cd_content_hash d (recipe_str recipe))) (\<lambda>hash.
     Option.bind (result_ok (cluster_plan_for (recipe_str recipe) hash (u32_len nodes) (selected_nodes d w nodes)
       head settings ''preview'')) cp_link_warning)"

section \<open>Preview\<close>

fun preview_all ::
    "'w cluster_driver \<Rightarrow> cluster_target list \<Rightarrow> 'w cluster_state \<Rightarrow> (rank_preview list, string) result \<times> 'w cluster_state" where
  "preview_all d [] st = (Ok [], st)"
| "preview_all d (t # ts) st =
     st_bind
       (case tg_addr t of
          None \<Rightarrow> (map_err (\<lambda>e. display_str (tg_name t) @ '': '' @ e) (cd_render d (tg_assignment t)), st)
        | Some addr \<Rightarrow>
            let (r, w) = cd_remote_preview d (tg_node t) addr (tg_assignment t) (cl_world st) in
            (map_err (\<lambda>e. display_str (tg_name t) @ '': '' @ e) r, asked st w (AskPreview (tg_peer t))))
       (\<lambda>(command, unmapped) st.
     st_bind (preview_all d ts st) (\<lambda>out st.
       (Ok (\<lparr>rw_node = tg_node t, rw_name = tg_name t, rw_rank = ra_rank (tg_assignment t),
             rw_master_addr = ra_master_addr (tg_assignment t), rw_command = command, rw_unmapped = unmapped\<rparr> # out), st)))"

definition preview_inner ::
    "'w cluster_driver \<Rightarrow> recipe_id \<Rightarrow> node_id list \<Rightarrow> node_id \<Rightarrow> settings \<Rightarrow> 'w cluster_state \<Rightarrow>
     (rank_preview list \<times> string option, string) result \<times> 'w cluster_state" where
  "preview_inner d recipe nodes head settings st =
     (case driver_resolve d (cl_world st) recipe nodes head settings ''preview'' of
        Err e \<Rightarrow> (Err e, st)
      | Ok pending \<Rightarrow>
          st_bind (preview_all d (pn_targets pending) st) (\<lambda>out st.
            (Ok (out, driver_link_warning d (cl_world st) recipe nodes head settings), st)))"

section \<open>Prepare\<close>

fun roll_back :: "'w cluster_driver \<Rightarrow> string \<Rightarrow> cluster_target list \<Rightarrow> 'w cluster_state \<Rightarrow> 'w cluster_state" where
  "roll_back d epoch [] st = st"
| "roll_back d epoch (t # ts) st = roll_back d epoch ts (ask_abort d epoch t st)"

definition prepare_answer :: "cluster_target \<Rightarrow> prepare_reply \<Rightarrow> rank_prepared" where
  "prepare_answer t reply =
     \<lparr>rq_node = tg_node t, rq_name = tg_name t, rq_rank = ra_rank (tg_assignment t),
      rq_prepared = (reply = Prepared), rq_reason = (case reply of Prepared \<Rightarrow> [] | Refused reason \<Rightarrow> reason)\<rparr>"

text \<open>The loop over the targets: the answers, and the targets that accepted.\<close>

fun prepare_all ::
    "'w cluster_driver \<Rightarrow> string \<Rightarrow> cluster_target list \<Rightarrow> 'w cluster_state \<Rightarrow>
     (rank_prepared list \<times> cluster_target list) \<times> 'w cluster_state" where
  "prepare_all d epoch [] st = (([], []), st)"
| "prepare_all d epoch (t # ts) st =
     (let (reply, st) = ask_prepare d epoch t st;
          ((replies, accepted), st) = prepare_all d epoch ts st in
      ((prepare_answer t reply # replies, if reply = Prepared then t # accepted else accepted), st))"

definition prepare_inner ::
    "'w cluster_driver \<Rightarrow> recipe_id \<Rightarrow> node_id list \<Rightarrow> node_id \<Rightarrow> settings \<Rightarrow> 8 word list \<Rightarrow> 'w cluster_state \<Rightarrow>
     (string \<times> rank_prepared list \<times> bool, string) result \<times> 'w cluster_state" where
  "prepare_inner d recipe nodes head settings entropy st =
     (case cl_running st of
        Some r \<Rightarrow>
          (Err (''a cluster is already running on '' @ str_join '', '' (map (\<lambda>s. display_str (rt_name s)) (ru_started r))
             @ ''; stop it before starting another''), st)
      | None \<Rightarrow>
          let epoch = new_epoch entropy in
          (case driver_resolve d (cl_world st) recipe nodes head settings epoch of
             Err e \<Rightarrow> (Err e, st)
           | Ok pending \<Rightarrow>
               let ((replies, accepted), st) = prepare_all d epoch (pn_targets pending) st;
                   may_commit = list_all rq_prepared replies in
               (Ok (epoch, replies, may_commit),
                if may_commit then st\<lparr>cl_pending := Some pending\<rparr> else roll_back d epoch accepted st)))"

section \<open>Commit\<close>

fun stop_started ::
    "'w cluster_driver \<Rightarrow> rank_started list \<Rightarrow> cluster_target list \<Rightarrow> 'w cluster_state \<Rightarrow> 'w cluster_state" where
  "stop_started d [] targets st = st"
| "stop_started d (r # rs) targets st =
     (case find (\<lambda>t. tg_node t = rt_node r) targets of
        None \<Rightarrow> stop_started d rs targets st
      | Some t \<Rightarrow> stop_started d rs targets (snd (ask_stop d (rt_container r) t st)))"

definition rank_started_of :: "16 word \<Rightarrow> cluster_target \<Rightarrow> string \<Rightarrow> rank_started" where
  "rank_started_of port t container =
     \<lparr>rt_node = tg_node t, rt_name = tg_name t, rt_rank = ra_rank (tg_assignment t), rt_container = container,
      rt_endpoint = (if ra_rank (tg_assignment t) = 0
        then Some (''http://'' @ ra_master_addr (tg_assignment t) @ '':'' @ show_nat (unat port)) else None)\<rparr>"

text \<open>The loop over the targets, with those done and what they started.\<close>

fun commit_all ::
    "'w cluster_driver \<Rightarrow> string \<Rightarrow> 16 word \<Rightarrow> cluster_target list \<Rightarrow> rank_started list \<Rightarrow> cluster_target list \<Rightarrow>
     'w cluster_state \<Rightarrow> (rank_started list, string) result \<times> 'w cluster_state" where
  "commit_all d epoch port done started [] st = (Ok started, st)"
| "commit_all d epoch port done started (t # ts) st =
     (case ask_commit d epoch t st of
        (Ok container, st) \<Rightarrow>
          commit_all d epoch port (done @ [t]) (started @ [rank_started_of port t container]) ts st
      | (Err reason, st) \<Rightarrow>
          (Err (display_str (tg_name t) @ '' could not start: '' @ reason),
           roll_back d epoch (t # ts) (stop_started d started done st)))"

text \<open>The question to every rank after the settling window: the names of those that are gone.\<close>

fun dead_ranks ::
    "'w cluster_driver \<Rightarrow> rank_started list \<Rightarrow> cluster_target list \<Rightarrow> 'w cluster_state \<Rightarrow> cluster_target list \<times> 'w cluster_state" where
  "dead_ranks d started [] st = ([], st)"
| "dead_ranks d started (t # ts) st =
     (case find (\<lambda>r. rt_node r = tg_node t) started of
        None \<Rightarrow> dead_ranks d started ts st
      | Some r \<Rightarrow>
          let (alive, st) = ask_alive d (rt_container r) t st; (dead, st) = dead_ranks d started ts st in
          (if alive then dead else t # dead, st))"

definition take_pending :: "string \<Rightarrow> 'w cluster_state \<Rightarrow> (cluster_pending, string) result \<times> 'w cluster_state" where
  "take_pending epoch st =
     (case cl_pending st of
        Some p \<Rightarrow>
          if pn_epoch p = epoch then (Ok p, st\<lparr>cl_pending := None\<rparr>)
          else (Err (''this agent is holding a prepare for '' @ pn_epoch p @ '', not '' @ epoch), st)
      | None \<Rightarrow> (Err (''no prepare is outstanding for '' @ epoch), st))"

definition commit_dead_text :: "'w cluster_driver \<Rightarrow> cluster_target list \<Rightarrow> string" where
  "commit_dead_text d dead =
     str_join '' and '' (map (\<lambda>t. display_str (tg_name t)) dead) @ '' stopped within ''
     @ show_nat (max 1 (cd_settle_secs d)) @ ''s of starting. The whole cluster has been shut down; ''
     @ ''check that machine'' @ [CHR 39] @ ''s container logs.''"

text \<open>The end of a commit: ask every rank again, and tear down unless the cluster is whole.\<close>

definition commit_settle ::
    "'w cluster_driver \<Rightarrow> cluster_target list \<Rightarrow> rank_started list \<Rightarrow> 'w cluster_state \<Rightarrow>
     (rank_started list, string) result \<times> 'w cluster_state" where
  "commit_settle d targets started st =
     (let (dead, st) = dead_ranks d started targets st in
      if dead \<noteq> [] then (Err (commit_dead_text d dead), stop_started d started targets st)
      else (Ok started, st\<lparr>cl_running := Some \<lparr>ru_targets = targets, ru_started = started\<rparr>\<rparr>))"

definition commit_inner ::
    "'w cluster_driver \<Rightarrow> string \<Rightarrow> 'w cluster_state \<Rightarrow> (rank_started list, string) result \<times> 'w cluster_state" where
  "commit_inner d epoch st =
     st_bind (take_pending epoch st) (\<lambda>pending st.
     st_bind (commit_all d epoch (pn_port pending) [] [] (pn_targets pending) st) (\<lambda>started st.
       commit_settle d (pn_targets pending) started st))"

definition abort_inner :: "'w cluster_driver \<Rightarrow> string \<Rightarrow> 'w cluster_state \<Rightarrow> 'w cluster_state" where
  "abort_inner d epoch st =
     (case cl_pending st of
        Some p \<Rightarrow>
          if pn_epoch p = epoch then roll_back d epoch (pn_targets p) (st\<lparr>cl_pending := None\<rparr>) else st
      | None \<Rightarrow> st)"

section \<open>Stop and supervision\<close>

text \<open>The loop over the started ranks: the failures, with the ranks they leave up.\<close>

fun stop_all ::
    "'w cluster_driver \<Rightarrow> cluster_target list \<Rightarrow> rank_started list \<Rightarrow> 'w cluster_state \<Rightarrow>
     (string \<times> rank_started) list \<times> 'w cluster_state" where
  "stop_all d targets [] st = ([], st)"
| "stop_all d targets (r # rs) st =
     (case find (\<lambda>t. tg_node t = rt_node r) targets of
        None \<Rightarrow> stop_all d targets rs st
      | Some t \<Rightarrow>
          let (res, st) = ask_stop d (rt_container r) t st; (failures, st) = stop_all d targets rs st in
          (case res of
             Ok _ \<Rightarrow> failures
           | Err e \<Rightarrow> (display_str (tg_name t) @ '': '' @ e, r) # failures, st))"

definition stop_cluster_inner ::
    "'w cluster_driver \<Rightarrow> 'w cluster_state \<Rightarrow> (rank_started list, string) result \<times> 'w cluster_state" where
  "stop_cluster_inner d st =
     (case cl_running st of
        None \<Rightarrow> (Err ''this agent did not start a cluster'', st)
      | Some running \<Rightarrow>
          let (failures, st) = stop_all d (ru_targets running) (ru_started running) st in
          if failures = [] then (Ok (ru_started running), st\<lparr>cl_running := None\<rparr>)
          else (Err (''could not stop '' @ str_join ''; '' (map fst failures)),
                st\<lparr>cl_running := Some (running\<lparr>ru_started := map snd failures\<rparr>)\<rparr>))"

fun gone_ranks ::
    "'w cluster_driver \<Rightarrow> cluster_target list \<Rightarrow> rank_started list \<Rightarrow> 'w cluster_state \<Rightarrow> cluster_target list \<times> 'w cluster_state" where
  "gone_ranks d targets [] st = ([], st)"
| "gone_ranks d targets (r # rs) st =
     (case find (\<lambda>t. tg_node t = rt_node r) targets of
        None \<Rightarrow> gone_ranks d targets rs st
      | Some t \<Rightarrow>
          let (alive, st) = ask_alive d (rt_container r) t st; (dead, st) = gone_ranks d targets rs st in
          (if alive then dead else t # dead, st))"

definition supervise_inner :: "'w cluster_driver \<Rightarrow> 'w cluster_state \<Rightarrow> torn option \<times> 'w cluster_state" where
  "supervise_inner d st =
     (case cl_running st of
        None \<Rightarrow> (None, st)
      | Some running \<Rightarrow>
          let (dead, st) = gone_ranks d (ru_targets running) (ru_started running) st in
          if dead = [] then (None, st)
          else
            let (_, st) = stop_cluster_inner d st in
            (Some \<lparr>to_nodes = map tg_node dead,
                   to_why = str_join '' and '' (map (\<lambda>t. display_str (tg_name t)) dead)
                     @ '' stopped, so the cluster was torn down. A half cluster waits at a ''
                     @ ''rendezvous that will never complete while its survivors hold their GPUs.''\<rparr>,
             st\<lparr>cl_running := None\<rparr>))"

section \<open>What the ceremonies ask\<close>

text \<open>The slots of the driver, which no question touches.\<close>

definition cl_slots :: "'w cluster_state \<Rightarrow> cluster_pending option \<times> cluster_running option" where
  "cl_slots st = (cl_pending st, cl_running st)"

lemma asked_simps [simp]:
  "cl_asked (asked st w a) = cl_asked st @ [a]" "cl_slots (asked st w a) = cl_slots st" "cl_world (asked st w a) = w"
  "cl_pending (asked st w a) = cl_pending st" "cl_running (asked st w a) = cl_running st"
  by (simp_all add: asked_def cl_slots_def)

lemma roll_back_asked [simp]:
  "cl_asked (roll_back d epoch ts st) = cl_asked st @ map (\<lambda>t. AskAbort (tg_peer t) epoch) ts"
  "cl_slots (roll_back d epoch ts st) = cl_slots st"
  by (induction ts arbitrary: st) (simp_all add: ask_abort_def)

lemma prepare_all_asked:
  "prepare_all d epoch ts st = ((out, accepted), st') \<Longrightarrow> cl_slots st' = cl_slots st \<and>
     (\<exists>rs. length rs = length ts \<and> cl_asked st' = cl_asked st @ map (\<lambda>(t, r). AskPrepare (tg_peer t) epoch r) (zip ts rs) \<and>
        out = map (\<lambda>(t, r). prepare_answer t r) (zip ts rs) \<and>
        accepted = map fst (filter (\<lambda>(t, r). r = Prepared) (zip ts rs)))"
proof (induction ts arbitrary: st out accepted)
  case (Cons t ts)
  obtain r w where r: "ro_prepare (ops d t) epoch (tg_assignment t) (cl_world st) = (r, w)" by fastforce
  obtain an ac where ac: "prepare_all d epoch ts (asked st w (AskPrepare (tg_peer t) epoch r)) = ((an, ac), st')"
    "out = prepare_answer t r # an" "accepted = (if r = Prepared then t # ac else ac)"
    using Cons.prems r by (auto simp: ask_prepare_def Let_def case_prod_beta prod_eq_iff split: if_splits)
  from Cons.IH [OF ac(1)] obtain rs where "length rs = length ts" "cl_slots st' = cl_slots st"
    "cl_asked st' = cl_asked st @ [AskPrepare (tg_peer t) epoch r] @ map (\<lambda>(t, r). AskPrepare (tg_peer t) epoch r) (zip ts rs)"
    "an = map (\<lambda>(t, r). prepare_answer t r) (zip ts rs)"
    "ac = map fst (filter (\<lambda>(t, r). r = Prepared) (zip ts rs))" by auto
  with ac show ?case by (intro conjI exI [of _ "r # rs"]) auto
qed simp

text \<open>Every started rank has its target.\<close>

definition located :: "cluster_target list \<Rightarrow> rank_started list \<Rightarrow> bool" where
  "located targets started = list_all (\<lambda>r. \<exists>t\<in>set targets. tg_node t = rt_node r) started"

definition where_started :: "cluster_target list \<Rightarrow> rank_started \<Rightarrow> rank_peer" where
  "where_started targets r = tg_peer (the (find (\<lambda>t. tg_node t = rt_node r) targets))"

lemma located_find:
  assumes "\<exists>t\<in>set targets. tg_node t = rt_node r"
  obtains t where "find (\<lambda>t. tg_node t = rt_node r) targets = Some t" "where_started targets r = tg_peer t"
  using assms find_not_None [of _ targets "\<lambda>t. tg_node t = rt_node r"] that by (auto simp: where_started_def)

lemma stop_started_asked:
  "located targets rs \<Longrightarrow> cl_slots (stop_started d rs targets st) = cl_slots st \<and>
     (\<exists>xs. length xs = length rs \<and> cl_asked (stop_started d rs targets st) = cl_asked st @
        map (\<lambda>(r, x). AskStop (where_started targets r) (rt_container r) x) (zip rs xs))"
proof (induction rs arbitrary: st)
  case (Cons r rs)
  from Cons.prems have "\<exists>t\<in>set targets. tg_node t = rt_node r" by (simp add: located_def)
  then obtain t where t: "find (\<lambda>t. tg_node t = rt_node r) targets = Some t" "where_started targets r = tg_peer t"
    by (rule located_find)
  obtain x w where x: "ro_stop (ops d t) (rt_container r) (cl_world st) = (x, w)" by fastforce
  have "located targets rs" using Cons.prems by (simp add: located_def)
  from Cons.IH [OF this, of "asked st w (AskStop (tg_peer t) (rt_container r) x)"] obtain xs
    where "length xs = length rs"
      "cl_slots (stop_started d rs targets (asked st w (AskStop (tg_peer t) (rt_container r) x))) = cl_slots st"
      "cl_asked (stop_started d rs targets (asked st w (AskStop (tg_peer t) (rt_container r) x))) =
        cl_asked st @ AskStop (tg_peer t) (rt_container r) x #
          map (\<lambda>(r, x). AskStop (where_started targets r) (rt_container r) x) (zip rs xs)" by auto
  with t x show ?case by (intro conjI exI [of _ "x # xs"]) (simp_all add: ask_stop_def)
qed simp

lemma dead_ranks_asked:
  assumes "list_all2 (\<lambda>t r. rt_node r = tg_node t) ts rs" "distinct (map rt_node (pre @ rs))"
    and "dead_ranks d (pre @ rs) ts st = (dead, st')"
  shows "cl_slots st' = cl_slots st \<and> (\<exists>xs. length xs = length ts \<and>
    cl_asked st' = cl_asked st @ map (\<lambda>((t, r), x). AskAlive (tg_peer t) (rt_container r) x) (zip (zip ts rs) xs) \<and>
    (dead = [] \<longleftrightarrow> (\<forall>x\<in>set xs. x = Ok True)))"
  using assms
proof (induction ts rs arbitrary: pre st dead rule: list_all2_induct)
  case Nil
  then show ?case by simp
next
  case (Cons t ts r rs)
  have f: "find (\<lambda>r. rt_node r = tg_node t) (pre @ r # rs) = Some r"
  proof -
    have "list_all (\<lambda>q. rt_node q \<noteq> tg_node t) pre" using Cons.hyps(1) Cons.prems(1) by (force simp: list_all_iff)
    then show ?thesis using Cons.hyps(1) by (induction pre) auto
  qed
  obtain x w where x: "ro_alive (ops d t) (rt_container r) (cl_world st) = (x, w)" by fastforce
  obtain dd where dd: "dead_ranks d ((pre @ [r]) @ rs) ts (asked st w (AskAlive (tg_peer t) (rt_container r) x)) = (dd, st')"
    "dead = (if (case x of Ok b \<Rightarrow> b | Err _ \<Rightarrow> False) then dd else t # dd)"
    using Cons.prems(2) f x by (auto simp: ask_alive_def Let_def case_prod_beta prod_eq_iff)
  from Cons.IH [OF _ dd(1)] Cons.prems(1) obtain xs where "length xs = length ts" "cl_slots st' = cl_slots st"
    "cl_asked st' = cl_asked st @ [AskAlive (tg_peer t) (rt_container r) x] @
      map (\<lambda>((t, r), x). AskAlive (tg_peer t) (rt_container r) x) (zip (zip ts rs) xs)"
    "dd = [] \<longleftrightarrow> (\<forall>x\<in>set xs. x = Ok True)" by auto
  then show ?case using dd(2) by (intro conjI exI [of _ "x # xs"]) (auto split: result.splits)
qed

text \<open>What a commit of every target in turn amounts to: the ranks it started, or the first refusal with
  the stops of those before and the releases of those from there on.\<close>

definition starts :: "16 word \<Rightarrow> cluster_target \<Rightarrow> rank_started \<Rightarrow> bool" where
  "starts port t r = (r = rank_started_of port t (rt_container r))"

lemma starts_node: "starts port t r \<Longrightarrow> rt_node r = tg_node t"
  unfolding starts_def by (erule ssubst) (simp add: rank_started_of_def)

definition commit_asks :: "string \<Rightarrow> cluster_target list \<Rightarrow> rank_started list \<Rightarrow> rank_ask list" where
  "commit_asks epoch ts rs = map (\<lambda>(t, r). AskCommit (tg_peer t) epoch (Ok (rt_container r))) (zip ts rs)"

definition stop_asks ::
    "cluster_target list \<Rightarrow> rank_started list \<Rightarrow> (unit, string) result list \<Rightarrow> rank_ask list" where
  "stop_asks targets rs xs = map (\<lambda>(r, x). AskStop (where_started targets r) (rt_container r) x) (zip rs xs)"

definition abort_asks :: "string \<Rightarrow> cluster_target list \<Rightarrow> rank_ask list" where
  "abort_asks epoch ts = map (\<lambda>t. AskAbort (tg_peer t) epoch) ts"

lemma located_starts: "list_all2 (starts port) ts rs \<Longrightarrow> located ts rs"
  by (induction rule: list_all2_induct) (auto simp: located_def list_all_iff dest: starts_node)

lemma commit_all_asked:
  assumes "list_all2 (starts port) done started"
    and "commit_all d epoch port done started ts st = (res, st')"
  shows "cl_slots st' = cl_slots st \<and>
    ((\<exists>new. res = Ok (started @ new) \<and> list_all2 (starts port) ts new \<and> cl_asked st' = cl_asked st @ commit_asks epoch ts new) \<or>
     (\<exists>pre t post new reason xs. ts = pre @ t # post \<and> list_all2 (starts port) pre new \<and>
        length xs = length (started @ new) \<and> res = Err (display_str (tg_name t) @ '' could not start: '' @ reason) \<and>
        cl_asked st' = cl_asked st @ commit_asks epoch pre new @ [AskCommit (tg_peer t) epoch (Err reason)] @
          stop_asks (done @ pre) (started @ new) xs @ abort_asks epoch (t # post)))"
  using assms
proof (induction ts arbitrary: "done" started st)
  case Nil
  then show ?case by (auto simp: commit_asks_def)
next
  case (Cons t ts)
  obtain r w where r: "ro_commit (ops d t) epoch (cl_world st) = (r, w)" by fastforce
  let ?st = "asked st w (AskCommit (tg_peer t) epoch r)"
  show ?case
  proof (cases r)
    case (Err reason)
    from stop_started_asked [OF located_starts [OF Cons.prems(1)], of d ?st] obtain xs where
      xs: "cl_slots (stop_started d started done ?st) = cl_slots st" "length xs = length started"
        "cl_asked (stop_started d started done ?st) = cl_asked ?st @ stop_asks done started xs"
      by (auto simp: stop_asks_def)
    have "res = Err (display_str (tg_name t) @ '' could not start: '' @ reason)"
      "st' = roll_back d epoch (t # ts) (stop_started d started done ?st)"
      using Cons.prems(2) r Err by (simp_all add: ask_commit_def)
    with xs Err show ?thesis
      by (intro conjI disjI2 exI [of _ "[]"] exI [of _ t] exI [of _ ts] exI [of _ reason] exI [of _ xs])
        (simp_all add: commit_asks_def abort_asks_def del: roll_back.simps)
  next
    case (Ok c)
    let ?r = "rank_started_of port t c"
    have s: "starts port t ?r" by (simp add: starts_def rank_started_of_def)
    have l: "list_all2 (starts port) (done @ [t]) (started @ [?r])" using Cons.prems(1) s by (simp add: list_all2_appendI)
    have rec: "commit_all d epoch port (done @ [t]) (started @ [?r]) ts ?st = (res, st')"
      using Cons.prems(2) r Ok by (simp add: ask_commit_def)
    have c: "AskCommit (tg_peer t) epoch r # commit_asks epoch ps qs = commit_asks epoch (t # ps) (?r # qs)" for ps qs
      by (simp add: commit_asks_def Ok rank_started_of_def)
    from Cons.IH [OF l rec] show ?thesis
    proof (elim conjE disjE exE)
      fix new
      assume "cl_slots st' = cl_slots ?st" "res = Ok ((started @ [?r]) @ new)" "list_all2 (starts port) ts new"
        "cl_asked st' = cl_asked ?st @ commit_asks epoch ts new"
      then show ?thesis using s c by (intro conjI disjI1 exI [of _ "?r # new"]) auto
    next
      fix pre u post new reason xs
      assume "cl_slots st' = cl_slots ?st" "ts = pre @ u # post" "list_all2 (starts port) pre new"
        "length xs = length ((started @ [?r]) @ new)" "res = Err (display_str (tg_name u) @ '' could not start: '' @ reason)"
        "cl_asked st' = cl_asked ?st @ commit_asks epoch pre new @ [AskCommit (tg_peer u) epoch (Err reason)] @
          stop_asks ((done @ [t]) @ pre) ((started @ [?r]) @ new) xs @ abort_asks epoch (u # post)"
      then show ?thesis using s c
        by (intro conjI disjI2 exI [of _ "t # pre"] exI [of _ u] exI [of _ post] exI [of _ "?r # new"] exI [of _ reason] exI [of _ xs])
          auto
    qed
  qed
qed

lemma stop_all_asked:
  "located targets rs \<Longrightarrow> stop_all d targets rs st = (failures, st') \<Longrightarrow> cl_slots st' = cl_slots st \<and>
     (\<exists>xs. length xs = length rs \<and> cl_asked st' = cl_asked st @ stop_asks targets rs xs \<and>
        map snd failures = map fst (filter (\<lambda>(r, x). x \<noteq> Ok ()) (zip rs xs)))"
proof (induction rs arbitrary: st failures)
  case (Cons r rs)
  from Cons.prems(1) have "\<exists>t\<in>set targets. tg_node t = rt_node r" by (simp add: located_def)
  then obtain t where t: "find (\<lambda>t. tg_node t = rt_node r) targets = Some t" "where_started targets r = tg_peer t"
    by (rule located_find)
  obtain x w where x: "ro_stop (ops d t) (rt_container r) (cl_world st) = (x, w)" by fastforce
  obtain fs where fs: "stop_all d targets rs (asked st w (AskStop (tg_peer t) (rt_container r) x)) = (fs, st')"
    "failures = (case x of Ok _ \<Rightarrow> fs | Err e \<Rightarrow> (display_str (tg_name t) @ '': '' @ e, r) # fs)"
    using Cons.prems(2) t x by (auto simp: ask_stop_def Let_def case_prod_beta prod_eq_iff)
  have "located targets rs" using Cons.prems(1) by (simp add: located_def)
  from Cons.IH [OF this fs(1)] obtain xs where "length xs = length rs" "cl_slots st' = cl_slots st"
    "cl_asked st' = cl_asked st @ [AskStop (tg_peer t) (rt_container r) x] @ stop_asks targets rs xs"
    "map snd fs = map fst (filter (\<lambda>(r, x). x \<noteq> Ok ()) (zip rs xs))" by auto
  then show ?case using fs(2) t
    by (intro conjI exI [of _ "x # xs"]) (auto simp: stop_asks_def split: result.splits)
qed (simp add: stop_asks_def)

lemma gone_ranks_asked:
  "located targets rs \<Longrightarrow> gone_ranks d targets rs st = (dead, st') \<Longrightarrow> cl_slots st' = cl_slots st \<and>
     (\<exists>xs. length xs = length rs \<and>
        cl_asked st' = cl_asked st @ map (\<lambda>(r, x). AskAlive (where_started targets r) (rt_container r) x) (zip rs xs) \<and>
        (dead = [] \<longleftrightarrow> (\<forall>x\<in>set xs. x = Ok True)))"
proof (induction rs arbitrary: st dead)
  case (Cons r rs)
  from Cons.prems(1) have "\<exists>t\<in>set targets. tg_node t = rt_node r" by (simp add: located_def)
  then obtain t where t: "find (\<lambda>t. tg_node t = rt_node r) targets = Some t" "where_started targets r = tg_peer t"
    by (rule located_find)
  obtain x w where x: "ro_alive (ops d t) (rt_container r) (cl_world st) = (x, w)" by fastforce
  obtain dd where dd: "gone_ranks d targets rs (asked st w (AskAlive (tg_peer t) (rt_container r) x)) = (dd, st')"
    "dead = (if (case x of Ok b \<Rightarrow> b | Err _ \<Rightarrow> False) then dd else t # dd)"
    using Cons.prems(2) t x by (auto simp: ask_alive_def Let_def case_prod_beta prod_eq_iff)
  have "located targets rs" using Cons.prems(1) by (simp add: located_def)
  from Cons.IH [OF this dd(1)] obtain xs where "length xs = length rs" "cl_slots st' = cl_slots st"
    "cl_asked st' = cl_asked st @ [AskAlive (tg_peer t) (rt_container r) x] @
       map (\<lambda>(r, x). AskAlive (where_started targets r) (rt_container r) x) (zip rs xs)"
    "dd = [] \<longleftrightarrow> (\<forall>x\<in>set xs. x = Ok True)" by auto
  then show ?case using dd(2) t by (intro conjI exI [of _ "x # xs"]) (auto split: result.splits)
qed simp

lemma where_started_zip:
  assumes "list_all2 (starts port) ts rs" "distinct (map tg_node ts)" "(t, r) \<in> set (zip ts rs)"
  shows "where_started ts r = tg_peer t"
proof -
  from assms(1,3) have "starts port t r" by (auto simp: list_all2_iff)
  then have n: "rt_node r = tg_node t" by (rule starts_node)
  have t: "t \<in> set ts" using assms(3) by (rule set_zip_leftD)
  then obtain u where u: "find (\<lambda>t. tg_node t = rt_node r) ts = Some u"
    using n find_not_None [of t ts "\<lambda>t. tg_node t = rt_node r"] by auto
  then have "u \<in> set ts" "tg_node u = tg_node t" using find_Some_in n by fastforce+
  with t assms(2) have "u = t" by (metis distinct_map inj_onD)
  with u show ?thesis by (simp add: where_started_def)
qed

lemma starts_distinct: "list_all2 (starts port) ts rs \<Longrightarrow> map rt_node rs = map tg_node ts"
  by (induction rule: list_all2_induct) (auto dest: starts_node)

text \<open>Every start is stopped where it was started.\<close>

lemma stops_every_start:
  assumes "list_all2 (starts port) ts rs" "distinct (map tg_node ts)" "length xs = length rs" "(t, r) \<in> set (zip ts rs)"
  shows "\<exists>x. AskStop (tg_peer t) (rt_container r) x \<in> set (stop_asks ts rs xs)"
proof -
  from assms(4) have "r \<in> set rs" by (rule set_zip_rightD)
  then obtain i where "i < length rs" "rs ! i = r" by (auto simp: in_set_conv_nth)
  then have "(r, xs ! i) \<in> set (zip rs xs)" using assms(3) by (auto simp: set_zip)
  then show ?thesis unfolding stop_asks_def using where_started_zip [OF assms(1,2,4)] by force
qed

lemma commit_asks_in: "AskCommit p e (Ok c) \<in> set (commit_asks epoch ts rs) \<longleftrightarrow>
    e = epoch \<and> (\<exists>t r. (t, r) \<in> set (zip ts rs) \<and> p = tg_peer t \<and> c = rt_container r)"
  by (force simp: commit_asks_def)

lemma list_all2_zip_ex: "list_all2 P ts rs \<Longrightarrow> t \<in> set ts \<Longrightarrow> \<exists>r. (t, r) \<in> set (zip ts rs)"
  by (induction rule: list_all2_induct) auto

text \<open>The end of a commit, once every rank was started.\<close>

lemma commit_after_start:
  assumes body: "commit_settle d ts started st1 = (res, st')"
    and l: "list_all2 (starts port) ts started" and dist: "distinct (map tg_node ts)"
    and slots: "cl_pending st1 = None" "cl_running st1 = running"
    and asked: "cl_asked st1 = before @ commit_asks epoch ts started"
  shows "cl_pending st' = None \<and>
    (case res of
       Ok s \<Rightarrow> s = started \<and> cl_running st' = Some \<lparr>ru_targets = ts, ru_started = started\<rparr> \<and>
         cl_asked st' = before @ commit_asks epoch ts started @
           map (\<lambda>(t, r). AskAlive (tg_peer t) (rt_container r) (Ok True)) (zip ts started)
     | Err why \<Rightarrow> cl_running st' = running \<and>
         (\<exists>xs alive. length xs = length started \<and> cl_asked st' = before @ commit_asks epoch ts started @ alive @ stop_asks ts started xs \<and>
            (\<forall>a\<in>set alive. \<exists>t r x. (t, r) \<in> set (zip ts started) \<and> a = AskAlive (tg_peer t) (rt_container r) x)))"
proof -
  obtain dead st2 where dead: "dead_ranks d started ts st1 = (dead, st2)" by fastforce
  have "list_all2 (\<lambda>t r. rt_node r = tg_node t) ts started" using l by (rule list_all2_mono) (rule starts_node)
  moreover have "distinct (map rt_node ([] @ started))" using dist starts_distinct [OF l] by simp
  ultimately obtain xs where xs: "cl_slots st2 = cl_slots st1" "length xs = length ts"
    "cl_asked st2 = cl_asked st1 @ map (\<lambda>((t, r), x). AskAlive (tg_peer t) (rt_container r) x) (zip (zip ts started) xs)"
    "dead = [] \<longleftrightarrow> (\<forall>x\<in>set xs. x = Ok True)"
    using dead_ranks_asked [of ts started "[]" d st1 dead st2] dead by auto
  have len: "length started = length ts" using l by (simp add: list_all2_lengthD)
  show ?thesis
  proof (cases "dead = []")
    case True
    with xs(4) have "xs = replicate (length ts) (Ok True)" using xs(2) by (metis replicate_eqI)
    then have "map (\<lambda>((t, r), x). AskAlive (tg_peer t) (rt_container r) x) (zip (zip ts started) xs) =
        map (\<lambda>(t, r). AskAlive (tg_peer t) (rt_container r) (Ok True)) (zip ts started)"
      by (auto simp: list_eq_iff_nth_eq len)
    with body dead True xs(1,3) slots asked show ?thesis by (auto simp: cl_slots_def commit_settle_def)
  next
    case False
    from stop_started_asked [OF located_starts [OF l], of d st2] obtain ys where ys:
      "cl_slots (stop_started d started ts st2) = cl_slots st2" "length ys = length started"
      "cl_asked (stop_started d started ts st2) = cl_asked st2 @ stop_asks ts started ys" by (auto simp: stop_asks_def)
    have "\<forall>a\<in>set (map (\<lambda>((t, r), x). AskAlive (tg_peer t) (rt_container r) x) (zip (zip ts started) xs)).
        \<exists>t r x. (t, r) \<in> set (zip ts started) \<and> a = AskAlive (tg_peer t) (rt_container r) x"
      using set_zip_leftD [of _ _ "zip ts started" xs] by fastforce
    with ys body dead False xs(1,3) slots asked show ?thesis
      by (auto simp del: set_map simp: cl_slots_def commit_settle_def intro!: exI [of _ ys]
          exI [of _ "map (\<lambda>((t, r), x). AskAlive (tg_peer t) (rt_container r) x) (zip (zip ts started) xs)"])
  qed
qed

section \<open>Claims on one ceremony\<close>

text \<open>
  C21. Prepare is all or nothing: while a cluster runs, or when the selection cannot be resolved, no
  machine is asked anything and nothing changes. Otherwise every rank of the plan is asked exactly once,
  in order, under the fresh epoch; the attempt is kept, ready to be committed, exactly when every one of
  them accepted; and when one did not, every rank that accepted is asked to release, and nothing is kept.
\<close>

theorem cluster_prepare_all_or_nothing:
  assumes "prepare_inner d recipe nodes head settings entropy st = (res, st')"
  shows "((cl_running st \<noteq> None \<or> \<not> is_ok (driver_resolve d (cl_world st) recipe nodes head settings (new_epoch entropy))) \<longrightarrow>
      \<not> is_ok res \<and> st' = st) \<and>
    (\<forall>p. cl_running st = None \<longrightarrow> driver_resolve d (cl_world st) recipe nodes head settings (new_epoch entropy) = Ok p \<longrightarrow>
      (\<exists>rs out. length rs = length (pn_targets p) \<and> res = Ok (new_epoch entropy, out, list_all (\<lambda>r. r = Prepared) rs) \<and>
         cl_pending st' = (if list_all (\<lambda>r. r = Prepared) rs then Some p else cl_pending st) \<and> cl_running st' = None \<and>
         cl_asked st' = cl_asked st @ map (\<lambda>(t, r). AskPrepare (tg_peer t) (new_epoch entropy) r) (zip (pn_targets p) rs) @
           (if list_all (\<lambda>r. r = Prepared) rs then []
            else abort_asks (new_epoch entropy) (map fst (filter (\<lambda>(t, r). r = Prepared) (zip (pn_targets p) rs))))))"
proof (cases "cl_running st")
  case (Some r)
  with assms show ?thesis by (auto simp: prepare_inner_def)
next
  case None
  show ?thesis
  proof (cases "driver_resolve d (cl_world st) recipe nodes head settings (new_epoch entropy)")
    case (Err e)
    with assms None show ?thesis by (auto simp: prepare_inner_def)
  next
    case (Ok p)
    obtain out accepted st1 where a: "prepare_all d (new_epoch entropy) (pn_targets p) st = ((out, accepted), st1)"
      by (metis prod.exhaust)
    from prepare_all_asked [OF a] obtain rs where rs: "cl_slots st1 = cl_slots st" "length rs = length (pn_targets p)"
      "cl_asked st1 = cl_asked st @ map (\<lambda>(t, r). AskPrepare (tg_peer t) (new_epoch entropy) r) (zip (pn_targets p) rs)"
      "out = map (\<lambda>(t, r). prepare_answer t r) (zip (pn_targets p) rs)"
      "accepted = map fst (filter (\<lambda>(t, r). r = Prepared) (zip (pn_targets p) rs))" by blast
    have m: "list_all rq_prepared out \<longleftrightarrow> list_all (\<lambda>r. r = Prepared) rs"
    proof -
      have "map rq_prepared out = map (\<lambda>r. r = Prepared) rs"
        unfolding rs(4) by (rule nth_equalityI) (simp_all add: rs(2) prepare_answer_def)
      then show ?thesis by (metis list.pred_map o_def id_apply list.pred_set)
    qed
    have slots: "cl_pending (roll_back d e ts st1) = cl_pending st" "cl_running (roll_back d e ts st1) = None" for e ts
      using roll_back_asked(2) [of d e ts st1] rs(1) None by (simp_all add: cl_slots_def)
    have slots1: "cl_pending st1 = cl_pending st" "cl_running st1 = None" using rs(1) None by (simp_all add: cl_slots_def)
    from assms None Ok a have "res = Ok (new_epoch entropy, out, list_all rq_prepared out)"
      "st' = (if list_all rq_prepared out then st1\<lparr>cl_pending := Some p\<rparr> else roll_back d (new_epoch entropy) accepted st1)"
      by (auto simp: prepare_inner_def Let_def)
    then show ?thesis using None Ok rs slots slots1 unfolding m
      by (auto simp: abort_asks_def intro!: exI [of _ rs])
  qed
qed

text \<open>
  C20. A cluster is whole or absent: a commit for another epoch than the one held asks nothing and changes
  nothing. A commit of the attempt that is held spends it; when it succeeds, every rank was started, in order,
  every one of them then said that it is alive, and exactly these are recorded as running; when it fails,
  every container it started was asked to stop where it was started, every other rank to release, and
  what was running before still is what is recorded.
\<close>

theorem cluster_commit_whole_or_absent:
  assumes "commit_inner d epoch st = (res, st')"
  shows "((\<nexists>p. cl_pending st = Some p \<and> pn_epoch p = epoch) \<longrightarrow> \<not> is_ok res \<and> st' = st) \<and>
    (\<forall>p. cl_pending st = Some p \<longrightarrow> pn_epoch p = epoch \<longrightarrow> distinct (map tg_node (pn_targets p)) \<longrightarrow>
      cl_pending st' = None \<and>
      (case res of
         Ok started \<Rightarrow> list_all2 (starts (pn_port p)) (pn_targets p) started \<and>
           cl_running st' = Some \<lparr>ru_targets = pn_targets p, ru_started = started\<rparr> \<and>
           cl_asked st' = cl_asked st @ commit_asks epoch (pn_targets p) started @
             map (\<lambda>(t, r). AskAlive (tg_peer t) (rt_container r) (Ok True)) (zip (pn_targets p) started)
       | Err why \<Rightarrow> cl_running st' = cl_running st \<and>
           (\<exists>new. cl_asked st' = cl_asked st @ new \<and>
              (\<forall>t\<in>set (pn_targets p). AskAbort (tg_peer t) epoch \<in> set new \<or>
                 (\<exists>c. AskCommit (tg_peer t) epoch (Ok c) \<in> set new)) \<and>
              (\<forall>q c. AskCommit q epoch (Ok c) \<in> set new \<longrightarrow> (\<exists>x. AskStop q c x \<in> set new)))))"
proof (cases "\<exists>p. cl_pending st = Some p \<and> pn_epoch p = epoch")
  case False
  with assms have "\<not> is_ok res \<and> st' = st" by (auto simp: commit_inner_def take_pending_def split: option.splits if_splits)
  with False show ?thesis by blast
next
  case True
  then obtain p where p: "cl_pending st = Some p" "pn_epoch p = epoch" by blast
  let ?st = "st\<lparr>cl_pending := None\<rparr>" and ?ts = "pn_targets p"
  show ?thesis
  proof (cases "distinct (map tg_node ?ts)")
    case True
    obtain q st1 where q: "commit_all d epoch (pn_port p) [] [] ?ts ?st = (q, st1)" by fastforce
    have body: "st_bind (q, st1) (\<lambda>started st. commit_settle d ?ts started st) = (res, st')"
      using assms p q by (simp add: commit_inner_def take_pending_def)
    note c = commit_all_asked [OF _ q, simplified]
    have slots: "cl_pending st1 = None" "cl_running st1 = cl_running st" using c by (simp_all add: cl_slots_def)
    from c consider (started) new where "q = Ok new" "list_all2 (starts (pn_port p)) ?ts new"
        "cl_asked st1 = cl_asked st @ commit_asks epoch ?ts new"
      | (refused) pre t post new reason xs where "q = Err (display_str (tg_name t) @ '' could not start: '' @ reason)"
        "?ts = pre @ t # post" "list_all2 (starts (pn_port p)) pre new" "length xs = length new"
        "cl_asked st1 = cl_asked st @ commit_asks epoch pre new @ [AskCommit (tg_peer t) epoch (Err reason)] @
          stop_asks pre new xs @ abort_asks epoch (t # post)"
      by auto
    then show ?thesis
    proof cases
      case started
      then have "commit_settle d ?ts new st1 = (res, st')" using body by simp
      note after = commit_after_start [OF this started(2) True slots started(3)]
      show ?thesis
      proof (cases res)
        case (Ok s)
        with after p started(2) show ?thesis by simp
      next
        case (Err why)
        with after obtain xs alive where a: "cl_pending st' = None" "cl_running st' = cl_running st" "length xs = length new"
          "cl_asked st' = cl_asked st @ commit_asks epoch ?ts new @ alive @ stop_asks ?ts new xs"
          "\<forall>a\<in>set alive. \<exists>t r x. (t, r) \<in> set (zip ?ts new) \<and> a = AskAlive (tg_peer t) (rt_container r) x" by auto
        have "\<exists>c. AskCommit (tg_peer u) epoch (Ok c) \<in> set (commit_asks epoch ?ts new)" if "u \<in> set ?ts" for u
          using list_all2_zip_ex [OF started(2) that] by (auto simp: commit_asks_in)
        moreover have "\<exists>x. AskStop r c x \<in> set (stop_asks ?ts new xs)"
          if "AskCommit r epoch (Ok c) \<in> set (commit_asks epoch ?ts new)" for r c
          using that stops_every_start [OF started(2) True a(3)] by (auto simp: commit_asks_in)
        moreover have "AskCommit r epoch (Ok c) \<notin> set alive" "AskCommit r epoch (Ok c) \<notin> set (stop_asks ?ts new xs)" for r c
          using a(5) by (auto simp: stop_asks_def)
        ultimately show ?thesis using p a(1,2,4) Err by fastforce
      qed
    next
      case refused
      have res: "res = Err (display_str (tg_name t) @ '' could not start: '' @ reason)" "st' = st1"
        using body refused(1) by simp_all
      have d: "distinct (map tg_node pre)" using True refused(2) by simp
      have "AskAbort (tg_peer u) epoch \<in> set (abort_asks epoch (t # post)) \<or>
          (\<exists>c. AskCommit (tg_peer u) epoch (Ok c) \<in> set (commit_asks epoch pre new))" if "u \<in> set ?ts" for u
        using that refused(2) list_all2_zip_ex [OF refused(3), of u] by (auto simp: abort_asks_def commit_asks_in)
      moreover have "\<exists>x. AskStop r c x \<in> set (stop_asks pre new xs)"
        if "AskCommit r epoch (Ok c) \<in> set (commit_asks epoch pre new)" for r c
        using that stops_every_start [OF refused(3) d refused(4)] by (auto simp: commit_asks_in)
      moreover have "AskCommit r epoch (Ok c) \<notin> set (stop_asks pre new xs)" "AskCommit r epoch (Ok c) \<notin> set (abort_asks epoch us)" for r c us
        by (auto simp: stop_asks_def abort_asks_def)
      ultimately show ?thesis using p slots refused(5) unfolding res by fastforce
    qed
  qed (use p in auto)
qed

text \<open>
  A stop that fails can be retried: every recorded rank is asked to stop, even after one has failed; the record
  is cleared exactly when all of them stopped, and otherwise holds exactly those that did not.
\<close>

lemma cluster_stop_keeps_failures:
  assumes "cl_running st = Some running" "located (ru_targets running) (ru_started running)"
    and "stop_cluster_inner d st = (res, st')"
  shows "\<exists>xs. length xs = length (ru_started running) \<and>
    cl_asked st' = cl_asked st @ stop_asks (ru_targets running) (ru_started running) xs \<and> cl_pending st' = cl_pending st \<and>
    (is_ok res \<longleftrightarrow> (\<forall>x\<in>set xs. x = Ok ())) \<and>
    cl_running st' = (if \<forall>x\<in>set xs. x = Ok () then None
      else Some (running\<lparr>ru_started := map fst (filter (\<lambda>(r, x). x \<noteq> Ok ()) (zip (ru_started running) xs))\<rparr>))"
proof -
  obtain failures st1 where f: "stop_all d (ru_targets running) (ru_started running) st = (failures, st1)" by fastforce
  from stop_all_asked [OF assms(2) f] obtain xs where xs: "cl_slots st1 = cl_slots st" "length xs = length (ru_started running)"
    "cl_asked st1 = cl_asked st @ stop_asks (ru_targets running) (ru_started running) xs"
    "map snd failures = map fst (filter (\<lambda>(r, x). x \<noteq> Ok ()) (zip (ru_started running) xs))" by blast
  have "failures = [] \<longleftrightarrow> filter (\<lambda>(r, x). x \<noteq> Ok ()) (zip (ru_started running) xs) = []"
    using xs(4) by (metis Nil_is_map_conv)
  also have "\<dots> \<longleftrightarrow> (\<forall>x\<in>set xs. x = Ok ())"
  proof -
    have "set xs = snd ` set (zip (ru_started running) xs)" using xs(2) by (metis list.set_map map_snd_zip)
    then show ?thesis by (auto simp: filter_empty_conv)
  qed
  finally have n: "failures = [] \<longleftrightarrow> (\<forall>x\<in>set xs. x = Ok ())" .
  from assms(1,3) f have "res = (if failures = [] then Ok (ru_started running)
      else Err (''could not stop '' @ str_join ''; '' (map fst failures)))"
    "st' = (if failures = [] then st1\<lparr>cl_running := None\<rparr>
      else st1\<lparr>cl_running := Some (running\<lparr>ru_started := map snd failures\<rparr>)\<rparr>)"
    by (auto simp: stop_cluster_inner_def split: if_splits)
  with xs n show ?thesis by (intro exI [of _ xs]) (auto simp: cl_slots_def)
qed

section \<open>Runs of the driver\<close>

definition cl_init :: "'w cluster_state \<Rightarrow> bool" where
  "cl_init st = (cl_pending st = None \<and> cl_running st = None \<and> cl_asked st = [])"

text \<open>A ceremony, or anything at all that happens to the machines meanwhile.\<close>

inductive cl_step :: "'w cluster_driver \<Rightarrow> 'w cluster_state \<Rightarrow> 'w cluster_state \<Rightarrow> bool" for d where
  cl_preview: "cl_step d st (snd (preview_inner d recipe nodes head settings st))"
| cl_prepare: "cl_step d st (snd (prepare_inner d recipe nodes head settings entropy st))"
| cl_commit: "cl_step d st (snd (commit_inner d epoch st))"
| cl_abort: "cl_step d st (abort_inner d epoch st)"
| cl_stop: "cl_step d st (snd (stop_cluster_inner d st))"
| cl_supervise: "cl_step d st (snd (supervise_inner d st))"
| cl_world: "cl_step d st (st\<lparr>cl_world := w\<rparr>)"

text \<open>What entitles the driver to a question.\<close>

definition justified :: "rank_ask set \<Rightarrow> rank_ask \<Rightarrow> bool" where
  "justified A a =
     (case a of
        AskCommit p e _ \<Rightarrow> AskPrepare p e Prepared \<in> A
      | AskAbort p e \<Rightarrow> AskPrepare p e Prepared \<in> A
      | AskStop p c _ \<Rightarrow> \<exists>e. AskCommit p e (Ok c) \<in> A
      | AskAlive p c _ \<Rightarrow> \<exists>e. AskCommit p e (Ok c) \<in> A
      | _ \<Rightarrow> True)"

lemma justified_mono: "justified A a \<Longrightarrow> A \<subseteq> B \<Longrightarrow> justified B a"
  by (auto simp: justified_def split: rank_ask.splits)

text \<open>Every question is justified by those before it.\<close>

fun justified_from :: "rank_ask set \<Rightarrow> rank_ask list \<Rightarrow> bool" where
  "justified_from A [] = True"
| "justified_from A (a # as) = (justified A a \<and> justified_from (insert a A) as)"

lemma justified_from_append [simp]:
  "justified_from A (xs @ ys) \<longleftrightarrow> justified_from A xs \<and> justified_from (A \<union> set xs) ys"
  by (induction xs arbitrary: A) auto

lemma justified_fromI: "(\<And>a. a \<in> set as \<Longrightarrow> justified A a) \<Longrightarrow> justified_from A as"
  by (induction as arbitrary: A) (simp_all, metis justified_mono subset_insertI)

definition pending_ok :: "rank_ask set \<Rightarrow> cluster_pending option \<Rightarrow> bool" where
  "pending_ok A pending =
     (case pending of
        None \<Rightarrow> True
      | Some p \<Rightarrow> distinct (map tg_node (pn_targets p)) \<and>
          (\<forall>t\<in>set (pn_targets p). AskPrepare (tg_peer t) (pn_epoch p) Prepared \<in> A))"

definition running_ok :: "rank_ask set \<Rightarrow> cluster_running option \<Rightarrow> bool" where
  "running_ok A running =
     (case running of
        None \<Rightarrow> True
      | Some r \<Rightarrow> located (ru_targets r) (ru_started r) \<and>
          (\<forall>s\<in>set (ru_started r). \<exists>e. AskCommit (where_started (ru_targets r) s) e (Ok (rt_container s)) \<in> A))"

definition cl_inv :: "'w cluster_state \<Rightarrow> bool" where
  "cl_inv st =
     (justified_from {} (cl_asked st) \<and>
      pending_ok (set (cl_asked st)) (cl_pending st) \<and> running_ok (set (cl_asked st)) (cl_running st))"

lemma pending_ok_mono: "pending_ok A p \<Longrightarrow> A \<subseteq> B \<Longrightarrow> pending_ok B p"
  by (auto simp: pending_ok_def split: option.splits)

lemma running_ok_mono: "running_ok A r \<Longrightarrow> A \<subseteq> B \<Longrightarrow> running_ok B r"
  by (fastforce simp: running_ok_def split: option.splits)

lemma slots_ok_None [simp]: "pending_ok A None" "running_ok A None"
  by (simp_all add: pending_ok_def running_ok_def)

text \<open>Questions that are justified, with slots that are.\<close>

lemma cl_inv_extend:
  assumes "cl_inv st" "cl_asked st' = cl_asked st @ new"
    and "justified_from (set (cl_asked st)) new"
    and "cl_pending st' = cl_pending st \<or> pending_ok (set (cl_asked st')) (cl_pending st')"
    and "cl_running st' = cl_running st \<or> running_ok (set (cl_asked st')) (cl_running st')"
  shows "cl_inv st'"
proof -
  have "set (cl_asked st) \<subseteq> set (cl_asked st')" using assms(2) by auto
  with assms show ?thesis unfolding cl_inv_def by (auto intro: pending_ok_mono running_ok_mono)
qed

lemma preview_all_asked:
  "preview_all d ts st = (res, st') \<Longrightarrow> cl_slots st' = cl_slots st \<and>
     (\<exists>new. cl_asked st' = cl_asked st @ new \<and> (\<forall>a\<in>set new. \<exists>p. a = AskPreview p))"
proof (induction ts arbitrary: st st' res)
  case (Cons t ts)
  obtain q st1 where q: "(case tg_addr t of
          None \<Rightarrow> (map_err (\<lambda>e. display_str (tg_name t) @ '': '' @ e) (cd_render d (tg_assignment t)), st)
        | Some addr \<Rightarrow>
            let (r, w) = cd_remote_preview d (tg_node t) addr (tg_assignment t) (cl_world st) in
            (map_err (\<lambda>e. display_str (tg_name t) @ '': '' @ e) r, asked st w (AskPreview (tg_peer t)))) = (q, st1)"
    by (metis prod.exhaust)
  then have st1: "cl_slots st1 = cl_slots st" "cl_asked st1 = cl_asked st \<or> cl_asked st1 = cl_asked st @ [AskPreview (tg_peer t)]"
    by (auto simp: Let_def case_prod_beta split: option.splits)
  show ?case
  proof (cases q)
    case (Err e)
    with Cons.prems q st1 show ?thesis by auto
  next
    case (Ok c)
    obtain out st2 where o: "preview_all d ts st1 = (out, st2)" by fastforce
    from Cons.IH [OF o] st1 obtain new where "cl_slots st2 = cl_slots st" "cl_asked st2 = cl_asked st1 @ new"
      "\<forall>a\<in>set new. \<exists>p. a = AskPreview p" by auto
    moreover have "st' = st2" using Cons.prems q Ok o by (cases out) (auto simp: case_prod_beta)
    ultimately show ?thesis using st1(2) by auto
  qed
qed simp

lemma cl_inv_preview:
  assumes "cl_inv st"
  shows "cl_inv (snd (preview_inner d recipe nodes head settings st))"
proof (cases "driver_resolve d (cl_world st) recipe nodes head settings ''preview''")
  case (Ok p)
  obtain q st' where q: "preview_all d (pn_targets p) st = (q, st')" by fastforce
  then have st': "snd (preview_inner d recipe nodes head settings st) = st'"
    using Ok by (cases q) (simp_all add: preview_inner_def)
  from preview_all_asked [OF q] obtain new where "cl_slots st' = cl_slots st" "cl_asked st' = cl_asked st @ new"
    "\<forall>a\<in>set new. \<exists>p. a = AskPreview p" by blast
  then show ?thesis unfolding st' by (intro cl_inv_extend [OF assms, of st' new] justified_fromI) (auto simp: cl_slots_def justified_def)
qed (simp add: preview_inner_def assms)

text \<open>A resolved plan gives a machine one rank, under the epoch that was asked for.\<close>

lemma targets_of_nodes: "targets_of d w selected as = Ok ts \<Longrightarrow> map tg_assignment ts = as"
  by (induction as arbitrary: ts) (auto simp: result_bind_eq_Ok split: option.splits)

lemma driver_resolve_Ok:
  assumes "driver_resolve d w recipe nodes head settings epoch = Ok p"
  shows "pn_epoch p = epoch" "distinct (map tg_node (pn_targets p))"
proof -
  from assms obtain plan h where p: "pn_epoch p = epoch"
    "cluster_plan_for (recipe_str recipe) h (u32_len nodes) (selected_nodes d w nodes) head settings epoch = Ok plan"
    "targets_of d w (selected_nodes d w nodes) (cp_ranks plan) = Ok (pn_targets p)"
    by (auto simp: driver_resolve_def Let_def result_bind_eq_Ok map_err_eq_Ok split: if_splits)
  then show "pn_epoch p = epoch" by simp
  have "map tg_node (pn_targets p) = map ra_node (cp_ranks plan)"
    unfolding targets_of_nodes [OF p(3), symmetric] by (simp add: tg_node_def)
  moreover have "distinct (map ra_node (cp_ranks plan))"
    using p(2) by (rule cluster_plan_Ok) (simp add: assign_ranks_nodes rank_order_shape(3))
  ultimately show "distinct (map tg_node (pn_targets p))" by simp
qed

lemma cl_inv_prepare:
  assumes "cl_inv st"
  shows "cl_inv (snd (prepare_inner d recipe nodes head settings entropy st))"
proof (cases "cl_running st = None \<and> is_ok (driver_resolve d (cl_world st) recipe nodes head settings (new_epoch entropy))")
  case True
  then obtain p where p: "driver_resolve d (cl_world st) recipe nodes head settings (new_epoch entropy) = Ok p"
    by (auto simp: is_ok_def split: result.splits)
  note ok = driver_resolve_Ok [OF p]
  obtain out accepted st1 where a: "prepare_all d (new_epoch entropy) (pn_targets p) st = ((out, accepted), st1)"
    by (metis prod.exhaust)
  from prepare_all_asked [OF a] obtain rs where rs: "cl_slots st1 = cl_slots st" "length rs = length (pn_targets p)"
    "cl_asked st1 = cl_asked st @ map (\<lambda>(t, r). AskPrepare (tg_peer t) (new_epoch entropy) r) (zip (pn_targets p) rs)"
    "out = map (\<lambda>(t, r). prepare_answer t r) (zip (pn_targets p) rs)"
    "accepted = map fst (filter (\<lambda>(t, r). r = Prepared) (zip (pn_targets p) rs))" by blast
  have st1: "cl_inv st1"
    using rs(1) by (intro cl_inv_extend [OF assms rs(3)] justified_fromI) (auto simp: cl_slots_def justified_def)
  have granted: "AskPrepare (tg_peer t) (new_epoch entropy) Prepared \<in> set (cl_asked st1)" if "t \<in> set accepted" for t
    using that unfolding rs(3,5) by force
  have st': "snd (prepare_inner d recipe nodes head settings entropy st) =
      (if list_all rq_prepared out then st1\<lparr>cl_pending := Some p\<rparr> else roll_back d (new_epoch entropy) accepted st1)"
    using True p a by (auto simp: prepare_inner_def Let_def)
  show ?thesis
  proof (cases "list_all rq_prepared out")
    case True
    then have "accepted = pn_targets p"
      unfolding rs(4,5) by (subst filter_True) (auto simp: list_all_iff prepare_answer_def rs(2))
    with granted ok have "pending_ok (set (cl_asked st1)) (Some p)" by (simp add: pending_ok_def)
    with True st1 show ?thesis unfolding st' by (simp add: cl_inv_def)
  next
    case False
    have "cl_slots (roll_back d (new_epoch entropy) accepted st1) = cl_slots st1" by simp
    with granted show ?thesis unfolding st' if_not_P [OF False]
      by (intro cl_inv_extend [OF st1 roll_back_asked(1)] justified_fromI) (auto simp: cl_slots_def justified_def)
  qed
qed (cases "driver_resolve d (cl_world st) recipe nodes head settings (new_epoch entropy)";
  auto simp: prepare_inner_def Let_def assms split: option.splits)

lemma stop_asks_justified:
  assumes "\<And>r. r \<in> set rs \<Longrightarrow> \<exists>e. AskCommit (where_started targets r) e (Ok (rt_container r)) \<in> A"
  shows "justified_from A (stop_asks targets rs xs)"
  using assms by (intro justified_fromI) (auto simp: stop_asks_def justified_def dest: set_zip_leftD)

lemma abort_asks_justified:
  assumes "\<And>t. t \<in> set ts \<Longrightarrow> AskPrepare (tg_peer t) epoch Prepared \<in> A"
  shows "justified_from A (abort_asks epoch ts)"
  using assms by (intro justified_fromI) (auto simp: abort_asks_def justified_def)

lemma commit_asks_justified:
  assumes "\<And>t. t \<in> set ts \<Longrightarrow> AskPrepare (tg_peer t) epoch Prepared \<in> A"
  shows "justified_from A (commit_asks epoch ts rs)"
  using assms by (intro justified_fromI) (auto simp: commit_asks_def justified_def dest: set_zip_leftD)

lemma started_committed:
  assumes "list_all2 (starts port) ts rs" "distinct (map tg_node ts)" "r \<in> set rs"
  shows "AskCommit (where_started ts r) epoch (Ok (rt_container r)) \<in> set (commit_asks epoch ts rs)"
proof -
  obtain t where t: "(t, r) \<in> set (zip ts rs)"
    using assms(1,3) by (metis in_set_impl_in_set_zip2 list_all2_lengthD)
  with where_started_zip [OF assms(1,2) t] show ?thesis unfolding commit_asks_in by metis
qed

lemma cl_inv_settle:
  assumes inv: "cl_inv st" and l: "list_all2 (starts port) ts new" and dist: "distinct (map tg_node ts)"
    and prepared: "\<And>t. t \<in> set ts \<Longrightarrow> AskPrepare (tg_peer t) epoch Prepared \<in> set (cl_asked st)"
    and slots: "cl_pending st1 = None" "cl_running st1 = cl_running st"
    and started: "cl_asked st1 = cl_asked st @ commit_asks epoch ts new"
  shows "cl_inv (snd (commit_settle d ts new st1))"
proof -
  obtain res st' where body: "commit_settle d ts new st1 = (res, st')" by fastforce
  let ?A = "set (cl_asked st)" and ?C = "commit_asks epoch ts new"
  note after = commit_after_start [OF body l dist slots started]
  have com: "justified_from ?A ?C" using prepared by (intro commit_asks_justified) auto
  have alive: "justified_from (?A \<union> set ?C) as"
    if "\<And>a. a \<in> set as \<Longrightarrow> \<exists>t r x. (t, r) \<in> set (zip ts new) \<and> a = AskAlive (tg_peer t) (rt_container r) x" for as
    using that by (intro justified_fromI) (fastforce simp: justified_def commit_asks_in)
  show ?thesis
  proof (cases res)
    case (Ok s)
    with after have a: "cl_pending st' = None" "cl_running st' = Some \<lparr>ru_targets = ts, ru_started = new\<rparr>"
      "cl_asked st' = cl_asked st @ ?C @ map (\<lambda>(t, r). AskAlive (tg_peer t) (rt_container r) (Ok True)) (zip ts new)"
      by auto
    have "running_ok (set (cl_asked st')) (cl_running st')"
      using started_committed [OF l dist] located_starts [OF l] unfolding a(2,3) running_ok_def by fastforce
    moreover have "justified_from ?A (?C @ map (\<lambda>(t, r). AskAlive (tg_peer t) (rt_container r) (Ok True)) (zip ts new))"
      by (simp add: com) (rule alive, fastforce)
    ultimately show ?thesis using body a(1) by (simp add: cl_inv_extend [OF inv a(3)])
  next
    case (Err why)
    with after obtain xs al where a: "cl_pending st' = None" "cl_running st' = cl_running st"
      "cl_asked st' = cl_asked st @ ?C @ al @ stop_asks ts new xs"
      "\<forall>a\<in>set al. \<exists>t r x. (t, r) \<in> set (zip ts new) \<and> a = AskAlive (tg_peer t) (rt_container r) x" by auto
    have "justified_from (?A \<union> set ?C \<union> set al) (stop_asks ts new xs)"
      using started_committed [OF l dist] by (intro stop_asks_justified) auto
    with com alive a(4) have "justified_from ?A (?C @ al @ stop_asks ts new xs)" by (simp add: Un_assoc)
    then show ?thesis using body a(1,2) by (simp add: cl_inv_extend [OF inv a(3)])
  qed
qed

lemma cl_inv_commit:
  assumes inv: "cl_inv st"
  shows "cl_inv (snd (commit_inner d epoch st))"
proof (cases "\<exists>p. cl_pending st = Some p \<and> pn_epoch p = epoch")
  case False
  then have "snd (commit_inner d epoch st) = st"
    by (auto simp: commit_inner_def take_pending_def split: option.splits)
  with inv show ?thesis by simp
next
  case True
  then obtain p where p: "cl_pending st = Some p" "pn_epoch p = epoch" by blast
  let ?st = "st\<lparr>cl_pending := None\<rparr>" and ?ts = "pn_targets p" and ?A = "set (cl_asked st)"
  obtain q st1 where q: "commit_all d epoch (pn_port p) [] [] ?ts ?st = (q, st1)" by fastforce
  have body: "snd (commit_inner d epoch st) = snd (st_bind (q, st1) (\<lambda>started st. commit_settle d ?ts started st))"
    using p q by (simp add: commit_inner_def take_pending_def)
  note c = commit_all_asked [OF _ q, simplified]
  have slots: "cl_pending st1 = None" "cl_running st1 = cl_running st" using c by (simp_all add: cl_slots_def)
  from inv p have ok: "distinct (map tg_node ?ts)" "\<And>t. t \<in> set ?ts \<Longrightarrow> AskPrepare (tg_peer t) epoch Prepared \<in> ?A"
    by (auto simp: cl_inv_def pending_ok_def)
  from c consider (started) new where "q = Ok new" "list_all2 (starts (pn_port p)) ?ts new"
      "cl_asked st1 = cl_asked st @ commit_asks epoch ?ts new"
    | (refused) pre t post new reason xs where "q = Err (display_str (tg_name t) @ '' could not start: '' @ reason)"
      "?ts = pre @ t # post" "list_all2 (starts (pn_port p)) pre new" "length xs = length new"
      "cl_asked st1 = cl_asked st @ commit_asks epoch pre new @ [AskCommit (tg_peer t) epoch (Err reason)] @
        stop_asks pre new xs @ abort_asks epoch (t # post)"
    by auto
  then show ?thesis
  proof cases
    case refused
    have "justified_from ?A (commit_asks epoch pre new)" "AskPrepare (tg_peer t) epoch Prepared \<in> ?A"
      using ok(2) refused(2) by (auto intro: commit_asks_justified)
    moreover have "justified_from (?A \<union> set (commit_asks epoch pre new) \<union> {a}) (stop_asks pre new xs)" for a
      using started_committed [OF refused(3)] ok(1) refused(2) by (intro stop_asks_justified) auto
    moreover have "justified_from (insert a (?A \<union> B)) (abort_asks epoch (t # post))" for a B
      using ok(2) refused(2) by (intro abort_asks_justified) auto
    ultimately have "justified_from ?A (commit_asks epoch pre new @ [AskCommit (tg_peer t) epoch (Err reason)] @
        stop_asks pre new xs @ abort_asks epoch (t # post))"
      by (simp add: justified_def Un_assoc)
    then have "cl_inv st1" using slots refused(5) by (simp add: cl_inv_extend [OF inv refused(5)])
    with body refused(1) show ?thesis by simp
  next
    case started
    with body have "snd (commit_inner d epoch st) = snd (commit_settle d ?ts new st1)" by simp
    with cl_inv_settle [OF inv started(2) ok slots started(3)] show ?thesis by simp
  qed
qed

lemma cl_inv_abort:
  assumes "cl_inv st"
  shows "cl_inv (abort_inner d epoch st)"
proof (cases "\<exists>p. cl_pending st = Some p \<and> pn_epoch p = epoch")
  case True
  then obtain p where p: "cl_pending st = Some p" "pn_epoch p = epoch" by blast
  let ?st' = "roll_back d epoch (pn_targets p) (st\<lparr>cl_pending := None\<rparr>)"
  have "cl_slots ?st' = cl_slots (st\<lparr>cl_pending := None\<rparr>)" by simp
  moreover have "justified_from (set (cl_asked st)) (abort_asks epoch (pn_targets p))"
    using assms p by (intro abort_asks_justified) (auto simp: cl_inv_def pending_ok_def)
  ultimately have "cl_inv ?st'"
    by (intro cl_inv_extend [OF assms, of ?st' "abort_asks epoch (pn_targets p)"]) (auto simp: cl_slots_def abort_asks_def)
  with p show ?thesis by (simp add: abort_inner_def)
qed (auto simp: abort_inner_def assms split: option.splits)

lemma cl_inv_stop:
  assumes "cl_inv st"
  shows "cl_inv (snd (stop_cluster_inner d st))"
proof (cases "cl_running st")
  case (Some r)
  obtain res st' where st': "stop_cluster_inner d st = (res, st')" by fastforce
  from assms Some have ok: "located (ru_targets r) (ru_started r)"
    "\<And>s. s \<in> set (ru_started r) \<Longrightarrow> \<exists>e. AskCommit (where_started (ru_targets r) s) e (Ok (rt_container s)) \<in> set (cl_asked st)"
    by (auto simp: cl_inv_def running_ok_def)
  from cluster_stop_keeps_failures [OF Some ok(1) st'] obtain xs where xs:
    "cl_asked st' = cl_asked st @ stop_asks (ru_targets r) (ru_started r) xs" "cl_pending st' = cl_pending st"
    "cl_running st' = None \<or> cl_running st' =
       Some (r\<lparr>ru_started := map fst (filter (\<lambda>(r, x). x \<noteq> Ok ()) (zip (ru_started r) xs))\<rparr>)" by metis
  have "running_ok (set (cl_asked st')) (cl_running st')"
    using xs(3) ok unfolding xs(1) by (fastforce simp: running_ok_def located_def list_all_iff dest: set_zip_leftD)
  moreover have "justified_from (set (cl_asked st)) (stop_asks (ru_targets r) (ru_started r) xs)"
    using ok(2) by (rule stop_asks_justified)
  ultimately show ?thesis using st' xs(2) by (simp add: cl_inv_extend [OF assms xs(1)])
qed (simp add: stop_cluster_inner_def assms)

lemma cl_inv_supervise:
  assumes "cl_inv st"
  shows "cl_inv (snd (supervise_inner d st))"
proof (cases "cl_running st")
  case (Some r)
  obtain dead st1 where g: "gone_ranks d (ru_targets r) (ru_started r) st = (dead, st1)" by fastforce
  from assms Some have ok: "located (ru_targets r) (ru_started r)"
    "\<And>s. s \<in> set (ru_started r) \<Longrightarrow> \<exists>e. AskCommit (where_started (ru_targets r) s) e (Ok (rt_container s)) \<in> set (cl_asked st)"
    by (auto simp: cl_inv_def running_ok_def)
  from gone_ranks_asked [OF ok(1) g] obtain xs where xs: "cl_slots st1 = cl_slots st"
    "cl_asked st1 = cl_asked st @ map (\<lambda>(r', x). AskAlive (where_started (ru_targets r) r') (rt_container r') x) (zip (ru_started r) xs)"
    by auto
  have st1: "cl_inv st1"
    using ok(2) xs(1) by (intro cl_inv_extend [OF assms xs(2)] justified_fromI)
      (auto simp: cl_slots_def justified_def dest: set_zip_leftD)
  have "snd (supervise_inner d st) = (if dead = [] then st1 else (snd (stop_cluster_inner d st1))\<lparr>cl_running := None\<rparr>)"
    using Some g by (simp add: supervise_inner_def case_prod_beta)
  with st1 cl_inv_stop [OF st1, of d] show ?thesis by (simp add: cl_inv_def)
qed (simp add: supervise_inner_def assms)

interpretation cl: invariant_system cl_init "cl_step d" cl_inv for d :: "'w cluster_driver"
proof
  fix st :: "'w cluster_state"
  assume "cl_init st"
  then show "cl_inv st" by (simp add: cl_init_def cl_inv_def)
next
  fix st st' :: "'w cluster_state"
  assume inv: "cl_inv st" and step: "cl_step d st st'"
  from step show "cl_inv st'"
    by cases (simp_all add: inv cl_inv_preview cl_inv_prepare cl_inv_commit cl_inv_abort cl_inv_stop cl_inv_supervise,
      use inv in \<open>simp add: cl_inv_def\<close>)
qed

lemma justified_from_nth: "justified_from A as \<Longrightarrow> i < length as \<Longrightarrow> justified (A \<union> set (take i as)) (as ! i)"
proof (induction as arbitrary: A i)
  case (Cons a as)
  then show ?case by (cases i) fastforce+
qed simp

text \<open>
  C19. In every run of the driver, whatever the machines answer and do meanwhile: a rank is asked to commit or to
  release only after it accepted a prepare of the same epoch, and a container is asked after, or
  stopped, only where a commit started it before; and the ranks of an attempt that waits for its commit
  are all different machines that accepted it.
\<close>

theorem cluster_asks_are_justified:
  assumes "reachable cl_init (cl_step d) st" and "i < length (cl_asked st)"
  shows "(case cl_asked st ! i of
       AskCommit p e _ \<Rightarrow> AskPrepare p e Prepared \<in> set (take i (cl_asked st))
     | AskAbort p e \<Rightarrow> AskPrepare p e Prepared \<in> set (take i (cl_asked st))
     | AskStop p c _ \<Rightarrow> \<exists>e. AskCommit p e (Ok c) \<in> set (take i (cl_asked st))
     | AskAlive p c _ \<Rightarrow> \<exists>e. AskCommit p e (Ok c) \<in> set (take i (cl_asked st))
     | _ \<Rightarrow> True) \<and>
    (\<forall>q. cl_pending st = Some q \<longrightarrow> distinct (map tg_node (pn_targets q)) \<and>
      (\<forall>t\<in>set (pn_targets q). AskPrepare (tg_peer t) (pn_epoch q) Prepared \<in> set (cl_asked st)))"
proof -
  have inv: "cl_inv st" using assms(1) by (rule cl.reachable_inv)
  then have "justified_from {} (cl_asked st)" by (simp add: cl_inv_def)
  from justified_from_nth [OF this assms(2)] have "justified (set (take i (cl_asked st))) (cl_asked st ! i)" by simp
  moreover from inv have "pending_ok (set (cl_asked st)) (cl_pending st)" by (simp add: cl_inv_def)
  ultimately show ?thesis by (auto simp: justified_def pending_ok_def split: rank_ask.splits)
qed

lemma check_selected_count: "check_selected seen ns \<noteq> Err (PlanNodeCount r n m)"
  by (induction ns arbitrary: seen) auto

text \<open>
  The number of machines a plan requires is the number that were selected: the check of the planner against
  the recipe's own count never refuses a selection made here.
\<close>

lemma driver_count_never_refused:
  assumes "length (selected_nodes d w nodes) = length nodes" "length nodes < 2 ^ 32"
  shows "cluster_plan_for recipe h (u32_len nodes) (selected_nodes d w nodes) head settings epoch \<noteq> Err (PlanNodeCount r n m)"
  using assms check_selected_count [of "{}" "selected_nodes d w nodes" r n m]
  by (auto simp: cluster_plan_for_def u32_len_def Let_def result_bind_def split: result.splits option.splits)

section \<open>The rank service under the driver\<close>

text \<open>
  What the driver relies on of this machine's rank: \<open>held\<close> is the epoch it holds a reservation
  for. Nothing else the driver asks touches that reservation.
\<close>

locale rank_contract =
  fixes held :: "'w \<Rightarrow> string option"
    and prep :: "string \<Rightarrow> rank_assignment \<Rightarrow> 'w \<Rightarrow> prepare_reply \<times> 'w"
    and com :: "string \<Rightarrow> 'w \<Rightarrow> (string, string) result \<times> 'w"
    and rel :: "string \<Rightarrow> 'w \<Rightarrow> 'w"
  assumes prepared_holds: "prep e a w = (Prepared, w') \<Longrightarrow> held w' = Some e"
    and refused_keeps: "prep e a w = (Refused why, w') \<Longrightarrow> held w' = held w \<or> held w' = None"
    and commit_frees: "com e w = (r, w') \<Longrightarrow> held w' \<noteq> Some e"
    and commit_needs: "com e w = (Ok c, w') \<Longrightarrow> held w = Some e"
    and release_frees: "held (rel e w) \<noteq> Some e"
begin

text \<open>A replayed commit, and one after a release, start nothing.\<close>

lemma commit_once: "com e w = (r, w') \<Longrightarrow> com e w' \<noteq> (Ok c, w'')"
  using commit_frees commit_needs by blast

lemma released_not_started: "com e (rel e w) \<noteq> (Ok c, w')"
  using release_frees commit_needs by blast

end

locale driven_rank = rank_contract held "ro_prepare (cd_local d)" "ro_commit (cd_local d)" "ro_abort (cd_local d)"
  for held :: "'w \<Rightarrow> string option" and d :: "'w cluster_driver" +
  assumes local_frame: "held (snd (ro_alive (cd_local d) c w)) = held w" "held (snd (ro_stop (cd_local d) c w)) = held w"
    and remote_frame: "held (snd (ro_prepare (cd_remote d n a) e r w)) = held w"
      "held (snd (ro_commit (cd_remote d n a) e w)) = held w" "held (ro_abort (cd_remote d n a) e w) = held w"
      "held (snd (ro_alive (cd_remote d n a) c w)) = held w" "held (snd (ro_stop (cd_remote d n a) c w)) = held w"
begin

lemma ask_frame:
  "held (cl_world (snd (ask_alive d c t st))) = held (cl_world st)"
  "held (cl_world (snd (ask_stop d c t st))) = held (cl_world st)"
  by (simp_all add: ask_alive_def ask_stop_def ops_def case_prod_beta local_frame remote_frame split: option.splits)

lemma ask_abort_frees:
  assumes "tg_addr t = None \<or> held (cl_world st) \<noteq> Some e"
  shows "held (cl_world (ask_abort d e t st)) \<noteq> Some e"
  using assms by (auto simp: ask_abort_def ops_def release_frees remote_frame split: option.splits)

lemma roll_back_frees:
  "held (cl_world st) \<noteq> Some e \<or> (\<exists>t\<in>set ts. tg_addr t = None) \<Longrightarrow> held (cl_world (roll_back d e ts st)) \<noteq> Some e"
proof (induction ts arbitrary: st)
  case (Cons t ts)
  then show ?case using ask_abort_frees [of t st e] by (fastforce intro!: Cons.IH)
qed simp

lemma ask_prepare_held:
  assumes "ask_prepare d e t st = (r, st')"
  shows "held (cl_world st') = (if tg_addr t = None \<and> r = Prepared then Some e else held (cl_world st)) \<or>
    held (cl_world st') = None \<and> tg_addr t = None \<and> r \<noteq> Prepared"
proof (cases "tg_addr t")
  case None
  obtain q w where q: "ro_prepare (cd_local d) e (tg_assignment t) (cl_world st) = (q, w)" by fastforce
  with assms None have "r = q" "cl_world st' = w" by (auto simp: ask_prepare_def ops_def)
  with q None show ?thesis using prepared_holds [of e "tg_assignment t" "cl_world st" w]
      refused_keeps [of e "tg_assignment t" "cl_world st" _ w] by (cases q) auto
next
  case (Some a)
  with assms show ?thesis
    using remote_frame(1) [of "tg_node t" a e "tg_assignment t" "cl_world st"] by (auto simp: ask_prepare_def ops_def case_prod_beta)
qed

lemma prepare_all_held:
  assumes "prepare_all d e ts st = ((out, accepted), st')"
  shows "(held (cl_world st) \<noteq> Some e \<longrightarrow> held (cl_world st') = Some e \<longrightarrow> (\<exists>t\<in>set accepted. tg_addr t = None)) \<and>
    (list_all rq_prepared out \<longrightarrow> held (cl_world st) = Some e \<or> (\<exists>t\<in>set ts. tg_addr t = None) \<longrightarrow> held (cl_world st') = Some e)"
  using assms
proof (induction ts arbitrary: st out accepted)
  case (Cons t ts)
  obtain r st1 where r: "ask_prepare d e t st = (r, st1)" by fastforce
  obtain an ac where ac: "prepare_all d e ts st1 = ((an, ac), st')" "out = prepare_answer t r # an"
    "accepted = (if r = Prepared then t # ac else ac)"
    using Cons.prems r by (auto simp: Let_def case_prod_beta prod_eq_iff split: if_splits)
  show ?case using Cons.IH [OF ac(1)] ask_prepare_held [OF r] ac(2,3)
    by (cases "tg_addr t") (auto simp: prepare_answer_def split: if_splits)
qed simp

lemma stop_started_frame: "held (cl_world (stop_started d rs ts st)) = held (cl_world st)"
  by (induction rs arbitrary: st) (auto simp: ask_frame split: option.splits)

lemma dead_ranks_frame: "held (cl_world (snd (dead_ranks d rs ts st))) = held (cl_world st)"
  by (induction ts arbitrary: st) (auto simp: Let_def case_prod_beta ask_frame split: option.splits)

lemma commit_all_frees:
  "held (cl_world st) \<noteq> Some e \<or> (\<exists>t\<in>set ts. tg_addr t = None) \<Longrightarrow>
   held (cl_world (snd (commit_all d e port done started ts st))) \<noteq> Some e"
proof (induction ts arbitrary: "done" started st)
  case (Cons t ts)
  obtain r st1 where r: "ask_commit d e t st = (r, st1)" by fastforce
  have h: "held (cl_world st1) \<noteq> Some e \<or> (\<exists>t\<in>set ts. tg_addr t = None)"
  proof (cases "tg_addr t")
    case None
    with r commit_frees [OF prod.collapse [symmetric], of e "cl_world st"] show ?thesis by (auto simp: ask_commit_def ops_def case_prod_beta)
  next
    case (Some a)
    with r Cons.prems remote_frame(2) [of "tg_node t" a e "cl_world st"] show ?thesis
      by (auto simp: ask_commit_def ops_def case_prod_beta)
  qed
  then show ?case using Cons.IH [OF h] r
    by (auto split: result.splits simp del: roll_back.simps intro!: roll_back_frees simp: stop_started_frame)
qed simp

text \<open>The ceremonies.\<close>

lemma prepare_inner_held:
  assumes "prepare_inner d recipe nodes head settings entropy st = (Ok (epoch, out, whole), st')"
    and "held (cl_world st) \<noteq> Some epoch"
  shows "(\<not> whole \<longrightarrow> held (cl_world st') \<noteq> Some epoch) \<and>
    (whole \<longrightarrow> (\<exists>p. cl_pending st' = Some p \<and> pn_epoch p = epoch \<and>
       ((\<exists>t\<in>set (pn_targets p). tg_addr t = None) \<longrightarrow> held (cl_world st') = Some epoch)))"
proof -
  from assms(1) obtain p where r: "driver_resolve d (cl_world st) recipe nodes head settings (new_epoch entropy) = Ok p"
    "cl_running st = None" by (auto simp: prepare_inner_def Let_def split: option.splits result.splits)
  obtain ans accepted st1 where a: "prepare_all d (new_epoch entropy) (pn_targets p) st = ((ans, accepted), st1)"
    by (metis prod.exhaust)
  from assms(1) r a have p: "driver_resolve d (cl_world st) recipe nodes head settings epoch = Ok p" "epoch = new_epoch entropy"
    "prepare_all d epoch (pn_targets p) st = ((ans, accepted), st1)" "whole = list_all rq_prepared ans"
    "st' = (if whole then st1\<lparr>cl_pending := Some p\<rparr> else roll_back d epoch accepted st1)"
    by (auto simp: prepare_inner_def Let_def split: if_splits)
  note h = prepare_all_held [OF p(3)]
  have "\<not> whole \<Longrightarrow> held (cl_world st') \<noteq> Some epoch"
    using h assms(2) roll_back_frees [of st1 epoch accepted] unfolding p(5) by auto
  moreover have "whole \<Longrightarrow> (\<exists>t\<in>set (pn_targets p). tg_addr t = None) \<Longrightarrow> held (cl_world st') = Some epoch"
    using h p(4) unfolding p(5) by auto
  ultimately show ?thesis using driver_resolve_Ok(1) [OF p(1)] p(5) by auto
qed

lemma commit_inner_frees:
  assumes "cl_pending st = Some p" "pn_epoch p = epoch" "\<exists>t\<in>set (pn_targets p). tg_addr t = None"
  shows "held (cl_world (snd (commit_inner d epoch st))) \<noteq> Some epoch"
proof -
  let ?st = "st\<lparr>cl_pending := None\<rparr>"
  obtain r st1 where c: "commit_all d epoch (pn_port p) [] [] (pn_targets p) ?st = (r, st1)" by fastforce
  have h: "held (cl_world st1) \<noteq> Some epoch"
    using commit_all_frees [of ?st epoch "pn_targets p" "pn_port p" "[]" "[]"] assms(3) c by simp
  have "held (cl_world (snd (commit_settle d ts rs st1))) = held (cl_world st1)" for ts rs
    using dead_ranks_frame [of rs ts st1] by (simp add: commit_settle_def Let_def case_prod_beta stop_started_frame)
  with h assms(1,2) c show ?thesis by (cases r) (simp_all add: commit_inner_def take_pending_def)
qed

lemma abort_inner_frees:
  assumes "cl_pending st = Some p" "pn_epoch p = epoch" "\<exists>t\<in>set (pn_targets p). tg_addr t = None"
  shows "held (cl_world (abort_inner d epoch st)) \<noteq> Some epoch"
  using assms roll_back_frees [of "st\<lparr>cl_pending := None\<rparr>" epoch "pn_targets p"] by (simp add: abort_inner_def)

end

text \<open>
  The rank service of theory \<open>Rank\<close> on this machine, beside the rest of the fleet: its clock
  reads and the operations of the other machines are parameters, and these run elsewhere.
\<close>

definition commit_error_to_string :: "commit_error \<Rightarrow> string" where
  "commit_error_to_string e = (case e of
     HoldingOther other epoch \<Rightarrow> ''this node is holding a reservation for '' @ other @ '', not '' @ epoch
   | NoReservation epoch \<Rightarrow> ''this node has no reservation for '' @ epoch @ ''; prepare first''
   | StartingFailed e \<Rightarrow> ''starting the rank: '' @ e
   | RunExited status stderr \<Rightarrow> ''docker run exited '' @ show_int status @ '': '' @ stderr)"

definition stop_error_to_string :: "stop_error \<Rightarrow> string" where
  "stop_error_to_string e = (case e of
     NotOurs c \<Rightarrow> ''refusing to stop `'' @ c @ ''`: a rank may only stop a container this fleet launched, ''
       @ ''and that name is not one''
   | StoppingFailed e \<Rightarrow> ''stopping the rank: '' @ e
   | RmExited status stderr \<Rightarrow> ''docker rm exited '' @ show_int status @ '': '' @ stderr)"

definition local_rank_ops ::
    "('e, 'w) rank_service \<Rightarrow> ('r \<Rightarrow> int \<times> int \<times> int) \<Rightarrow> ('w rank_state \<times> 'r) rank_ops" where
  "local_rank_ops svc now =
     \<lparr>ro_prepare = \<lambda>epoch a (s, r). let (t1, t2, t3) = now r; (reply, s) = rank_prepare svc epoch a t1 t2 t3 s in (reply, s, r),
      ro_commit = \<lambda>epoch (s, r). let (res, s) = rank_commit svc epoch s in (map_err commit_error_to_string res, s, r),
      ro_alive = \<lambda>c (s, r). let (res, s) = rank_alive svc c s in (res, s, r),
      ro_stop = \<lambda>c (s, r). let (res, s) = rank_stop svc c s in (map_err stop_error_to_string res, s, r),
      ro_abort = \<lambda>epoch (s, r). (rank_abort epoch s, r)\<rparr>"

definition elsewhere :: "'r rank_ops \<Rightarrow> ('s \<times> 'r) rank_ops" where
  "elsewhere there =
     \<lparr>ro_prepare = \<lambda>epoch a (s, r). let (reply, r) = ro_prepare there epoch a r in (reply, s, r),
      ro_commit = \<lambda>epoch (s, r). let (res, r) = ro_commit there epoch r in (res, s, r),
      ro_alive = \<lambda>c (s, r). let (res, r) = ro_alive there c r in (res, s, r),
      ro_stop = \<lambda>c (s, r). let (res, r) = ro_stop there c r in (res, s, r),
      ro_abort = \<lambda>epoch (s, r). (s, ro_abort there epoch r)\<rparr>"

definition fleet_driver ::
    "('e, 'w) rank_service \<Rightarrow> ('r \<Rightarrow> int \<times> int \<times> int) \<Rightarrow> (node_id \<Rightarrow> sock_addr \<Rightarrow> 'r rank_ops) \<Rightarrow>
     ('w rank_state \<times> 'r) cluster_driver \<Rightarrow> ('w rank_state \<times> 'r) cluster_driver" where
  "fleet_driver svc now remote d =
     d\<lparr>cd_local := local_rank_ops svc now, cd_remote := \<lambda>n a. elsewhere (remote n a)\<rparr>"

definition holding :: "'w rank_state \<times> 'r \<Rightarrow> string option" where
  "holding w = map_option rv_epoch (rs_slot (fst w))"

lemma rank_prepare_holding:
  assumes "rank_prepare svc e a t1 t2 t3 s = (r, s')"
  shows "r = Prepared \<Longrightarrow> map_option rv_epoch (rs_slot s') = Some e"
    and "r \<noteq> Prepared \<Longrightarrow> rs_slot s' = rs_slot s \<or> rs_slot s' = None"
proof -
  obtain q s1 where q: "prepare_admit svc e t1 t2 s = (q, s1)" by fastforce
  obtain c s2 where c: "prepare_check svc a s1 = (c, s2)" by fastforce
  note frames = prepare_admit_frame(2) [OF q] prepare_check_frame(1) [OF c]
  from assms q c have "(\<exists>x. q = Some x \<and> r = x \<and> s' = s1) \<or> (\<exists>x. c = Err x \<and> r = x \<and> s' = s2) \<or>
      (\<exists>plan. r = Prepared \<and> s' = prepare_store e a plan t3 s2)"
    by (auto simp: rank_prepare_def split: option.splits result.splits)
  moreover have "q \<noteq> Some Prepared" using q by (auto simp: prepare_admit_def refuse_def split: result.splits option.splits if_splits)
  moreover have "c \<noteq> Err Prepared" using c by (auto simp: prepare_check_def refuse_def case_prod_beta Let_def split: if_splits result.splits)
  ultimately show "r = Prepared \<Longrightarrow> map_option rv_epoch (rs_slot s') = Some e"
    "r \<noteq> Prepared \<Longrightarrow> rs_slot s' = rs_slot s \<or> rs_slot s' = None"
    using frames by (auto simp: prepare_store_def)
qed

interpretation fl: driven_rank holding "fleet_driver svc now remote d" for svc now remote d
proof
  have local: "\<exists>t1 t2 t3. rank_prepare svc e a t1 t2 t3 (fst w) = (r, fst w')"
    if "ro_prepare (cd_local (fleet_driver svc now remote d)) e a w = (r, w')" for e a w r w'
    using that by (intro exI [of _ "fst (now (snd w))"] exI [of _ "fst (snd (now (snd w)))"] exI [of _ "snd (snd (now (snd w)))"])
      (auto simp: fleet_driver_def local_rank_ops_def Let_def case_prod_beta prod_eq_iff)
  show "holding w' = Some e" if "ro_prepare (cd_local (fleet_driver svc now remote d)) e a w = (Prepared, w')" for e a w w'
    using local [OF that] rank_prepare_holding(1) unfolding holding_def by blast
  show "holding w' = holding w \<or> holding w' = None"
    if "ro_prepare (cd_local (fleet_driver svc now remote d)) e a w = (Refused why, w')" for e a w why w'
    using local [OF that] rank_prepare_holding(2) [of svc e a _ _ _ "fst w" "Refused why" "fst w'"] by (auto simp: holding_def)
  have commit: "\<exists>q. rank_commit svc e (fst w) = (q, fst w') \<and> r = map_err commit_error_to_string q"
    if "ro_commit (cd_local (fleet_driver svc now remote d)) e w = (r, w')" for e w r w'
    using that by (intro exI [of _ "fst (rank_commit svc e (fst w))"])
      (auto simp: fleet_driver_def local_rank_ops_def case_prod_beta prod_eq_iff)
  show "holding w' \<noteq> Some e" if "ro_commit (cd_local (fleet_driver svc now remote d)) e w = (r, w')" for e w r w'
    using commit [OF that] by (elim exE conjE rank_commit_cases) (auto simp: holding_def holds_def split: option.splits)
  show "holding w = Some e" if "ro_commit (cd_local (fleet_driver svc now remote d)) e w = (Ok c, w')" for e w c w'
    using commit [OF that] by (elim exE conjE rank_commit_cases) (auto simp: holding_def)
  show "holding (ro_abort (cd_local (fleet_driver svc now remote d)) e w) \<noteq> Some e" for e w
    by (auto simp: fleet_driver_def local_rank_ops_def holding_def rank_abort_def case_prod_beta split: option.splits)
  show "holding (snd (ro_alive (cd_local (fleet_driver svc now remote d)) c w)) = holding w" for c w
    by (simp add: fleet_driver_def local_rank_ops_def holding_def case_prod_beta rank_alive_frame(1) [OF prod.collapse [symmetric]])
  show "holding (snd (ro_stop (cd_local (fleet_driver svc now remote d)) c w)) = holding w" for c w
    by (simp add: fleet_driver_def local_rank_ops_def holding_def case_prod_beta rank_stop_frame(1) [OF prod.collapse [symmetric]])
qed (simp_all add: fleet_driver_def elsewhere_def holding_def case_prod_beta)

text \<open>
  The driver over this machine's own rank service: after a prepare that some rank refused, this
  machine holds nothing for that epoch; after one that all accepted, it holds the reservation when it has a rank;
  and once such an attempt is committed, with any outcome, or aborted, it holds nothing for
  that epoch any more, so that a commit that is replayed to its rank service starts nothing.
\<close>

lemma cluster_frees_local_rank:
  assumes "d = fleet_driver svc now remote base"
  shows "(\<forall>epoch out whole st'. prepare_inner d recipe nodes head settings entropy st = (Ok (epoch, out, whole), st') \<longrightarrow>
      \<not> holds epoch (fst (cl_world st)) \<longrightarrow>
      (if whole then \<exists>p. cl_pending st' = Some p \<and> pn_epoch p = epoch \<and>
         ((\<exists>t\<in>set (pn_targets p). tg_addr t = None) \<longrightarrow> holds epoch (fst (cl_world st')))
       else \<not> holds epoch (fst (cl_world st')))) \<and>
    (\<forall>p st'. cl_pending st = Some p \<longrightarrow> (\<exists>t\<in>set (pn_targets p). tg_addr t = None) \<longrightarrow>
      st' \<in> {snd (commit_inner d (pn_epoch p) st), abort_inner d (pn_epoch p) st} \<longrightarrow>
      \<not> holds (pn_epoch p) (fst (cl_world st')) \<and> \<not> is_ok (fst (rank_commit svc (pn_epoch p) (fst (cl_world st')))))"
proof -
  have h: "holds e (fst w) \<longleftrightarrow> holding w = Some e" for e and w :: "'a rank_state \<times> 'b"
    by (auto simp: holds_def holding_def split: option.splits)
  have c: "\<not> holds e s \<Longrightarrow> \<not> is_ok (fst (rank_commit svc e s))" for e s
    by (rule rank_commit_cases [OF prod.collapse [symmetric, of "rank_commit svc e s"]]) auto
  have "if whole then \<exists>p. cl_pending st' = Some p \<and> pn_epoch p = epoch \<and>
         ((\<exists>t\<in>set (pn_targets p). tg_addr t = None) \<longrightarrow> holds epoch (fst (cl_world st')))
       else \<not> holds epoch (fst (cl_world st'))"
    if "prepare_inner d recipe nodes head settings entropy st = (Ok (epoch, out, whole), st')"
      "\<not> holds epoch (fst (cl_world st))" for epoch out whole st'
    using fl.prepare_inner_held [OF that(1) [unfolded assms]] that(2) by (auto simp: h)
  moreover have "\<not> holds (pn_epoch p) (fst (cl_world st'))"
    if "cl_pending st = Some p" "\<exists>t\<in>set (pn_targets p). tg_addr t = None"
      "st' \<in> {snd (commit_inner d (pn_epoch p) st), abort_inner d (pn_epoch p) st}" for p st'
    using that fl.commit_inner_frees [OF that(1) refl that(2)] fl.abort_inner_frees [OF that(1) refl that(2)]
    unfolding h assms by blast
  ultimately show ?thesis using c by blast
qed

section \<open>An example\<close>

definition ex_ops :: "string \<Rightarrow> unit rank_ops" where
  "ex_ops container = \<lparr>ro_prepare = \<lambda>_ _ w. (Prepared, w), ro_commit = \<lambda>_ w. (Ok container, w),
     ro_alive = \<lambda>_ w. (Ok True, w), ro_stop = \<lambda>_ w. (Ok (), w), ro_abort = \<lambda>_ w. w\<rparr>"

definition ex_driver :: "unit cluster_driver" where
  "ex_driver = \<lparr>cd_fleet = \<lambda>_. ex_fleet, cd_content_hash = \<lambda>_. Ok ''h'', cd_recipe_port = \<lambda>_. Ok (Some 80),
     cd_render = \<lambda>_. Ok ([], []), cd_remote_preview = \<lambda>_ _ _ w. (Ok ([], []), w), cd_local = ex_ops ''a'',
     cd_remote = \<lambda>_ _. ex_ops ''b'', cd_peer_port = 7, cd_settle_secs = 5\<rparr>"

definition ex_fresh :: "unit cluster_state" where
  "ex_fresh = \<lparr>cl_world = (), cl_pending = None, cl_running = None, cl_asked = []\<rparr>"

definition ex_head :: node_id where
  "ex_head = NodeId (replicate 32 1)"

definition ex_prepared :: "(string \<times> rank_prepared list \<times> bool, string) result \<times> unit cluster_state" where
  "ex_prepared = prepare_inner ex_driver (RecipeId ''r'') [ex_head] ex_head [] [1] ex_fresh"

definition ex_committed :: "(rank_started list, string) result \<times> unit cluster_state" where
  "ex_committed = commit_inner ex_driver (new_epoch [1]) (snd ex_prepared)"

lemma ex_plan: "is_ok (cluster_plan_for ''r'' ''h'' (u32_len [ex_head]) [ex_node 1 ''10.0.0.1''] ex_head [] e)"
proof -
  have u: "u32_len [ex_head] = 1" by (simp add: u32_len_def)
  show ?thesis unfolding u cluster_plan_is_ok by code_simp
qed

lemma ex_resolves:
  obtains p t where "driver_resolve ex_driver () (RecipeId ''r'') [ex_head] ex_head [] (new_epoch [1]) = Ok p"
    "pn_targets p = [t]" "tg_addr t = None" "pn_epoch p = new_epoch [1]"
proof -
  let ?n = "ex_node 1 ''10.0.0.1''"
  have sel: "selected_nodes ex_driver () [ex_head] = [?n]" by code_simp
  obtain plan where plan: "cluster_plan_for ''r'' ''h'' (u32_len [ex_head]) [?n] ex_head [] (new_epoch [1]) = Ok plan"
    using ex_plan by (auto simp: is_ok_iff)
  have loc: "nd_is_local ?n" by (simp add: ex_node_def)
  from plan obtain a where a: "cp_ranks plan = [a]" "ra_node a = nd_id ?n"
    by (rule cluster_plan_Ok) (simp add: rank_order_def assign_ranks_def ex_head_def ex_node_def)
  let ?t = "\<lparr>tg_assignment = a, tg_addr = None, tg_name = nd_name ?n\<rparr>"
  have t: "targets_of ex_driver () [?n] [a] = Ok [?t]"
    using a(2) loc by (simp add: address_of_def)
  have h: "cd_content_hash ex_driver x = Ok ''h''" for x by (simp add: ex_driver_def)
  have "driver_resolve ex_driver () (RecipeId ''r'') [ex_head] ex_head [] (new_epoch [1]) =
      Ok \<lparr>pn_epoch = new_epoch [1], pn_port = serve_port ex_driver (RecipeId ''r'') [?t], pn_targets = [?t]\<rparr>"
    using plan a(1) t by (simp add: driver_resolve_def Let_def sel h del: targets_of.simps)
  from that [OF this] show thesis by simp
qed

lemma ex_prepare_run:
  obtains p t where "pn_targets p = [t]" "tg_addr t = None" "pn_epoch p = new_epoch [1]"
    "cl_pending (snd ex_prepared) = Some p" "cl_asked (snd ex_prepared) = [AskPrepare (tg_peer t) (new_epoch [1]) Prepared]"
proof -
  obtain p t where p: "driver_resolve ex_driver () (RecipeId ''r'') [ex_head] ex_head [] (new_epoch [1]) = Ok p"
    "pn_targets p = [t]" "tg_addr t = None" "pn_epoch p = new_epoch [1]" by (rule ex_resolves)
  have "ask_prepare ex_driver (new_epoch [1]) t ex_fresh =
      (Prepared, asked ex_fresh () (AskPrepare (tg_peer t) (new_epoch [1]) Prepared))"
    using p(3) by (simp add: ask_prepare_def ops_def ex_driver_def ex_ops_def)
  then have "ex_prepared = (Ok (new_epoch [1], [prepare_answer t Prepared], True),
      (asked ex_fresh () (AskPrepare (tg_peer t) (new_epoch [1]) Prepared))\<lparr>cl_pending := Some p\<rparr>)"
    using p(1,2) by (simp add: ex_prepared_def prepare_inner_def Let_def prepare_answer_def)
        (simp add: ex_fresh_def Let_def prepare_answer_def)
  note run = this
  show thesis by (rule that [OF p(2-4)]) (simp_all only: run snd_conv, simp_all add: ex_fresh_def)
qed

theorem cluster_prepare_all_or_nothing_witness:
  "\<exists>rs out. length rs = 1 \<and> fst ex_prepared = Ok (new_epoch [1], out, list_all (\<lambda>r. r = Prepared) rs) \<and> cl_running (snd ex_prepared) = None"
proof -
  obtain p t where p: "driver_resolve ex_driver (cl_world ex_fresh) (RecipeId ''r'') [ex_head] ex_head [] (new_epoch [1]) = Ok p"
    "pn_targets p = [t]" by (rule ex_resolves) (simp add: ex_fresh_def)
  have "cl_running ex_fresh = None" by (simp add: ex_fresh_def)
  with p cluster_prepare_all_or_nothing [OF prod.collapse [symmetric, of "prepare_inner ex_driver (RecipeId ''r'') [ex_head] ex_head [] [1] ex_fresh"]]
  obtain rs out where "length rs = length (pn_targets p)"
    "fst ex_prepared = Ok (new_epoch [1], out, list_all (\<lambda>r. r = Prepared) rs)" "cl_running (snd ex_prepared) = None"
    unfolding ex_prepared_def [symmetric] by blast
  with p(2) show ?thesis by (intro exI [of _ rs] exI [of _ out]) simp
qed

theorem cluster_asks_are_justified_witness:
  "\<exists>q r. cl_asked (snd ex_committed) ! 1 = AskCommit q (new_epoch [1]) r \<and>
     AskPrepare q (new_epoch [1]) Prepared \<in> set (take 1 (cl_asked (snd ex_committed)))"
proof -
  obtain p t where p: "pn_targets p = [t]" "tg_addr t = None" "pn_epoch p = new_epoch [1]"
    "cl_pending (snd ex_prepared) = Some p" "cl_asked (snd ex_prepared) = [AskPrepare (tg_peer t) (new_epoch [1]) Prepared]"
    by (rule ex_prepare_run)
  have local: "ro_commit (ops ex_driver t) e w = (Ok ''a'', w)" "ro_alive (ops ex_driver t) c w = (Ok True, w)" for e c w
    using p(2) by (simp_all add: ops_def ex_driver_def ex_ops_def)
  have log: "cl_asked (snd ex_committed) = [AskPrepare (tg_peer t) (new_epoch [1]) Prepared,
      AskCommit (tg_peer t) (new_epoch [1]) (Ok ''a''), AskAlive (tg_peer t) ''a'' (Ok True)]"
    using p by (simp add: ex_committed_def commit_inner_def take_pending_def ask_commit_def local commit_settle_def ask_alive_def
        rank_started_of_def asked_def)
  have "reachable cl_init (cl_step ex_driver) ex_fresh" by (rule reach_init) (simp add: cl_init_def ex_fresh_def)
  then have "reachable cl_init (cl_step ex_driver) (snd ex_prepared)"
    unfolding ex_prepared_def by (rule reach_step) (rule cl_prepare)
  then have r: "reachable cl_init (cl_step ex_driver) (snd ex_committed)"
    unfolding ex_committed_def by (rule reach_step) (rule cl_commit)
  from cluster_asks_are_justified [OF r, of 1] log show ?thesis by simp
qed

theorem cluster_commit_whole_or_absent_witness:
  "\<exists>p. cl_pending (snd ex_prepared) = Some p \<and> cl_pending (snd ex_committed) = None \<and>
     \<not> is_ok (fst (commit_inner ex_driver ''f'' (snd ex_prepared))) \<and> snd (commit_inner ex_driver ''f'' (snd ex_prepared)) = snd ex_prepared"
proof -
  obtain p t where p: "pn_targets p = [t]" "pn_epoch p = new_epoch [1]" and pend: "cl_pending (snd ex_prepared) = Some p"
    by (rule ex_prepare_run)
  have f: "new_epoch [1] \<noteq> ''f''" by code_simp
  have "cl_pending (snd ex_committed) = None"
    using cluster_commit_whole_or_absent [of ex_driver "new_epoch [1]" "snd ex_prepared" "fst ex_committed" "snd ex_committed"] p(1,2) pend
    by (simp add: ex_committed_def)
  moreover have "\<not> is_ok (fst (commit_inner ex_driver ''f'' (snd ex_prepared))) \<and>
      snd (commit_inner ex_driver ''f'' (snd ex_prepared)) = snd ex_prepared"
    using cluster_commit_whole_or_absent [OF prod.collapse [symmetric, of "commit_inner ex_driver ''f'' (snd ex_prepared)"]] p(2) pend f
    by simp
  ultimately show ?thesis using pend by blast
qed

definition ex_fleet_driver :: "(unit rank_state \<times> unit) cluster_driver" where
  "ex_fleet_driver = fleet_driver ex_svc (\<lambda>_. (0, 0, 0)) (\<lambda>_ _. ex_ops ''b'')
     \<lparr>cd_fleet = \<lambda>_. ex_fleet, cd_content_hash = \<lambda>_. Ok ''h'', cd_recipe_port = \<lambda>_. Ok (Some 80),
      cd_render = \<lambda>_. Ok ([], []), cd_remote_preview = \<lambda>_ _ _ w. (Ok ([], []), w),
      cd_local = elsewhere (ex_ops ''a''), cd_remote = \<lambda>_ _. elsewhere (ex_ops ''b''), cd_peer_port = 7, cd_settle_secs = 5\<rparr>"

definition ex_waiting :: "(unit rank_state \<times> unit) cluster_state" where
  "ex_waiting = \<lparr>cl_world = (ex_idle, ()),
     cl_pending = Some \<lparr>pn_epoch = ''e'', pn_port = 80,
       pn_targets = [\<lparr>tg_assignment = ex_assignment, tg_addr = None, tg_name = DisplayName ''spark''\<rparr>]\<rparr>,
     cl_running = None, cl_asked = []\<rparr>"

end
