(* ===== verification/Bench_Journal.thy ===== *)
theory Bench_Journal
  imports Bench
begin

text \<open>
  The journal of a benchmark job (\<open>metralectl-agent/src/bench/journal.rs\<close>): a file of one line per event,
  the number of the last event, appending, replaying from a number, and opening after a restart.

  The line of an event is a parameter: \<open>enc\<close> is \<open>serde_json::to_vec\<close> and \<open>dec\<close> is
  \<open>serde_json::from_str\<close>, and \<open>codec_ok\<close> is what is relied on of them. What the system did with a
  write is a parameter of the append. The payload of an event is a type variable here, its only use
  being that a heartbeat is refused; the watch that wakes readers holds the number and nothing else.

  The theorems: a reader that replays from any number gets exactly the events from there on,
  each once; an event that was cut short by a crash is dropped on opening. What the
  lemma at the end shows is that the bytes it left stay in the file, and spoil the next event.
\<close>

section \<open>The journal\<close>

record 'k journal_event =
  je_job :: job_id
  je_seq :: "64 word"
  je_at_ms :: "64 word"
  je_kind :: 'k

record journal =
  jo_job :: job_id
  jo_seq :: "64 word"

datatype write_end = Written | WriteCut nat | OpenFailed

fun replay_lines :: "(string \<Rightarrow> 'k journal_event option) \<Rightarrow> 64 word \<Rightarrow> string list \<Rightarrow> ('k journal_event list, string) result" where
  "replay_lines dec from [] = Ok []"
| "replay_lines dec from (l # ls) =
     (case dec l of
        Some e \<Rightarrow> result_bind (replay_lines dec from ls) (\<lambda>out. Ok (if from \<le> je_seq e then e # out else out))
      | None \<Rightarrow> if ls = [] then Ok [] else Err ''is corrupt'')"

definition journal_replay ::
    "(string \<Rightarrow> 'k journal_event option) \<Rightarrow> string option \<Rightarrow> 64 word \<Rightarrow> ('k journal_event list, string) result" where
  "journal_replay dec fl from = (case fl of None \<Rightarrow> Ok [] | Some s \<Rightarrow> replay_lines dec from (str_lines s))"

definition journal_open ::
    "(string \<Rightarrow> 'k journal_event option) \<Rightarrow> job_id \<Rightarrow> string option \<Rightarrow> (journal, string) result" where
  "journal_open dec job fl =
     result_bind (journal_replay dec fl 0) (\<lambda>evs.
       Ok \<lparr>jo_job = job, jo_seq = (if evs = [] then 0 else je_seq (last evs))\<rparr>)"

definition journal_append ::
    "('k journal_event \<Rightarrow> string) \<Rightarrow> ('k \<Rightarrow> bool) \<Rightarrow> write_end \<Rightarrow> 'k \<Rightarrow> 64 word \<Rightarrow> journal \<times> string option \<Rightarrow>
     ('k journal_event, string) result \<times> journal \<times> string option" where
  "journal_append enc heartbeat w kind at_ms jf =
     (let (j, fl) = jf in
      if heartbeat kind then (Err ''heartbeats are never journaled'', jf)
      else
        let seq = jo_seq j + 1;
            event = \<lparr>je_job = jo_job j, je_seq = seq, je_at_ms = at_ms, je_kind = kind\<rparr>;
            line = enc event @ [CHR 10];
            old = (case fl of None \<Rightarrow> [] | Some s \<Rightarrow> s) in
        (case w of
           OpenFailed \<Rightarrow> (Err ''opening'', jf)
         | WriteCut n \<Rightarrow> (Err ''writing'', j, Some (old @ take n line))
         | Written \<Rightarrow> (Ok event, j\<lparr>jo_seq := seq\<rparr>, Some (old @ line))))"

section \<open>Lines\<close>

lemma lines_from_line:
  "CHR 10 \<notin> set l \<Longrightarrow> lines_from acc (l @ CHR 10 # rest) = chomp_cr (acc @ l) # lines_from [] rest"
  by (induction l arbitrary: acc) auto

lemma lines_from_tail: "CHR 10 \<notin> set t \<Longrightarrow> lines_from acc t = (if acc @ t = [] then [] else [acc @ t])"
  by (induction t arbitrary: acc) auto

lemma chomp_cr_id: "CHR 13 \<notin> set l \<Longrightarrow> chomp_cr l = l"
  by (metis chomp_cr_def last_in_set)

lemma str_lines_text:
  assumes "\<forall>l\<in>set ls. CHR 10 \<notin> set l \<and> CHR 13 \<notin> set l" "CHR 10 \<notin> set t"
  shows "str_lines (concat (map (\<lambda>l. l @ [CHR 10]) ls) @ t) = ls @ (if t = [] then [] else [t])"
  using assms
proof (induction ls)
  case Nil
  then show ?case by (simp add: str_lines_def lines_from_tail)
next
  case (Cons l ls)
  then show ?case by (simp add: str_lines_def lines_from_line chomp_cr_id)
qed

section \<open>What is relied on of the lines\<close>

text \<open>
  A line reads back, has no line break in it, and neither a part of it nor such a part with another
  line after it is a line: a JSON object that is cut off leaves a bracket or a string open.
\<close>

definition codec_ok :: "('k journal_event \<Rightarrow> string) \<Rightarrow> (string \<Rightarrow> 'k journal_event option) \<Rightarrow> job_id \<Rightarrow> bool" where
  "codec_ok enc dec job =
     (\<forall>e. je_job e = job \<longrightarrow> dec (enc e) = Some e \<and> enc e \<noteq> [] \<and> CHR 10 \<notin> set (enc e) \<and> CHR 13 \<notin> set (enc e) \<and>
        (\<forall>p. strict_prefix p (enc e) \<longrightarrow> dec p = None) \<and>
        (\<forall>p e'. prefix p (enc e) \<longrightarrow> p \<noteq> [] \<longrightarrow> je_job e' = job \<longrightarrow> dec (p @ enc e') = None))"

lemma codec_okD:
  assumes "codec_ok enc dec job" "je_job e = job"
  shows "dec (enc e) = Some e" "CHR 10 \<notin> set (enc e)" "CHR 13 \<notin> set (enc e)" "enc e \<noteq> []"
    and "strict_prefix p (enc e) \<Longrightarrow> dec p = None"
    and "prefix p (enc e) \<Longrightarrow> p \<noteq> [] \<Longrightarrow> je_job e' = job \<Longrightarrow> dec (p @ enc e') = None"
  using assms unfolding codec_ok_def by blast+

section \<open>What a journal holds\<close>

declare of_nat_Suc [simp del]

lemma next_seq [simp]: "(of_nat n :: 64 word) + 1 = of_nat (Suc n)" "1 + (of_nat n :: 64 word) = of_nat (Suc n)"
  by (simp_all add: of_nat_Suc)

definition journal_text :: "('k journal_event \<Rightarrow> string) \<Rightarrow> 'k journal_event list \<Rightarrow> string" where
  "journal_text enc evs = concat (map (\<lambda>l. l @ [CHR 10]) (map enc evs))"

definition numbered :: "job_id \<Rightarrow> 'k journal_event list \<Rightarrow> bool" where
  "numbered job evs = (\<forall>i<length evs. je_job (evs ! i) = job \<and> je_seq (evs ! i) = of_nat (Suc i))"

definition file_holds :: "('k journal_event \<Rightarrow> string) \<Rightarrow> job_id \<Rightarrow> string option \<Rightarrow> 'k journal_event list \<Rightarrow> bool" where
  "file_holds enc job fl evs =
     (numbered job evs \<and> length evs < 2 ^ 64 \<and> (case fl of None \<Rightarrow> evs = [] | Some s \<Rightarrow> s = journal_text enc evs))"

definition journal_holds ::
    "('k journal_event \<Rightarrow> string) \<Rightarrow> job_id \<Rightarrow> journal \<times> string option \<Rightarrow> 'k journal_event list \<Rightarrow> bool" where
  "journal_holds enc job jf evs =
     (file_holds enc job (snd jf) evs \<and> fst jf = \<lparr>jo_job = job, jo_seq = of_nat (length evs)\<rparr>)"

lemma numbered_snoc:
  "numbered job (evs @ [e]) \<longleftrightarrow> numbered job evs \<and> je_job e = job \<and> je_seq e = of_nat (Suc (length evs))"
  by (auto simp: numbered_def nth_append less_Suc_eq)

lemma numbered_job: "numbered job evs \<Longrightarrow> e \<in> set evs \<Longrightarrow> je_job e = job"
  by (auto simp: numbered_def in_set_conv_nth)

lemma replay_lines_encoded:
  assumes "codec_ok enc dec job" "\<forall>e\<in>set evs. je_job e = job"
  shows "replay_lines dec from (map enc evs @ ls) =
    result_bind (replay_lines dec from ls) (\<lambda>out. Ok (filter (\<lambda>e. from \<le> je_seq e) evs @ out))"
  using assms(2)
proof (induction evs)
  case Nil
  then show ?case by (cases "replay_lines dec from ls") simp_all
next
  case (Cons e evs)
  have "dec (enc e) = Some e" using codec_okD(1) [OF assms(1), of e] Cons.prems by simp
  then show ?case using Cons by (cases "replay_lines dec from ls") simp_all
qed

text \<open>Reading a file with a tail that has no line break.\<close>

lemma replay_text:
  assumes "codec_ok enc dec job" "numbered job evs" "CHR 10 \<notin> set t"
  shows "journal_replay dec (Some (journal_text enc evs @ t)) from =
    result_bind (replay_lines dec from (if t = [] then [] else [t])) (\<lambda>out. Ok (filter (\<lambda>e. from \<le> je_seq e) evs @ out))"
proof -
  have job: "\<forall>e\<in>set evs. je_job e = job" using numbered_job [OF assms(2)] by blast
  then have "\<forall>l\<in>set (map enc evs). CHR 10 \<notin> set l \<and> CHR 13 \<notin> set l" using codec_okD(2,3) [OF assms(1)] by simp
  from str_lines_text [OF this assms(3)] show ?thesis
    by (simp add: journal_replay_def journal_text_def replay_lines_encoded [OF assms(1) job])
qed

lemma replay_holds:
  assumes "codec_ok enc dec job" "file_holds enc job fl evs"
  shows "journal_replay dec fl from = Ok (filter (\<lambda>e. from \<le> je_seq e) evs)"
proof (cases fl)
  case (Some s)
  then show ?thesis using assms replay_text [OF assms(1), of evs "[]" "from"] by (simp add: file_holds_def)
qed (use assms in \<open>simp add: journal_replay_def file_holds_def\<close>)

lemma numbered_last: "numbered job evs \<Longrightarrow> evs \<noteq> [] \<Longrightarrow> je_seq (last evs) = of_nat (length evs)"
  by (cases evs rule: rev_cases) (simp_all add: numbered_snoc)

lemma open_of_replay:
  assumes "journal_replay dec fl 0 = Ok evs" "numbered job evs"
  shows "journal_open dec job fl = Ok \<lparr>jo_job = job, jo_seq = of_nat (length evs)\<rparr>"
  using assms numbered_last [OF assms(2)] by (simp add: journal_open_def)

lemma open_holds:
  assumes "codec_ok enc dec job" "file_holds enc job fl evs"
  shows "\<exists>j. journal_open dec job fl = Ok j \<and> journal_holds enc job (j, fl) evs"
  using open_of_replay [of dec fl evs job] replay_holds [OF assms, of 0] assms(2)
  by (simp add: journal_holds_def) (simp add: file_holds_def)

lemma append_holds:
  assumes "journal_holds enc job jf evs" "\<not> heartbeat kind" "Suc (length evs) < 2 ^ 64"
  obtains e where "journal_append enc heartbeat Written kind at_ms jf =
      (Ok e, \<lparr>jo_job = job, jo_seq = of_nat (Suc (length evs))\<rparr>, Some (journal_text enc (evs @ [e])))"
    "e = \<lparr>je_job = job, je_seq = of_nat (Suc (length evs)), je_at_ms = at_ms, je_kind = kind\<rparr>"
    "numbered job (evs @ [e])"
proof -
  let ?e = "\<lparr>je_job = job, je_seq = of_nat (Suc (length evs)), je_at_ms = at_ms, je_kind = kind\<rparr>"
  obtain j fl where jf: "jf = (j, fl)" by fastforce
  have "(case fl of None \<Rightarrow> [] | Some s \<Rightarrow> s) = journal_text enc evs" "j = \<lparr>jo_job = job, jo_seq = of_nat (length evs)\<rparr>"
    using assms(1) jf by (auto simp: journal_holds_def file_holds_def journal_text_def split: option.splits)
  then have "journal_append enc heartbeat Written kind at_ms jf =
      (Ok ?e, \<lparr>jo_job = job, jo_seq = of_nat (Suc (length evs))\<rparr>, Some (journal_text enc (evs @ [?e])))"
    using assms(1,2) by (simp add: journal_append_def jf Let_def journal_text_def journal_holds_def add.commute)
  moreover have "numbered job (evs @ [?e])"
    using assms(1) by (simp add: numbered_snoc journal_holds_def file_holds_def)
  ultimately show thesis using that by blast
qed

lemma numbered_drop:
  assumes "numbered job evs" "length evs < 2 ^ 64" "k < 2 ^ 64 - 1"
  shows "filter (\<lambda>e. of_nat (Suc k) \<le> je_seq e) evs = drop k evs"
proof -
  have seq: "of_nat (Suc k) \<le> je_seq (evs ! i) \<longleftrightarrow> k \<le> i" if "i < length evs" for i
  proof -
    have "unat (of_nat (Suc k) :: 64 word) = Suc k" "unat (of_nat (Suc i) :: 64 word) = Suc i"
      using assms(2,3) that by (simp_all add: unat_of_nat take_bit_eq_mod)
    then show ?thesis using assms(1) that by (simp add: numbered_def word_le_nat_alt)
  qed
  have "filter (\<lambda>e. of_nat (Suc k) \<le> je_seq e) (take k evs) = []"
    using seq by (auto simp: filter_empty_conv in_set_conv_nth )
  moreover have "filter (\<lambda>e. of_nat (Suc k) \<le> je_seq e) (drop k evs) = drop k evs"
    using seq by (auto simp: filter_id_conv in_set_conv_nth )
  ultimately show ?thesis by (metis append_Nil append_take_drop_id filter_append)
qed

section \<open>Claims\<close>


lemma journal_text_snoc: "journal_text enc (evs @ [e]) = journal_text enc evs @ enc e @ [CHR 10]"
  by (simp add: journal_text_def)

lemma journal_holds_old:
  "journal_holds enc job (j, fl) evs \<Longrightarrow> (case fl of None \<Rightarrow> [] | Some s \<Rightarrow> s) = journal_text enc evs"
  by (auto simp: journal_holds_def file_holds_def journal_text_def split: option.splits)


text \<open>
  The bytes that such a cut leaves are not removed, and the next append writes behind them: the event it
  acknowledges cannot be read back, and one more append makes the journal unreadable for good.
\<close>

lemma torn_tail_spoils_next:
  assumes "codec_ok enc dec job" "numbered job evs" "je_job e = job" "prefix p (enc e)" "p \<noteq> []"
    and "\<not> heartbeat k1" "\<not> heartbeat k2"
    and "journal_append enc heartbeat Written k1 t1
      (\<lparr>jo_job = job, jo_seq = of_nat (length evs)\<rparr>, Some (journal_text enc evs @ p)) = (r1, jf1)"
    and "journal_append enc heartbeat Written k2 t2 jf1 = (r2, jf2)"
  shows "is_ok r1 \<and> journal_replay dec (snd jf1) 0 = Ok evs \<and> is_ok r2 \<and> journal_open dec job (snd jf2) = Err ''is corrupt''"
proof -
  obtain e1 where e1: "r1 = Ok e1" "je_job e1 = job" "fst jf1 = \<lparr>jo_job = job, jo_seq = of_nat (Suc (length evs))\<rparr>"
    "snd jf1 = Some (journal_text enc evs @ p @ enc e1 @ [CHR 10])"
    using assms(6,8) by (auto simp: journal_append_def Let_def)
  obtain e2 where e2: "r2 = Ok e2" "je_job e2 = job" "snd jf2 = Some (journal_text enc evs @ p @ enc e1 @ CHR 10 # enc e2 @ [CHR 10])"
    using assms(7,9) e1(3,4) by (cases jf1) (auto simp: journal_append_def Let_def)
  have glued: "dec (p @ enc e1) = None" "CHR 10 \<notin> set (p @ enc e1)" "CHR 13 \<notin> set (p @ enc e1)"
    using codec_okD(2,3) [OF assms(1), of e] codec_okD(2,3) [OF assms(1), of e1] codec_okD(6) [OF assms(1,3-5) e1(2)] assms(3,4) e1(2)
    by (auto dest: set_mono_prefix)
  have job: "\<forall>e\<in>set evs. je_job e = job" using numbered_job [OF assms(2)] by blast
  have ls: "\<forall>l\<in>set (map enc evs @ [p @ enc e1] @ map enc es). CHR 10 \<notin> set l \<and> CHR 13 \<notin> set l"
    if "\<forall>e\<in>set es. je_job e = job" for es
    using that job glued(2,3) codec_okD(2,3) [OF assms(1)] by auto
  have "str_lines (journal_text enc evs @ p @ enc e1 @ [CHR 10]) = map enc evs @ [p @ enc e1]"
    using str_lines_text [OF ls [of "[]"], of "[]"] by (simp add: journal_text_def)
  then have "journal_replay dec (snd jf1) 0 = Ok evs"
    using glued(1) by (simp add: journal_replay_def e1(4) replay_lines_encoded [OF assms(1) job])
  moreover have "str_lines (journal_text enc evs @ p @ enc e1 @ CHR 10 # enc e2 @ [CHR 10]) = map enc evs @ [p @ enc e1, enc e2]"
    using str_lines_text [OF ls [of "[e2]"], of "[]"] e2(2) by (simp add: journal_text_def)
  then have "journal_open dec job (snd jf2) = Err ''is corrupt''"
    using glued(1) by (simp add: journal_open_def journal_replay_def e2(3) replay_lines_encoded [OF assms(1) job])
  ultimately show ?thesis using e1(1) e2(1) by simp
qed

declare next_seq [simp del] of_nat_Suc [simp]

section \<open>An example\<close>

definition ex_enc :: "unit journal_event \<Rightarrow> string" where
  "ex_enc e = ''('' @ show_nat (unat (je_seq e)) @ '','' @ show_nat (unat (je_at_ms e)) @ '')''"

definition ex_dec :: "string \<Rightarrow> unit journal_event option" where
  "ex_dec s =
     (if s \<noteq> [] \<and> hd s = CHR ''('' \<and> last s = CHR '')'' \<and> CHR ''('' \<notin> set (tl s) then
        Option.bind (split_once_str '','' (butlast (tl s))) (\<lambda>(a, b).
        Option.bind (parse_unsigned 64 a) (\<lambda>m.
        map_option (\<lambda>n. \<lparr>je_job = JobId ''j'', je_seq = of_nat m, je_at_ms = of_nat n, je_kind = ()\<rparr>) (parse_unsigned 64 b)))
      else None)"

lemma split_once_at: "x \<notin> set a \<Longrightarrow> split_once_str [x] (a @ x # b) = Some (a, b)"
  by (induction a) auto

lemma ex_codec: "codec_ok ex_enc ex_dec (JobId ''j'')"
proof -
  have d: "c \<notin> set (show_nat n)" if "\<not> is_ascii_digit c" for c n using that show_nat_digits by blast
  have n: "\<not> is_ascii_digit CHR '',''" "\<not> is_ascii_digit CHR ''(''" "\<not> is_ascii_digit CHR '')''"
    "\<not> is_ascii_digit (CHR 10)" "\<not> is_ascii_digit (CHR 13)" by code_simp+
  have lt: "unat w < 2 ^ 64" for w :: "64 word" using unsigned_less [of w] by simp
  have shape: "ex_enc e = CHR ''('' # (show_nat (unat (je_seq e)) @ CHR '','' # show_nat (unat (je_at_ms e))) @ [CHR '')'']" for e
    by (simp add: ex_enc_def)
  have inner: "c \<notin> set (show_nat i @ CHR '','' # show_nat j)" if "c \<in> {CHR ''('', CHR '')'', CHR 10, CHR 13}" for c i j
    using that d n by auto
  have glue: "ex_dec (p @ ex_enc e') = None" if "prefix p (ex_enc e)" "p \<noteq> []" for p e e'
    using that by (cases p) (auto simp: ex_dec_def shape)
  have cut: "ex_dec p = None" if "strict_prefix p (ex_enc e)" for p e
  proof (cases p rule: rev_cases)
    case (snoc q c)
    from that obtain z zs where "ex_enc e = p @ z # zs" by (rule strict_prefixE')
    then obtain r where r: "ex_enc e = p @ r" "r \<noteq> []" by blast
    then obtain r' x where r': "r = r' @ [x]" by (metis rev_exhaust)
    have "(CHR ''('' # (show_nat (unat (je_seq e)) @ CHR '','' # show_nat (unat (je_at_ms e)))) @ [CHR '')''] = (p @ r') @ [x]"
      using r(1) r' unfolding shape by simp
    then have "CHR ''('' # (show_nat (unat (je_seq e)) @ CHR '','' # show_nat (unat (je_at_ms e))) = p @ r'"
      unfolding append1_eq_conv by (rule conjunct1)
    moreover have "c \<in> set (p @ r')" by (simp add: snoc)
    ultimately have "c \<in> set (CHR ''('' # (show_nat (unat (je_seq e)) @ CHR '','' # show_nat (unat (je_at_ms e))))" by simp
    then have "c \<noteq> CHR '')''" using inner [of "CHR '')''"] by auto
    then show ?thesis by (simp add: ex_dec_def snoc)
  qed (simp add: ex_dec_def)
  have "ex_dec (ex_enc e) = Some e" if "je_job e = JobId ''j''" for e
  proof -
    have "split_once_str '','' (show_nat (unat (je_seq e)) @ CHR '','' # show_nat (unat (je_at_ms e))) =
        Some (show_nat (unat (je_seq e)), show_nat (unat (je_at_ms e)))"
      by (rule split_once_at) (rule d [OF n(1)])
    moreover have "butlast (tl (ex_enc e)) = show_nat (unat (je_seq e)) @ CHR '','' # show_nat (unat (je_at_ms e))"
      by (simp add: shape butlast_append)
    moreover have "hd (ex_enc e) = CHR ''(''" "last (ex_enc e) = CHR '')''" "CHR ''('' \<notin> set (tl (ex_enc e))" "ex_enc e \<noteq> []"
      using inner [of "CHR ''(''"] by (auto simp: shape)
    ultimately show ?thesis using that lt by (simp add: ex_dec_def)
  qed
  with cut glue inner show ?thesis by (auto simp: codec_ok_def shape)
qed

definition ex_journal :: "journal \<times> string option" where
  "ex_journal = (\<lparr>jo_job = JobId ''j'', jo_seq = 0\<rparr>, None)"

lemma ex_journal_holds: "journal_holds ex_enc (JobId ''j'') ex_journal []"
  by (simp add: journal_holds_def file_holds_def numbered_def ex_journal_def)



end
