(* ===== verification/Bench_Store.thy ===== *)
theory Bench_Store
  imports Bench_Journal "HOL-Library.AList"
begin

text \<open>
  Jobs on disk (\<open>metralectl-agent/src/bench/job.rs\<close>): the directory each job owns, the index of keys,
  creating, loading, listing and removing; and which records a job wrote (\<open>bench/records.rs\<close>).

  The store is the directory tree it keeps: the job directories in the order the system lists
  them, each with what its \<open>job.json\<close> reads as, its journal, its log and its artifacts, and the
  \<open>by-key\<close> directory once there is one. \<open>io\<close> says which file operations fail, and with what text;
  \<open>digest\<close> is SHA-256.

  The theorems are about the store a job finds itself in again: created under a key it is the job of that key, and no
  other job is touched.
\<close>

section \<open>The tree\<close>

record job_dir =
  jd_record :: "(job_record, string) result option"
  jd_events :: "string option"
  jd_log :: "string option"
  jd_artifacts :: "(string \<times> string) list"

record job_store =
  sj_root :: string
  sj_dirs :: "(job_id \<times> job_dir) list"
  sj_index :: "(job_key \<times> string) list option"

datatype store_fault =
    FtReadRecord job_id
  | FtWriteRecord job_id
  | FtMakeJob job_id
  | FtMakeIndex
  | FtReadIndex job_key
  | FtWriteIndex job_key
  | FtRemoveIndex job_key
  | FtList
  | FtRemoveJob job_id

type_synonym faults = "store_fault \<Rightarrow> string option"

definition store_dir :: "job_store \<Rightarrow> job_id \<Rightarrow> string" where
  "store_dir s i = sj_root s @ ''/'' @ job_id_str i"

definition record_path :: "job_store \<Rightarrow> job_id \<Rightarrow> string" where
  "record_path s i = store_dir s i @ ''/job.json''"

definition child_log_path :: "job_store \<Rightarrow> job_id \<Rightarrow> string" where
  "child_log_path s i = store_dir s i @ ''/child.log''"

definition artifacts_dir :: "job_store \<Rightarrow> job_id \<Rightarrow> string" where
  "artifacts_dir s i = store_dir s i @ ''/artifacts''"

definition key_path :: "job_store \<Rightarrow> job_key \<Rightarrow> string" where
  "key_path s k = sj_root s @ ''/by-key/'' @ job_key_str k"

definition no_such_file :: string where
  "no_such_file = ''No such file or directory (os error 2)''"

definition is_a_directory :: string where
  "is_a_directory = ''Is a directory (os error 21)''"

text \<open>The names in \<open>by-key\<close> that are directories whatever is written there.\<close>

definition key_is_dir :: "job_key \<Rightarrow> bool" where
  "key_is_dir k = (job_key_str k = ''.'' \<or> job_key_str k = ''..'')"

definition dir_of :: "job_store \<Rightarrow> job_id \<Rightarrow> job_dir option" where
  "dir_of s i = map_of (sj_dirs s) i"

definition update_dir :: "job_id \<Rightarrow> (job_dir \<Rightarrow> job_dir) \<Rightarrow> job_store \<Rightarrow> job_store" where
  "update_dir i f s = s\<lparr>sj_dirs := map (\<lambda>e. if fst e = i then (i, f (snd e)) else e) (sj_dirs s)\<rparr>"

section \<open>Operations\<close>

fun le_bytes :: "nat \<Rightarrow> nat \<Rightarrow> string" where
  "le_bytes 0 v = []"
| "le_bytes (Suc n) v = char_of (v mod 256) # le_bytes n (v div 256)"

definition mint_id :: "(string \<Rightarrow> 8 word list) \<Rightarrow> 64 word \<Rightarrow> job_key \<Rightarrow> node_id \<Rightarrow> job_id" where
  "mint_id digest now_s key sender =
     JobId (''jb-'' @ show_nat (unat now_s) @ ''-'' @
       hex_encode (take 4 (digest (le_bytes 8 (unat now_s) @ job_key_str key @ node_id_to_string sender))))"

definition store_load :: "faults \<Rightarrow> job_id \<Rightarrow> job_store \<Rightarrow> (job_record, string) result" where
  "store_load io i s =
     (let missing = (\<lambda>e. Err (''no job '' @ job_id_str i @ '' ('' @ record_path s i @ ''): '' @ e)) in
      case Option.bind (dir_of s i) jd_record of
        None \<Rightarrow> missing no_such_file
      | Some r \<Rightarrow>
          (case io (FtReadRecord i) of
             Some e \<Rightarrow> missing e
           | None \<Rightarrow> map_err (\<lambda>e. record_path s i @ '' is malformed: '' @ e) r))"

definition store_by_key :: "faults \<Rightarrow> job_key \<Rightarrow> job_store \<Rightarrow> (job_record option, string) result" where
  "store_by_key io key s =
     (let failed = (\<lambda>e. Err (''reading '' @ key_path s key @ '': '' @ e)) in
      case sj_index s of
        None \<Rightarrow> Ok None
      | Some index \<Rightarrow>
          if key_is_dir key then failed is_a_directory
          else (case map_of index key of
            None \<Rightarrow> Ok None
          | Some t \<Rightarrow>
              (case io (FtReadIndex key) of
                 Some e \<Rightarrow> failed e
               | None \<Rightarrow>
                   (case job_id_parse (str_trim t) of
                      Err _ \<Rightarrow> Err ''the key index names a malformed job id''
                    | Ok i \<Rightarrow> result_bind (store_load io i s) (\<lambda>r. Ok (Some r))))))"

definition store_save :: "faults \<Rightarrow> job_record \<Rightarrow> job_store \<Rightarrow> (unit, string) result \<times> job_store" where
  "store_save io r s =
     (case dir_of s (jb_id r) of
        None \<Rightarrow> (Err (''writing '' @ record_path s (jb_id r) @ '': '' @ no_such_file), s)
      | Some _ \<Rightarrow>
          (case io (FtWriteRecord (jb_id r)) of
             Some e \<Rightarrow> (Err e, s)
           | None \<Rightarrow> (Ok (), update_dir (jb_id r) (\<lambda>d. d\<lparr>jd_record := Some (Ok r)\<rparr>) s)))"

definition make_job_dir :: "job_id \<Rightarrow> job_store \<Rightarrow> job_store" where
  "make_job_dir i s =
     s\<lparr>sj_dirs := sj_dirs s @ [(i, \<lparr>jd_record = None, jd_events = None, jd_log = None, jd_artifacts = []\<rparr>)]\<rparr>"

text \<open>\<open>create_dir_all\<close> of the parent of a key's path, and the key's file in it.\<close>

definition index_key :: "faults \<Rightarrow> job_key \<Rightarrow> job_id \<Rightarrow> job_store \<Rightarrow> (unit, string) result \<times> job_store" where
  "index_key io key i s =
     (case io FtMakeIndex of
        Some e \<Rightarrow> (Err e, s)
      | None \<Rightarrow>
          let s = (if job_key_str key = ''.'' then s
                   else s\<lparr>sj_index := Some (case sj_index s of None \<Rightarrow> [] | Some m \<Rightarrow> m)\<rparr>) in
          (case io (FtWriteIndex key) of
             Some e \<Rightarrow> (Err e, s)
           | None \<Rightarrow>
               if key_is_dir key then (Err (''writing '' @ key_path s key @ '': '' @ is_a_directory), s)
               else (Ok (), s\<lparr>sj_index := map_option (AList.update key (job_id_str i)) (sj_index s)\<rparr>)))"

definition store_create :: "faults \<Rightarrow> job_record \<Rightarrow> job_store \<Rightarrow> (unit, string) result \<times> job_store" where
  "store_create io r s =
     (if dir_of s (jb_id r) \<noteq> None then (Err (''job directory '' @ store_dir s (jb_id r) @ '' already exists''), s)
      else case io (FtMakeJob (jb_id r)) of
        Some e \<Rightarrow> (Err (''creating '' @ store_dir s (jb_id r) @ '': '' @ e), s)
      | None \<Rightarrow>
          st_bind (store_save io r (make_job_dir (jb_id r) s)) (\<lambda>_ s. index_key io (jb_key r) (jb_id r) s))"

text \<open>\<open>sort_by(a.created_at_s.cmp(..).then(a.id.cmp(..)))\<close>, upwards.\<close>

definition by_age :: "job_record list \<Rightarrow> job_record list" where
  "by_age rs = sort_key jb_created_at_s (sort_key (job_id_str \<circ> jb_id) rs)"

definition store_list :: "faults \<Rightarrow> job_store \<Rightarrow> (job_record list, string) result" where
  "store_list io s =
     (case io FtList of
        Some e \<Rightarrow> Err (''listing '' @ sj_root s @ '': '' @ e)
      | None \<Rightarrow> Ok (rev (by_age (List.map_filter (\<lambda>(i, _). result_ok (store_load io i s)) (sj_dirs s)))))"

definition unindex :: "faults \<Rightarrow> job_key \<Rightarrow> job_store \<Rightarrow> job_store" where
  "unindex io key s =
     (if io (FtRemoveIndex key) \<noteq> None then s
      else s\<lparr>sj_index := map_option (filter (\<lambda>e. fst e \<noteq> key)) (sj_index s)\<rparr>)"

definition job_state_name :: "job_state \<Rightarrow> string" where
  "job_state_name s = (case s of JsQueued \<Rightarrow> ''Queued'' | JsPreparing \<Rightarrow> ''Preparing'' | JsBuilding \<Rightarrow> ''Building''
     | JsRunning \<Rightarrow> ''Running'' | JsCollecting \<Rightarrow> ''Collecting'' | JsDone \<Rightarrow> ''Done'')"

definition store_remove :: "faults \<Rightarrow> job_record \<Rightarrow> job_store \<Rightarrow> (unit, string) result \<times> job_store" where
  "store_remove io r s =
     (if \<not> is_terminal (jb_state r) then (Err (''refusing to remove '' @ job_id_str (jb_id r) @ '' in state '' @ job_state_name (jb_state r)), s)
      else
        let s = unindex io (jb_key r) s in
        (case (dir_of s (jb_id r), io (FtRemoveJob (jb_id r))) of
           (Some _, None) \<Rightarrow> (Ok (), s\<lparr>sj_dirs := filter (\<lambda>e. fst e \<noteq> jb_id r) (sj_dirs s)\<rparr>)
         | (None, _) \<Rightarrow> (Err (''removing job '' @ job_id_str (jb_id r) @ '': '' @ no_such_file), s)
         | (_, Some e) \<Rightarrow> (Err (''removing job '' @ job_id_str (jb_id r) @ '': '' @ e), s)))"

section \<open>Which records a job wrote\<close>

record gate_file =
  gf_name :: string
  gf_written :: nat
  gf_content :: string

definition is_record_file :: "string \<Rightarrow> bool" where
  "is_record_file n = (suffix ''.json'' n \<or> suffix ''.json.sig'' n)"

definition records_state :: "gate_file list \<Rightarrow> record_state" where
  "records_state fs = bt_of_list (map (\<lambda>f. (gf_name f, gf_written f)) (filter (is_record_file \<circ> gf_name) fs))"

text \<open>\<open>copy\<close> is \<open>fs::copy\<close> and \<open>sha256_file\<close>: what was copied, or why it could not be.\<close>

fun collect_files ::
    "(string \<Rightarrow> string) \<Rightarrow> (string \<Rightarrow> (string, string) result) \<Rightarrow> string \<Rightarrow> record_state \<Rightarrow> (string \<times> nat) list \<Rightarrow>
     (artifact_meta list, string) result" where
  "collect_files sha copy gate before [] = Ok []"
| "collect_files sha copy gate before ((n, written) # fs) =
     (if bt_get before n = Some written then collect_files sha copy gate before fs
      else
        let kind = (if suffix ''.json.sig'' n then Some AkSignature else if suffix ''.json'' n then Some AkRecord else None) in
        (case kind of
           None \<Rightarrow> collect_files sha copy gate before fs
         | Some k \<Rightarrow>
             result_bind (copy n) (\<lambda>content.
             result_bind (collect_files sha copy gate before fs) (\<lambda>out.
               Ok (\<lparr>af_name = n, af_relative_path = ''.benchmarks/'' @ gate @ ''/'' @ n,
                    af_bytes = of_nat (length content), af_sha256 = sha content, af_kind = k\<rparr> # out)))))"

definition records_collect ::
    "(string \<Rightarrow> string) \<Rightarrow> (string \<Rightarrow> (string, string) result) \<Rightarrow> string \<Rightarrow> record_state \<Rightarrow> gate_file list \<Rightarrow>
     (artifact_meta list, string) result" where
  "records_collect sha copy gate before fs =
     result_bind (collect_files sha copy gate before (records_state fs)) (\<lambda>out. Ok (sort_key af_name out))"

section \<open>The tree after an operation\<close>

lemma dir_of_simps [simp]:
  "dir_of (s\<lparr>sj_index := x\<rparr>) i = dir_of s i"
  "dir_of (update_dir j f s) i = (if i = j then map_option f (dir_of s i) else dir_of s i)"
  "dir_of (s\<lparr>sj_dirs := filter (\<lambda>e. fst e \<noteq> j) (sj_dirs s)\<rparr>) i = (if i = j then None else dir_of s i)"
  "dir_of (unindex io k s) i = dir_of s i"
proof -
  have 1: "map_of (map (\<lambda>e. if fst e = j then (j, f (snd e)) else e) ds) i =
      (if i = j then map_option f (map_of ds i) else map_of ds i)" for ds
    by (induction ds) auto
  have 2: "map_of (filter (\<lambda>e. fst e \<noteq> j) ds) i = (if i = j then None else map_of ds i)" for ds :: "(job_id \<times> 'b) list"
    by (induction ds) auto
  show "dir_of (s\<lparr>sj_index := x\<rparr>) i = dir_of s i"
    "dir_of (update_dir j f s) i = (if i = j then map_option f (dir_of s i) else dir_of s i)"
    "dir_of (s\<lparr>sj_dirs := filter (\<lambda>e. fst e \<noteq> j) (sj_dirs s)\<rparr>) i = (if i = j then None else dir_of s i)"
    "dir_of (unindex io k s) i = dir_of s i"
    by (simp_all add: dir_of_def update_dir_def unindex_def 1 2)
qed

lemma dir_of_make: "dir_of s j = None \<Longrightarrow> dir_of (make_job_dir j s) i =
    (if i = j then Some \<lparr>jd_record = None, jd_events = None, jd_log = None, jd_artifacts = []\<rparr> else dir_of s i)"
  by (simp add: dir_of_def make_job_dir_def map_add_def split: option.splits)

lemma store_fields [simp]:
  "sj_root (update_dir j f s) = sj_root s" "sj_index (update_dir j f s) = sj_index s"
  "map fst (sj_dirs (update_dir j f s)) = map fst (sj_dirs s)"
  "sj_root (make_job_dir j s) = sj_root s" "sj_index (make_job_dir j s) = sj_index s"
  "sj_root (unindex io k s) = sj_root s" "sj_dirs (unindex io k s) = sj_dirs s"
  by (auto simp: update_dir_def make_job_dir_def unindex_def)

text \<open>What a job directory holds of its job, as far as it can be read.\<close>

definition record_of :: "job_store \<Rightarrow> job_id \<Rightarrow> job_record option" where
  "record_of s i = (case dir_of s i of Some d \<Rightarrow> Option.bind (jd_record d) result_ok | None \<Rightarrow> None)"

lemma store_load_Ok: "store_load io i s = Ok r \<longleftrightarrow> record_of s i = Some r \<and> io (FtReadRecord i) = None"
  by (auto simp: store_load_def record_of_def result_ok_def map_err_def split: option.splits result.splits Option.bind_splits)

lemma store_save_cases:
  assumes "store_save io r s = (x, s')"
  obtains (failed) e where "x = Err e" "s' = s" "dir_of s (jb_id r) = None \<or> io (FtWriteRecord (jb_id r)) \<noteq> None"
  | (saved) d where "x = Ok ()" "dir_of s (jb_id r) = Some d" "s' = update_dir (jb_id r) (\<lambda>d. d\<lparr>jd_record := Some (Ok r)\<rparr>) s"
      "io (FtWriteRecord (jb_id r)) = None"
  using assms by (auto simp: store_save_def split: option.splits)

lemma record_of_save:
  assumes "store_save io r s = (x, s')"
  shows "record_of s' i = (if i = jb_id r \<and> is_ok x then Some r else record_of s i)"
  using assms by (cases rule: store_save_cases) (auto simp: record_of_def is_ok_def result_ok_def)

section \<open>A store in order\<close>

text \<open>
  Every directory holds the record of its own job, and every key names a job that is there and has
  that key.
\<close>

definition names_job :: "job_store \<Rightarrow> job_key \<Rightarrow> string \<Rightarrow> bool" where
  "names_job s k t =
     (\<exists>i. job_id_parse (str_trim t) = Ok i \<and> dir_of s i \<noteq> None \<and> (\<forall>r. record_of s i = Some r \<longrightarrow> jb_key r = k))"

definition store_ok :: "job_store \<Rightarrow> bool" where
  "store_ok s =
     (distinct (map fst (sj_dirs s)) \<and> (\<forall>i r. record_of s i = Some r \<longrightarrow> jb_id r = i) \<and>
      (\<forall>m k t. sj_index s = Some m \<longrightarrow> map_of m k = Some t \<longrightarrow> names_job s k t))"

text \<open>What every id the store can name reads back as.\<close>

definition id_reads_back :: "job_id \<Rightarrow> bool" where
  "id_reads_back i = (job_id_parse (str_trim (job_id_str i)) = Ok i)"

lemma token_reads_back:
  assumes "job_id_parse t = Ok i"
  shows "id_reads_back i"
proof -
  from assms have i: "i = JobId t" "check_token t 64 ''-'' = Ok ()"
    by (auto simp: job_id_parse_def result_bind_def split: result.splits)
  have b: "\<forall>x\<in>set t. is_ascii_alphanumeric x \<or> x \<in> set ''-''" by (rule check_token_bytes [OF i(2)])
  have dash: "is_ascii CHR ''-''" "\<not> char_is_whitespace ''-''" by code_simp+
  have ws: "char_is_whitespace [x] \<longleftrightarrow> 9 \<le> byte_of x \<and> byte_of x \<le> 13 \<or> byte_of x = 32" for x
    by (simp add: char_is_whitespace_def)
  have "is_ascii_alphanumeric x \<Longrightarrow> is_ascii x \<and> \<not> char_is_whitespace [x]" for x
    unfolding is_ascii_alphanumeric_def is_ascii_digit_def is_ascii_lowercase_def is_ascii_uppercase_def
      is_ascii_def ws by (elim disjE) simp_all
  with dash b have c: "\<forall>x\<in>set t. is_ascii x" "\<forall>x\<in>set t. \<not> char_is_whitespace [x]" by auto
  have w: "dropWhile char_is_whitespace xs = xs" if "\<forall>x\<in>set xs. \<not> char_is_whitespace x" for xs
    using that by (cases xs) simp_all
  have chars: "str_chars t = map (\<lambda>c. [c]) t" by (rule str_chars_ascii [OF c(1)])
  have "\<forall>x\<in>set (str_chars t). \<not> char_is_whitespace x" using c(2) by (simp add: chars)
  then have "dropWhile char_is_whitespace (str_chars t) = str_chars t"
    "dropWhile char_is_whitespace (rev (str_chars t)) = rev (str_chars t)" by (intro w, simp)+
  then have "str_trim t = t" by (simp add: str_trim_def)
  then show ?thesis using assms i(1) by (simp add: id_reads_back_def job_id_str_def)
qed

lemma length_show_nat: "n < 10 ^ Suc k \<Longrightarrow> length (show_nat n) \<le> Suc k"
proof (induction k arbitrary: n)
  case 0
  then show ?case by (simp add: show_nat.simps)
next
  case (Suc k)
  then have "n div 10 < 10 ^ Suc k" by (simp add: div_less_iff_less_mult mult.commute)
  with Suc.IH [of "n div 10"] show ?case by (simp add: show_nat.simps [of n])
qed

lemma hex_encode_alnum: "c \<in> set (hex_encode bs) \<Longrightarrow> is_ascii_alphanumeric c"
proof -
  have "is_ascii_alphanumeric (hex_digit n)" if "n < 16" for n
    using byte_of_hex_digit [OF that] that
    by (auto simp: is_ascii_alphanumeric_def is_ascii_digit_def is_ascii_lowercase_def is_ascii_uppercase_def split: if_splits)
  moreover have "unat b div 16 < 16" "unat b mod 16 < 16" for b :: "8 word"
    using unsigned_less [of b] by (simp_all add: div_less_iff_less_mult)
  ultimately show "c \<in> set (hex_encode bs) \<Longrightarrow> is_ascii_alphanumeric c"
    by (auto simp: hex_encode_def hex_byte_def)
qed

lemma id_token_Ok:
  assumes "\<forall>c\<in>set t. is_ascii_alphanumeric c \<or> c = CHR ''-''" "t \<noteq> []" "length t \<le> 64" "\<not> prefix ''-'' t"
  shows "job_id_parse t = Ok (JobId t)"
proof -
  have "is_ascii CHR ''-''" by code_simp
  moreover have "is_ascii_alphanumeric c \<Longrightarrow> is_ascii c" for c
    unfolding is_ascii_alphanumeric_def is_ascii_digit_def is_ascii_lowercase_def is_ascii_uppercase_def is_ascii_def
    by (elim disjE) simp_all
  ultimately have "\<forall>c\<in>set t. is_ascii c" using assms(1) by blast
  then have "str_chars t = map (\<lambda>c. [c]) t" by (rule str_chars_ascii)
  with assms have "check_token t 64 ''-'' = Ok ()" unfolding check_token_Ok by simp
  then show ?thesis by (simp add: job_id_parse_def result_bind_def)
qed

lemma mint_id_reads_back:
  "id_reads_back (mint_id digest now_s key sender)"
proof -
  let ?h = "hex_encode (take 4 (digest (le_bytes 8 (unat now_s) @ job_key_str key @ node_id_to_string sender)))"
  let ?t = "''jb-'' @ show_nat (unat now_s) @ ''-'' @ ?h"
  let ?n = "show_nat (unat now_s)"
  have n: "length ?n \<le> 20" using length_show_nat [of "unat now_s" 19] unsigned_less [of now_s, where 'a = nat] by simp
  have h: "length ?h \<le> 8" by simp
  have "is_ascii_alphanumeric CHR ''j''" "is_ascii_alphanumeric CHR ''b''" by code_simp+
  then have "\<forall>c\<in>set ''jb-''. is_ascii_alphanumeric c \<or> c = CHR ''-''" by simp
  moreover have "\<forall>c\<in>set ?n. is_ascii_alphanumeric c" by (simp add: is_ascii_alphanumeric_def show_nat_digits)
  moreover have "\<forall>c\<in>set ?h. is_ascii_alphanumeric c" using hex_encode_alnum by blast
  ultimately have alnum: "\<forall>c\<in>set ?t. is_ascii_alphanumeric c \<or> c = CHR ''-''"
    by (metis Un_iff empty_iff insert_iff list.set(1,2) set_append)
  have "length ?t \<le> 64" using n h by (simp del: length_hex_encode)
  moreover have "\<not> prefix ''-'' ?t" "?t \<noteq> []" by simp_all
  ultimately have "job_id_parse ?t = Ok (mint_id digest now_s key sender)"
    unfolding mint_id_def using alnum by (intro id_token_Ok)
  then show ?thesis by (rule token_reads_back)
qed

lemma record_of_dir: "record_of s i = Some r \<Longrightarrow> dir_of s i \<noteq> None"
  by (auto simp: record_of_def split: option.splits)

lemma dir_of_None: "dir_of s i = None \<longleftrightarrow> i \<notin> set (map fst (sj_dirs s))"
  by (simp add: dir_of_def map_of_eq_None_iff)

text \<open>Saving a job under the key it has.\<close>

lemma store_ok_save:
  assumes ok: "store_ok s" and "record_of s (jb_id r) = Some r0" "jb_key r0 = jb_key r"
    and save: "store_save io r s = (x, s')"
  shows "store_ok s' \<and> sj_index s' = sj_index s \<and> map fst (sj_dirs s') = map fst (sj_dirs s)"
  using save
proof (cases rule: store_save_cases)
  case (failed e)
  with ok show ?thesis by simp
next
  case (saved d)
  note rec = record_of_save [OF save]
  have "names_job s' k t" if n: "names_job s k t" for k t
  proof -
    from n obtain i where i: "job_id_parse (str_trim t) = Ok i" "dir_of s i \<noteq> None" "\<forall>r. record_of s i = Some r \<longrightarrow> jb_key r = k"
      by (auto simp: names_job_def)
    have "jb_key r' = k" if "record_of s' i = Some r'" for r'
      using that i(3) assms(2,3) unfolding rec by (auto split: if_splits)
    with i show ?thesis by (auto simp: names_job_def saved)
  qed
  then show ?thesis using ok unfolding store_ok_def rec by (auto simp: saved)
qed

lemma store_create_cases:
  assumes "store_create io r s = (x, s')"
  obtains (there) "\<not> is_ok x" "s' = s"
  | (written) y where "dir_of s (jb_id r) = None" "store_save io r (make_job_dir (jb_id r) s) = (Ok (), y)"
      "index_key io (jb_key r) (jb_id r) y = (x, s')"
  | (unwritten) "\<not> is_ok x" "dir_of s (jb_id r) = None" "s' = make_job_dir (jb_id r) s"
proof (cases "dir_of s (jb_id r) \<noteq> None \<or> io (FtMakeJob (jb_id r)) \<noteq> None")
  case True
  with assms show ?thesis by (intro there) (auto simp: store_create_def is_ok_def split: if_splits)
next
  case False
  obtain z y where z: "store_save io r (make_job_dir (jb_id r) s) = (z, y)" by (metis prod.exhaust)
  show ?thesis
  proof (cases z)
    case (Ok u)
    with assms False z show ?thesis by (intro written) (auto simp: store_create_def)
  next
    case (Err e)
    with z have "y = make_job_dir (jb_id r) s" by (auto elim: store_save_cases)
    with assms False z Err show ?thesis by (intro unwritten) (auto simp: store_create_def is_ok_def)
  qed
qed

lemma index_key_cases:
  assumes "index_key io key i s = (x, s')"
  obtains (failed) "\<not> is_ok x" "sj_dirs s' = sj_dirs s" "sj_index s' = sj_index s \<or> sj_index s = None \<and> sj_index s' = Some []"
  | (indexed) "x = Ok ()" "\<not> key_is_dir key" "sj_dirs s' = sj_dirs s"
      "sj_index s' = Some (AList.update key (job_id_str i) (case sj_index s of None \<Rightarrow> [] | Some m \<Rightarrow> m))"
proof (cases x)
  case (Err e)
  with assms show ?thesis
    by (intro failed) (auto simp: index_key_def Let_def is_ok_def split: option.splits if_splits)
next
  case (Ok u)
  with assms show ?thesis
    by (intro indexed) (auto simp: index_key_def Let_def key_is_dir_def split: option.splits if_splits)
qed

lemma record_of_dirs: "sj_dirs s' = sj_dirs s \<Longrightarrow> record_of s' = record_of s" "sj_dirs s' = sj_dirs s \<Longrightarrow> dir_of s' = dir_of s"
  by (auto simp: record_of_def dir_of_def fun_eq_iff)

lemma record_of_make: "dir_of s j = None \<Longrightarrow> record_of (make_job_dir j s) i = (if i = j then None else record_of s i)"
  by (simp add: record_of_def dir_of_make)

text \<open>
  What is new after a creation is the job, if its record could be written: then it is there, whatever is answered. Its
  key names it only if the creation is answered for.
\<close>

lemma store_create_records:
  assumes "store_create io r s = (x, s')"
  shows "record_of s' = record_of s \<and> \<not> is_ok x \<or>
    record_of s' = (record_of s)(jb_id r \<mapsto> r) \<and> dir_of s (jb_id r) = None"
  using assms
proof (cases rule: store_create_cases)
  case there
  then show ?thesis by simp
next
  case unwritten
  have none: "record_of s (jb_id r) = None" using unwritten(2) by (simp add: record_of_def)
  have "record_of s' = record_of s"
    by (rule ext) (simp add: unwritten(3) record_of_make [OF unwritten(2)] none)
  with unwritten(1) show ?thesis by blast
next
  case (written y)
  have "sj_dirs s' = sj_dirs y" using written(3) by (cases rule: index_key_cases) assumption+
  then have "record_of s' = record_of y" by (rule record_of_dirs)
  moreover have "record_of y = (record_of s)(jb_id r \<mapsto> r)"
    by (rule ext) (simp add: record_of_save [OF written(2)] record_of_make [OF written(1)] is_ok_def)
  ultimately show ?thesis using written(1) by simp
qed

lemma names_job_more:
  assumes "names_job s k t" "\<And>i. dir_of s i \<noteq> None \<Longrightarrow> dir_of s' i \<noteq> None \<and> record_of s' i = record_of s i"
  shows "names_job s' k t"
  using assms unfolding names_job_def by (metis (no_types, lifting))

lemma store_ok_make:
  assumes "store_ok s" "dir_of s j = None"
  shows "store_ok (make_job_dir j s)"
proof -
  have "map fst (sj_dirs (make_job_dir j s)) = map fst (sj_dirs s) @ [j]" by (simp add: make_job_dir_def)
  moreover have "names_job (make_job_dir j s) k t" if "names_job s k t" for k t
    using that assms(2) by (elim names_job_more) (auto simp: dir_of_make record_of_make)
  ultimately show ?thesis using assms by (auto simp: store_ok_def record_of_make dir_of_None split: if_splits)
qed

lemma store_ok_create:
  assumes ok: "store_ok s" and id: "id_reads_back (jb_id r)" and create: "store_create io r s = (x, s')"
  shows "store_ok s'"
  using create
proof (cases rule: store_create_cases)
  case there
  with ok show ?thesis by simp
next
  case unwritten
  with ok show ?thesis by (simp add: store_ok_make)
next
  case (written y)
  let ?m = "make_job_dir (jb_id r) s"
  have okm: "store_ok ?m" by (rule store_ok_make [OF ok written(1)])
  have rec: "record_of y i = (if i = jb_id r then Some r else record_of s i)" for i
    using record_of_save [OF written(2), of i] record_of_make [OF written(1), of i] by (simp add: is_ok_def)
  have dirs: "dir_of y i = None \<longleftrightarrow> i \<noteq> jb_id r \<and> dir_of s i = None" for i
    using written(2) by (cases rule: store_save_cases) (auto simp: dir_of_make [OF written(1)])
  have fsts: "map fst (sj_dirs y) = map fst (sj_dirs ?m)" and idx: "sj_index y = sj_index s"
    using written(2) by (cases rule: store_save_cases; simp)+
  have keep: "names_job y k t" if "names_job s k t" for k t
    using that by (rule names_job_more) (use written(1) in \<open>metis dirs rec\<close>)
  have oky: "store_ok y" using okm ok keep unfolding store_ok_def rec fsts idx by auto
  show ?thesis using written(3)
  proof (cases rule: index_key_cases)
    case failed
    have "names_job s' = names_job y" by (simp add: names_job_def fun_eq_iff record_of_dirs [OF failed(2)])
    with failed oky show ?thesis by (auto simp: store_ok_def record_of_dirs [OF failed(2)])
  next
    case indexed
    have n: "names_job s' = names_job y" by (simp add: names_job_def fun_eq_iff record_of_dirs [OF indexed(3)])
    have "names_job y (jb_key r) (job_id_str (jb_id r))"
      using id by (auto simp: names_job_def id_reads_back_def dirs rec)
    with indexed oky n show ?thesis
      by (auto simp: store_ok_def record_of_dirs [OF indexed(3)] update_conv' split: option.splits if_splits)
  qed
qed

text \<open>The job created under a key is the job of that key.\<close>

lemma store_by_key_Some:
  "store_by_key io k s = Ok (Some r) \<longleftrightarrow>
     (\<exists>m t i. sj_index s = Some m \<and> \<not> key_is_dir k \<and> map_of m k = Some t \<and> io (FtReadIndex k) = None \<and>
        job_id_parse (str_trim t) = Ok i \<and> store_load io i s = Ok r)"
proof (cases "sj_index s")
  case (Some m)
  show ?thesis
  proof (cases "map_of m k")
    case t: (Some t)
    show ?thesis unfolding store_by_key_def Let_def Some option.case t result_bind_def
      by (cases "io (FtReadIndex k)"; cases "job_id_parse (str_trim t)"; simp add: t split: result.splits)
  qed (simp add: store_by_key_def Some)
qed (simp add: store_by_key_def)

lemma created_by_key:
  assumes create: "store_create io r s = (Ok (), s')" and id: "id_reads_back (jb_id r)"
    and read: "io' (FtReadIndex (jb_key r)) = None" "io' (FtReadRecord (jb_id r)) = None"
  shows "store_by_key io' (jb_key r) s' = Ok (Some r)"
  using create
proof (cases rule: store_create_cases)
  case (written y)
  have rec: "record_of y (jb_id r) = Some r" using record_of_save [OF written(2), of "jb_id r"] by (simp add: is_ok_def)
  from written(3) obtain 1: "\<not> key_is_dir (jb_key r)" "sj_dirs s' = sj_dirs y"
    "sj_index s' = Some (AList.update (jb_key r) (job_id_str (jb_id r)) (case sj_index y of None \<Rightarrow> [] | Some m \<Rightarrow> m))"
    by (cases rule: index_key_cases) (simp_all add: is_ok_def)
  have "record_of s' (jb_id r) = Some r" unfolding record_of_dirs(1) [OF 1(2)] by (rule rec)
  then have "store_load io' (jb_id r) s' = Ok r" using read(2) by (simp add: store_load_Ok)
  then show ?thesis unfolding store_by_key_Some 1(3) using id 1(1) read(1)
    by (simp add: update_conv' id_reads_back_def)
qed (simp_all add: is_ok_def)

lemma by_key_sound:
  assumes "store_ok s" "store_by_key io k s = Ok (Some r)"
  shows "record_of s (jb_id r) = Some r \<and> jb_key r = k"
proof -
  from assms(2) obtain m t i where t: "sj_index s = Some m" "map_of m k = Some t" "job_id_parse (str_trim t) = Ok i"
    and r: "record_of s i = Some r" unfolding store_by_key_Some store_load_Ok by blast
  from assms(1) t(1,2) have "names_job s k t" unfolding store_ok_def by blast
  with t(3) r have "jb_key r = k" unfolding names_job_def by (metis result.inject(1))
  moreover from assms(1) r have "jb_id r = i" unfolding store_ok_def by blast
  ultimately show ?thesis using r by simp
qed

lemma store_ok_remove:
  assumes ok: "store_ok s" and rec: "record_of s (jb_id r) = Some r" and io: "io (FtRemoveIndex (jb_key r)) = None"
    and remove: "store_remove io r s = (x, s')"
  shows "store_ok s' \<and> (\<forall>i. record_of s' i = (if i = jb_id r \<and> is_ok x then None else record_of s i)) \<and>
    (is_ok x \<longrightarrow> is_terminal (jb_state r))"
proof (cases "is_terminal (jb_state r)")
  case False
  with remove ok show ?thesis by (auto simp: store_remove_def is_ok_def)
next
  case True
  let ?u = "unindex io (jb_key r) s"
  have recu: "record_of ?u = record_of s" and diru: "dir_of ?u = dir_of s" by (rule record_of_dirs, simp)+
  have mf: "map_of (filter (\<lambda>e. fst e \<noteq> jb_key r) m) k = (if k = jb_key r then None else map_of m k)" for m :: "(job_key \<times> string) list" and k
    by (induction m) auto
  have idx: "k \<noteq> jb_key r \<and> names_job s k t" if "sj_index ?u = Some m" "map_of m k = Some t" for m k t
    using that ok io by (auto simp: unindex_def store_ok_def mf split: if_splits)
  have oku: "store_ok ?u" using ok idx by (auto simp: store_ok_def recu names_job_def diru)
  show ?thesis
  proof (cases "is_ok x")
    case False
    with remove True have "s' = ?u" by (auto simp: store_remove_def Let_def is_ok_def split: option.splits)
    with False oku recu show ?thesis by simp
  next
    case ok': True
    with remove True have s': "s' = ?u\<lparr>sj_dirs := filter (\<lambda>e. fst e \<noteq> jb_id r) (sj_dirs ?u)\<rparr>"
      by (auto simp: store_remove_def Let_def is_ok_def split: option.splits)
    have rec': "record_of s' i = (if i = jb_id r then None else record_of s i)" for i
      unfolding s' record_of_def dir_of_simps by (simp add: diru)
    have "names_job s' k t" if "sj_index ?u = Some m" "map_of m k = Some t" for m k t
    proof -
      from idx [OF that] obtain i where i: "k \<noteq> jb_key r" "job_id_parse (str_trim t) = Ok i" "dir_of s i \<noteq> None"
        "\<forall>r. record_of s i = Some r \<longrightarrow> jb_key r = k" by (auto simp: names_job_def)
      with rec have "i \<noteq> jb_id r" by auto
      moreover have "dir_of s' i = (if i = jb_id r then None else dir_of s i)" unfolding s' dir_of_simps by (simp add: diru)
      ultimately show ?thesis using i by (auto simp: names_job_def rec')
    qed
    moreover have "distinct (map fst (sj_dirs s'))" using ok by (simp add: s' store_ok_def distinct_map_filter)
    ultimately show ?thesis using ok True ok' rec' by (auto simp: store_ok_def s')
  qed
qed

section \<open>What a job is credited with\<close>

lemma records_state_ok: "bt_ok (records_state fs)"
  by (simp add: records_state_def bt_ok_of_list)

lemma bt_get_Cons: "bt_get ((a, v) # m) k = (if k = a then Some v else bt_get m k)"
  by (simp add: bt_get_def)

lemma records_state_names: "(n, w) \<in> set (records_state fs) \<Longrightarrow> is_record_file n"
  using bt_get_iff [OF records_state_ok, of fs n w] bt_of_list_Some [of _ n w] by (force simp: records_state_def)

definition credits :: "(string \<Rightarrow> string) \<Rightarrow> (string \<Rightarrow> (string, string) result) \<Rightarrow> string \<Rightarrow> artifact_meta \<Rightarrow> bool" where
  "credits sha copy gate a =
     (\<exists>content. copy (af_name a) = Ok content \<and> af_sha256 a = sha content \<and> af_bytes a = of_nat (length content) \<and>
        af_relative_path a = ''.benchmarks/'' @ gate @ ''/'' @ af_name a \<and>
        af_kind a = (if suffix ''.json.sig'' (af_name a) then AkSignature else AkRecord))"

lemma collect_files_Ok:
  assumes "collect_files sha copy gate before fs = Ok out" "\<forall>(n, w)\<in>set fs. is_record_file n"
  shows "map af_name out = map fst (filter (\<lambda>(n, w). bt_get before n \<noteq> Some w) fs) \<and> (\<forall>a\<in>set out. credits sha copy gate a)"
  using assms
proof (induction fs arbitrary: out)
  case (Cons x fs)
  obtain n w where x: "x = (n, w)" by (cases x)
  from Cons.prems(2) x have rec: "is_record_file n" and rest: "\<forall>(n, w)\<in>set fs. is_record_file n" by auto
  show ?case
  proof (cases "bt_get before n = Some w")
    case True
    with Cons.IH [OF _ rest] Cons.prems(1) show ?thesis by (simp add: x)
  next
    case False
    with Cons.prems(1) rec obtain content out' where c: "copy n = Ok content" "collect_files sha copy gate before fs = Ok out'"
      "out = \<lparr>af_name = n, af_relative_path = ''.benchmarks/'' @ gate @ ''/'' @ n, af_bytes = of_nat (length content),
         af_sha256 = sha content, af_kind = (if suffix ''.json.sig'' n then AkSignature else AkRecord)\<rparr> # out'"
      by (auto simp: x is_record_file_def result_bind_def split: result.splits if_splits)
    with Cons.IH [OF c(2) rest] False show ?thesis by (simp add: x credits_def)
  qed
qed simp

lemma sorted_keys: "bt_ok m \<Longrightarrow> sorted (map fst (filter P m))" for m :: "(string, nat) btree"
  unfolding bt_ok_def by (rule strict_sorted_imp_sorted, induction m) auto

text \<open>
  A job is credited with exactly the records that were not there before it started or have been
  written since, in the order of their names, each with what was copied of it; a record that is as
  it was is never credited.
\<close>
lemma collect_credits_difference:
  assumes "records_collect sha copy gate before fs = Ok out"
  shows "map af_name out = map fst (filter (\<lambda>(n, w). bt_get before n \<noteq> Some w) (records_state fs)) \<and>
    (\<forall>a\<in>set out. credits sha copy gate a)"
proof -
  from assms obtain as where as: "collect_files sha copy gate before (records_state fs) = Ok as" "out = sort_key af_name as"
    by (auto simp: records_collect_def result_bind_def split: result.splits)
  have as': "map af_name as = map fst (filter (\<lambda>(n, w). bt_get before n \<noteq> Some w) (records_state fs)) \<and> (\<forall>a\<in>set as. credits sha copy gate a)"
    by (rule collect_files_Ok [OF as(1)]) (auto dest: records_state_names)
  then have "sorted (map af_name as)" using sorted_keys [OF records_state_ok] by simp
  then have "out = as" unfolding as(2) by (rule sort_key_id_if_sorted)
  with as' show ?thesis by simp
qed

end
