(* ===== verification/Bench_Machine.thy ===== *)
theory Bench_Machine
  imports Bench
begin

text \<open>
  One benchmark job's life (\<open>metralectl-agent/src/bench/machine.rs\<close>, \<open>machine/resume.rs\<close> and
  \<open>ports.rs\<close>): preparing, building, running, collecting, done, with what a restart resumes.

  The machine the job runs on is the ports, operations over a world \<open>'w\<close>; the job store and the
  journal are two of them here, and so is the flag that cancels. Every question is kept with its answer,
  oldest first. A phase that can end the job early answers with the outcome that ends it.

  The theorems: a job that returns recorded its outcome, once, as the last thing it did, and only a store or
  journal that cannot be written makes it fail; its states only move forward and it stays the
  same job; and a child is started only for a published commit, with the verified or fresh binary of that commit,
  for a gate and parameters this binary accepts.
\<close>

section \<open>Ports\<close>

record cached_binary =
  bi_path :: string
  bi_sha256 :: string

datatype cache_miss = NoBuild | NoProvenance | WrongSha string | HashMismatch

record build_result =
  bu_binary :: cached_binary
  bu_secs :: "64 word"

record child_handle =
  ch_pid :: "32 word"
  ch_start_ticks :: "64 word"

datatype run_end =
    ReExited int "verdict option"
  | ReStalled "64 word"
  | ReTimedOut "64 word"
  | ReCancelled

record run_plan =
  rp_argv :: "string list"
  rp_cwd :: string
  rp_env :: "(string \<times> string) list"
  rp_log_path :: string
  rp_stall_timeout :: nat
  rp_max_run :: nat

datatype bench_act =
    ActHasCommit sha "(bool, string) result"
  | ActFetch "(unit, string) result"
  | ActPublished sha "(bool, string) result"
  | ActWorktree sha "(string, string) result"
  | ActCached sha "((cached_binary, cache_miss) result, string) result"
  | ActBuild sha string "(build_result, string) result"
  | ActRecipes string "(bool, string) result"
  | ActGates string "(string list, string) result"
  | ActBadParams string string "string list" "(string list, string) result"
  | ActRecordState string string "(record_state, string) result"
  | ActSpawn run_plan "(child_handle, string) result"
  | ActWait child_handle run_plan "event_kind list \<times> (run_end, string) result"
  | ActCollect string string record_state string "(artifact_meta list, string) result"
  | ActCancelled bool
  | ActSave job_record "(unit, string) result"
  | ActEvent event_kind "(unit, string) result"

record 'w bench_ports =
  bp_now_ms :: "'w \<Rightarrow> 64 word"
  bp_has_commit :: "sha \<Rightarrow> 'w \<Rightarrow> (bool, string) result \<times> 'w"
  bp_fetch :: "'w \<Rightarrow> (unit, string) result \<times> 'w"
  bp_published :: "sha \<Rightarrow> 'w \<Rightarrow> (bool, string) result \<times> 'w"
  bp_worktree :: "sha \<Rightarrow> 'w \<Rightarrow> (string, string) result \<times> 'w"
  bp_cached_binary :: "sha \<Rightarrow> 'w \<Rightarrow> ((cached_binary, cache_miss) result, string) result \<times> 'w"
  bp_build :: "sha \<Rightarrow> string \<Rightarrow> 'w \<Rightarrow> (build_result, string) result \<times> 'w"
  bp_ensure_recipes :: "string \<Rightarrow> 'w \<Rightarrow> (bool, string) result \<times> 'w"
  bp_known_gates :: "string \<Rightarrow> 'w \<Rightarrow> (string list, string) result \<times> 'w"
  bp_bad_params :: "string \<Rightarrow> string \<Rightarrow> string list \<Rightarrow> 'w \<Rightarrow> (string list, string) result \<times> 'w"
  bp_spawn :: "run_plan \<Rightarrow> 'w \<Rightarrow> (child_handle, string) result \<times> 'w"
  bp_wait :: "child_handle \<Rightarrow> run_plan \<Rightarrow> 'w \<Rightarrow> (event_kind list \<times> (run_end, string) result) \<times> 'w"
  bp_record_state :: "string \<Rightarrow> string \<Rightarrow> 'w \<Rightarrow> (record_state, string) result \<times> 'w"
  bp_collect :: "string \<Rightarrow> string \<Rightarrow> record_state \<Rightarrow> string \<Rightarrow> 'w \<Rightarrow> (artifact_meta list, string) result \<times> 'w"

record 'w bench_ctx = "'w bench_ports" +
  bx_cancel :: "'w \<Rightarrow> bool \<times> 'w"
  bx_save :: "job_record \<Rightarrow> 'w \<Rightarrow> (unit, string) result \<times> 'w"
  bx_append :: "event_kind \<Rightarrow> 64 word \<Rightarrow> 'w \<Rightarrow> (unit, string) result \<times> 'w"
  bx_seq_high :: "'w \<Rightarrow> 64 word"
  bx_child_log_path :: "job_id \<Rightarrow> string"
  bx_artifacts_dir :: "job_id \<Rightarrow> string"
  bx_local :: node_id
  bx_hardware :: string
  bx_child_env :: "(string \<times> string) list"
  bx_stall_timeout :: nat
  bx_allow_unpublished :: bool
  bx_serve_reuse :: bool
  bx_process_id :: "32 word"

record 'w machine =
  mc_world :: 'w
  mc_log :: "bench_act list"

definition ask :: "('w \<Rightarrow> 'r \<times> 'w) \<Rightarrow> ('r \<Rightarrow> bench_act) \<Rightarrow> 'w machine \<Rightarrow> 'r \<times> 'w machine" where
  "ask op act m = (let (r, w) = op (mc_world m) in (r, \<lparr>mc_world = w, mc_log = mc_log m @ [act r]\<rparr>))"

section \<open>Recording\<close>

definition bench_transition ::
    "'w bench_ctx \<Rightarrow> job_state \<Rightarrow> job_record \<Rightarrow> 'w machine \<Rightarrow> (job_record, string) result \<times> 'w machine" where
  "bench_transition c state job m =
     (let job = job\<lparr>jb_state := state, jb_updated_at_s := bp_now_ms c (mc_world m) div 1000,
                    jb_seq_high := bx_seq_high c (mc_world m)\<rparr>
      in st_bind (ask (bx_save c job) (ActSave job) m) (\<lambda>_ m. (Ok job, m)))"

definition bench_emit ::
    "'w bench_ctx \<Rightarrow> event_kind \<Rightarrow> job_record \<Rightarrow> 'w machine \<Rightarrow> (job_record, string) result \<times> 'w machine" where
  "bench_emit c kind job m =
     st_bind (ask (bx_append c kind (bp_now_ms c (mc_world m))) (ActEvent kind) m) (\<lambda>_ m.
       (Ok (job\<lparr>jb_seq_high := bx_seq_high c (mc_world m)\<rparr>), m))"

definition bench_finish ::
    "'w bench_ctx \<Rightarrow> job_record \<Rightarrow> job_outcome \<Rightarrow> 'w machine \<Rightarrow> (job_outcome, string) result \<times> 'w machine" where
  "bench_finish c job out m =
     st_bind (bench_emit c (EvDone out) (job\<lparr>jb_child_pid := None, jb_child_start_ticks := None, jb_outcome := Some out\<rparr>) m) (\<lambda>job m.
     st_bind (bench_transition c JsDone job m) (\<lambda>_ m. (Ok out, m)))"

text \<open>\<open>match r { Ok(a) => a, Err(e) => return finish(..) }\<close>, and the look at the flag.\<close>

definition or_finish ::
    "'w bench_ctx \<Rightarrow> job_record \<Rightarrow> ('a, job_outcome) result \<times> 'w machine \<Rightarrow>
     ('a \<Rightarrow> 'w machine \<Rightarrow> (job_outcome, string) result \<times> 'w machine) \<Rightarrow> (job_outcome, string) result \<times> 'w machine" where
  "or_finish c job x k = (case fst x of Ok a \<Rightarrow> k a (snd x) | Err out \<Rightarrow> bench_finish c job out (snd x))"

definition check_cancel :: "'w bench_ctx \<Rightarrow> 'w machine \<Rightarrow> (unit, job_outcome) result \<times> 'w machine" where
  "check_cancel c m =
     (let (b, m) = ask (bx_cancel c) ActCancelled m in (if b then Err (OCancelled (bx_local c)) else Ok (), m))"

section \<open>Preparing\<close>

definition prepare_commit :: "'w bench_ctx \<Rightarrow> sha \<Rightarrow> 'w machine \<Rightarrow> (bool, job_outcome) result \<times> 'w machine" where
  "prepare_commit c sha m =
     (case ask (bp_has_commit c sha) (ActHasCommit sha) m of
        (Ok True, m) \<Rightarrow> (Ok False, m)
      | (Ok False, m) \<Rightarrow>
          (case ask (bp_fetch c) ActFetch m of
             (Err e, m) \<Rightarrow> (Err (OFailed JsPreparing (''fetch failed: '' @ e)), m)
           | (Ok _, m) \<Rightarrow>
               (case ask (bp_has_commit c sha) (ActHasCommit sha) m of
                  (Ok True, m) \<Rightarrow> (Ok True, m)
                | (Ok False, m) \<Rightarrow> (Err (OFailed JsPreparing (''commit '' @ sha_str sha @ '' is not on the remote'')), m)
                | (Err e, m) \<Rightarrow> (Err (OFailed JsPreparing e), m)))
      | (Err e, m) \<Rightarrow> (Err (OFailed JsPreparing e), m))"

definition check_published :: "'w bench_ctx \<Rightarrow> sha \<Rightarrow> 'w machine \<Rightarrow> (unit, job_outcome) result \<times> 'w machine" where
  "check_published c sha m =
     (if bx_allow_unpublished c then (Ok (), m)
      else case ask (bp_published c sha) (ActPublished sha) m of
        (Ok True, m) \<Rightarrow> (Ok (), m)
      | (Ok False, m) \<Rightarrow> (Err (OFailed JsPreparing (''commit '' @ sha_str sha
          @ '' is not reachable from the trusted remote; push it first (or set allow_unpublished_shas on this node)'')), m)
      | (Err e, m) \<Rightarrow> (Err (OFailed JsPreparing e), m))"

definition prepare_worktree :: "'w bench_ctx \<Rightarrow> sha \<Rightarrow> 'w machine \<Rightarrow> (string, job_outcome) result \<times> 'w machine" where
  "prepare_worktree c sha m =
     (let (r, m) = ask (bp_worktree c sha) (ActWorktree sha) m in
      (map_err (\<lambda>e. OFailed JsPreparing (''worktree: '' @ e)) r, m))"

section \<open>Building\<close>

definition miss_reason :: "sha \<Rightarrow> cache_miss \<Rightarrow> string" where
  "miss_reason sha miss = (case miss of
     NoBuild \<Rightarrow> ''no build for this commit''
   | NoProvenance \<Rightarrow> ''a build directory with no provenance''
   | WrongSha s \<Rightarrow> ''provenance names '' @ s @ '', not '' @ sha_short sha
   | HashMismatch \<Rightarrow> ''binary hash does not match its provenance'')"

definition run_build ::
    "'w bench_ctx \<Rightarrow> sha \<Rightarrow> string \<Rightarrow> 'w machine \<Rightarrow> (build_result, job_outcome) result \<times> 'w machine" where
  "run_build c sha worktree m =
     (case ask (bp_build c sha worktree) (ActBuild sha worktree) m of
        (Ok r, m) \<Rightarrow> (Ok r, m)
      | (Err e, m) \<Rightarrow>
          (case check_cancel c m of
             (Err out, m) \<Rightarrow> (Err out, m)
           | (Ok _, m) \<Rightarrow> (Err (OFailed JsBuilding e), m)))"

text \<open>The binary to run, with the events that say where it came from; then \<open>k\<close>.\<close>

definition with_binary ::
    "'w bench_ctx \<Rightarrow> sha \<Rightarrow> string \<Rightarrow> job_record \<Rightarrow> 'w machine \<Rightarrow>
     (cached_binary \<Rightarrow> job_record \<Rightarrow> 'w machine \<Rightarrow> (job_outcome, string) result \<times> 'w machine) \<Rightarrow>
     (job_outcome, string) result \<times> 'w machine" where
  "with_binary c sha worktree job m k =
     (case ask (bp_cached_binary c sha) (ActCached sha) m of
        (Ok (Ok b), m) \<Rightarrow>
          st_bind (bench_emit c (EvBuild True (''cache hit for '' @ sha_short sha)) job m) (\<lambda>job m.
          st_bind (bench_emit c (EvBuilt (bi_sha256 b) True 0) job m) (k b))
      | (Ok (Err miss), m) \<Rightarrow>
          st_bind (bench_emit c (EvBuild False (miss_reason sha miss)) job m) (\<lambda>job m.
          or_finish c job (run_build c sha worktree m) (\<lambda>r m.
          st_bind (bench_emit c (EvBuilt (bi_sha256 (bu_binary r)) False (bu_secs r)) job m) (k (bu_binary r))))
      | (Err e, m) \<Rightarrow> bench_finish c job (OFailed JsBuilding e) m)"

definition check_recipes :: "'w bench_ctx \<Rightarrow> cached_binary \<Rightarrow> 'w machine \<Rightarrow> (unit, job_outcome) result \<times> 'w machine" where
  "check_recipes c b m =
     (let (r, m) = ask (bp_ensure_recipes c (bi_path b)) (ActRecipes (bi_path b)) m in
      (case r of Ok _ \<Rightarrow> Ok () | Err e \<Rightarrow> Err (OFailed JsBuilding (''recipes: '' @ e)), m))"

definition check_gate :: "'w bench_ctx \<Rightarrow> sha \<Rightarrow> gate_id \<Rightarrow> cached_binary \<Rightarrow> 'w machine \<Rightarrow> (unit, job_outcome) result \<times> 'w machine" where
  "check_gate c sha gate b m =
     (let (r, m) = ask (bp_known_gates c (bi_path b)) (ActGates (bi_path b)) m in
      (case r of
         Ok known \<Rightarrow>
           if gate_id_str gate \<notin> set known
           then Err (OFailed JsBuilding (''gate '' @ gate_id_str gate @ '' is unknown to the binary at '' @ sha_short sha
             @ ''; it knows: '' @ str_join '', '' known))
           else Ok ()
       | Err e \<Rightarrow> Err (OFailed JsBuilding e), m))"

definition check_job_params ::
    "'w bench_ctx \<Rightarrow> gate_id \<Rightarrow> string list \<Rightarrow> cached_binary \<Rightarrow> 'w machine \<Rightarrow> (unit, job_outcome) result \<times> 'w machine" where
  "check_job_params c gate keys b m =
     (let (r, m) = ask (bp_bad_params c (bi_path b) (gate_id_str gate) keys) (ActBadParams (bi_path b) (gate_id_str gate) keys) m in
      (case r of
         Ok bad \<Rightarrow>
           if bad \<noteq> [] then Err (OFailed JsBuilding (''params not accepted by '' @ gate_id_str gate @ '': '' @ str_join '', '' bad))
           else Ok ()
       | Err e \<Rightarrow> Err (OFailed JsBuilding e), m))"

section \<open>Running\<close>

definition run_argv :: "'w bench_ctx \<Rightarrow> cached_binary \<Rightarrow> job_spec \<Rightarrow> string list" where
  "run_argv c b spec =
     [bi_path b, ''benchmark'', ''run'', gate_id_str (js_gate spec), ''--pull-request-gate'', ''--hardware'', bx_hardware c, ''--yes'']
     @ (if bx_serve_reuse c then [''--serve-reuse'', ''--serve-lease-owner'', show_nat (unat (bx_process_id c))] else [])
     @ (case js_checkpoint spec of Some p \<Rightarrow> [''--checkpoint'', p] | None \<Rightarrow> [])
     @ concat (map (\<lambda>(k, v). [''--param'', k @ ''='' @ v]) (js_params spec))"

definition run_plan_of :: "'w bench_ctx \<Rightarrow> string list \<Rightarrow> string \<Rightarrow> job_record \<Rightarrow> run_plan" where
  "run_plan_of c argv worktree job =
     \<lparr>rp_argv = argv, rp_cwd = worktree, rp_env = bx_child_env c, rp_log_path = bx_child_log_path c (jb_id job),
      rp_stall_timeout = bx_stall_timeout c, rp_max_run = unat (js_max_run_s (jb_spec job))\<rparr>"

definition take_records ::
    "'w bench_ctx \<Rightarrow> string \<Rightarrow> gate_id \<Rightarrow> 'w machine \<Rightarrow> (record_state, job_outcome) result \<times> 'w machine" where
  "take_records c worktree gate m =
     (let (r, m) = ask (bp_record_state c worktree (gate_id_str gate)) (ActRecordState worktree (gate_id_str gate)) m in
      (map_err (\<lambda>e. OFailed JsRunning (''reading the record dir: '' @ e)) r, m))"

definition spawn_child :: "'w bench_ctx \<Rightarrow> run_plan \<Rightarrow> 'w machine \<Rightarrow> (child_handle, job_outcome) result \<times> 'w machine" where
  "spawn_child c plan m =
     (let (r, m) = ask (bp_spawn c plan) (ActSpawn plan) m in (map_err (\<lambda>e. OFailed JsRunning (''spawn: '' @ e)) r, m))"

text \<open>The wait, whose events are journaled as they appear, whatever becomes of them.\<close>

fun append_all :: "'w bench_ctx \<Rightarrow> event_kind list \<Rightarrow> 'w machine \<Rightarrow> 'w machine" where
  "append_all c [] m = m"
| "append_all c (k # ks) m =
     append_all c ks (snd (ask (bx_append c k (bp_now_ms c (mc_world m))) (ActEvent k) m))"

definition wait_child ::
    "'w bench_ctx \<Rightarrow> child_handle \<Rightarrow> run_plan \<Rightarrow> 'w machine \<Rightarrow> (int \<times> verdict option, job_outcome) result \<times> 'w machine" where
  "wait_child c child plan m =
     (let ((ks, end), m) = ask (bp_wait c child plan) (ActWait child plan) m; m = append_all c ks m in
      (case end of
         Ok (ReExited code verdict) \<Rightarrow> Ok (code, verdict)
       | Ok (ReStalled after_s) \<Rightarrow> Err (OTimedOut JsRunning after_s)
       | Ok (ReTimedOut after_s) \<Rightarrow> Err (OTimedOut JsRunning after_s)
       | Ok ReCancelled \<Rightarrow> Err (OCancelled (bx_local c))
       | Err e \<Rightarrow> Err (OFailed JsRunning e), m))"

section \<open>Collecting\<close>

fun emit_artifacts ::
    "'w bench_ctx \<Rightarrow> artifact_meta list \<Rightarrow> job_record \<Rightarrow> 'w machine \<Rightarrow> (job_record, string) result \<times> 'w machine" where
  "emit_artifacts c [] job m = (Ok job, m)"
| "emit_artifacts c (a # as) job m = st_bind (bench_emit c (EvArtifact a) job m) (emit_artifacts c as)"

definition artifact_path :: "artifact_kind \<Rightarrow> artifact_meta list \<Rightarrow> string option" where
  "artifact_path k as = map_option af_relative_path (find (\<lambda>a. af_kind a = k) as)"

definition collect_records ::
    "'w bench_ctx \<Rightarrow> string \<Rightarrow> job_record \<Rightarrow> 'w machine \<Rightarrow> (artifact_meta list, job_outcome) result \<times> 'w machine" where
  "collect_records c worktree job m =
     (let gate = gate_id_str (js_gate (jb_spec job)); dest = bx_artifacts_dir c (jb_id job);
          (r, m) = ask (bp_collect c worktree gate (jb_records_before job) dest)
            (ActCollect worktree gate (jb_records_before job) dest) m in
      (map_err (OFailed JsCollecting) r, m))"

definition emit_verdict ::
    "'w bench_ctx \<Rightarrow> verdict option \<Rightarrow> job_record \<Rightarrow> 'w machine \<Rightarrow> (job_record, string) result \<times> 'w machine" where
  "emit_verdict c verdict job m = (case verdict of Some v \<Rightarrow> bench_emit c (EvVerdict v) job m | None \<Rightarrow> (Ok job, m))"

text \<open>From the end of the child on: of a fresh run, where \<open>strict\<close>, and of a resumed one.\<close>

definition completed :: "bool \<Rightarrow> int \<Rightarrow> verdict option \<Rightarrow> artifact_meta list \<Rightarrow> job_outcome" where
  "completed strict exit_code verdict as =
     (if strict \<and> exit_code = 0 \<and> artifact_path AkRecord as = None
      then OFailed JsCollecting ''the child exited 0 but wrote no gate record''
      else OCompleted exit_code verdict (artifact_path AkRecord as) (artifact_path AkSignature as))"

definition collect_phase ::
    "'w bench_ctx \<Rightarrow> bool \<Rightarrow> string \<Rightarrow> int \<Rightarrow> verdict option \<Rightarrow> job_record \<Rightarrow> 'w machine \<Rightarrow> (job_outcome, string) result \<times> 'w machine" where
  "collect_phase c strict worktree exit_code verdict job m =
     st_bind (emit_verdict c verdict job m) (\<lambda>job m.
     st_bind (bench_transition c JsCollecting job m) (\<lambda>job m.
     or_finish c job (collect_records c worktree job m) (\<lambda>as m.
     st_bind (emit_artifacts c as job m) (\<lambda>job m.
     bench_finish c job (completed strict exit_code verdict as) m))))"

definition run_child ::
    "'w bench_ctx \<Rightarrow> string \<Rightarrow> run_plan \<Rightarrow> child_handle \<Rightarrow> job_record \<Rightarrow> 'w machine \<Rightarrow>
     (job_outcome, string) result \<times> 'w machine" where
  "run_child c worktree plan child job m =
     st_bind (bench_transition c JsRunning
       (job\<lparr>jb_child_pid := Some (ch_pid child), jb_child_start_ticks := Some (ch_start_ticks child)\<rparr>) m) (\<lambda>job m.
     st_bind (bench_emit c (EvRunning (ch_pid child) (rp_argv plan)) job m) (\<lambda>job m.
     let (r, m) = wait_child c child plan m; job = job\<lparr>jb_seq_high := bx_seq_high c (mc_world m)\<rparr> in
     or_finish c job (r, m) (\<lambda>(exit_code, verdict) m. collect_phase c True worktree exit_code verdict job m)))"

definition run_phase ::
    "'w bench_ctx \<Rightarrow> string \<Rightarrow> cached_binary \<Rightarrow> job_record \<Rightarrow> 'w machine \<Rightarrow> (job_outcome, string) result \<times> 'w machine" where
  "run_phase c worktree b job m =
     (let plan = run_plan_of c (run_argv c b (jb_spec job)) worktree job in
      or_finish c job (take_records c worktree (js_gate (jb_spec job)) m) (\<lambda>before m.
      let job = job\<lparr>jb_records_before := before\<rparr> in
      or_finish c job (spawn_child c plan m) (\<lambda>child. run_child c worktree plan child job)))"

definition check_phase ::
    "'w bench_ctx \<Rightarrow> string \<Rightarrow> cached_binary \<Rightarrow> job_record \<Rightarrow> 'w machine \<Rightarrow> (job_outcome, string) result \<times> 'w machine" where
  "check_phase c worktree b job m =
     (let job = job\<lparr>jb_binary_sha256 := Some (bi_sha256 b)\<rparr>; spec = jb_spec job in
      st_bind (ask (bx_save c job) (ActSave job) m) (\<lambda>_ m.
      or_finish c job (check_cancel c m) (\<lambda>_ m.
      or_finish c job (check_recipes c b m) (\<lambda>_ m.
      or_finish c job (check_gate c (js_sha spec) (js_gate spec) b m) (\<lambda>_ m.
      or_finish c job (check_job_params c (js_gate spec) (map fst (js_params spec)) b m) (\<lambda>_ m.
      run_phase c worktree b job m))))))"

definition bench_run :: "'w bench_ctx \<Rightarrow> job_record \<Rightarrow> 'w machine \<Rightarrow> (job_outcome, string) result \<times> 'w machine" where
  "bench_run c job m =
     (let sha = js_sha (jb_spec job) in
      st_bind (bench_transition c JsPreparing job m) (\<lambda>job m.
      or_finish c job (prepare_commit c sha m) (\<lambda>fetched m.
      or_finish c job (check_published c sha m) (\<lambda>_ m.
      st_bind (bench_emit c (EvPreparing sha fetched) job m) (\<lambda>job m.
      or_finish c job (prepare_worktree c sha m) (\<lambda>worktree m.
      or_finish c job (check_cancel c m) (\<lambda>_ m.
      st_bind (bench_transition c JsBuilding job m) (\<lambda>job m.
      with_binary c sha worktree job m (check_phase c worktree)))))))))"

section \<open>After a restart\<close>

definition resume_running :: "'w bench_ctx \<Rightarrow> job_record \<Rightarrow> 'w machine \<Rightarrow> (job_outcome, string) result \<times> 'w machine" where
  "resume_running c job m =
     (case (jb_child_pid job, jb_child_start_ticks job) of
        (Some pid, Some ticks) \<Rightarrow>
          (case ask (bp_worktree c (js_sha (jb_spec job))) (ActWorktree (js_sha (jb_spec job))) m of
             (Err e, m) \<Rightarrow> bench_finish c job (OOrphaned (''worktree: '' @ e)) m
           | (Ok worktree, m) \<Rightarrow>
               let (r, m) = wait_child c \<lparr>ch_pid = pid, ch_start_ticks = ticks\<rparr> (run_plan_of c [] worktree job) m;
                   job = job\<lparr>jb_seq_high := bx_seq_high c (mc_world m)\<rparr> in
               or_finish c job (r, m) (\<lambda>(exit_code, verdict) m. collect_phase c False worktree exit_code verdict job m))
      | _ \<Rightarrow> bench_finish c job (OOrphaned ''no child recorded'') m)"

definition bench_orphan :: "'w bench_ctx \<Rightarrow> job_record \<Rightarrow> string \<Rightarrow> 'w machine \<Rightarrow> (job_outcome, string) result \<times> 'w machine" where
  "bench_orphan c job reason m = bench_finish c job (OOrphaned reason) m"

section \<open>What an operation adds to the history\<close>

definition adds :: "'w machine \<Rightarrow> 'r \<times> 'w machine \<Rightarrow> (bench_act list \<Rightarrow> 'r \<Rightarrow> bool) \<Rightarrow> bool" where
  "adds m x P = (\<exists>new. mc_log (snd x) = mc_log m @ new \<and> P new (fst x))"

lemma adds_ask: "(\<And>r. P [act r] r) \<Longrightarrow> adds m (ask op act m) P"
  by (simp add: adds_def ask_def case_prod_beta)

lemma adds_mono: "adds m x P \<Longrightarrow> (\<And>new r. P new r \<Longrightarrow> Q new r) \<Longrightarrow> adds m x Q"
  by (auto simp: adds_def)

lemma adds_map: "adds m x (\<lambda>new r. P new (f r)) \<Longrightarrow> adds m (f (fst x), snd x) P"
  by (simp add: adds_def)

lemma adds_st_bind:
  assumes "adds m x P" "\<And>new e. P new (Err e) \<Longrightarrow> Q new (Err e)"
    and "\<And>new a m'. P new (Ok a) \<Longrightarrow> adds m' (f a m') (\<lambda>n. Q (new @ n))"
  shows "adds m (st_bind x f) Q"
proof -
  obtain r m1 where x: "x = (r, m1)" by fastforce
  from assms(1) x obtain new where new: "mc_log m1 = mc_log m @ new" "P new r" by (auto simp: adds_def)
  show ?thesis
  proof (cases r)
    case (Ok a)
    with assms(3) [of new a m1] new show ?thesis by (auto simp: x adds_def)
  next
    case (Err e)
    with assms(2) new show ?thesis by (auto simp: x adds_def)
  qed
qed

lemma adds_or_finish:
  assumes "adds m x P" "\<And>new out m'. P new (Err out) \<Longrightarrow> adds m' (bench_finish c job out m') (\<lambda>n. Q (new @ n))"
    and "\<And>new a m'. P new (Ok a) \<Longrightarrow> adds m' (k a m') (\<lambda>n. Q (new @ n))"
  shows "adds m (or_finish c job x k) Q"
proof -
  obtain r m1 where x: "x = (r, m1)" by fastforce
  from assms(1) x obtain new where new: "mc_log m1 = mc_log m @ new" "P new r" by (auto simp: adds_def)
  show ?thesis
  proof (cases r)
    case (Ok a)
    with assms(3) [of new a m1] new show ?thesis by (auto simp: x adds_def or_finish_def)
  next
    case (Err out)
    with assms(2) [of new out m1] new show ?thesis by (auto simp: x adds_def or_finish_def)
  qed
qed

section \<open>A job's life\<close>

definition stage_rank :: "job_state \<Rightarrow> nat" where
  "stage_rank s = (case s of JsQueued \<Rightarrow> 0 | JsPreparing \<Rightarrow> 1 | JsBuilding \<Rightarrow> 2 | JsRunning \<Rightarrow> 3 | JsCollecting \<Rightarrow> 4 | JsDone \<Rightarrow> 5)"

definition same_job :: "job_record \<Rightarrow> job_record \<Rightarrow> bool" where
  "same_job a b = (jb_id a = jb_id b \<and> jb_key a = jb_key b \<and> jb_sender a = jb_sender b \<and> jb_spec a = jb_spec b \<and>
     jb_note a = jb_note b \<and> jb_created_at_s a = jb_created_at_s b)"

definition saves :: "bench_act list \<Rightarrow> job_record list" where
  "saves as = List.map_filter (\<lambda>a. case a of ActSave j _ \<Rightarrow> Some j | _ \<Rightarrow> None) as"

definition write_failed :: "string \<Rightarrow> bench_act \<Rightarrow> bool" where
  "write_failed e a = (case a of ActSave _ (Err e') \<Rightarrow> e' = e | ActEvent _ (Err e') \<Rightarrow> e' = e | _ \<Rightarrow> False)"

definition recorded :: "job_outcome \<Rightarrow> bench_act list \<Rightarrow> bool" where
  "recorded out as = (\<exists>pre job. as = pre @ [ActEvent (EvDone out) (Ok ()), ActSave job (Ok ())] \<and>
     jb_state job = JsDone \<and> jb_outcome job = Some out \<and> jb_child_pid job = None \<and> jb_child_start_ticks job = None)"

text \<open>A life from stage \<open>k\<close> on of the job \<open>J\<close>, with a further property of its history.\<close>

definition life :: "nat \<Rightarrow> job_record \<Rightarrow> (bench_act list \<Rightarrow> bool) \<Rightarrow> bench_act list \<Rightarrow> (job_outcome, string) result \<Rightarrow> bool" where
  "life k J G as r =
     ((case r of Ok out \<Rightarrow> recorded out as | Err e \<Rightarrow> \<exists>a\<in>set as. write_failed e a) \<and>
      sorted (map (stage_rank \<circ> jb_state) (saves as)) \<and>
      (\<forall>s\<in>set (saves as). k \<le> stage_rank (jb_state s) \<and> same_job J s) \<and> G as)"

definition inert :: "bench_act list \<Rightarrow> bool" where
  "inert as = (\<forall>a\<in>set as. (\<exists>k x. a = ActEvent k x) \<or> (\<exists>j x. a = ActSave j x))"

lemma saves_simps [simp]:
  "saves [] = []" "saves (as @ bs) = saves as @ saves bs"
  "saves (a # as) = (case a of ActSave j _ \<Rightarrow> j # saves as | _ \<Rightarrow> saves as)"
  by (auto simp: saves_def List.map_filter_def split: bench_act.splits)

lemma recorded_prepend: "recorded out as \<Longrightarrow> recorded out (pre @ as)"
  unfolding recorded_def by (metis append_assoc)

text \<open>A piece of history in front, whose saves are of the stage the rest starts from.\<close>

lemma life_prepend:
  assumes "life k' J (\<lambda>n. G (pre @ n)) as r" "k \<le> k'"
    and "\<forall>s\<in>set (saves pre). stage_rank (jb_state s) = k' \<and> same_job J s"
  shows "life k J G (pre @ as) r"
proof -
  have "sorted (map (stage_rank \<circ> jb_state) (saves pre))"
    using assms(3) by (auto simp: sorted_iff_nth_mono)
  then show ?thesis using assms unfolding life_def
    by (auto simp: sorted_append recorded_prepend split: result.splits)
qed

lemma life_mono: "adds m x (life k J G') \<Longrightarrow> (\<And>n. G' n \<Longrightarrow> G n) \<Longrightarrow> adds m x (life k J G)"
  unfolding life_def by (erule adds_mono) auto

lemma same_job_refl [simp]: "same_job J J"
  by (simp add: same_job_def)

text \<open>Each kind of step.\<close>

lemma bench_finish_life:
  assumes "same_job J job" "k \<le> 5" "\<And>n. inert n \<Longrightarrow> G n"
  shows "adds m (bench_finish c job out m) (life k J G)"
proof -
  obtain e m1 where e: "ask (bx_append c (EvDone out) (bp_now_ms c (mc_world m))) (ActEvent (EvDone out)) m = (e, m1)"
    "mc_log m1 = mc_log m @ [ActEvent (EvDone out) e]" by (simp add: ask_def case_prod_beta)
  show ?thesis
  proof (cases e)
    case (Err x)
    have "G [ActEvent (EvDone out) e]" by (rule assms(3)) (simp add: inert_def)
    then show ?thesis using e Err by (simp add: bench_finish_def bench_emit_def adds_def life_def write_failed_def)
  next
    case (Ok u)
    define job' where "job' = job\<lparr>jb_child_pid := None, jb_child_start_ticks := None, jb_outcome := Some out,
      jb_state := JsDone, jb_updated_at_s := bp_now_ms c (mc_world m1) div 1000, jb_seq_high := bx_seq_high c (mc_world m1)\<rparr>"
    obtain s m2 where s: "ask (bx_save c job') (ActSave job') m1 = (s, m2)" "mc_log m2 = mc_log m1 @ [ActSave job' s]"
      by (simp add: ask_def case_prod_beta)
    have fin: "bench_finish c job out m = st_bind (st_bind (s, m2) (\<lambda>_ m. (Ok job', m))) (\<lambda>_ m. (Ok out, m))"
      using e(1) Ok s(1) by (simp add: bench_finish_def bench_emit_def bench_transition_def job'_def Let_def)
    have j: "jb_state job' = JsDone" "jb_outcome job' = Some out" "jb_child_pid job' = None" "jb_child_start_ticks job' = None"
      "same_job J job'" using assms(1) by (simp_all add: job'_def same_job_def)
    have g: "G [ActEvent (EvDone out) e, ActSave job' s]" by (rule assms(3)) (simp add: inert_def)
    show ?thesis
    proof (cases s)
      case (Ok v)
      have "recorded out [ActEvent (EvDone out) e, ActSave job' s]"
        unfolding recorded_def using Ok \<open>e = Ok u\<close> j by (intro exI [of _ "[]"] exI [of _ job']) simp
      then show ?thesis using g assms(2) j e(2) s(2) Ok unfolding fin by (simp add: adds_def life_def stage_rank_def)
    next
      case (Err x)
      then show ?thesis using g assms(2) j e(2) s(2) unfolding fin by (simp add: adds_def life_def stage_rank_def write_failed_def)
    qed
  qed
qed

lemma life_or_finish:
  assumes "adds m x (\<lambda>new r. saves new = [] \<and> S new r)" "same_job J job" "k \<le> 5"
    and "\<And>new out n. S new (Err out) \<Longrightarrow> inert n \<Longrightarrow> G (new @ n)"
    and "\<And>new a m'. S new (Ok a) \<Longrightarrow> adds m' (f a m') (life k J (\<lambda>n. G (new @ n)))"
  shows "adds m (or_finish c job x f) (life k J G)"
proof (rule adds_or_finish [OF assms(1)])
  fix new out m'
  assume "saves new = [] \<and> S new (Err out)"
  then show "adds m' (bench_finish c job out m') (\<lambda>n. life k J G (new @ n))"
    using assms(4) by (intro adds_mono [OF bench_finish_life [OF assms(2,3), where G = "\<lambda>n. G (new @ n)"]] life_prepend) auto
next
  fix new a m'
  assume "saves new = [] \<and> S new (Ok a)"
  then show "adds m' (f a m') (\<lambda>n. life k J G (new @ n))"
    by (intro adds_mono [OF assms(5)] life_prepend) auto
qed

lemma life_emit:
  assumes "same_job J job"
    and "\<And>n. inert n \<Longrightarrow> G n"
    and "\<And>x job' m'. same_job J job' \<Longrightarrow> jb_state job' = jb_state job \<Longrightarrow> jb_records_before job' = jb_records_before job \<Longrightarrow>
      adds m' (f job' m') (life k J (\<lambda>n. G (ActEvent kind x # n)))"
  shows "adds m (st_bind (bench_emit c kind job m) f) (life k J G)"
proof -
  have "adds m (bench_emit c kind job m) (\<lambda>new r. \<exists>x. new = [ActEvent kind x] \<and>
      (case r of Ok job' \<Rightarrow> same_job J job' \<and> jb_state job' = jb_state job \<and> jb_records_before job' = jb_records_before job | Err e \<Rightarrow> x = Err e))"
    unfolding bench_emit_def
    by (rule adds_st_bind [OF adds_ask [where P = "\<lambda>new r. new = [ActEvent kind r]"]])
      (use assms(1) in \<open>auto simp: adds_def same_job_def\<close>)
  then show ?thesis
  proof (rule adds_st_bind)
    fix new e
    assume "\<exists>x. new = [ActEvent kind x] \<and> (case Err e of Ok job' \<Rightarrow> same_job J job' \<and> jb_state job' = jb_state job \<and> jb_records_before job' = jb_records_before job | Err e \<Rightarrow> x = Err e)"
    then show "life k J G new (Err e)" using assms(2) by (auto simp: life_def write_failed_def inert_def)
  next
    fix new job' m'
    assume "\<exists>x. new = [ActEvent kind x] \<and> (case Ok job' of Ok job' \<Rightarrow> same_job J job' \<and> jb_state job' = jb_state job \<and> jb_records_before job' = jb_records_before job | Err e \<Rightarrow> x = Err e)"
    then obtain x where x: "new = [ActEvent kind x]" "same_job J job'" "jb_state job' = jb_state job" "jb_records_before job' = jb_records_before job" by auto
    show "adds m' (f job' m') (\<lambda>n. life k J G (new @ n))"
      unfolding x(1) by (rule adds_mono [OF assms(3) [OF x(2-4), of m' x]], rule life_prepend) auto
  qed
qed

lemma life_save:
  assumes "same_job J job" "k \<le> stage_rank (jb_state job)" "\<And>n. inert n \<Longrightarrow> G n"
    and "\<And>x m'. adds m' (f m') (life (stage_rank (jb_state job)) J (\<lambda>n. G (ActSave job x # n)))"
  shows "adds m (st_bind (ask (bx_save c job) (ActSave job) m) (\<lambda>_. f)) (life k J G)"
proof (rule adds_st_bind [OF adds_ask [where P = "\<lambda>new r. new = [ActSave job r]"]])
  show "life k J G new (Err e)" if "new = [ActSave job (Err e)]" for new e
    using that assms(1-3) by (auto simp: life_def write_failed_def inert_def)
  show "adds m' (f m') (\<lambda>n. life k J G (new @ n))" if "new = [ActSave job (Ok a)]" for new a m'
    unfolding that by (rule adds_mono [OF assms(4) [of m' "Ok a"]], rule life_prepend) (use assms(1,2) in auto)
qed simp

lemma life_transition:
  assumes "same_job J job" "k \<le> stage_rank s" "\<And>n. inert n \<Longrightarrow> G n"
    and "\<And>j x job' m'. same_job J job' \<Longrightarrow> jb_state job' = s \<Longrightarrow> jb_records_before job' = jb_records_before job \<Longrightarrow>
      adds m' (f job' m') (life (stage_rank s) J (\<lambda>n. G (ActSave j x # n)))"
  shows "adds m (st_bind (bench_transition c s job m) f) (life k J G)"
proof -
  let ?job = "job\<lparr>jb_state := s, jb_updated_at_s := bp_now_ms c (mc_world m) div 1000, jb_seq_high := bx_seq_high c (mc_world m)\<rparr>"
  have eq: "st_bind (bench_transition c s job m) f = st_bind (ask (bx_save c ?job) (ActSave ?job) m) (\<lambda>_. f ?job)"
    by (simp add: bench_transition_def st_bind_def case_prod_beta Let_def split: result.splits)
  have j: "same_job J ?job" using assms(1) by (simp add: same_job_def)
  show ?thesis unfolding eq
  proof (rule life_save [OF j])
    show "k \<le> stage_rank (jb_state ?job)" using assms(2) by simp
    show "G n" if "inert n" for n using that by (rule assms(3))
    show "adds m' (f ?job m') (life (stage_rank (jb_state ?job)) J (\<lambda>n. G (ActSave ?job x # n)))" for x m'
      using assms(4) [OF j, of m' ?job x] by simp
  qed
qed

section \<open>Who may start a child\<close>

definition spawn_justified :: "'w bench_ctx \<Rightarrow> job_record \<Rightarrow> bench_act set \<Rightarrow> run_plan \<Rightarrow> bench_act list \<Rightarrow> bool" where
  "spawn_justified c J A plan post =
     (let spec = jb_spec J; sha = js_sha spec; gate = gate_id_str (js_gate spec) in
      \<exists>b worktree before.
        ActHasCommit sha (Ok True) \<in> A \<and> (bx_allow_unpublished c \<or> ActPublished sha (Ok True) \<in> A) \<and>
        ActWorktree sha (Ok worktree) \<in> A \<and>
        (ActCached sha (Ok (Ok b)) \<in> A \<or> (\<exists>r. ActBuild sha worktree (Ok r) \<in> A \<and> bu_binary r = b)) \<and>
        (\<exists>known. ActGates (bi_path b) (Ok known) \<in> A \<and> gate \<in> set known) \<and>
        ActBadParams (bi_path b) gate (map fst (js_params spec)) (Ok []) \<in> A \<and>
        rp_argv plan = run_argv c b spec \<and> rp_cwd plan = worktree \<and>
        ActRecordState worktree gate (Ok before) \<in> A \<and>
        (\<forall>a\<in>set post. (\<forall>p x. a \<noteq> ActSpawn p x) \<and>
           (\<forall>w g bef d x. a = ActCollect w g bef d x \<longrightarrow> w = worktree \<and> g = gate \<and> bef = before)))"

definition no_spawn :: "bench_act list \<Rightarrow> bool" where
  "no_spawn as = (\<forall>a\<in>set as. \<forall>p x. a \<noteq> ActSpawn p x)"

definition guarded :: "'w bench_ctx \<Rightarrow> job_record \<Rightarrow> bench_act set \<Rightarrow> bench_act list \<Rightarrow> bool" where
  "guarded c J A as = (\<forall>pre plan r post. as = pre @ ActSpawn plan r # post \<longrightarrow> spawn_justified c J (A \<union> set pre) plan post)"

lemma no_spawn_simps [simp]:
  "no_spawn []" "no_spawn (a # as) \<longleftrightarrow> (\<forall>p x. a \<noteq> ActSpawn p x) \<and> no_spawn as"
  "no_spawn (as @ bs) \<longleftrightarrow> no_spawn as \<and> no_spawn bs"
  by (auto simp: no_spawn_def)

lemma inert_no_spawn: "inert as \<Longrightarrow> no_spawn as"
  by (auto simp: inert_def no_spawn_def)

lemma no_spawn_guarded: "no_spawn as \<Longrightarrow> guarded c J A as"
  by (auto simp: guarded_def)

lemma guarded_prepend:
  assumes "no_spawn as" "guarded c J (A \<union> set as) bs"
  shows "guarded c J A (as @ bs)"
  unfolding guarded_def
proof (intro allI impI)
  fix pre plan r post
  assume "as @ bs = pre @ ActSpawn plan r # post"
  with assms(1) obtain pre' where "pre = as @ pre'" "bs = pre' @ ActSpawn plan r # post"
    by (auto simp: append_eq_append_conv2 append_eq_Cons_conv)
  with assms(2) show "spawn_justified c J (A \<union> set pre) plan post" by (simp add: guarded_def Un_assoc)
qed

text \<open>More answers justify more.\<close>

lemma spawn_justified_mono: "spawn_justified c J A plan post \<Longrightarrow> A \<subseteq> B \<Longrightarrow> spawn_justified c J B plan post"
  unfolding spawn_justified_def Let_def by (elim exE conjE, intro exI conjI) blast+

lemma guarded_mono: "guarded c J A as \<Longrightarrow> A \<subseteq> B \<Longrightarrow> guarded c J B as"
  unfolding guarded_def by (metis Un_mono order_refl spawn_justified_mono)

lemma guarded_step: "guarded c J A n \<Longrightarrow> no_spawn [a] \<Longrightarrow> guarded c J A (a # n)"
  using guarded_prepend [of "[a]" c J A n] guarded_mono [of c J A n "A \<union> set [a]"] by (simp add: subset_insertI)

lemma guarded_finish:
  assumes "adds m x (\<lambda>new r. saves new = [] \<and> no_spawn new \<and> (case r of Ok a \<Rightarrow> \<phi> a (set new) | Err _ \<Rightarrow> True))"
    and "same_job J job" "k \<le> 5"
    and "\<And>a B m'. \<phi> a B \<Longrightarrow> adds m' (f a m') (life k J (guarded c J (A \<union> B)))"
  shows "adds m (or_finish c job x f) (life k J (guarded c J A))"
proof (rule life_or_finish [OF assms(1-3)])
  fix new out n
  assume "no_spawn new \<and> (case Err out of Ok a \<Rightarrow> \<phi> a (set new) | Err _ \<Rightarrow> True)" "inert n"
  then show "guarded c J A (new @ n)" by (simp add: no_spawn_guarded inert_no_spawn)
next
  fix new a m'
  assume "no_spawn new \<and> (case Ok a of Ok a \<Rightarrow> \<phi> a (set new) | Err _ \<Rightarrow> True)"
  then show "adds m' (f a m') (life k J (\<lambda>n. guarded c J A (new @ n)))"
    by (intro life_mono [OF assms(4)] guarded_prepend) auto
qed

lemma guarded_emit:
  assumes "same_job J job"
    and "\<And>job' m'. same_job J job' \<Longrightarrow> jb_state job' = jb_state job \<Longrightarrow> adds m' (f job' m') (life k J (guarded c J A))"
  shows "adds m (st_bind (bench_emit c kind job m) f) (life k J (guarded c J A))"
proof (rule life_emit [OF assms(1)])
  fix x job' m'
  assume "same_job J job'" "jb_state job' = jb_state job"
  from assms(2) [OF this, of m'] show "adds m' (f job' m') (life k J (\<lambda>n. guarded c J A (ActEvent kind x # n)))"
    by (rule life_mono) (simp add: guarded_step)
qed (simp add: no_spawn_guarded inert_no_spawn)

lemma guarded_transition:
  assumes "same_job J job" "k \<le> stage_rank s"
    and "\<And>job' m'. same_job J job' \<Longrightarrow> jb_state job' = s \<Longrightarrow> adds m' (f job' m') (life (stage_rank s) J (guarded c J A))"
  shows "adds m (st_bind (bench_transition c s job m) f) (life k J (guarded c J A))"
proof (rule life_transition [OF assms(1,2)])
  fix j x job' m'
  assume "same_job J job'" "jb_state job' = s"
  from assms(3) [OF this, of m'] show "adds m' (f job' m') (life (stage_rank s) J (\<lambda>n. guarded c J A (ActSave j x # n)))"
    by (rule life_mono) (simp add: guarded_step)
qed (simp add: no_spawn_guarded inert_no_spawn)

lemma guarded_save:
  assumes "same_job J job" "k \<le> stage_rank (jb_state job)"
    and "\<And>m'. adds m' (f m') (life (stage_rank (jb_state job)) J (guarded c J A))"
  shows "adds m (st_bind (ask (bx_save c job) (ActSave job) m) (\<lambda>_. f)) (life k J (guarded c J A))"
proof (rule life_save [OF assms(1,2)])
  fix x m'
  from assms(3) [of m'] show "adds m' (f m') (life (stage_rank (jb_state job)) J (\<lambda>n. guarded c J A (ActSave job x # n)))"
    by (rule life_mono) (simp add: guarded_step)
qed (simp add: no_spawn_guarded inert_no_spawn)

section \<open>The phases\<close>

text \<open>What each question that can end a job adds, before the child.\<close>

lemma ask_cases:
  obtains r w where "ask op act m = (r, \<lparr>mc_world = w, mc_log = mc_log m @ [act r]\<rparr>)"
  by (simp add: ask_def case_prod_beta)

lemma check_cancel_adds:
  "adds m (check_cancel c m) (\<lambda>new r. saves new = [] \<and> no_spawn new \<and> (case r of Ok a \<Rightarrow> True | Err _ \<Rightarrow> True))"
  by (rule ask_cases [of "bx_cancel c" ActCancelled m]) (simp add: check_cancel_def adds_def split: result.splits)

lemma prepare_commit_adds:
  "adds m (prepare_commit c sha m) (\<lambda>new r. saves new = [] \<and> no_spawn new \<and>
     (case r of Ok a \<Rightarrow> ActHasCommit sha (Ok True) \<in> set new | Err _ \<Rightarrow> True))"
proof -
  obtain r w where 1: "ask (bp_has_commit c sha) (ActHasCommit sha) m = (r, \<lparr>mc_world = w, mc_log = mc_log m @ [ActHasCommit sha r]\<rparr>)"
    by (rule ask_cases)
  obtain f w2 where 2: "ask (bp_fetch c) ActFetch \<lparr>mc_world = w, mc_log = mc_log m @ [ActHasCommit sha r]\<rparr> =
      (f, \<lparr>mc_world = w2, mc_log = mc_log m @ [ActHasCommit sha r, ActFetch f]\<rparr>)" by (simp add: ask_def case_prod_beta)
  obtain q w3 where 3: "ask (bp_has_commit c sha) (ActHasCommit sha) \<lparr>mc_world = w2, mc_log = mc_log m @ [ActHasCommit sha r, ActFetch f]\<rparr> =
      (q, \<lparr>mc_world = w3, mc_log = mc_log m @ [ActHasCommit sha r, ActFetch f, ActHasCommit sha q]\<rparr>)" by (simp add: ask_def case_prod_beta)
  show ?thesis using 1 2 3 by (auto simp: prepare_commit_def adds_def split: result.splits bool.splits)
qed

lemma check_published_adds:
  "adds m (check_published c sha m) (\<lambda>new r. saves new = [] \<and> no_spawn new \<and>
     (case r of Ok a \<Rightarrow> bx_allow_unpublished c \<or> ActPublished sha (Ok True) \<in> set new | Err _ \<Rightarrow> True))"
  by (rule ask_cases [of "bp_published c sha" "ActPublished sha" m])
    (auto simp: check_published_def adds_def split: result.splits bool.splits)

lemma prepare_worktree_adds:
  "adds m (prepare_worktree c sha m) (\<lambda>new r. saves new = [] \<and> no_spawn new \<and>
     (case r of Ok a \<Rightarrow> ActWorktree sha (Ok a) \<in> set new | Err _ \<Rightarrow> True))"
  by (rule ask_cases [of "bp_worktree c sha" "ActWorktree sha" m])
    (auto simp: prepare_worktree_def adds_def map_err_def split: result.splits)

lemma run_build_adds:
  "adds m (run_build c sha worktree m) (\<lambda>new r. saves new = [] \<and> no_spawn new \<and>
     (case r of Ok a \<Rightarrow> ActBuild sha worktree (Ok a) \<in> set new | Err _ \<Rightarrow> True))"
proof -
  obtain r w where 1: "ask (bp_build c sha worktree) (ActBuild sha worktree) m =
      (r, \<lparr>mc_world = w, mc_log = mc_log m @ [ActBuild sha worktree r]\<rparr>)" by (rule ask_cases)
  obtain b w2 where 2: "ask (bx_cancel c) ActCancelled \<lparr>mc_world = w, mc_log = mc_log m @ [ActBuild sha worktree r]\<rparr> =
      (b, \<lparr>mc_world = w2, mc_log = mc_log m @ [ActBuild sha worktree r, ActCancelled b]\<rparr>)" by (simp add: ask_def case_prod_beta)
  show ?thesis using 1 2 by (auto simp: run_build_def check_cancel_def adds_def split: result.splits)
qed

lemma check_recipes_adds:
  "adds m (check_recipes c b m) (\<lambda>new r. saves new = [] \<and> no_spawn new \<and> (case r of Ok a \<Rightarrow> True | Err _ \<Rightarrow> True))"
  by (rule ask_cases [of "bp_ensure_recipes c (bi_path b)" "ActRecipes (bi_path b)" m])
    (auto simp: check_recipes_def adds_def split: result.splits)

lemma check_gate_adds:
  "adds m (check_gate c sha gate b m) (\<lambda>new r. saves new = [] \<and> no_spawn new \<and>
     (case r of Ok a \<Rightarrow> \<exists>known. ActGates (bi_path b) (Ok known) \<in> set new \<and> gate_id_str gate \<in> set known | Err _ \<Rightarrow> True))"
  by (rule ask_cases [of "bp_known_gates c (bi_path b)" "ActGates (bi_path b)" m])
    (auto simp: check_gate_def adds_def split: result.splits if_splits)

lemma check_job_params_adds:
  "adds m (check_job_params c gate keys b m) (\<lambda>new r. saves new = [] \<and> no_spawn new \<and>
     (case r of Ok a \<Rightarrow> ActBadParams (bi_path b) (gate_id_str gate) keys (Ok []) \<in> set new | Err _ \<Rightarrow> True))"
  by (rule ask_cases [of "bp_bad_params c (bi_path b) (gate_id_str gate) keys" "ActBadParams (bi_path b) (gate_id_str gate) keys" m])
    (auto simp: check_job_params_def adds_def split: result.splits if_splits)

lemma take_records_adds:
  "adds m (take_records c worktree gate m) (\<lambda>new r. saves new = [] \<and> no_spawn new \<and>
     (case r of Ok a \<Rightarrow> ActRecordState worktree (gate_id_str gate) (Ok a) \<in> set new | Err _ \<Rightarrow> True))"
  by (rule ask_cases [of "bp_record_state c worktree (gate_id_str gate)" "ActRecordState worktree (gate_id_str gate)" m])
    (auto simp: take_records_def adds_def map_err_def split: result.splits)

text \<open>A property of every entry, that events and saves have.\<close>

definition writes_ok :: "(bench_act \<Rightarrow> bool) \<Rightarrow> bool" where
  "writes_ok H = ((\<forall>k x. H (ActEvent k x)) \<and> (\<forall>j x. H (ActSave j x)))"

lemma writes_ok_inert: "writes_ok H \<Longrightarrow> inert n \<Longrightarrow> \<forall>a\<in>set n. H a"
  by (auto simp: writes_ok_def inert_def)

lemma all_finish:
  assumes "adds m x (\<lambda>new r. saves new = [] \<and> (\<forall>a\<in>set new. H a))" "same_job J job" "k \<le> 5" "writes_ok H"
    and "\<And>a m'. adds m' (f a m') (life k J (\<lambda>n. \<forall>a\<in>set n. H a))"
  shows "adds m (or_finish c job x f) (life k J (\<lambda>n. \<forall>a\<in>set n. H a))"
proof (rule life_or_finish [OF assms(1-3)])
  show "\<forall>a\<in>set (new @ n). H a" if "\<forall>a\<in>set new. H a" "inert n" for new n
    using that writes_ok_inert [OF assms(4)] by auto
  show "adds m' (f a m') (life k J (\<lambda>n. \<forall>a\<in>set (new @ n). H a))" if "\<forall>a\<in>set new. H a" for new a m'
    using that by (intro life_mono [OF assms(5)]) auto
qed

lemma all_emit:
  assumes "same_job J job" "writes_ok H"
    and "\<And>job' m'. same_job J job' \<Longrightarrow> jb_state job' = jb_state job \<Longrightarrow> jb_records_before job' = jb_records_before job \<Longrightarrow>
      adds m' (f job' m') (life k J (\<lambda>n. \<forall>a\<in>set n. H a))"
  shows "adds m (st_bind (bench_emit c kind job m) f) (life k J (\<lambda>n. \<forall>a\<in>set n. H a))"
proof (rule life_emit [OF assms(1)])
  show "\<forall>a\<in>set n. H a" if "inert n" for n using that writes_ok_inert [OF assms(2)] by blast
  fix x job' m'
  assume "same_job J job'" "jb_state job' = jb_state job" "jb_records_before job' = jb_records_before job"
  from assms(3) [OF this, of m'] show "adds m' (f job' m') (life k J (\<lambda>n. \<forall>a\<in>set (ActEvent kind x # n). H a))"
    by (rule life_mono) (use assms(2) in \<open>auto simp: writes_ok_def\<close>)
qed

lemma all_transition:
  assumes "same_job J job" "k \<le> stage_rank s" "writes_ok H"
    and "\<And>job' m'. same_job J job' \<Longrightarrow> jb_state job' = s \<Longrightarrow> jb_records_before job' = jb_records_before job \<Longrightarrow>
      adds m' (f job' m') (life (stage_rank s) J (\<lambda>n. \<forall>a\<in>set n. H a))"
  shows "adds m (st_bind (bench_transition c s job m) f) (life k J (\<lambda>n. \<forall>a\<in>set n. H a))"
proof (rule life_transition [OF assms(1,2)])
  show "\<forall>a\<in>set n. H a" if "inert n" for n using that writes_ok_inert [OF assms(3)] by blast
  fix j x job' m'
  assume "same_job J job'" "jb_state job' = s" "jb_records_before job' = jb_records_before job"
  from assms(4) [OF this, of m'] show "adds m' (f job' m') (life (stage_rank s) J (\<lambda>n. \<forall>a\<in>set (ActSave j x # n). H a))"
    by (rule life_mono) (use assms(3) in \<open>auto simp: writes_ok_def\<close>)
qed

lemma st_bind_assoc: "st_bind (st_bind x f) g = st_bind x (\<lambda>a s. st_bind (f a s) g)"
  by (auto simp: st_bind_def split: prod.splits result.splits)

lemma all_emit_artifacts:
  assumes "writes_ok H" "\<And>job' m'. same_job J job' \<Longrightarrow> adds m' (f job' m') (life k J (\<lambda>n. \<forall>a\<in>set n. H a))"
  shows "same_job J job \<Longrightarrow> adds m (st_bind (emit_artifacts c as job m) f) (life k J (\<lambda>n. \<forall>a\<in>set n. H a))"
proof (induction as arbitrary: job m)
  case Nil
  then show ?case by (simp add: assms(2))
next
  case (Cons a as)
  show ?case unfolding emit_artifacts.simps st_bind_assoc
    by (rule all_emit [OF Cons.prems assms(1)]) (rule Cons.IH)
qed

lemma append_all_adds: "adds m ((), append_all c ks m) (\<lambda>new r. \<forall>a\<in>set new. \<exists>k x. a = ActEvent k x)"
proof (induction ks arbitrary: m)
  case (Cons k ks)
  obtain r w where a: "ask (bx_append c k (bp_now_ms c (mc_world m))) (ActEvent k) m =
      (r, \<lparr>mc_world = w, mc_log = mc_log m @ [ActEvent k r]\<rparr>)" by (rule ask_cases)
  from Cons.IH [of "\<lparr>mc_world = w, mc_log = mc_log m @ [ActEvent k r]\<rparr>"] show ?case by (auto simp: adds_def a)
qed (simp add: adds_def)

lemma events_no_saves: "\<forall>a\<in>set new. \<exists>k x. a = ActEvent k x \<Longrightarrow> saves new = []"
  by (induction new) auto

lemma wait_child_adds:
  assumes "writes_ok H" "\<And>x. H (ActWait child plan x)"
  shows "adds m (wait_child c child plan m) (\<lambda>new r. saves new = [] \<and> (\<forall>a\<in>set new. H a))"
proof -
  obtain x w where a: "ask (bp_wait c child plan) (ActWait child plan) m =
      (x, \<lparr>mc_world = w, mc_log = mc_log m @ [ActWait child plan x]\<rparr>)" by (rule ask_cases)
  from append_all_adds [of "\<lparr>mc_world = w, mc_log = mc_log m @ [ActWait child plan x]\<rparr>" c "fst x"] obtain new where
    new: "mc_log (append_all c (fst x) \<lparr>mc_world = w, mc_log = mc_log m @ [ActWait child plan x]\<rparr>) = mc_log m @ ActWait child plan x # new"
    "\<forall>a\<in>set new. \<exists>k x. a = ActEvent k x" by (auto simp: adds_def)
  then have "saves new = []" "\<forall>a\<in>set new. H a" using events_no_saves assms(1) by (auto simp: writes_ok_def)
  with new(1) show ?thesis unfolding adds_def
    by (intro exI [of _ "ActWait child plan x # new"]) (simp add: wait_child_def a case_prod_beta Let_def assms(2))
qed

lemma collect_phase_life:
  assumes "same_job J job" "k \<le> 4" "writes_ok H"
    and "\<And>d x. H (ActCollect worktree (gate_id_str (js_gate (jb_spec J))) (jb_records_before job) d x)"
  shows "adds m (collect_phase c strict worktree exit_code verdict job m) (life k J (\<lambda>n. \<forall>a\<in>set n. H a))"
proof -
  have rest: "adds m' (st_bind (bench_transition c JsCollecting job' m') (\<lambda>job m.
     or_finish c job (collect_records c worktree job m) (\<lambda>as m.
     st_bind (emit_artifacts c as job m) (\<lambda>job m.
     bench_finish c job (completed strict exit_code verdict as) m)))) (life k J (\<lambda>n. \<forall>a\<in>set n. H a))"
    if j: "same_job J job'" "jb_records_before job' = jb_records_before job" for job' m'
  proof (rule all_transition [OF j(1) _ assms(3)])
    show "k \<le> stage_rank JsCollecting" using assms(2) by (simp add: stage_rank_def)
    fix j2 m2
    assume j2: "same_job J j2" "jb_state j2 = JsCollecting" "jb_records_before j2 = jb_records_before job'"
    show "adds m2 (or_finish c j2 (collect_records c worktree j2 m2) (\<lambda>as m. st_bind (emit_artifacts c as j2 m) (\<lambda>job m.
       bench_finish c job (completed strict exit_code verdict as) m))) (life (stage_rank JsCollecting) J (\<lambda>n. \<forall>a\<in>set n. H a))"
    proof (rule all_finish [OF _ j2(1) _ assms(3)])
      have "H (ActCollect worktree (gate_id_str (js_gate (jb_spec j2))) (jb_records_before j2) d x)" for d x
        using assms(4) j2 j(2) by (simp add: same_job_def)
      then show "adds m2 (collect_records c worktree j2 m2) (\<lambda>new r. saves new = [] \<and> (\<forall>a\<in>set new. H a))"
        by (simp add: collect_records_def Let_def case_prod_beta ask_def adds_def)
      fix as m3
      show "adds m3 (st_bind (emit_artifacts c as j2 m3) (\<lambda>job m. bench_finish c job (completed strict exit_code verdict as) m))
        (life (stage_rank JsCollecting) J (\<lambda>n. \<forall>a\<in>set n. H a))"
        by (rule all_emit_artifacts [OF assms(3) bench_finish_life j2(1)])
          (auto simp: stage_rank_def dest: writes_ok_inert [OF assms(3)])
    qed (simp add: stage_rank_def)
  qed
  show ?thesis
  proof (cases verdict)
    case None
    then show ?thesis using rest [OF assms(1) refl, of m] by (simp add: collect_phase_def emit_verdict_def)
  next
    case (Some v)
    show ?thesis unfolding collect_phase_def emit_verdict_def Some option.case
      by (rule all_emit [OF assms(1,3)]) (rule rest [unfolded Some])
  qed
qed

text \<open>After the child was started nothing else is, and only its own records are collected.\<close>

definition after_spawn :: "string \<Rightarrow> string \<Rightarrow> record_state \<Rightarrow> bench_act \<Rightarrow> bool" where
  "after_spawn worktree gate before a =
     ((\<forall>p x. a \<noteq> ActSpawn p x) \<and> (\<forall>w g bef d x. a = ActCollect w g bef d x \<longrightarrow> w = worktree \<and> g = gate \<and> bef = before))"

lemma after_spawn_writes [simp]: "writes_ok (after_spawn worktree gate before)"
  by (simp add: writes_ok_def after_spawn_def)

lemma guarded_spawn:
  assumes "spawn_justified c J A plan n"
  shows "guarded c J A (ActSpawn plan r # n)"
  unfolding guarded_def
proof (intro allI impI)
  fix pre plan' r' post
  assume e: "ActSpawn plan r # n = pre @ ActSpawn plan' r' # post"
  have "\<forall>a\<in>set n. \<forall>p x. a \<noteq> ActSpawn p x" using assms unfolding spawn_justified_def Let_def by blast
  with e have "pre = []" by (auto simp: Cons_eq_append_conv)
  with e assms show "spawn_justified c J (A \<union> set pre) plan' post" by simp
qed

text \<open>The wait and the collection, of a fresh and of a resumed run.\<close>

lemma wait_collect_life:
  assumes "same_job J job" "k \<le> 4" "writes_ok H" "\<And>x. H (ActWait child plan x)"
    and "\<And>d x. H (ActCollect worktree (gate_id_str (js_gate (jb_spec J))) (jb_records_before job) d x)"
  shows "adds m (let (r, m) = wait_child c child plan m; job = job\<lparr>jb_seq_high := bx_seq_high c (mc_world m)\<rparr> in
     or_finish c job (r, m) (\<lambda>(exit_code, verdict) m. collect_phase c strict worktree exit_code verdict job m))
     (life k J (\<lambda>n. \<forall>a\<in>set n. H a))"
proof -
  let ?w = "wait_child c child plan m"
  let ?j = "job\<lparr>jb_seq_high := bx_seq_high c (mc_world (snd ?w))\<rparr>"
  have sj: "same_job J ?j" using assms(1) by (simp add: same_job_def)
  have "adds m (or_finish c ?j ?w (\<lambda>(exit_code, verdict) m. collect_phase c strict worktree exit_code verdict ?j m))
    (life k J (\<lambda>n. \<forall>a\<in>set n. H a))"
  proof (rule all_finish [OF wait_child_adds [OF assms(3,4)] sj _ assms(3)])
    fix a m'
    have "adds m' (collect_phase c strict worktree (fst a) (snd a) ?j m') (life k J (\<lambda>n. \<forall>a\<in>set n. H a))"
      by (rule collect_phase_life [OF sj assms(2,3)]) (simp add: assms(5))
    then show "adds m' ((\<lambda>(exit_code, verdict) m. collect_phase c strict worktree exit_code verdict ?j m) a m')
      (life k J (\<lambda>n. \<forall>a\<in>set n. H a))" by (simp add: case_prod_beta)
  qed (use assms(2) in simp)
  then show ?thesis by (cases ?w) (simp add: Let_def)
qed

lemma run_child_life:
  assumes "same_job J job" "k \<le> 3" "jb_records_before job = before"
  shows "adds m (run_child c worktree plan child job m)
    (life k J (\<lambda>n. \<forall>a\<in>set n. after_spawn worktree (gate_id_str (js_gate (jb_spec J))) before a))"
  unfolding run_child_def
proof (rule all_transition)
  show "same_job J (job\<lparr>jb_child_pid := Some (ch_pid child), jb_child_start_ticks := Some (ch_start_ticks child)\<rparr>)"
    using assms(1) by (simp add: same_job_def)
  show "k \<le> stage_rank JsRunning" using assms(2) by (simp add: stage_rank_def)
  fix j2 m2
  assume j2: "same_job J j2" "jb_records_before j2 =
    jb_records_before (job\<lparr>jb_child_pid := Some (ch_pid child), jb_child_start_ticks := Some (ch_start_ticks child)\<rparr>)"
  show "adds m2 (st_bind (bench_emit c (EvRunning (ch_pid child) (rp_argv plan)) j2 m2) (\<lambda>job m.
     let (r, m) = wait_child c child plan m; job = job\<lparr>jb_seq_high := bx_seq_high c (mc_world m)\<rparr> in
     or_finish c job (r, m) (\<lambda>(exit_code, verdict) m. collect_phase c True worktree exit_code verdict job m)))
    (life (stage_rank JsRunning) J (\<lambda>n. \<forall>a\<in>set n. after_spawn worktree (gate_id_str (js_gate (jb_spec J))) before a))"
    by (rule all_emit [OF j2(1) after_spawn_writes], rule wait_collect_life [OF _ _ after_spawn_writes])
      (use j2 assms(3) in \<open>simp_all add: after_spawn_def stage_rank_def\<close>)
qed simp

lemma run_phase_life:
  assumes j: "same_job J job" and "k \<le> 3"
    and facts: "ActHasCommit (js_sha (jb_spec J)) (Ok True) \<in> A"
      "bx_allow_unpublished c \<or> ActPublished (js_sha (jb_spec J)) (Ok True) \<in> A"
      "ActWorktree (js_sha (jb_spec J)) (Ok worktree) \<in> A"
      "ActCached (js_sha (jb_spec J)) (Ok (Ok b)) \<in> A \<or> (\<exists>r. ActBuild (js_sha (jb_spec J)) worktree (Ok r) \<in> A \<and> bu_binary r = b)"
      "\<exists>known. ActGates (bi_path b) (Ok known) \<in> A \<and> gate_id_str (js_gate (jb_spec J)) \<in> set known"
      "ActBadParams (bi_path b) (gate_id_str (js_gate (jb_spec J))) (map fst (js_params (jb_spec J))) (Ok []) \<in> A"
  shows "adds m (run_phase c worktree b job m) (life k J (guarded c J A))"
proof -
  let ?gate = "gate_id_str (js_gate (jb_spec J))" and ?plan = "run_plan_of c (run_argv c b (jb_spec job)) worktree job"
  have spec: "jb_spec job = jb_spec J" using j by (simp add: same_job_def)
  have k5: "k \<le> 5" using assms(2) by simp
  show ?thesis unfolding run_phase_def Let_def
  proof (rule guarded_finish [OF take_records_adds j k5])
    fix before B m1
    assume B: "ActRecordState worktree (gate_id_str (js_gate (jb_spec job))) (Ok before) \<in> B"
    let ?job = "job\<lparr>jb_records_before := before\<rparr>"
    have j1: "same_job J ?job" using j by (simp add: same_job_def)
    have just: "guarded c J (A \<union> B) (ActSpawn ?plan x # n)" if "\<forall>a\<in>set n. after_spawn worktree ?gate before a" for x n
    proof (rule guarded_spawn)
      have "rp_argv ?plan = run_argv c b (jb_spec J)" "rp_cwd ?plan = worktree"
        "ActRecordState worktree ?gate (Ok before) \<in> A \<union> B" using B by (simp_all add: run_plan_of_def spec)
      with facts that show "spawn_justified c J (A \<union> B) ?plan n"
        unfolding spawn_justified_def Let_def after_spawn_def by (intro exI [of _ b] exI [of _ worktree] exI [of _ before]) blast
    qed
    have spawn: "adds m1 (spawn_child c ?plan m1) (\<lambda>new r. saves new = [] \<and> (\<exists>x. new = [ActSpawn ?plan x]))"
      by (rule ask_cases [of "bp_spawn c ?plan" "ActSpawn ?plan" m1]) (simp add: spawn_child_def adds_def)
    show "adds m1 (or_finish c ?job (spawn_child c ?plan m1) (\<lambda>child. run_child c worktree ?plan child ?job))
      (life k J (guarded c J (A \<union> B)))"
    proof (rule life_or_finish [OF spawn j1 k5])
      show "guarded c J (A \<union> B) (new @ n)" if "\<exists>x. new = [ActSpawn ?plan x]" "inert n" for new n
        using that just writes_ok_inert [OF after_spawn_writes that(2)] by auto
      fix new child m2
      assume "\<exists>x. new = [ActSpawn ?plan x]"
      then obtain x where "new = [ActSpawn ?plan x]" ..
      then show "adds m2 (run_child c worktree ?plan child ?job m2) (life k J (\<lambda>n. guarded c J (A \<union> B) (new @ n)))"
        by (intro life_mono [OF run_child_life [OF j1 assms(2) refl]]) (simp add: just)
    qed
  qed
qed

lemma check_phase_life:
  assumes j: "same_job J job" "jb_state job = JsBuilding" and "k \<le> 2"
    and facts: "ActHasCommit (js_sha (jb_spec J)) (Ok True) \<in> A"
      "bx_allow_unpublished c \<or> ActPublished (js_sha (jb_spec J)) (Ok True) \<in> A"
      "ActWorktree (js_sha (jb_spec J)) (Ok worktree) \<in> A"
      "ActCached (js_sha (jb_spec J)) (Ok (Ok b)) \<in> A \<or> (\<exists>r. ActBuild (js_sha (jb_spec J)) worktree (Ok r) \<in> A \<and> bu_binary r = b)"
  shows "adds m (check_phase c worktree b job m) (life k J (guarded c J A))"
proof -
  let ?job = "job\<lparr>jb_binary_sha256 := Some (bi_sha256 b)\<rparr>"
  have j1: "same_job J ?job" and spec: "jb_spec job = jb_spec J" using j(1) by (simp_all add: same_job_def)
  have r: "stage_rank (jb_state ?job) = 2" by (simp add: j(2) stage_rank_def)
  show ?thesis unfolding check_phase_def Let_def
    by (rule guarded_save [OF j1], unfold r, rule assms(3),
        rule guarded_finish [OF check_cancel_adds j1], simp,
        rule guarded_finish [OF check_recipes_adds j1], simp,
        rule guarded_finish [OF check_gate_adds j1], simp,
        rule guarded_finish [OF check_job_params_adds j1], simp,
        rule run_phase_life [OF j1]) (use facts spec in auto)
qed

lemma with_binary_life:
  assumes j: "same_job J job" "jb_state job = JsBuilding" and "k \<le> 2"
    and facts: "ActHasCommit (js_sha (jb_spec J)) (Ok True) \<in> A"
      "bx_allow_unpublished c \<or> ActPublished (js_sha (jb_spec J)) (Ok True) \<in> A"
      "ActWorktree (js_sha (jb_spec J)) (Ok worktree) \<in> A"
  shows "adds m (with_binary c (js_sha (jb_spec J)) worktree job m (check_phase c worktree)) (life k J (guarded c J A))"
proof -
  let ?sha = "js_sha (jb_spec J)"
  obtain r w where a: "ask (bp_cached_binary c ?sha) (ActCached ?sha) m =
      (r, \<lparr>mc_world = w, mc_log = mc_log m @ [ActCached ?sha r]\<rparr>)" by (rule ask_cases)
  let ?m = "\<lparr>mc_world = w, mc_log = mc_log m @ [ActCached ?sha r]\<rparr>"
  have step: "adds m x (life k J (guarded c J A))" if "adds ?m x (life k J (guarded c J (A \<union> {ActCached ?sha r})))" for x
  proof -
    from that obtain n where n: "mc_log (snd x) = mc_log m @ ActCached ?sha r # n"
      "life k J (guarded c J (A \<union> {ActCached ?sha r})) n (fst x)" by (auto simp: adds_def)
    have "life k J (\<lambda>n. guarded c J A ([ActCached ?sha r] @ n)) n (fst x)"
      using n(2) guarded_prepend [of "[ActCached ?sha r]" c J A] unfolding life_def by simp
    then have "life k J (guarded c J A) ([ActCached ?sha r] @ n) (fst x)" by (rule life_prepend) simp_all
    with n(1) show ?thesis by (auto simp: adds_def)
  qed
  show ?thesis
  proof (cases r)
    case (Err e)
    have "adds ?m (bench_finish c job (OFailed JsBuilding e) ?m) (life k J (guarded c J (A \<union> {ActCached ?sha r})))"
      by (rule bench_finish_life [OF j(1)]) (use assms(3) in \<open>simp_all add: no_spawn_guarded inert_no_spawn\<close>)
    then show ?thesis using step Err by (simp add: with_binary_def a)
  next
    case (Ok q)
    show ?thesis
    proof (cases q)
      case hit: (Ok b)
      have "adds ?m (st_bind (bench_emit c (EvBuild True (''cache hit for '' @ sha_short ?sha)) job ?m) (\<lambda>job m.
          st_bind (bench_emit c (EvBuilt (bi_sha256 b) True 0) job m) (check_phase c worktree b)))
          (life k J (guarded c J (A \<union> {ActCached ?sha r})))"
        by (rule guarded_emit [OF j(1)], rule guarded_emit, assumption, rule check_phase_life)
          (use assms Ok hit in auto)
      then show ?thesis using step Ok hit by (simp add: with_binary_def a)
    next
      case miss: (Err x)
      have "adds ?m (st_bind (bench_emit c (EvBuild False (miss_reason ?sha x)) job ?m) (\<lambda>job m.
          or_finish c job (run_build c ?sha worktree m) (\<lambda>r m.
          st_bind (bench_emit c (EvBuilt (bi_sha256 (bu_binary r)) False (bu_secs r)) job m) (check_phase c worktree (bu_binary r)))))
          (life k J (guarded c J (A \<union> {ActCached ?sha r})))"
        by (rule guarded_emit [OF j(1)], rule guarded_finish [OF run_build_adds], assumption, use assms(3) in simp,
            rule guarded_emit, assumption, rule check_phase_life) (use assms in auto)
      then show ?thesis using step Ok miss by (simp add: with_binary_def a)
    qed
  qed
qed

lemma bench_run_life: "adds m (bench_run c J m) (life 1 J (guarded c J {}))"
proof -
  have r: "stage_rank JsPreparing = 1" "stage_rank JsBuilding = 2" by (simp_all add: stage_rank_def)
  show ?thesis unfolding bench_run_def Let_def
    by (rule guarded_transition [OF same_job_refl], simp add: r, unfold r,
        rule guarded_finish [OF prepare_commit_adds], assumption, simp,
        rule guarded_finish [OF check_published_adds], assumption, simp,
        rule guarded_emit, assumption,
        rule guarded_finish [OF prepare_worktree_adds], assumption, simp,
        rule guarded_finish [OF check_cancel_adds], assumption, simp,
        rule guarded_transition, assumption, simp add: r, unfold r,
        rule with_binary_life) auto
qed

text \<open>Nothing is started on resuming, and the records set aside before the restart are the ones compared.\<close>

definition resumes :: "job_record \<Rightarrow> bench_act \<Rightarrow> bool" where
  "resumes J a =
     ((\<forall>p x. a \<noteq> ActSpawn p x) \<and>
      (\<forall>w g bef d x. a = ActCollect w g bef d x \<longrightarrow> g = gate_id_str (js_gate (jb_spec J)) \<and> bef = jb_records_before J))"

lemma resumes_writes [simp]: "writes_ok (resumes J)"
  by (simp add: writes_ok_def resumes_def)

lemma orphan_life: "k \<le> 5 \<Longrightarrow> adds m (bench_finish c J out m) (life k J (\<lambda>n. \<forall>a\<in>set n. resumes J a))"
  by (rule bench_finish_life) (auto dest: writes_ok_inert [OF resumes_writes])

lemma resume_running_life: "adds m (resume_running c J m) (life 4 J (\<lambda>n. \<forall>a\<in>set n. resumes J a))"
proof (cases "\<exists>pid ticks. jb_child_pid J = Some pid \<and> jb_child_start_ticks J = Some ticks")
  case False
  then have "resume_running c J m = bench_finish c J (OOrphaned ''no child recorded'') m"
    by (auto simp: resume_running_def split: option.splits)
  then show ?thesis by (simp add: orphan_life)
next
  case True
  then obtain pid ticks where p: "jb_child_pid J = Some pid" "jb_child_start_ticks J = Some ticks" by blast
  let ?sha = "js_sha (jb_spec J)"
  obtain r w where a: "ask (bp_worktree c ?sha) (ActWorktree ?sha) m =
      (r, \<lparr>mc_world = w, mc_log = mc_log m @ [ActWorktree ?sha r]\<rparr>)" by (rule ask_cases)
  let ?m = "\<lparr>mc_world = w, mc_log = mc_log m @ [ActWorktree ?sha r]\<rparr>"
  have step: "adds m x (life 4 J (\<lambda>n. \<forall>a\<in>set n. resumes J a))"
    if "adds ?m x (life 4 J (\<lambda>n. \<forall>a\<in>set n. resumes J a))" for x
  proof -
    from that obtain n where n: "mc_log (snd x) = mc_log m @ ActWorktree ?sha r # n"
      "life 4 J (\<lambda>n. \<forall>a\<in>set n. resumes J a) n (fst x)" by (auto simp: adds_def)
    then have "life 4 J (\<lambda>n. \<forall>a\<in>set ([ActWorktree ?sha r] @ n). resumes J a) n (fst x)"
      by (simp add: life_def resumes_def)
    then have "life 4 J (\<lambda>n. \<forall>a\<in>set n. resumes J a) ([ActWorktree ?sha r] @ n) (fst x)" by (rule life_prepend) simp_all
    with n(1) show ?thesis by (auto simp: adds_def)
  qed
  show ?thesis
  proof (cases r)
    case (Err e)
    then show ?thesis using step [OF orphan_life] by (simp add: resume_running_def p a)
  next
    case (Ok worktree)
    have "resume_running c J m =
        (let (r, m) = wait_child c \<lparr>ch_pid = pid, ch_start_ticks = ticks\<rparr> (run_plan_of c [] worktree J) ?m;
           job = J\<lparr>jb_seq_high := bx_seq_high c (mc_world m)\<rparr> in
         or_finish c job (r, m) (\<lambda>(exit_code, verdict) m. collect_phase c False worktree exit_code verdict job m))"
      using Ok a by (simp add: resume_running_def p)
    moreover have "adds ?m \<dots> (life 4 J (\<lambda>n. \<forall>a\<in>set n. resumes J a))"
      by (rule wait_collect_life [OF _ _ resumes_writes]) (simp_all add: resumes_def)
    ultimately show ?thesis using step by simp
  qed
qed

section \<open>What the machine guarantees\<close>

definition ends_recorded :: "bench_act list \<Rightarrow> (job_outcome, string) result \<Rightarrow> bool" where
  "ends_recorded new r = (case r of Ok out \<Rightarrow> recorded out new | Err e \<Rightarrow> \<exists>a\<in>set new. write_failed e a)"

text \<open>
  However a job ends, run or resumed or given up, its outcome is the last thing written: a
  \<open>Done\<close> event and then the record in state \<open>Done\<close> that carries the outcome and no child. The
  machine fails only with the error of a save or an append that failed.
\<close>
lemma outcome_is_recorded:
  "adds m (bench_run c job m) ends_recorded \<and> adds m (resume_running c job m) ends_recorded \<and>
   adds m (bench_orphan c job reason m) ends_recorded"
proof -
  have ends: "life k J G new r \<Longrightarrow> ends_recorded new r" for k J G new r
    by (simp add: life_def ends_recorded_def)
  have "adds m (bench_orphan c job reason m) (life 5 job (\<lambda>n. \<forall>a\<in>set n. resumes job a))"
    unfolding bench_orphan_def by (rule orphan_life) simp
  then show ?thesis
    by (intro conjI adds_mono [OF bench_run_life] adds_mono [OF resume_running_life]) (auto intro: ends elim: adds_mono)
qed

text \<open>
  C24. The records a run saves are of the job it was given, never queued again, and their states
  only move forward; a resumed job is never saved as anything but collecting or done.
\<close>
theorem states_only_move_forward:
  "adds m (bench_run c job m) (\<lambda>new _. sorted (map (stage_rank \<circ> jb_state) (saves new)) \<and>
      (\<forall>s\<in>set (saves new). same_job job s \<and> jb_state s \<noteq> JsQueued)) \<and>
   adds m (resume_running c job m) (\<lambda>new _. sorted (map (stage_rank \<circ> jb_state) (saves new)) \<and>
      (\<forall>s\<in>set (saves new). same_job job s \<and> jb_state s \<in> {JsCollecting, JsDone}))"
proof -
  have rank: "\<not> 1 \<le> stage_rank JsQueued" "4 \<le> stage_rank s \<Longrightarrow> s \<in> {JsCollecting, JsDone}" for s
    by (cases s; simp add: stage_rank_def)+
  show ?thesis
    by (intro conjI adds_mono [OF bench_run_life] adds_mono [OF resume_running_life]) (use rank in \<open>fastforce simp: life_def\<close>)+
qed

text \<open>
  C25. A child is started only once, and only after the commit was found in the mirror, found
  published (or the node takes unpublished ones), checked out, and its binary found verified or
  built from that checkout; for a gate that binary knows and parameters it accepts; with the
  command line of the job. What it leaves is told from the records set aside before it started.
  A resumed job starts nothing.
\<close>
theorem child_is_justified:
  "adds m (bench_run c job m) (\<lambda>new _. \<forall>pre plan r post. new = pre @ ActSpawn plan r # post \<longrightarrow>
      spawn_justified c job (set pre) plan post) \<and>
   adds m (resume_running c job m) (\<lambda>new _. \<forall>a\<in>set new. resumes job a)"
  by (intro conjI adds_mono [OF bench_run_life] adds_mono [OF resume_running_life]) (auto simp: life_def guarded_def)

text \<open>
  A resumed job is not collected as a fresh run would be: a child that exits 0 and leaves no record
  is a failure there and a completed job here.
\<close>

lemma resumed_without_record:
  "completed True 0 v as \<noteq> completed False 0 v as \<longleftrightarrow> artifact_path AkRecord as = None"
  "artifact_path AkRecord as = None \<Longrightarrow> completed False 0 v as = OCompleted 0 v None (artifact_path AkSignature as)"
  by (simp_all add: completed_def)

section \<open>An example\<close>

definition ex_bench :: "unit bench_ctx" where
  "ex_bench = \<lparr>bp_now_ms = (\<lambda>_. 5000), bp_has_commit = (\<lambda>_ w. (Ok True, w)), bp_fetch = Pair (Ok ()),
     bp_published = (\<lambda>_ w. (Ok True, w)), bp_worktree = (\<lambda>_ w. (Ok ''/wt'', w)),
     bp_cached_binary = (\<lambda>_ w. (Ok (Ok \<lparr>bi_path = ''/bin'', bi_sha256 = ''aa''\<rparr>), w)),
     bp_build = (\<lambda>_ _ w. (Err ''no compiler'', w)), bp_ensure_recipes = (\<lambda>_ w. (Ok False, w)),
     bp_known_gates = (\<lambda>_ w. (Ok [''g''], w)), bp_bad_params = (\<lambda>_ _ _ w. (Ok [], w)),
     bp_spawn = (\<lambda>_ w. (Ok \<lparr>ch_pid = 7, ch_start_ticks = 9\<rparr>, w)),
     bp_wait = (\<lambda>_ _ w. (([], Ok (ReExited 0 None)), w)), bp_record_state = (\<lambda>_ _ w. (Ok [], w)),
     bp_collect = (\<lambda>_ _ _ _ w. (Ok [], w)), bx_cancel = Pair False, bx_save = (\<lambda>_ w. (Ok (), w)),
     bx_append = (\<lambda>_ _ w. (Ok (), w)), bx_seq_high = (\<lambda>_. 3), bx_child_log_path = (\<lambda>_. ''/log''),
     bx_artifacts_dir = (\<lambda>_. ''/art''), bx_local = NodeId [1], bx_hardware = ''spark'', bx_child_env = [],
     bx_stall_timeout = 60, bx_allow_unpublished = False, bx_serve_reuse = False, bx_process_id = 1\<rparr>"

definition ex_job :: job_record where
  "ex_job = \<lparr>jb_id = JobId ''j'', jb_key = JobKey ''k'', jb_sender = NodeId [2],
     jb_spec = \<lparr>js_sha = Sha ''ab'', js_gate = GateId ''g'', js_params = [], js_checkpoint = None, js_max_run_s = 5\<rparr>,
     jb_note = None, jb_state = JsQueued, jb_created_at_s = 1, jb_updated_at_s = 1, jb_child_pid = Some 7,
     jb_child_start_ticks = Some 9, jb_binary_sha256 = None, jb_records_before = [], jb_seq_high = 1, jb_outcome = None\<rparr>"

definition ex_machine :: "unit machine" where
  "ex_machine = \<lparr>mc_world = (), mc_log = []\<rparr>"

lemma fresh_and_resumed_differ:
  "fst (bench_run ex_bench ex_job ex_machine) = Ok (OFailed JsCollecting ''the child exited 0 but wrote no gate record'')"
  "fst (resume_running ex_bench ex_job ex_machine) = Ok (OCompleted 0 None None None)"
  by code_simp+

theorem states_only_move_forward_witness:
  "map jb_state (saves (mc_log (snd (bench_run ex_bench ex_job ex_machine)))) =
     [JsPreparing, JsBuilding, JsBuilding, JsRunning, JsCollecting, JsDone] \<and>
   sorted (map (stage_rank \<circ> jb_state) (saves (mc_log (snd (bench_run ex_bench ex_job ex_machine)))))"
proof -
  have "map jb_state (saves (mc_log (snd (bench_run ex_bench ex_job ex_machine)))) =
     [JsPreparing, JsBuilding, JsBuilding, JsRunning, JsCollecting, JsDone]" by code_simp
  then show ?thesis using states_only_move_forward [of ex_machine ex_bench ex_job] by (simp add: adds_def ex_machine_def)
qed

theorem child_is_justified_witness:
  "\<exists>pre plan r post. mc_log (snd (bench_run ex_bench ex_job ex_machine)) = pre @ ActSpawn plan r # post \<and>
     rp_argv plan = [''/bin'', ''benchmark'', ''run'', ''g'', ''--pull-request-gate'', ''--hardware'', ''spark'', ''--yes''] \<and>
     spawn_justified ex_bench ex_job (set pre) plan post"
proof -
  let ?as = "mc_log (snd (bench_run ex_bench ex_job ex_machine))"
  have n: "?as = take 16 ?as @ ?as ! 16 # drop 17 ?as" by code_simp
  have a: "?as ! 16 = ActSpawn (run_plan_of ex_bench (run_argv ex_bench \<lparr>bi_path = ''/bin'', bi_sha256 = ''aa''\<rparr> (jb_spec ex_job)) ''/wt'' ex_job)
      (Ok \<lparr>ch_pid = 7, ch_start_ticks = 9\<rparr>)" by code_simp
  have v: "rp_argv (run_plan_of ex_bench (run_argv ex_bench \<lparr>bi_path = ''/bin'', bi_sha256 = ''aa''\<rparr> (jb_spec ex_job)) ''/wt'' ex_job) =
     [''/bin'', ''benchmark'', ''run'', ''g'', ''--pull-request-gate'', ''--hardware'', ''spark'', ''--yes'']" by code_simp
  from n a have e: "?as = take 16 ?as @ ActSpawn (run_plan_of ex_bench (run_argv ex_bench \<lparr>bi_path = ''/bin'', bi_sha256 = ''aa''\<rparr> (jb_spec ex_job)) ''/wt'' ex_job)
      (Ok \<lparr>ch_pid = 7, ch_start_ticks = 9\<rparr>) # drop 17 ?as" by simp
  from child_is_justified [of ex_machine ex_bench ex_job] have
    "\<forall>pre plan r post. ?as = pre @ ActSpawn plan r # post \<longrightarrow> spawn_justified ex_bench ex_job (set pre) plan post"
    by (simp add: adds_def ex_machine_def)
  with e v show ?thesis by blast
qed

end
