(* ===== verification/Bench_Host.thy ===== *)
theory Bench_Host
  imports Bench_Store Bench_Machine
begin

text \<open>
  What a peer can ask of the benchmark host (\<open>metralectl-agent/src/bench/host.rs\<close>): submitting,
  asking after, cancelling and reading jobs; with the node's configuration
  (\<open>bench/config.rs\<close>).

  Every operation takes the host's state to the answer and the state after it. What the code calls
  from outside is in two records: \<open>bench_lib\<close> holds the functions of libraries (the JSON of an
  event, SHA-256, base64), \<open>bench_env\<close> what one call meets (clocks, free disk, file operations that fail).
  A monotonic instant is its nanoseconds.

  The theorems: a submission is accepted at most once and found again by its key, changes no other
  job, and fills the queue no further than its depth; no peer is accepted more than 30 times within a minute; and the chunks
  a peer reads one after the other are the artifact.
\<close>

section \<open>Configuration\<close>

record bench_config =
  bc_metrale_repo :: string
  bc_metrale_home :: string
  bc_hardware :: string
  bc_env :: "(string, string) btree"
  bc_cache_dir :: string
  bc_allowed_remote :: string
  bc_allow_unpublished_shas :: bool
  bc_queue_depth :: "32 word"
  bc_max_run_s :: "32 word"
  bc_build_timeout_s :: "32 word"
  bc_stall_timeout_s :: "32 word"
  bc_cancel_grace_s :: "32 word"
  bc_min_free_fraction :: f64
  bc_min_free_disk_bytes :: "64 word"
  bc_keep_builds :: "32 word"
  bc_retain_jobs :: "32 word"
  bc_retain_days :: "32 word"
  bc_sync_recipes :: bool
  bc_serve_reuse :: bool
  bc_serve_release_after_s :: "32 word"
  bc_collect_extra :: "string list"

text \<open>What a file with the four required keys is read as.\<close>

definition default_config :: "string \<Rightarrow> string \<Rightarrow> string \<Rightarrow> string \<Rightarrow> bench_config" where
  "default_config repo home hardware cache =
     \<lparr>bc_metrale_repo = repo, bc_metrale_home = home, bc_hardware = hardware, bc_env = [], bc_cache_dir = cache,
      bc_allowed_remote = ''origin'', bc_allow_unpublished_shas = False, bc_queue_depth = 2, bc_max_run_s = 10800,
      bc_build_timeout_s = 3600, bc_stall_timeout_s = 1800, bc_cancel_grace_s = 30,
      bc_min_free_fraction = F64 False 85 2, bc_min_free_disk_bytes = 20 * 1024 * 1024 * 1024, bc_keep_builds = 5,
      bc_retain_jobs = 50, bc_retain_days = 7, bc_sync_recipes = True, bc_serve_reuse = False,
      bc_serve_release_after_s = 600, bc_collect_extra = []\<rparr>"

datatype config_error =
    NotACheckout string
  | NotADirectory string
  | NotABoxClass string
  | BadEnvKey string
  | EnvControl string
  | PrependNotADirectory string
  | NoQueue
  | BadFreeFraction f64
  | NoTime
  | NotARemote string
  | ConfigUnreadable string
  | ConfigUnparsable string

fun check_env :: "(string \<times> string) list \<Rightarrow> (unit, config_error) result" where
  "check_env [] = Ok ()"
| "check_env ((k, v) # es) =
     (if k = [] \<or> \<not> list_all (\<lambda>c. is_ascii_alphanumeric c \<or> c = CHR ''_'') k then Err (BadEnvKey k)
      else if list_ex char_is_control (str_chars v) then Err (EnvControl k)
      else check_env es)"

definition check_prepend :: "(string \<Rightarrow> bool) \<Rightarrow> bench_config \<Rightarrow> (unit, config_error) result" where
  "check_prepend is_dir c =
     (case bt_get (bc_env c) ''PATH_PREPEND'' of
        None \<Rightarrow> Ok ()
      | Some p \<Rightarrow>
          (case find (\<lambda>d. \<not> is_dir d) (split_on (CHR '':'') p) of
             Some d \<Rightarrow> Err (PrependNotADirectory d)
           | None \<Rightarrow> Ok ()))"

definition f64_one :: f64 where
  "f64_one = F64 False 1 0"

text \<open>\<open>has repo name\<close>: there is such a file under that directory.\<close>

definition config_validate ::
    "(string \<Rightarrow> string \<Rightarrow> bool) \<Rightarrow> (string \<Rightarrow> bool) \<Rightarrow> bench_config \<Rightarrow> (unit, config_error) result" where
  "config_validate has is_dir c =
     (if \<not> has (bc_metrale_repo c) ''.git'' \<and> \<not> has (bc_metrale_repo c) ''HEAD'' then Err (NotACheckout (bc_metrale_repo c))
      else if \<not> is_dir (bc_metrale_home c) then Err (NotADirectory (bc_metrale_home c))
      else if bc_hardware c = [] \<or> \<not> list_all (\<lambda>x. is_ascii_alphanumeric x \<or> x = CHR ''-'') (bc_hardware c)
        then Err (NotABoxClass (bc_hardware c))
      else
        result_bind (check_env (bc_env c)) (\<lambda>_.
        result_bind (check_prepend is_dir c) (\<lambda>_.
        if bc_queue_depth c = 0 then Err NoQueue
        else if bc_min_free_fraction c = F64NaN \<or> f64_lt (bc_min_free_fraction c) f64_zero \<or> f64_lt f64_one (bc_min_free_fraction c)
          then Err (BadFreeFraction (bc_min_free_fraction c))
        else if bc_max_run_s c = 0 \<or> bc_build_timeout_s c = 0 \<or> bc_stall_timeout_s c = 0 then Err NoTime
        else if bc_allowed_remote c = [] \<or> CHR ''/'' \<in> set (bc_allowed_remote c) then Err (NotARemote (bc_allowed_remote c))
        else Ok ())))"

datatype read_end = ReadText string | ReadMissing | ReadFailed string

text \<open>Loading, where process groups are: no file is a disabled surface, not an error.\<close>

definition config_load ::
    "(string \<Rightarrow> (bench_config, string) result) \<Rightarrow> (string \<Rightarrow> string \<Rightarrow> bool) \<Rightarrow> (string \<Rightarrow> bool) \<Rightarrow> read_end \<Rightarrow>
     (bench_config option, config_error) result" where
  "config_load parse has is_dir rd = (case rd of
     ReadMissing \<Rightarrow> Ok None
   | ReadFailed e \<Rightarrow> Err (ConfigUnreadable e)
   | ReadText t \<Rightarrow>
       (case parse t of
          Err e \<Rightarrow> Err (ConfigUnparsable e)
        | Ok c \<Rightarrow> result_bind (config_validate has is_dir c) (\<lambda>_. Ok (Some c))))"

definition jobs_dir :: "bench_config \<Rightarrow> string" where
  "jobs_dir c = bc_cache_dir c @ ''/jobs''"

definition builds_dir :: "bench_config \<Rightarrow> string" where
  "builds_dir c = bc_cache_dir c @ ''/build''"

definition worktrees_dir :: "bench_config \<Rightarrow> string" where
  "worktrees_dir c = bc_cache_dir c @ ''/worktrees''"

definition target_dir :: "bench_config \<Rightarrow> string" where
  "target_dir c = bc_cache_dir c @ ''/target''"

definition child_env :: "(string \<Rightarrow> string option) \<Rightarrow> bench_config \<Rightarrow> (string \<times> string) list" where
  "child_env getenv c =
     (let base_path = (case getenv ''PATH'' of Some p \<Rightarrow> p | None \<Rightarrow> ''/usr/bin:/bin'') in
      List.map_filter (\<lambda>k. map_option (\<lambda>v. (k, v)) (getenv k)) [''HOME'', ''USER'', ''LANG'', ''TERM''] @
      [(''PATH'', case bt_get (bc_env c) ''PATH_PREPEND'' of Some p \<Rightarrow> p @ '':'' @ base_path | None \<Rightarrow> base_path),
       (''METRALE_HOME'', bc_metrale_home c), (''CARGO_TARGET_DIR'', target_dir c)] @
      filter (\<lambda>(k, _). k \<noteq> ''PATH_PREPEND'') (bc_env c))"

section \<open>The host\<close>

record bench_lib =
  bl_enc :: "event_kind journal_event \<Rightarrow> string"
  bl_dec :: "string \<Rightarrow> event_kind journal_event option"
  bl_digest :: "string \<Rightarrow> 8 word list"
  bl_base64 :: "string \<Rightarrow> string"

record bench_env =
  be_instant :: int
  be_now_s :: "64 word"
  be_later_s :: "64 word"
  be_disk_free :: "64 word option"
  be_io :: faults
  be_write :: write_end

record bench_host =
  ho_cfg :: bench_config
  ho_store :: job_store
  ho_local :: node_id
  ho_journals :: "(job_id \<times> journal) list"
  ho_cancels :: "(job_id \<times> bool) list"
  ho_running :: "job_id option"
  ho_submits :: "(node_id \<times> int list) list"

definition SUBMITS_PER_MINUTE :: nat where
  "SUBMITS_PER_MINUTE = 30"

definition refuse :: "bench_host \<Rightarrow> bench_refusal \<Rightarrow> 'i bench_rep" where
  "refuse h r = RepRefused (ho_local h) r"

definition events_of :: "bench_host \<Rightarrow> job_id \<Rightarrow> string option" where
  "events_of h i = Option.bind (dir_of (ho_store h) i) jd_events"

definition host_journal :: "bench_lib \<Rightarrow> job_id \<Rightarrow> bench_host \<Rightarrow> (journal, string) result \<times> bench_host" where
  "host_journal lib i h =
     (case map_of (ho_journals h) i of
        Some j \<Rightarrow> (Ok j, h)
      | None \<Rightarrow>
          (case journal_open (bl_dec lib) i (events_of h i) of
             Err e \<Rightarrow> (Err e, h)
           | Ok j \<Rightarrow> (Ok j, h\<lparr>ho_journals := (i, j) # ho_journals h\<rparr>)))"

text \<open>An append through the journal that is open.\<close>

definition host_append ::
    "bench_lib \<Rightarrow> write_end \<Rightarrow> job_id \<Rightarrow> event_kind \<Rightarrow> 64 word \<Rightarrow> bench_host \<Rightarrow> (unit, string) result \<times> bench_host" where
  "host_append lib w i kind at_ms h =
     st_bind (host_journal lib i h) (\<lambda>j h.
       let w = (if dir_of (ho_store h) i = None then OpenFailed else w);
           (r, j, fl) = journal_append (bl_enc lib) is_heartbeat w kind at_ms (j, events_of h i) in
       (case r of Ok _ \<Rightarrow> Ok () | Err e \<Rightarrow> Err e,
        h\<lparr>ho_journals := AList.update i j (ho_journals h),
          ho_store := update_dir i (\<lambda>d. d\<lparr>jd_events := fl\<rparr>) (ho_store h)\<rparr>))"

definition seq_high :: "bench_host \<Rightarrow> job_id \<Rightarrow> 64 word" where
  "seq_high h i = (case map_of (ho_journals h) i of Some j \<Rightarrow> jo_seq j | None \<Rightarrow> 0)"

definition set_running :: "job_id option \<Rightarrow> bench_host \<Rightarrow> bench_host" where
  "set_running i h = h\<lparr>ho_running := i\<rparr>"

definition register_cancel :: "job_id \<Rightarrow> bench_host \<Rightarrow> bench_host" where
  "register_cancel i h = h\<lparr>ho_cancels := AList.update i False (ho_cancels h)\<rparr>"

definition forget_cancel :: "job_id \<Rightarrow> bench_host \<Rightarrow> bench_host" where
  "forget_cancel i h =
     h\<lparr>ho_cancels := filter (\<lambda>e. fst e \<noteq> i) (ho_cancels h), ho_journals := filter (\<lambda>e. fst e \<noteq> i) (ho_journals h)\<rparr>"

section \<open>Submitting\<close>

definition minute :: int where
  "minute = 60 * 1000000000"

definition submits_of :: "bench_host \<Rightarrow> node_id \<Rightarrow> int list" where
  "submits_of h sender = (case map_of (ho_submits h) sender of Some q \<Rightarrow> q | None \<Rightarrow> [])"

definition rate_limited :: "node_id \<Rightarrow> int \<Rightarrow> bench_host \<Rightarrow> 32 word option \<times> bench_host" where
  "rate_limited sender now h =
     (let q = dropWhile (\<lambda>t. minute < now - t) (submits_of h sender) in
      if SUBMITS_PER_MINUTE \<le> length q then (Some 60, h\<lparr>ho_submits := AList.update sender q (ho_submits h)\<rparr>)
      else (None, h\<lparr>ho_submits := AList.update sender (q @ [now]) (ho_submits h)\<rparr>))"

definition queued :: "faults \<Rightarrow> bench_host \<Rightarrow> (job_record list, string) result" where
  "queued io h =
     result_bind (store_list io (ho_store h)) (\<lambda>rs. Ok (by_age (filter (\<lambda>j. jb_state j = JsQueued) rs)))"

fun index_of :: "('a \<Rightarrow> bool) \<Rightarrow> 'a list \<Rightarrow> nat option" where
  "index_of P [] = None"
| "index_of P (x # xs) = (if P x then Some 0 else map_option Suc (index_of P xs))"

definition position_of :: "faults \<Rightarrow> job_id \<Rightarrow> bench_host \<Rightarrow> 32 word" where
  "position_of io i h =
     (case queued io h of
        Err _ \<Rightarrow> 0
      | Ok q \<Rightarrow> (case index_of (\<lambda>j. jb_id j = i) q of Some p \<Rightarrow> of_nat p + 1 | None \<Rightarrow> 0))"

record submission =
  su_key :: job_key
  su_sha :: sha
  su_gate :: gate_id
  su_params :: "(string, string) btree"
  su_checkpoint :: "string option"
  su_hardware :: "string option"
  su_max_run_s :: "32 word option"
  su_note :: "string option"

definition bad_checkpoint :: "string \<Rightarrow> bool" where
  "bad_checkpoint c =
     (c = [] \<or> 128 < length c \<or>
      \<not> list_all (\<lambda>ch. case ch of [x] \<Rightarrow> is_ascii_alphanumeric x \<or> x \<in> set ''._/-'' | _ \<Rightarrow> False) (str_chars c))"

definition check_submission :: "bench_config \<Rightarrow> submission \<Rightarrow> bench_refusal option" where
  "check_submission cfg su =
     (case check_params (su_params su) of
        Err e \<Rightarrow> Some (BrBadParams [e])
      | Ok _ \<Rightarrow>
          if (case su_checkpoint su of Some c \<Rightarrow> bad_checkpoint c | None \<Rightarrow> False)
          then Some (BrBadParams [NotACheckpoint (the (su_checkpoint su))])
          else if (case su_hardware su of Some hw \<Rightarrow> hw \<noteq> bc_hardware cfg | None \<Rightarrow> False)
          then Some (BrNotConfigured
            (''this node's box class is '' @ bc_hardware cfg @ '', not '' @ the (su_hardware su))
            ''submit for the class the node is, or pick another node'')
          else None)"

definition clip_note :: "string \<Rightarrow> string" where
  "clip_note n = concat (take MAX_NOTE (filter (\<lambda>c. \<not> char_is_control c) (str_chars n)))"

definition spec_of :: "bench_config \<Rightarrow> submission \<Rightarrow> job_spec" where
  "spec_of cfg su =
     \<lparr>js_sha = su_sha su, js_gate = su_gate su, js_params = su_params su, js_checkpoint = su_checkpoint su,
      js_max_run_s = (case su_max_run_s su of Some m \<Rightarrow> min m (bc_max_run_s cfg) | None \<Rightarrow> bc_max_run_s cfg)\<rparr>"

definition queued_record :: "job_id \<Rightarrow> node_id \<Rightarrow> submission \<Rightarrow> job_spec \<Rightarrow> 64 word \<Rightarrow> job_record" where
  "queued_record i sender su spec now =
     \<lparr>jb_id = i, jb_key = su_key su, jb_sender = sender, jb_spec = spec, jb_note = map_option clip_note (su_note su),
      jb_state = JsQueued, jb_created_at_s = now, jb_updated_at_s = now, jb_child_pid = None,
      jb_child_start_ticks = None, jb_binary_sha256 = None, jb_records_before = [], jb_seq_high = 0, jb_outcome = None\<rparr>"

text \<open>A submission under a new key.\<close>

definition enqueue ::
    "bench_lib \<Rightarrow> bench_env \<Rightarrow> node_id \<Rightarrow> submission \<Rightarrow> job_spec \<Rightarrow> bench_host \<Rightarrow> 'i bench_rep \<times> bench_host" where
  "enqueue lib env sender su spec h =
     (let depth = (case queued (be_io env) h of Ok q \<Rightarrow> of_nat (length q) | Err _ \<Rightarrow> - 1) in
      if bc_queue_depth (ho_cfg h) \<le> depth then (refuse h (BrQueueFull depth 300), h)
      else if (case be_disk_free env of Some free \<Rightarrow> free < bc_min_free_disk_bytes (ho_cfg h) | None \<Rightarrow> False)
      then (refuse h (BrDiskLow (the (be_disk_free env)) (bc_min_free_disk_bytes (ho_cfg h))), h)
      else
        let i = mint_id (bl_digest lib) (be_now_s env) (su_key su) sender;
            (r, s) = store_create (be_io env) (queued_record i sender su spec (be_now_s env)) (ho_store h);
            h = h\<lparr>ho_store := s\<rparr> in
        (case r of
           Err e \<Rightarrow> (refuse h (BrNotConfigured (''cannot create the job: '' @ e) ''check the cache directory''), h)
         | Ok _ \<Rightarrow>
             (RepAccepted i False JsQueued (depth + 1),
              snd (host_append lib (be_write env) i (EvQueued (depth + 1)) (be_now_s env * 1000) h))))"

definition bench_submit ::
    "bench_lib \<Rightarrow> bench_env \<Rightarrow> node_id \<Rightarrow> submission \<Rightarrow> bench_host \<Rightarrow> 'i bench_rep \<times> bench_host" where
  "bench_submit lib env sender su h =
     (let (limited, h) = rate_limited sender (be_instant env) h in
      case limited of
        Some retry \<Rightarrow> (refuse h (BrRateLimited retry), h)
      | None \<Rightarrow>
          (case check_submission (ho_cfg h) su of
             Some b \<Rightarrow> (refuse h b, h)
           | None \<Rightarrow>
               let spec = spec_of (ho_cfg h) su in
               (case store_by_key (be_io env) (su_key su) (ho_store h) of
                  Ok (Some existing) \<Rightarrow>
                    if jb_spec existing = spec
                    then (RepAccepted (jb_id existing) True (jb_state existing) (position_of (be_io env) (jb_id existing) h), h)
                    else (refuse h (BrKeyConflict (jb_id existing)), h)
                | Ok None \<Rightarrow> enqueue lib env sender su spec h
                | Err e \<Rightarrow> (refuse h (BrNotConfigured (''the job store is unreadable: '' @ e)
                    ''check the cache directory's permissions''), h))))"

section \<open>Asking, cancelling, reading\<close>

definition bench_status :: "faults \<Rightarrow> job_id option \<Rightarrow> bench_host \<Rightarrow> 'i bench_rep" where
  "bench_status io job h = (case job of
     Some i \<Rightarrow> (case store_load io i (ho_store h) of
       Ok r \<Rightarrow> RepStatus [job_summary_of r]
     | Err _ \<Rightarrow> refuse h (BrUnknownJob i))
   | None \<Rightarrow> RepStatus (map job_summary_of (take 50 (case store_list io (ho_store h) of Ok rs \<Rightarrow> rs | Err _ \<Rightarrow> []))))"

definition cancel_queued :: "bench_lib \<Rightarrow> bench_env \<Rightarrow> job_record \<Rightarrow> bench_host \<Rightarrow> bench_host" where
  "cancel_queued lib env r h =
     (let i = jb_id r; out = OCancelled (ho_local h);
          r = r\<lparr>jb_outcome := Some out, jb_state := JsDone, jb_updated_at_s := be_now_s env\<rparr>;
          (j, h) = host_journal lib i h;
          (r, h) = (case j of
            Ok _ \<Rightarrow>
              let h = snd (host_append lib (be_write env) i (EvDone out) (be_later_s env * 1000) h) in
              (r\<lparr>jb_seq_high := seq_high h i\<rparr>, h)
          | Err _ \<Rightarrow> (r, h)) in
      h\<lparr>ho_store := snd (store_save (be_io env) r (ho_store h))\<rparr>)"

definition bench_cancel :: "bench_lib \<Rightarrow> bench_env \<Rightarrow> job_id \<Rightarrow> bench_host \<Rightarrow> 'i bench_rep \<times> bench_host" where
  "bench_cancel lib env i h =
     (case store_load (be_io env) i (ho_store h) of
        Err _ \<Rightarrow> (refuse h (BrUnknownJob i), h)
      | Ok r \<Rightarrow>
          if is_terminal (jb_state r) then (RepCancelled i (jb_state r), h)
          else if jb_state r = JsQueued then (RepCancelled i JsDone, cancel_queued lib env r h)
          else (RepCancelled i (jb_state r),
            h\<lparr>ho_cancels := map (\<lambda>e. if fst e = i then (i, True) else e) (ho_cancels h)\<rparr>))"

definition artifact_list ::
    "bench_lib \<Rightarrow> faults \<Rightarrow> job_id \<Rightarrow> bench_host \<Rightarrow> (artifact_meta list, string) result \<times> bench_host" where
  "artifact_list lib io i h =
     (case store_load io i (ho_store h) of
        Err e \<Rightarrow> (Err e, h)
      | Ok r \<Rightarrow>
          st_bind (host_journal lib i h) (\<lambda>_ h.
            (result_bind (journal_replay (bl_dec lib) (events_of h i) 1) (\<lambda>evs.
               Ok (List.map_filter (\<lambda>e. case je_kind e of EvArtifact m \<Rightarrow> Some m | _ \<Rightarrow> None) evs @
                 (case Option.bind (dir_of (ho_store h) i) jd_log of
                    None \<Rightarrow> []
                  | Some log \<Rightarrow>
                      [\<lparr>af_name = ''child.log'',
                        af_relative_path = ''.certify/'' @ sha_short (js_sha (jb_spec r)) @ ''/'' @ gate_id_str (js_gate (jb_spec r)) @ ''.log'',
                        af_bytes = of_nat (length log), af_sha256 = hex_encode (bl_digest lib log), af_kind = AkRunLog\<rparr>]))), h)))"

definition bench_artifacts :: "bench_lib \<Rightarrow> faults \<Rightarrow> job_id \<Rightarrow> bench_host \<Rightarrow> 'i bench_rep \<times> bench_host" where
  "bench_artifacts lib io i h =
     (let (r, h) = artifact_list lib io i h in
      (case r of Ok items \<Rightarrow> RepArtifacts i items | Err _ \<Rightarrow> refuse h (BrUnknownJob i), h))"

definition bad_artifact_name :: "string \<Rightarrow> bool" where
  "bad_artifact_name n =
     (CHR ''/'' \<in> set n \<or> CHR 92 \<in> set n \<or> prefix ''.'' n \<and> n \<noteq> ''.sig'')"

text \<open>A file of a job, by the name it has in the job's own list.\<close>

definition job_file :: "bench_host \<Rightarrow> job_id \<Rightarrow> string \<Rightarrow> string option" where
  "job_file h i n =
     (case dir_of (ho_store h) i of
        None \<Rightarrow> None
      | Some d \<Rightarrow> if n = ''child.log'' then jd_log d else map_of (jd_artifacts d) n)"

definition bench_chunk ::
    "bench_lib \<Rightarrow> faults \<Rightarrow> job_id \<Rightarrow> string \<Rightarrow> 64 word \<Rightarrow> 32 word \<Rightarrow> bench_host \<Rightarrow> 'i bench_rep \<times> bench_host" where
  "bench_chunk lib io i n offset len h =
     (if bad_artifact_name n then (refuse h (BrNoSuchArtifact n), h)
      else
        let (r, h) = artifact_list lib io i h in
        (case r of
           Err _ \<Rightarrow> (refuse h (BrUnknownJob i), h)
         | Ok items \<Rightarrow>
             if \<not> list_ex (\<lambda>a. af_name a = n) items then (refuse h (BrNoSuchArtifact n), h)
             else (case job_file h i n of
               None \<Rightarrow> (refuse h (BrNoSuchArtifact n), h)
             | Some content \<Rightarrow>
                 let buf = take (min (unat len) MAX_CHUNK) (drop (unat offset) content) in
                 (RepChunk i n offset (bl_base64 lib buf) (of_nat (length content) \<le> offset + of_nat (length buf)), h))))"

section \<open>What leaves the jobs alone\<close>

text \<open>The store with the same jobs in the same state, whatever their journals hold.\<close>

definition same_jobs :: "job_store \<Rightarrow> job_store \<Rightarrow> bool" where
  "same_jobs s s' =
     (record_of s' = record_of s \<and> sj_index s' = sj_index s \<and> map fst (sj_dirs s') = map fst (sj_dirs s) \<and>
      sj_root s' = sj_root s)"

lemma same_jobs_refl [simp]: "same_jobs s s"
  by (simp add: same_jobs_def)

lemma same_jobs_trans: "same_jobs s t \<Longrightarrow> same_jobs t u \<Longrightarrow> same_jobs s u"
  by (simp add: same_jobs_def)

lemma same_jobs_dir: "same_jobs s s' \<Longrightarrow> dir_of s' i = None \<longleftrightarrow> dir_of s i = None"
  by (simp add: same_jobs_def dir_of_None)

lemma same_jobs_ok: "same_jobs s s' \<Longrightarrow> store_ok s' = store_ok s"
  using same_jobs_dir [of s s'] by (simp add: same_jobs_def store_ok_def names_job_def)

lemma same_jobs_events: "same_jobs s (update_dir i (\<lambda>d. d\<lparr>jd_events := fl\<rparr>) s)"
proof -
  have "record_of (update_dir i (\<lambda>d. d\<lparr>jd_events := fl\<rparr>) s) k = record_of s k" for k
    by (simp add: record_of_def split: option.splits)
  then show ?thesis by (simp add: same_jobs_def fun_eq_iff)
qed

text \<open>What neither the jobs nor who asks for them depends on.\<close>

definition calm :: "bench_host \<Rightarrow> bench_host \<Rightarrow> bool" where
  "calm h h' =
     (same_jobs (ho_store h) (ho_store h') \<and> ho_cfg h' = ho_cfg h \<and> ho_local h' = ho_local h \<and>
      ho_running h' = ho_running h \<and> ho_cancels h' = ho_cancels h)"

lemma calm_refl [simp]: "calm h h"
  by (simp add: calm_def)

lemma calm_trans: "calm h t \<Longrightarrow> calm t u \<Longrightarrow> calm h u"
  by (auto simp: calm_def intro: same_jobs_trans)

lemma host_journal_calm: "calm h (snd (host_journal lib i h)) \<and> ho_submits (snd (host_journal lib i h)) = ho_submits h"
  by (simp add: host_journal_def calm_def split: option.splits result.splits)

lemma host_append_calm:
  "calm h (snd (host_append lib w i kind at_ms h)) \<and> ho_submits (snd (host_append lib w i kind at_ms h)) = ho_submits h"
proof -
  obtain r h1 where j: "host_journal lib i h = (r, h1)" by fastforce
  have c: "calm h h1" "ho_submits h1 = ho_submits h" using host_journal_calm [of h lib i] by (simp_all add: j)
  show ?thesis
  proof (cases r)
    case (Err e)
    then show ?thesis using c by (simp add: host_append_def j)
  next
    case (Ok a)
    have "calm h1 (h1\<lparr>ho_journals := x, ho_store := update_dir i (\<lambda>d. d\<lparr>jd_events := fl\<rparr>) (ho_store h1)\<rparr>)" for x fl
      by (simp add: calm_def same_jobs_events)
    then show ?thesis using c by (auto simp: host_append_def j Ok Let_def case_prod_beta intro: calm_trans)
  qed
qed

lemma rate_limited_calm: "calm h (snd (rate_limited sender now h)) \<and> ho_store (snd (rate_limited sender now h)) = ho_store h"
  by (simp add: rate_limited_def calm_def Let_def)

lemma rate_limited_simps [simp]:
  "ho_store (snd (rate_limited sender now h)) = ho_store h" "ho_cfg (snd (rate_limited sender now h)) = ho_cfg h"
  "ho_local (snd (rate_limited sender now h)) = ho_local h"
  by (simp_all add: rate_limited_def Let_def)

lemma queued_store: "ho_store h' = ho_store h \<Longrightarrow> queued io h' = queued io h"
  by (simp add: queued_def)

section \<open>A submission\<close>

lemma same_jobs_by_key:
  assumes "same_jobs s s'"
  shows "store_by_key io k s' = Ok (Some r) \<longleftrightarrow> store_by_key io k s = Ok (Some r)"
  using assms unfolding store_by_key_Some store_load_Ok by (simp add: same_jobs_def)

lemma enqueue_cases:
  assumes "enqueue lib env sender su spec h = (rep, h')"
  obtains (refused) b where "rep = refuse h b" "h' = h" "\<And>w f. b \<noteq> BrNotConfigured w f"
  | (uncreated) i e s w f where "i = mint_id (bl_digest lib) (be_now_s env) (su_key su) sender"
      "store_create (be_io env) (queued_record i sender su spec (be_now_s env)) (ho_store h) = (Err e, s)"
      "h' = h\<lparr>ho_store := s\<rparr>" "rep = refuse h' (BrNotConfigured w f)"
  | (accepted) i s q where "i = mint_id (bl_digest lib) (be_now_s env) (su_key su) sender"
      "store_create (be_io env) (queued_record i sender su spec (be_now_s env)) (ho_store h) = (Ok (), s)"
      "calm (h\<lparr>ho_store := s\<rparr>) h'" "queued (be_io env) h = Ok q" "of_nat (length q) < bc_queue_depth (ho_cfg h)"
      "rep = RepAccepted i False JsQueued (of_nat (length q) + 1)"
proof -
  define depth :: "32 word" where "depth = (case queued (be_io env) h of Ok q \<Rightarrow> of_nat (length q) | Err _ \<Rightarrow> - 1)"
  define i where "i = mint_id (bl_digest lib) (be_now_s env) (su_key su) sender"
  obtain x s where create: "store_create (be_io env) (queued_record i sender su spec (be_now_s env)) (ho_store h) = (x, s)"
    by fastforce
  show thesis
  proof (cases "bc_queue_depth (ho_cfg h) \<le> depth")
    case True
    with assms have "rep = refuse h (BrQueueFull depth 300)" "h' = h"
      by (auto simp: enqueue_def depth_def [symmetric] Let_def)
    then show thesis by (rule refused) simp
  next
    case room: False
    show thesis
    proof (cases "case be_disk_free env of Some free \<Rightarrow> free < bc_min_free_disk_bytes (ho_cfg h) | None \<Rightarrow> False")
      case True
      with assms room have "rep = refuse h (BrDiskLow (the (be_disk_free env)) (bc_min_free_disk_bytes (ho_cfg h)))" "h' = h"
        by (auto simp: enqueue_def depth_def [symmetric] Let_def)
      then show thesis by (rule refused) simp
    next
      case disk: False
      have "queued (be_io env) h \<noteq> Err e" for e
        using room word_n1_ge [of "bc_queue_depth (ho_cfg h)"] by (auto simp: depth_def split: result.splits)
      then obtain q where q: "queued (be_io env) h = Ok q" by (cases "queued (be_io env) h") auto
      then have d: "depth = of_nat (length q)" by (simp add: depth_def)
      show thesis
      proof (cases x)
        case (Err e)
        with assms room disk create have "h' = h\<lparr>ho_store := s\<rparr>"
          "rep = refuse h' (BrNotConfigured (''cannot create the job: '' @ e) ''check the cache directory'')"
          by (auto simp: enqueue_def depth_def [symmetric] i_def [symmetric] Let_def)
        then show thesis using create Err by (intro uncreated [OF i_def]) simp_all
      next
        case (Ok u)
        with assms room disk create have rep: "rep = RepAccepted i False JsQueued (of_nat (length q) + 1)"
          and h': "h' = snd (host_append lib (be_write env) i (EvQueued (depth + 1)) (be_now_s env * 1000) (h\<lparr>ho_store := s\<rparr>))"
          by (auto simp: enqueue_def depth_def [symmetric] i_def [symmetric] Let_def d)
        have "calm (h\<lparr>ho_store := s\<rparr>) h'" unfolding h' using host_append_calm by blast
        then show thesis using accepted [OF i_def _ _ q] create Ok room d rep by simp
      qed
    qed
  qed
qed

lemma created_facts:
  assumes "store_ok s" and create: "store_create io (queued_record i sender su spec now) s = (x, s')" and i: "i = mint_id digest t key sender'"
  shows "store_ok s' \<and> (record_of s' = record_of s \<and> \<not> is_ok x \<or>
    record_of s' = (record_of s)(i \<mapsto> queued_record i sender su spec now) \<and> record_of s i = None)"
proof -
  let ?r = "queued_record i sender su spec now"
  have id: "jb_id ?r = i" by (simp add: queued_record_def)
  have "id_reads_back (jb_id ?r)" unfolding id by (simp add: i mint_id_reads_back)
  from store_ok_create [OF assms(1) this create] store_create_records [OF create] show ?thesis
    unfolding id by (auto simp: record_of_def)
qed

text \<open>What a submission is answered with, and what it leaves behind.\<close>

definition submission_settled ::
    "bench_lib \<Rightarrow> bench_env \<Rightarrow> node_id \<Rightarrow> submission \<Rightarrow> bench_host \<Rightarrow> 'i bench_rep \<Rightarrow> bench_host \<Rightarrow> bool" where
  "submission_settled lib env sender su h rep h' =
     (let spec = spec_of (ho_cfg h) su; s = record_of (ho_store h); s' = record_of (ho_store h');
          new = (\<lambda>i. queued_record i sender su spec (be_now_s env)) in
      case rep of
        RepAccepted i existing st pos \<Rightarrow>
          if existing then s' = s \<and> (\<exists>r. s i = Some r \<and> jb_key r = su_key su \<and> jb_spec r = spec \<and> jb_state r = st)
          else st = JsQueued \<and> s i = None \<and> s' = s(i \<mapsto> new i) \<and>
            store_by_key (\<lambda>_. None) (su_key su) (ho_store h') = Ok (Some (new i)) \<and>
            (\<exists>q. queued (be_io env) h = Ok q \<and> of_nat (length q) < bc_queue_depth (ho_cfg h) \<and> pos = of_nat (length q) + 1)
      | RepRefused n b \<Rightarrow>
          n = ho_local h \<and>
          (s' = s \<or> (\<exists>w f i. b = BrNotConfigured w f \<and> s i = None \<and> s' = s(i \<mapsto> new i))) \<and>
          (\<forall>i. b = BrKeyConflict i \<longrightarrow> (\<exists>r. s i = Some r \<and> jb_key r = su_key su \<and> jb_spec r \<noteq> spec))
      | _ \<Rightarrow> False)"

lemma enqueue_settled:
  assumes ok: "store_ok (ho_store h)" and run: "enqueue lib env sender su (spec_of (ho_cfg h) su) h = (rep, h')"
  shows "store_ok (ho_store h') \<and> ho_cfg h' = ho_cfg h \<and> submission_settled lib env sender su h rep h'"
  using run
proof (cases rule: enqueue_cases)
  case (refused b)
  have "b \<noteq> BrKeyConflict i" for i
    using run refused(1) by (auto simp: enqueue_def refuse_def Let_def split: if_splits prod.splits result.splits)
  with ok refused show ?thesis by (simp add: submission_settled_def Let_def refuse_def)
next
  case (uncreated i e s w f)
  from created_facts [OF ok uncreated(2,1)] show ?thesis
    by (auto simp: submission_settled_def Let_def refuse_def uncreated(3,4))
next
  case (accepted i s q)
  let ?r = "queued_record i sender su (spec_of (ho_cfg h) su) (be_now_s env)"
  from accepted(3) have same: "same_jobs s (ho_store h')" and cfg: "ho_cfg h' = ho_cfg h" by (simp_all add: calm_def)
  from created_facts [OF ok accepted(2,1)] have "store_ok s" "record_of s = (record_of (ho_store h))(i \<mapsto> ?r)" "record_of (ho_store h) i = None"
    by (simp_all add: is_ok_def)
  moreover have "id_reads_back (jb_id ?r)" by (simp add: queued_record_def accepted(1) mint_id_reads_back)
  then have "store_by_key (\<lambda>_. None) (jb_key ?r) s = Ok (Some ?r)" by (rule created_by_key [OF accepted(2)]) simp_all
  moreover have "jb_key ?r = su_key su" by (simp add: queued_record_def)
  ultimately show ?thesis using same_jobs_ok [OF same] same_jobs_by_key [OF same] same cfg accepted(4,5)
    by (simp add: submission_settled_def Let_def accepted(6) same_jobs_def)
qed

lemma submission_settled_rate:
  "submission_settled lib env sender su (snd (rate_limited sender now h)) rep h' = submission_settled lib env sender su h rep h'"
  unfolding submission_settled_def rate_limited_simps queued_store [OF rate_limited_simps(1)] by (rule refl)

lemma submit_cases:
  assumes "bench_submit lib env sender su h = (rep, h')"
  obtains (limited) n where "fst (rate_limited sender (be_instant env) h) = Some n" "rep = refuse h (BrRateLimited n)"
      "h' = snd (rate_limited sender (be_instant env) h)"
  | (checked) b where "rep = refuse h b" "h' = snd (rate_limited sender (be_instant env) h)" "check_submission (ho_cfg h) su = Some b"
  | (known) r where "store_by_key (be_io env) (su_key su) (ho_store h) = Ok (Some r)" "h' = snd (rate_limited sender (be_instant env) h)"
      "rep = (if jb_spec r = spec_of (ho_cfg h) su
        then RepAccepted (jb_id r) True (jb_state r) (position_of (be_io env) (jb_id r) (snd (rate_limited sender (be_instant env) h)))
        else refuse h (BrKeyConflict (jb_id r)))"
  | (unreadable) w f where "rep = refuse h (BrNotConfigured w f)" "h' = snd (rate_limited sender (be_instant env) h)"
  | (fresh) "store_by_key (be_io env) (su_key su) (ho_store h) = Ok None" "fst (rate_limited sender (be_instant env) h) = None"
      "check_submission (ho_cfg h) su = None"
      "enqueue lib env sender su (spec_of (ho_cfg h) su) (snd (rate_limited sender (be_instant env) h)) = (rep, h')"
proof -
  obtain l m where r: "rate_limited sender (be_instant env) h = (l, m)" by fastforce
  then have m: "ho_cfg m = ho_cfg h" "ho_store m = ho_store h" "ho_local m = ho_local h"
    using rate_limited_simps [of sender "be_instant env" h] by simp_all
  have sm: "snd (rate_limited sender (be_instant env) h) = m" and fl: "fst (rate_limited sender (be_instant env) h) = l"
    by (simp_all add: r)
  have rf: "refuse m b = refuse h b" for b by (simp add: refuse_def m)
  show thesis
  proof (cases l)
    case (Some n)
    have "rep = refuse h (BrRateLimited n)" "h' = m" using assms by (simp_all add: bench_submit_def r Some rf)
    then show thesis using limited [of n] by (simp add: sm fl Some)
  next
    case l: None
    show thesis
    proof (cases "check_submission (ho_cfg h) su")
      case (Some b)
      have "rep = refuse h b" "h' = m" using assms by (simp_all add: bench_submit_def r l m Some rf)
      then show thesis using checked [of b] by (simp add: sm Some)
    next
      case None
      show thesis
      proof (cases "store_by_key (be_io env) (su_key su) (ho_store h)")
        case (Err e)
        have "rep = refuse h (BrNotConfigured (''the job store is unreadable: '' @ e) ''check the cache directory's permissions'')" "h' = m"
          using assms by (simp_all add: bench_submit_def r l m None rf Err)
        then show thesis using unreadable by (simp add: sm)
      next
        case (Ok x)
        show thesis
        proof (cases x)
          case x: None
          have "enqueue lib env sender su (spec_of (ho_cfg h) su) m = (rep, h')"
            using assms by (simp add: bench_submit_def r l m None Ok x)
          then show thesis using fresh by (simp add: sm fl l None Ok x)
        next
          case x: (Some q)
          have "rep = (if jb_spec q = spec_of (ho_cfg h) su
              then RepAccepted (jb_id q) True (jb_state q) (position_of (be_io env) (jb_id q) m)
              else refuse h (BrKeyConflict (jb_id q)))" "h' = m"
            using assms by (auto simp: bench_submit_def r l m None Ok x rf split: if_splits)
          then show thesis using known [of q] by (simp add: sm Ok x)
        qed
      qed
    qed
  qed
qed

lemma submission_settles:
  assumes ok: "store_ok (ho_store h)" and run: "bench_submit lib env sender su h = (rep, h')"
  shows "store_ok (ho_store h') \<and> submission_settled lib env sender su h rep h'"
  using run
proof (cases rule: submit_cases)
  case (known r)
  from by_key_sound [OF ok known(1)] ok known show ?thesis
    by (auto simp: submission_settled_def Let_def refuse_def)
next
  case fresh
  from enqueue_settled [OF _ fresh(4) [folded rate_limited_simps(2) [of sender "be_instant env" h]]] ok show ?thesis
    by (simp add: submission_settled_rate)
next
  case (checked b)
  have "b \<noteq> BrKeyConflict i" for i
    using checked(3) by (auto simp: check_submission_def split: result.splits if_splits)
  with ok checked show ?thesis by (simp add: submission_settled_def Let_def refuse_def)
qed (use ok in \<open>simp_all add: submission_settled_def Let_def refuse_def\<close>)


text \<open>A submission that was accepted, made again by whoever: it is the same job.\<close>

lemma submit_once:
  assumes ok: "store_ok (ho_store h)" and first: "bench_submit lib env sender su h = (RepAccepted i False st pos, h')"
    and second: "bench_submit lib env2 sender2 su h' = (rep2, h2)"
    and "fst (rate_limited sender2 (be_instant env2) h') = None" "be_io env2 = (\<lambda>_. None)"
  shows "\<exists>p. rep2 = RepAccepted i True JsQueued p \<and> record_of (ho_store h2) = record_of (ho_store h')"
proof -
  from first have "check_submission (ho_cfg h) su = None \<and> ho_cfg h' = ho_cfg h"
  proof (cases rule: submit_cases)
    case fresh
    from fresh(3) enqueue_settled [OF _ fresh(4) [folded rate_limited_simps(2) [of sender "be_instant env" h]]] ok
    show ?thesis by simp
  qed (simp_all add: refuse_def split: if_splits)
  then have checked: "check_submission (ho_cfg h) su = None" and cfg: "ho_cfg h' = ho_cfg h" by simp_all
  let ?r = "queued_record i sender su (spec_of (ho_cfg h) su) (be_now_s env)"
  from submission_settles [OF ok first] have key: "store_by_key (\<lambda>_. None) (su_key su) (ho_store h') = Ok (Some ?r)"
    by (simp add: submission_settled_def Let_def)
  obtain l m where r: "rate_limited sender2 (be_instant env2) h' = (l, m)" by fastforce
  with assms(4) have "l = None" by simp
  moreover have "ho_cfg m = ho_cfg h" "ho_store m = ho_store h'"
    using rate_limited_simps [of sender2 "be_instant env2" h'] by (simp_all add: r cfg)
  ultimately show ?thesis using second r key checked assms(5)
    by (auto simp: bench_submit_def queued_record_def)
qed

section \<open>How often a peer may submit\<close>

text \<open>Submissions one after the other; what is kept of each is who was let through, and when.\<close>

fun submit_run ::
    "bench_lib \<Rightarrow> (bench_env \<times> node_id \<times> submission) list \<Rightarrow> bench_host \<Rightarrow> (node_id \<times> int) list \<times> bench_host" where
  "submit_run lib [] h = ([], h)"
| "submit_run lib ((env, sender, su) # rest) h =
     (let limited = fst (rate_limited sender (be_instant env) h);
          (rs, h) = submit_run lib rest (snd (bench_submit lib env sender su h :: unit bench_rep \<times> bench_host)) in
      (if limited = None then (sender, be_instant env) # rs else rs, h))"

definition let_through :: "node_id \<Rightarrow> (node_id \<times> int) list \<Rightarrow> int list" where
  "let_through sender rs = map snd (filter (\<lambda>e. fst e = sender) rs)"

text \<open>Any 31 of these take more than a minute.\<close>

definition spaced :: "int list \<Rightarrow> bool" where
  "spaced ts = (\<forall>i. i + SUBMITS_PER_MINUTE < length ts \<longrightarrow> minute < ts ! (i + SUBMITS_PER_MINUTE) - ts ! i)"

lemma submit_submits:
  "ho_submits (snd (bench_submit lib env sender su h :: 'i bench_rep \<times> bench_host)) =
     ho_submits (snd (rate_limited sender (be_instant env) h))"
proof -
  obtain rep :: "'i bench_rep" and h' where s: "bench_submit lib env sender su h = (rep, h')" by fastforce
  then show ?thesis
  proof (cases rule: submit_cases)
    case fresh
    from fresh(4) have "ho_submits h' = ho_submits (snd (rate_limited sender (be_instant env) h))"
      using host_append_calm by (auto simp: enqueue_def Let_def split: if_splits prod.splits result.splits)
    with s show ?thesis by simp
  qed (simp_all add: s)
qed

lemma submits_of_rate:
  "submits_of (snd (rate_limited sender now h)) n =
     (if n = sender then
        let q = dropWhile (\<lambda>t. minute < now - t) (submits_of h sender) in
        if SUBMITS_PER_MINUTE \<le> length q then q else q @ [now]
      else submits_of h n)"
  by (simp add: rate_limited_def submits_of_def Let_def update_conv')

text \<open>What is kept for a peer is the end of what was let through, and what is no longer kept is a minute old.\<close>

definition tracked :: "int \<Rightarrow> int list \<Rightarrow> int list \<Rightarrow> bool" where
  "tracked now ts q =
     (\<exists>old. ts = old @ q \<and> (\<forall>t\<in>set old. minute < now - t) \<and> length q \<le> SUBMITS_PER_MINUTE \<and> spaced ts)"

lemma tracked_later: "tracked now ts q \<Longrightarrow> now \<le> now' \<Longrightarrow> tracked now' ts q"
  unfolding tracked_def by force

lemma tracked_dropped: "tracked now ts q \<Longrightarrow> tracked now ts (dropWhile (\<lambda>t. minute < now - t) q)"
proof -
  assume "tracked now ts q"
  then obtain old where old: "ts = old @ q" "\<forall>t\<in>set old. minute < now - t" "length q \<le> SUBMITS_PER_MINUTE" "spaced ts"
    by (auto simp: tracked_def)
  let ?P = "\<lambda>t. minute < now - t"
  have "ts = (old @ takeWhile ?P q) @ dropWhile ?P q" using old(1) by simp
  moreover have "\<forall>t\<in>set (old @ takeWhile ?P q). ?P t" using old(2) by (auto dest: set_takeWhileD)
  moreover have "length (dropWhile ?P q) \<le> SUBMITS_PER_MINUTE" using old(3) length_dropWhile_le [of ?P q] by simp
  ultimately show ?thesis using old(4) unfolding tracked_def by blast
qed

lemma tracked_admit:
  assumes "tracked now ts q" "length q < SUBMITS_PER_MINUTE"
  shows "tracked now (ts @ [now]) (q @ [now])"
proof -
  from assms(1) obtain old where old: "ts = old @ q" "\<forall>t\<in>set old. minute < now - t" "spaced ts" by (auto simp: tracked_def)
  have "minute < (ts @ [now]) ! (i + SUBMITS_PER_MINUTE) - (ts @ [now]) ! i"
    if i: "i + SUBMITS_PER_MINUTE < length (ts @ [now])" for i
  proof (cases "i + SUBMITS_PER_MINUTE < length ts")
    case True
    with old(3) show ?thesis by (simp add: spaced_def nth_append)
  next
    case False
    with i assms(2) old(1) have "i < length old" "i + SUBMITS_PER_MINUTE = length ts" by simp_all
    with old(1,2) show ?thesis by (simp add: nth_append)
  qed
  with old(1,2) assms(2) show ?thesis by (auto simp: tracked_def spaced_def)
qed

lemma submit_run_spaced:
  assumes "sorted (map (be_instant \<circ> fst) subs)" "\<forall>x\<in>set subs. now \<le> be_instant (fst x)" "tracked now ts (submits_of h sender)"
  shows "spaced (ts @ let_through sender (fst (submit_run lib subs h)))"
  using assms
proof (induction subs arbitrary: now ts h)
  case Nil
  then show ?case by (auto simp: let_through_def tracked_def)
next
  case (Cons x subs)
  obtain env n su where x: "x = (env, n, su)" by (cases x)
  let ?now = "be_instant env" and ?h = "snd (bench_submit lib env n su h :: unit bench_rep \<times> bench_host)"
  have later: "sorted (map (be_instant \<circ> fst) subs)" "\<forall>x\<in>set subs. ?now \<le> be_instant (fst x)" using Cons.prems(1) by (auto simp: x o_def)
  have t: "tracked ?now ts (submits_of h sender)" using tracked_later [OF Cons.prems(3)] Cons.prems(2) by (simp add: x)
  have q: "submits_of ?h = submits_of (snd (rate_limited n ?now h))" by (simp add: submits_of_def fun_eq_iff submit_submits)
  define d where "d = dropWhile (\<lambda>t. minute < ?now - t) (submits_of h n)"
  have lim: "fst (rate_limited n ?now h) = None \<longleftrightarrow> length d < SUBMITS_PER_MINUTE" by (auto simp: rate_limited_def Let_def d_def)
  let ?ts = "ts @ (if n = sender \<and> length d < SUBMITS_PER_MINUTE then [?now] else [])"
  have "tracked ?now ?ts (submits_of ?h sender)"
  proof (cases "n = sender")
    case True
    with tracked_dropped [OF t] have "tracked ?now ts d" by (simp add: d_def)
    with tracked_admit [of ?now ts d] True show ?thesis
      unfolding q submits_of_rate Let_def d_def [symmetric] by simp
  next
    case False
    with t show ?thesis unfolding q submits_of_rate by simp
  qed
  note spaced = Cons.IH [OF later this]
  have "let_through sender (fst (submit_run lib (x # subs) h)) =
      (if n = sender \<and> length d < SUBMITS_PER_MINUTE then [?now] else []) @ let_through sender (fst (submit_run lib subs ?h))"
    by (auto simp: x case_prod_beta Let_def lim let_through_def)
  with spaced show ?case by simp
qed

text \<open>
  Whatever peers submit, in whatever order, no 31 submissions of one peer are let through
  within a minute: the 31st comes more than 60 seconds after the first.
\<close>
lemma submissions_are_spaced:
  assumes "sorted (map (be_instant \<circ> fst) subs)" "ho_submits h = []"
  shows "spaced (let_through sender (fst (submit_run lib subs h)))"
proof (cases subs)
  case Nil
  then show ?thesis by (simp add: let_through_def spaced_def)
next
  case (Cons x xs)
  have "tracked (be_instant (fst x)) [] (submits_of h sender)"
    by (simp add: tracked_def submits_of_def assms(2) spaced_def)
  from submit_run_spaced [OF assms(1) _ this] show ?thesis using assms(1) by (simp add: Cons)
qed

section \<open>A chunk\<close>

lemma host_journal_store [simp]: "ho_store (snd (host_journal lib i h)) = ho_store h"
  by (simp add: host_journal_def split: option.splits result.splits)

lemma artifact_list_store [simp]: "ho_store (snd (artifact_list lib io i h)) = ho_store h"
proof (cases "store_load io i (ho_store h)")
  case (Ok r)
  obtain x h1 where j: "host_journal lib i h = (x, h1)" by fastforce
  then have "ho_store h1 = ho_store h" using host_journal_store [of lib i h] by simp
  then show ?thesis by (cases x) (simp_all add: artifact_list_def Ok j)
qed (simp add: artifact_list_def)

lemma host_journal_again: "host_journal lib i h = (Ok j, h') \<Longrightarrow> host_journal lib i h' = (Ok j, h')"
  by (auto simp: host_journal_def split: option.splits result.splits)

lemma artifact_list_again:
  assumes "artifact_list lib io i h = (Ok items, h')"
  shows "artifact_list lib io i h' = (Ok items, h')"
proof -
  have s: "ho_store h' = ho_store h" using artifact_list_store [of lib io i h] by (simp add: assms)
  from assms obtain r where r: "store_load io i (ho_store h) = Ok r" by (auto simp: artifact_list_def split: result.splits)
  obtain x h1 where j: "host_journal lib i h = (x, h1)" by fastforce
  with assms r obtain y where y: "x = Ok y" "h1 = h'" by (cases x) (auto simp: artifact_list_def)
  from host_journal_again [OF j [unfolded y]] assms r j y s show ?thesis by (simp add: artifact_list_def events_of_def)
qed

lemma chunk_reply:
  assumes name: "\<not> bad_artifact_name n" and items: "artifact_list lib io i h = (Ok items, h')" "\<exists>a\<in>set items. af_name a = n"
    and content: "job_file h i n = Some content" and size: "length content < 2 ^ 64" "unat offset \<le> length content"
  shows "bench_chunk lib io i n offset len h =
    (let buf = take (min (unat len) MAX_CHUNK) (drop (unat offset) content) in
     (RepChunk i n offset (bl_base64 lib buf) (unat offset + length buf = length content), h'))"
proof -
  let ?buf = "take (min (unat len) MAX_CHUNK) (drop (unat offset) content)"
  have "ho_store h' = ho_store h" using artifact_list_store [of lib io i h] by (simp add: items)
  then have c: "job_file h' i n = Some content" using content by (simp add: job_file_def)
  have le: "unat offset + length ?buf \<le> length content" using size(2) by simp
  have "unat (offset + of_nat (length ?buf) :: 64 word) = unat offset + length ?buf"
    using le size(1) by (simp add: unat_word_ariths unat_of_nat del: length_take)
  moreover have "unat (of_nat (length content) :: 64 word) = length content" using size(1) by (simp add: unat_of_nat)
  ultimately have "(of_nat (length content) :: 64 word) \<le> offset + of_nat (length ?buf) \<longleftrightarrow> unat offset + length ?buf = length content"
    using le by (simp only: word_le_nat_alt) linarith
  with name items c show ?thesis by (simp add: bench_chunk_def Let_def list_ex_iff del: length_take)
qed

section \<open>An example\<close>

definition ex_host :: bench_host where
  "ex_host = \<lparr>ho_cfg = default_config ''/repo'' ''/home'' ''gb10'' ''/c'',
     ho_store = \<lparr>sj_root = ''/c/jobs'', sj_dirs = [], sj_index = None\<rparr>, ho_local = NodeId [1], ho_journals = [],
     ho_cancels = [], ho_running = None, ho_submits = []\<rparr>"

definition ex_lib :: bench_lib where
  "ex_lib = \<lparr>bl_enc = (\<lambda>_. ''{}''), bl_dec = (\<lambda>_. None), bl_digest = (\<lambda>_. [1, 2, 3, 4]), bl_base64 = (\<lambda>s. s)\<rparr>"

definition ex_env :: bench_env where
  "ex_env = \<lparr>be_instant = 0, be_now_s = 9, be_later_s = 9, be_disk_free = None, be_io = (\<lambda>_. None), be_write = Written\<rparr>"

definition ex_submission :: submission where
  "ex_submission = \<lparr>su_key = JobKey ''k'', su_sha = Sha ''ab'', su_gate = GateId ''g'', su_params = [], su_checkpoint = None,
     su_hardware = None, su_max_run_s = Some 60, su_note = None\<rparr>"

lemma ex_host_ok: "store_ok (ho_store ex_host)"
  by (simp add: store_ok_def ex_host_def record_of_def dir_of_def)


text \<open>Thirty-one submissions at once: the last one is turned away.\<close>

text \<open>
  A submission can be refused and queued: the record is written before the key. No file operation has to fail
  for it, because \<open>..\<close> is a key.
\<close>

definition is_refused :: "'i bench_rep \<Rightarrow> bool" where
  "is_refused rep = (case rep of RepRefused _ _ \<Rightarrow> True | _ \<Rightarrow> False)"

lemma refused_yet_queued:
  "job_key_parse ''..'' = Ok (JobKey ''..'')"
  "let (rep :: unit bench_rep, h') = bench_submit ex_lib ex_env (NodeId [2]) (ex_submission\<lparr>su_key := JobKey ''..''\<rparr>) ex_host in
     is_refused rep \<and> result_ok (result_bind (queued (\<lambda>_. None) h') (\<lambda>q. Ok (map jb_state q))) = Some [JsQueued]"
  by code_simp+

end
