(* ===== verification/Bench_Runner.thy ===== *)
theory Bench_Runner
  imports Bench_Host "HOL-Library.Multiset"
begin

text \<open>
  The single worker of the benchmark host (\<open>metralectl-agent/src/bench/runner.rs\<close>): taking the oldest
  queued job, running it, recovering after a restart, retention, and the server left leased between
  two jobs (\<open>bench/lease.rs\<close>).

  The world is the host's state and the world \<open>'p\<close> of the ports; \<open>run_env\<close> holds what the worker meets there.
  The job's machine is that of \<open>Bench_Machine\<close>, run over this world: its store is the host's store, its
  journal the journal file, and its cancel flag the one a cancel sets.

  The theorems: the worker starts the oldest queued job, only on a free box, and what it leaves of it is a finished job with
  nothing else touched; recovery finishes every job a restart interrupted, or says why not; retention removes
  finished jobs only. The last section shows what recovery does with a journal that cannot be read.
\<close>

section \<open>The world of a job\<close>

record 'p bench_world =
  bw_host :: bench_host
  bw_ports :: 'p

record 'p run_env =
  re_ports :: "'p bench_ports"
  re_io :: "'p \<Rightarrow> faults"
  re_write :: "'p \<Rightarrow> write_end"
  re_cancelled :: "'p \<Rightarrow> bool \<times> 'p"
  re_getenv :: "string \<Rightarrow> string option"
  re_probe :: "'p \<Rightarrow> readings \<times> 'p"
  re_start_ticks :: "32 word \<Rightarrow> 'p \<Rightarrow> 64 word option"
  re_process_id :: "32 word"

definition on_ports :: "('p \<Rightarrow> 'r \<times> 'p) \<Rightarrow> 'p bench_world \<Rightarrow> 'r \<times> 'p bench_world" where
  "on_ports op w = (let (r, p) = op (bw_ports w) in (r, w\<lparr>bw_ports := p\<rparr>))"

text \<open>The flag of a job, which a cancel that arrives meanwhile sets.\<close>

definition look_at_flag :: "'p run_env \<Rightarrow> job_id \<Rightarrow> 'p bench_world \<Rightarrow> bool \<times> 'p bench_world" where
  "look_at_flag E i w =
     (let (b, p) = re_cancelled E (bw_ports w) in
      (b \<or> map_of (ho_cancels (bw_host w)) i = Some True, w\<lparr>bw_ports := p\<rparr>))"

definition save_job :: "'p run_env \<Rightarrow> job_record \<Rightarrow> 'p bench_world \<Rightarrow> (unit, string) result \<times> 'p bench_world" where
  "save_job E r w =
     (let (x, s) = store_save (re_io E (bw_ports w)) r (ho_store (bw_host w)) in
      (x, w\<lparr>bw_host := (bw_host w)\<lparr>ho_store := s\<rparr>\<rparr>))"

definition append_event ::
    "bench_lib \<Rightarrow> 'p run_env \<Rightarrow> job_id \<Rightarrow> event_kind \<Rightarrow> 64 word \<Rightarrow> 'p bench_world \<Rightarrow> (unit, string) result \<times> 'p bench_world" where
  "append_event lib E i k at_ms w =
     (let (x, h) = host_append lib (re_write E (bw_ports w)) i k at_ms (bw_host w) in (x, w\<lparr>bw_host := h\<rparr>))"

text \<open>The context of a run; \<open>full\<close> is False where only an outcome is recorded.\<close>

definition host_ctx :: "bench_lib \<Rightarrow> 'p run_env \<Rightarrow> bench_host \<Rightarrow> job_id \<Rightarrow> bool \<Rightarrow> 'p bench_world bench_ctx" where
  "host_ctx lib E h i full =
     (let P = re_ports E; cfg = ho_cfg h in
      \<lparr>bp_now_ms = (\<lambda>w. bp_now_ms P (bw_ports w)),
       bp_has_commit = (\<lambda>sha. on_ports (bp_has_commit P sha)),
       bp_fetch = on_ports (bp_fetch P),
       bp_published = (\<lambda>sha. on_ports (bp_published P sha)),
       bp_worktree = (\<lambda>sha. on_ports (bp_worktree P sha)),
       bp_cached_binary = (\<lambda>sha. on_ports (bp_cached_binary P sha)),
       bp_build = (\<lambda>sha wt. on_ports (bp_build P sha wt)),
       bp_ensure_recipes = (\<lambda>b. on_ports (bp_ensure_recipes P b)),
       bp_known_gates = (\<lambda>b. on_ports (bp_known_gates P b)),
       bp_bad_params = (\<lambda>b g ks. on_ports (bp_bad_params P b g ks)),
       bp_spawn = (\<lambda>plan. on_ports (bp_spawn P plan)),
       bp_wait = (\<lambda>child plan. on_ports (bp_wait P child plan)),
       bp_record_state = (\<lambda>wt g. on_ports (bp_record_state P wt g)),
       bp_collect = (\<lambda>wt g before dest. on_ports (bp_collect P wt g before dest)),
       bx_cancel = look_at_flag E i,
       bx_save = save_job E,
       bx_append = append_event lib E i,
       bx_seq_high = (\<lambda>w. seq_high (bw_host w) i),
       bx_child_log_path = child_log_path (ho_store h),
       bx_artifacts_dir = artifacts_dir (ho_store h),
       bx_local = ho_local h,
       bx_hardware = bc_hardware cfg,
       bx_child_env = (if full then child_env (re_getenv E) cfg else []),
       bx_stall_timeout = (if full then unat (bc_stall_timeout_s cfg) else 0),
       bx_allow_unpublished = (full \<and> bc_allow_unpublished_shas cfg),
       bx_serve_reuse = (full \<and> bc_serve_reuse cfg),
       bx_process_id = re_process_id E\<rparr>)"

section \<open>Running\<close>

definition next_job :: "faults \<Rightarrow> bench_host \<Rightarrow> job_record option" where
  "next_job io h = (case queued io h of Ok (j # _) \<Rightarrow> Some j | _ \<Rightarrow> None)"

definition on_host :: "(bench_host \<Rightarrow> bench_host) \<Rightarrow> 'p bench_world \<Rightarrow> 'p bench_world" where
  "on_host f w = w\<lparr>bw_host := f (bw_host w)\<rparr>"

definition machine_of :: "'p bench_world \<Rightarrow> 'p bench_world machine" where
  "machine_of w = \<lparr>mc_world = w, mc_log = []\<rparr>"

text \<open>What came of a job: its journal cannot be opened, or what the machine returned.\<close>

datatype exec_end = ExecNoJournal string | ExecRan "(job_outcome, string) result"

definition execute :: "bench_lib \<Rightarrow> 'p run_env \<Rightarrow> job_record \<Rightarrow> 'p bench_world \<Rightarrow> exec_end \<times> 'p bench_world" where
  "execute lib E job w =
     (let i = jb_id job;
          w = on_host (set_running (Some i) \<circ> register_cancel i) w;
          (j, h) = host_journal lib i (bw_host w);
          w = w\<lparr>bw_host := h\<rparr> in
      (case j of
         Err e \<Rightarrow> (ExecNoJournal e, on_host (forget_cancel i \<circ> set_running None) w)
       | Ok _ \<Rightarrow>
           let (r, m) = bench_run (host_ctx lib E (bw_host w) i True) job (machine_of w) in
           (ExecRan r, on_host (forget_cancel i \<circ> set_running None) (mc_world m))))"

section \<open>After a restart\<close>

definition same_process :: "'p run_env \<Rightarrow> 32 word \<Rightarrow> 64 word \<Rightarrow> 'p \<Rightarrow> bool" where
  "same_process E pid ticks p = (re_start_ticks E pid p = Some ticks)"

definition orphan_job ::
    "bench_lib \<Rightarrow> 'p run_env \<Rightarrow> job_record \<Rightarrow> string \<Rightarrow> 'p bench_world \<Rightarrow> (unit, string) result \<times> 'p bench_world" where
  "orphan_job lib E job why w =
     (let (j, h) = host_journal lib (jb_id job) (bw_host w); w = w\<lparr>bw_host := h\<rparr> in
      (case j of
         Err e \<Rightarrow> (Err e, w)
       | Ok _ \<Rightarrow>
           let (r, m) = bench_orphan (host_ctx lib E (bw_host w) (jb_id job) False) job why (machine_of w) in
           (case r of Ok _ \<Rightarrow> Ok () | Err e \<Rightarrow> Err (''recording an orphaned job: '' @ e), mc_world m)))"

definition resume_job :: "bench_lib \<Rightarrow> 'p run_env \<Rightarrow> job_record \<Rightarrow> 'p bench_world \<Rightarrow> (unit, string) result \<times> 'p bench_world" where
  "resume_job lib E job w =
     (let i = jb_id job;
          w = on_host (set_running (Some i) \<circ> register_cancel i) w;
          (j, h) = host_journal lib i (bw_host w);
          w = w\<lparr>bw_host := h\<rparr> in
      (case j of
         Err e \<Rightarrow> (Err e, w)
       | Ok _ \<Rightarrow>
           let (r, m) = resume_running (host_ctx lib E (bw_host w) i True) job (machine_of w) in
           (Ok (), on_host (forget_cancel i \<circ> set_running None) (mc_world m))))"

definition child_alive :: "'p run_env \<Rightarrow> job_record \<Rightarrow> 'p \<Rightarrow> bool" where
  "child_alive E job p =
     (case (jb_child_pid job, jb_child_start_ticks job) of
        (Some pid, Some t) \<Rightarrow> same_process E pid t p
      | _ \<Rightarrow> False)"

definition recover_job :: "bench_lib \<Rightarrow> 'p run_env \<Rightarrow> job_record \<Rightarrow> 'p bench_world \<Rightarrow> (unit, string) result \<times> 'p bench_world" where
  "recover_job lib E job w =
     (case jb_state job of
        JsDone \<Rightarrow> (Ok (), w)
      | JsQueued \<Rightarrow> (Ok (), w)
      | JsRunning \<Rightarrow>
          if child_alive E job (bw_ports w) then resume_job lib E job w
          else orphan_job lib E job ''the agent restarted and the child was gone'' w
      | JsPreparing \<Rightarrow> orphan_job lib E job ''the agent restarted mid-job'' w
      | JsBuilding \<Rightarrow> orphan_job lib E job ''the agent restarted mid-job'' w
      | JsCollecting \<Rightarrow> orphan_job lib E job ''the agent restarted mid-job'' w)"

fun recover_jobs :: "bench_lib \<Rightarrow> 'p run_env \<Rightarrow> job_record list \<Rightarrow> 'p bench_world \<Rightarrow> (unit, string) result \<times> 'p bench_world" where
  "recover_jobs lib E [] w = (Ok (), w)"
| "recover_jobs lib E (job # jobs) w = st_bind (recover_job lib E job w) (\<lambda>_. recover_jobs lib E jobs)"

definition recover :: "bench_lib \<Rightarrow> 'p run_env \<Rightarrow> 'p bench_world \<Rightarrow> (unit, string) result \<times> 'p bench_world" where
  "recover lib E w =
     (case store_list (re_io E (bw_ports w)) (ho_store (bw_host w)) of
        Err e \<Rightarrow> (Err e, w)
      | Ok jobs \<Rightarrow> recover_jobs lib E jobs w)"

section \<open>Retention\<close>

fun retain_jobs :: "faults \<Rightarrow> bench_config \<Rightarrow> 64 word \<Rightarrow> nat \<Rightarrow> job_record list \<Rightarrow> job_store \<Rightarrow> job_store" where
  "retain_jobs io cfg now k [] s = s"
| "retain_jobs io cfg now k (j # js) s =
     (let too_many = unat (bc_retain_jobs cfg) \<le> k;
          too_old = ucast (bc_retain_days cfg) * 86400 < (if jb_updated_at_s j \<le> now then now - jb_updated_at_s j else 0) in
      retain_jobs io cfg now (Suc k) js (if too_many \<or> too_old then snd (store_remove io j s) else s))"

text \<open>\<open>sort_by_key(Reverse(..))\<close>: downwards, and stable.\<close>

definition newest_first :: "('a \<Rightarrow> 64 word) \<Rightarrow> 'a list \<Rightarrow> 'a list" where
  "newest_first f xs = sort_key (\<lambda>x. - 1 - f x) xs"

text \<open>The build directories that go, of those with a \<open>met\<close> binary of some age.\<close>

definition retain_builds :: "bench_config \<Rightarrow> string option \<Rightarrow> (64 word \<times> string) list \<Rightarrow> string list" where
  "retain_builds cfg running_sha entries =
     filter (\<lambda>n. running_sha \<noteq> Some n) (map snd (drop (unat (bc_keep_builds cfg)) (newest_first fst entries)))"

definition running_sha :: "faults \<Rightarrow> bench_host \<Rightarrow> string option" where
  "running_sha io h =
     Option.bind (ho_running h) (\<lambda>i. map_option (sha_str \<circ> js_sha \<circ> jb_spec) (result_ok (store_load io i (ho_store h))))"

definition retain ::
    "faults \<Rightarrow> 64 word \<Rightarrow> (64 word \<times> string) list \<Rightarrow> bench_host \<Rightarrow> (string list, string) result \<times> bench_host" where
  "retain io now builds h =
     (case store_list io (ho_store h) of
        Err e \<Rightarrow> (Err e, h)
      | Ok jobs \<Rightarrow>
          let fin = newest_first jb_updated_at_s (filter (\<lambda>j. is_terminal (jb_state j)) jobs);
              h = h\<lparr>ho_store := retain_jobs io (ho_cfg h) now 0 fin (ho_store h)\<rparr> in
          (Ok (retain_builds (ho_cfg h) (running_sha io h) builds), h))"

section \<open>The leased server\<close>

record lease =
  le_pid :: "32 word"
  le_port :: "16 word"
  le_model :: string
  le_owner_pid :: "32 word"

definition lease_ours :: "32 word \<Rightarrow> (32 word \<Rightarrow> bool) \<Rightarrow> lease option \<Rightarrow> lease option" where
  "lease_ours me alive l =
     (case l of Some l \<Rightarrow> if le_owner_pid l = me \<and> alive (le_pid l) then Some l else None | None \<Rightarrow> None)"

text \<open>The lease to stop now, if any, and since when the queue is empty.\<close>

definition release_idle_lease :: "bench_config \<Rightarrow> int \<Rightarrow> lease option \<Rightarrow> int option \<Rightarrow> lease option \<times> int option" where
  "release_idle_lease cfg now ours idle_since =
     (case ours of
        None \<Rightarrow> (None, None)
      | Some l \<Rightarrow>
          let since = (case idle_since of Some t \<Rightarrow> t | None \<Rightarrow> now) in
          if now - since < uint (bc_serve_release_after_s cfg) * 1000000000 then (None, Some since)
          else (Some l, None))"

section \<open>One turn of the worker\<close>

datatype turn = TurnIdle | TurnBusy job_record "busy list" | TurnRan job_record exec_end

definition worker_turn ::
    "bench_lib \<Rightarrow> 'p run_env \<Rightarrow> 64 word \<Rightarrow> (64 word \<times> string) list \<Rightarrow> 'p bench_world \<Rightarrow> turn \<times> 'p bench_world" where
  "worker_turn lib E now builds w =
     (case next_job (re_io E (bw_ports w)) (bw_host w) of
        None \<Rightarrow> (TurnIdle, w)
      | Some job \<Rightarrow>
          let (readings, p) = re_probe E (bw_ports w); w = w\<lparr>bw_ports := p\<rparr>;
              cfg = ho_cfg (bw_host w);
              busy = busy_judge (readings\<lparr>rd_running_job := map_option job_id_str (ho_running (bw_host w))\<rparr>)
                (bc_min_free_fraction cfg) (bc_min_free_disk_bytes cfg) in
          if busy \<noteq> [] then (TurnBusy job busy, w)
          else
            let (r, w) = execute lib E job w in
            (TurnRan job r, on_host (\<lambda>h. snd (retain (re_io E (bw_ports w)) now builds h)) w))"

section \<open>What a machine can do\<close>

text \<open>Every change of the world is a question, and these are the questions.\<close>

inductive asks :: "'w bench_ctx \<Rightarrow> 'w machine \<Rightarrow> 'w machine \<Rightarrow> bool" for c m where
  asks_none: "asks c m m"
| asks_has_commit: "asks c m n \<Longrightarrow> asks c m (snd (ask (bp_has_commit c sha) (ActHasCommit sha) n))"
| asks_fetch: "asks c m n \<Longrightarrow> asks c m (snd (ask (bp_fetch c) ActFetch n))"
| asks_published: "asks c m n \<Longrightarrow> asks c m (snd (ask (bp_published c sha) (ActPublished sha) n))"
| asks_worktree: "asks c m n \<Longrightarrow> asks c m (snd (ask (bp_worktree c sha) (ActWorktree sha) n))"
| asks_cached: "asks c m n \<Longrightarrow> asks c m (snd (ask (bp_cached_binary c sha) (ActCached sha) n))"
| asks_build: "asks c m n \<Longrightarrow> asks c m (snd (ask (bp_build c sha wt) (ActBuild sha wt) n))"
| asks_recipes: "asks c m n \<Longrightarrow> asks c m (snd (ask (bp_ensure_recipes c b) (ActRecipes b) n))"
| asks_gates: "asks c m n \<Longrightarrow> asks c m (snd (ask (bp_known_gates c b) (ActGates b) n))"
| asks_params: "asks c m n \<Longrightarrow> asks c m (snd (ask (bp_bad_params c b g ks) (ActBadParams b g ks) n))"
| asks_records: "asks c m n \<Longrightarrow> asks c m (snd (ask (bp_record_state c wt g) (ActRecordState wt g) n))"
| asks_spawn: "asks c m n \<Longrightarrow> asks c m (snd (ask (bp_spawn c plan) (ActSpawn plan) n))"
| asks_wait: "asks c m n \<Longrightarrow> asks c m (snd (ask (bp_wait c child plan) (ActWait child plan) n))"
| asks_collect: "asks c m n \<Longrightarrow> asks c m (snd (ask (bp_collect c wt g before dest) (ActCollect wt g before dest) n))"
| asks_cancel: "asks c m n \<Longrightarrow> asks c m (snd (ask (bx_cancel c) ActCancelled n))"
| asks_save: "asks c m n \<Longrightarrow> asks c m (snd (ask (bx_save c r) (ActSave r) n))"
| asks_append: "asks c m n \<Longrightarrow> asks c m (snd (ask (bx_append c k t) (ActEvent k) n))"

lemmas asks_questions = asks_has_commit asks_fetch asks_published asks_worktree asks_cached asks_build asks_recipes
  asks_gates asks_params asks_records asks_spawn asks_wait asks_collect asks_cancel asks_save asks_append

text \<open>An operation that only asks: whatever came before it.\<close>

lemma asks_st_bind:
  assumes "asks c m (snd x)" "\<And>a n. asks c m n \<Longrightarrow> asks c m (snd (f a n))"
  shows "asks c m (snd (st_bind x f))"
  using assms by (cases x; cases "fst x") auto

lemma asks_case:
  assumes "x = (r, n)" "asks c m (snd x)"
  shows "asks c m n"
  using assms by simp

lemma transition_asks: "asks c m n \<Longrightarrow> asks c m (snd (bench_transition c s job n))"
  unfolding bench_transition_def Let_def by (rule asks_st_bind [OF asks_save]) simp_all

lemma emit_asks: "asks c m n \<Longrightarrow> asks c m (snd (bench_emit c k job n))"
  unfolding bench_emit_def by (rule asks_st_bind [OF asks_append]) simp_all

lemma finish_asks: "asks c m n \<Longrightarrow> asks c m (snd (bench_finish c job out n))"
  unfolding bench_finish_def by (intro asks_st_bind emit_asks transition_asks) simp_all

lemma asks_or_finish:
  assumes "asks c m (snd x)" "\<And>a n. asks c m n \<Longrightarrow> asks c m (snd (f a n))"
  shows "asks c m (snd (or_finish c job x f))"
  using assms by (cases x; cases "fst x") (auto simp: or_finish_def finish_asks)

lemma check_cancel_asks: "asks c m n \<Longrightarrow> asks c m (snd (check_cancel c n))"
  using asks_cancel [of c m n] by (simp add: check_cancel_def case_prod_beta)

lemma prepare_commit_asks:
  assumes "asks c m n"
  shows "asks c m (snd (prepare_commit c sha n))"
proof -
  obtain r1 n1 where 1: "ask (bp_has_commit c sha) (ActHasCommit sha) n = (r1, n1)" by fastforce
  obtain r2 n2 where 2: "ask (bp_fetch c) ActFetch n1 = (r2, n2)" by fastforce
  obtain r3 n3 where 3: "ask (bp_has_commit c sha) (ActHasCommit sha) n2 = (r3, n3)" by fastforce
  have a: "asks c m n1" using asks_has_commit [OF assms, of sha] by (simp add: 1)
  have b: "asks c m n2" using asks_fetch [OF a] by (simp add: 2)
  have "asks c m n3" using asks_has_commit [OF b, of sha] by (simp add: 3)
  with a b show ?thesis by (simp add: prepare_commit_def 1 2 3 split: result.splits bool.splits)
qed

lemma check_published_asks: "asks c m n \<Longrightarrow> asks c m (snd (check_published c sha n))"
  using asks_published [of c m n sha]
  by (cases "ask (bp_published c sha) (ActPublished sha) n") (auto simp: check_published_def split: result.splits bool.splits)

lemma prepare_worktree_asks: "asks c m n \<Longrightarrow> asks c m (snd (prepare_worktree c sha n))"
  using asks_worktree [of c m n sha] by (simp add: prepare_worktree_def case_prod_beta Let_def)

lemma run_build_asks:
  assumes "asks c m n"
  shows "asks c m (snd (run_build c sha wt n))"
proof -
  obtain r1 n1 where 1: "ask (bp_build c sha wt) (ActBuild sha wt) n = (r1, n1)" by fastforce
  obtain r2 n2 where 2: "check_cancel c n1 = (r2, n2)" by fastforce
  have a: "asks c m n1" using asks_build [OF assms, of sha wt] by (simp add: 1)
  have "asks c m n2" using check_cancel_asks [OF a] by (simp add: 2)
  with a show ?thesis by (simp add: run_build_def 1 2 split: result.splits)
qed

lemma check_recipes_asks: "asks c m n \<Longrightarrow> asks c m (snd (check_recipes c b n))"
  using asks_recipes [of c m n "bi_path b"] by (simp add: check_recipes_def case_prod_beta Let_def)

lemma check_gate_asks: "asks c m n \<Longrightarrow> asks c m (snd (check_gate c sha gate b n))"
  using asks_gates [of c m n "bi_path b"] by (simp add: check_gate_def case_prod_beta Let_def)

lemma check_job_params_asks: "asks c m n \<Longrightarrow> asks c m (snd (check_job_params c gate keys b n))"
  using asks_params [of c m n "bi_path b" "gate_id_str gate" keys] by (simp add: check_job_params_def case_prod_beta Let_def)

lemma take_records_asks: "asks c m n \<Longrightarrow> asks c m (snd (take_records c wt gate n))"
  using asks_records [of c m n wt "gate_id_str gate"] by (simp add: take_records_def case_prod_beta Let_def)

lemma spawn_child_asks: "asks c m n \<Longrightarrow> asks c m (snd (spawn_child c plan n))"
  using asks_spawn [of c m n plan] by (simp add: spawn_child_def case_prod_beta Let_def)

lemma append_all_asks: "asks c m n \<Longrightarrow> asks c m (append_all c ks n)"
  by (induction ks arbitrary: n) (simp_all add: asks_append)

lemma wait_child_asks: "asks c m n \<Longrightarrow> asks c m (snd (wait_child c child plan n))"
  using append_all_asks [OF asks_wait [of c m n child plan]] by (simp add: wait_child_def case_prod_beta Let_def)

lemma emit_artifacts_asks: "asks c m n \<Longrightarrow> asks c m (snd (emit_artifacts c as job n))"
proof (induction as arbitrary: job n)
  case (Cons a as)
  show ?case unfolding emit_artifacts.simps by (rule asks_st_bind [OF emit_asks [OF Cons.prems]]) (rule Cons.IH)
qed simp

lemma collect_records_asks: "asks c m n \<Longrightarrow> asks c m (snd (collect_records c wt job n))"
  using asks_collect [of c m n wt "gate_id_str (js_gate (jb_spec job))" "jb_records_before job" "bx_artifacts_dir c (jb_id job)"]
  by (simp add: collect_records_def case_prod_beta Let_def)

lemma emit_verdict_asks: "asks c m n \<Longrightarrow> asks c m (snd (emit_verdict c verdict job n))"
  by (simp add: emit_verdict_def emit_asks split: option.splits)

lemmas machine_asks = transition_asks emit_asks finish_asks check_cancel_asks prepare_commit_asks check_published_asks
  prepare_worktree_asks run_build_asks check_recipes_asks check_gate_asks check_job_params_asks take_records_asks
  spawn_child_asks wait_child_asks emit_artifacts_asks collect_records_asks emit_verdict_asks

lemma collect_phase_asks: "asks c m n \<Longrightarrow> asks c m (snd (collect_phase c strict wt code verdict job n))"
  unfolding collect_phase_def by (intro asks_st_bind asks_or_finish machine_asks)

lemma wait_collect_asks:
  assumes "asks c m n"
  shows "asks c m (snd (let (r, m) = wait_child c child plan n; job = job\<lparr>jb_seq_high := bx_seq_high c (mc_world m)\<rparr> in
     or_finish c job (r, m) (\<lambda>(exit_code, verdict) m. collect_phase c strict wt exit_code verdict job m)))"
proof -
  obtain r n1 where w: "wait_child c child plan n = (r, n1)" by fastforce
  have "asks c m n1" using wait_child_asks [OF assms, of child plan] by (simp add: w)
  then show ?thesis unfolding w Let_def prod.case
    by (intro asks_or_finish) (simp_all add: collect_phase_asks case_prod_beta)
qed

lemma run_phase_asks: "asks c m n \<Longrightarrow> asks c m (snd (run_phase c wt b job n))"
  unfolding run_phase_def Let_def [of "run_plan_of c _ _ _"] Let_def [of "_\<lparr>jb_records_before := _\<rparr>"] run_child_def
  by (intro asks_or_finish asks_st_bind machine_asks wait_collect_asks)

lemma check_phase_asks: "asks c m n \<Longrightarrow> asks c m (snd (check_phase c wt b job n))"
  unfolding check_phase_def Let_def by (intro asks_st_bind asks_or_finish machine_asks asks_save run_phase_asks)

lemma with_binary_asks:
  assumes "asks c m n"
  shows "asks c m (snd (with_binary c sha wt job n (check_phase c wt)))"
proof -
  obtain r n1 where w: "ask (bp_cached_binary c sha) (ActCached sha) n = (r, n1)" by fastforce
  have a: "asks c m n1" using asks_cached [OF assms, of sha] by (simp add: w)
  have hit: "asks c m (snd (st_bind (bench_emit c k1 job n1) (\<lambda>job m. st_bind (bench_emit c k2 job m) (check_phase c wt b))))" for k1 k2 b
    by (intro asks_st_bind machine_asks a check_phase_asks)
  have miss: "asks c m (snd (st_bind (bench_emit c k1 job n1) (\<lambda>job m. or_finish c job (run_build c sha wt m) (\<lambda>r m.
      st_bind (bench_emit c (k2 r) job m) (check_phase c wt (bu_binary r))))))" for k1 k2
    by (intro asks_st_bind asks_or_finish machine_asks a check_phase_asks)
  show ?thesis using hit miss finish_asks [OF a] by (simp add: with_binary_def w split: result.splits)
qed

lemma bench_run_asks: "asks c m (snd (bench_run c job m))"
  unfolding bench_run_def Let_def by (intro asks_st_bind asks_or_finish machine_asks with_binary_asks asks_none)

lemma resume_running_asks: "asks c m (snd (resume_running c job m))"
proof (cases "\<exists>pid ticks. jb_child_pid job = Some pid \<and> jb_child_start_ticks job = Some ticks")
  case True
  then obtain pid ticks where p: "jb_child_pid job = Some pid" "jb_child_start_ticks job = Some ticks" by blast
  obtain r n1 where w: "ask (bp_worktree c (js_sha (jb_spec job))) (ActWorktree (js_sha (jb_spec job))) m = (r, n1)" by fastforce
  have a: "asks c m n1" using asks_worktree [OF asks_none, of c m "js_sha (jb_spec job)"] by (simp add: w)
  show ?thesis using finish_asks [OF a] wait_collect_asks [OF a]
    by (cases r) (simp_all add: resume_running_def p w)
next
  case False
  then show ?thesis using finish_asks [OF asks_none] by (auto simp: resume_running_def split: option.splits)
qed

lemma bench_orphan_asks: "asks c m (snd (bench_orphan c job reason m))"
  unfolding bench_orphan_def by (rule finish_asks [OF asks_none])

section \<open>What a machine leaves in the store\<close>

fun replay_act :: "bench_act \<Rightarrow> (job_id \<rightharpoonup> job_record) \<Rightarrow> (job_id \<rightharpoonup> job_record)" where
  "replay_act (ActSave r (Ok _)) f = f(jb_id r \<mapsto> r)"
| "replay_act _ f = f"

abbreviation store_in :: "'p bench_world \<Rightarrow> job_store" where
  "store_in w \<equiv> ho_store (bw_host w)"

text \<open>The jobs after are the jobs before with the saves of the history on top, and nothing else of the host moved.\<close>

definition tracks :: "'p bench_world machine \<Rightarrow> 'p bench_world machine \<Rightarrow> bool" where
  "tracks m n =
     (\<exists>new. mc_log n = mc_log m @ new \<and>
        record_of (store_in (mc_world n)) = fold replay_act new (record_of (store_in (mc_world m))) \<and>
        sj_index (store_in (mc_world n)) = sj_index (store_in (mc_world m)) \<and>
        map fst (sj_dirs (store_in (mc_world n))) = map fst (sj_dirs (store_in (mc_world m))) \<and>
        ho_cfg (bw_host (mc_world n)) = ho_cfg (bw_host (mc_world m)))"

lemma tracks_ask:
  assumes "tracks m n" "op (mc_world n) = (r, w)"
    and "record_of (store_in w) = replay_act (act r) (record_of (store_in (mc_world n)))"
    and "sj_index (store_in w) = sj_index (store_in (mc_world n))"
    and "map fst (sj_dirs (store_in w)) = map fst (sj_dirs (store_in (mc_world n)))"
    and "ho_cfg (bw_host w) = ho_cfg (bw_host (mc_world n))"
  shows "tracks m (snd (ask op act n))"
proof -
  from assms(1) obtain new where "mc_log n = mc_log m @ new"
    "record_of (store_in (mc_world n)) = fold replay_act new (record_of (store_in (mc_world m)))" by (auto simp: tracks_def)
  then show ?thesis using assms unfolding tracks_def
    by (intro exI [of _ "new @ [act r]"]) (auto simp: ask_def)
qed

lemma tracks_port:
  assumes "tracks m n" "\<And>r f. replay_act (act r) f = f"
  shows "tracks m (snd (ask (on_ports op) act n))"
proof -
  obtain r w where r: "on_ports op (mc_world n) = (r, w)" by fastforce
  then have "bw_host w = bw_host (mc_world n)" by (auto simp: on_ports_def split: prod.splits)
  then show ?thesis by (intro tracks_ask [where op = "on_ports op", OF assms(1) r]) (simp_all add: assms(2))
qed

lemma tracks_save:
  assumes "tracks m n"
  shows "tracks m (snd (ask (save_job E r) (ActSave r) n))"
proof -
  obtain x s where x: "store_save (re_io E (bw_ports (mc_world n))) r (store_in (mc_world n)) = (x, s)" by fastforce
  then have eq: "save_job E r (mc_world n) = (x, mc_world n\<lparr>bw_host := (bw_host (mc_world n))\<lparr>ho_store := s\<rparr>\<rparr>)"
    by (simp add: save_job_def)
  have "record_of s = replay_act (ActSave r x) (record_of (store_in (mc_world n)))"
    using record_of_save [OF x] by (cases x) (auto simp: fun_eq_iff is_ok_def)
  moreover have "sj_index s = sj_index (store_in (mc_world n)) \<and> map fst (sj_dirs s) = map fst (sj_dirs (store_in (mc_world n)))"
    using x by (cases rule: store_save_cases) simp_all
  ultimately show ?thesis by (intro tracks_ask [where op = "save_job E r", OF assms eq]) simp_all
qed

lemma tracks_append:
  assumes "tracks m n"
  shows "tracks m (snd (ask (append_event lib E i k t) (ActEvent k) n))"
proof -
  let ?w = "mc_world n"
  obtain x h where x: "host_append lib (re_write E (bw_ports ?w)) i k t (bw_host ?w) = (x, h)" by fastforce
  then have eq: "append_event lib E i k t ?w = (x, ?w\<lparr>bw_host := h\<rparr>)" by (simp add: append_event_def)
  have "calm (bw_host ?w) h" using host_append_calm [of "bw_host ?w" lib "re_write E (bw_ports ?w)" i k t] by (simp add: x)
  then have "same_jobs (store_in ?w) (ho_store h)" "ho_cfg h = ho_cfg (bw_host ?w)" by (simp_all add: calm_def)
  then show ?thesis by (intro tracks_ask [where op = "append_event lib E i k t", OF assms eq]) (simp_all add: same_jobs_def)
qed

lemma tracks_flag: "tracks m n \<Longrightarrow> tracks m (snd (ask (look_at_flag E i) ActCancelled n))"
  by (rule tracks_ask [where r = "fst (look_at_flag E i (mc_world n))" and w = "snd (look_at_flag E i (mc_world n))"])
    (simp_all add: look_at_flag_def case_prod_beta)

lemma host_tracks: "asks (host_ctx lib E h i full) m n \<Longrightarrow> tracks m n"
proof (induction rule: asks.induct)
  case asks_none
  show ?case by (simp add: tracks_def)
qed (simp_all add: host_ctx_def Let_def tracks_port tracks_save tracks_append tracks_flag)

lemma tracks_cfg: "tracks m n \<Longrightarrow> ho_cfg (bw_host (mc_world n)) = ho_cfg (bw_host (mc_world m))"
  by (auto simp: tracks_def)

section \<open>One job\<close>

lemma fold_replay_other:
  "\<forall>s\<in>set (saves as). same_job J s \<Longrightarrow> i \<noteq> jb_id J \<Longrightarrow> fold replay_act as f i = f i"
proof (induction as arbitrary: f)
  case (Cons a as)
  have "replay_act a f i = f i"
    using Cons.prems by (cases "(a, f)" rule: replay_act.cases) (auto simp: same_job_def)
  with Cons show ?case by (cases a) auto
qed simp

lemma fold_replay_own:
  "\<forall>s\<in>set (saves as). same_job J s \<Longrightarrow>
   fold replay_act as f (jb_id J) = f (jb_id J) \<or> (\<exists>s\<in>set (saves as). fold replay_act as f (jb_id J) = Some s)"
proof (induction as arbitrary: f)
  case (Cons a as)
  have "replay_act a f (jb_id J) = f (jb_id J) \<or> (\<exists>s\<in>set (saves [a]). replay_act a f (jb_id J) = Some s)"
    using Cons.prems by (cases "(a, f)" rule: replay_act.cases) (auto simp: same_job_def)
  moreover have "\<forall>s\<in>set (saves as). same_job J s" using Cons.prems by (cases a) auto
  note Cons.IH [OF this, of "replay_act a f"]
  moreover have "set (saves as) \<subseteq> set (saves (a # as))" "set (saves [a]) \<subseteq> set (saves (a # as))" by (cases a; auto)+
  ultimately show ?case by auto
qed simp

lemma fold_replay_recorded:
  assumes "recorded out as" "\<forall>s\<in>set (saves as). same_job J s"
  shows "\<exists>r. fold replay_act as f (jb_id J) = Some r \<and> same_job J r \<and> jb_state r = JsDone \<and> jb_outcome r = Some out \<and>
    jb_child_pid r = None"
proof -
  from assms(1) obtain pre job where as: "as = pre @ [ActEvent (EvDone out) (Ok ()), ActSave job (Ok ())]" "jb_state job = JsDone"
    "jb_outcome job = Some out" "jb_child_pid job = None" by (auto simp: recorded_def)
  with assms(2) have "same_job J job" by simp
  with as show ?thesis by (auto simp: same_job_def)
qed

text \<open>What becomes of a job and of the others, whichever way the machine went over it.\<close>

definition job_left :: "job_record \<Rightarrow> (job_outcome, string) result \<Rightarrow> job_store \<Rightarrow> job_store \<Rightarrow> bool" where
  "job_left J r s s' =
     (store_ok s' \<and> (\<forall>i. i \<noteq> jb_id J \<longrightarrow> record_of s' i = record_of s i) \<and>
      (\<exists>r'. record_of s' (jb_id J) = Some r' \<and> same_job J r' \<and>
         (\<forall>out. r = Ok out \<longrightarrow> jb_state r' = JsDone \<and> jb_outcome r' = Some out \<and> jb_child_pid r' = None)))"

lemma store_ok_same_keys:
  assumes ok: "store_ok s" and same: "sj_index s' = sj_index s" "map fst (sj_dirs s') = map fst (sj_dirs s)"
    and rec: "\<And>i r. record_of s' i = Some r \<Longrightarrow> \<exists>r0. record_of s i = Some r0 \<and> jb_id r = jb_id r0 \<and> jb_key r = jb_key r0"
  shows "store_ok s'"
proof -
  have "dir_of s' i = None \<longleftrightarrow> dir_of s i = None" for i by (simp add: dir_of_None same)
  then have "names_job s k t \<Longrightarrow> names_job s' k t" for k t
    unfolding names_job_def using rec by metis
  moreover have "record_of s' i = Some r \<Longrightarrow> jb_id r = i" for i r
    using rec [of i r] ok by (auto simp: store_ok_def)
  ultimately show ?thesis using ok same by (simp add: store_ok_def)
qed

lemma machine_leaves:
  assumes asks: "asks (host_ctx lib E h i full) m (snd x)"
    and life: "adds m x (life k J G)" and ok: "store_ok (store_in (mc_world m))"
    and there: "record_of (store_in (mc_world m)) (jb_id J) = Some J"
  shows "job_left J (fst x) (store_in (mc_world m)) (store_in (mc_world (snd x)))"
proof -
  from host_tracks [OF asks] obtain new where new: "mc_log (snd x) = mc_log m @ new"
    "record_of (store_in (mc_world (snd x))) = fold replay_act new (record_of (store_in (mc_world m)))"
    "sj_index (store_in (mc_world (snd x))) = sj_index (store_in (mc_world m))"
    "map fst (sj_dirs (store_in (mc_world (snd x)))) = map fst (sj_dirs (store_in (mc_world m)))" by (auto simp: tracks_def)
  from life new(1) have l: "life k J G new (fst x)" by (auto simp: adds_def)
  then have same: "\<forall>s\<in>set (saves new). same_job J s" by (simp add: life_def)
  have other: "record_of (store_in (mc_world (snd x))) i = record_of (store_in (mc_world m)) i" if "i \<noteq> jb_id J" for i
    unfolding new(2) by (rule fold_replay_other [OF same that])
  obtain r' where r': "record_of (store_in (mc_world (snd x))) (jb_id J) = Some r'" "same_job J r'"
    using fold_replay_own [OF same, of "record_of (store_in (mc_world m))"] there same unfolding new(2) by auto
  have "store_ok (store_in (mc_world (snd x)))"
  proof (rule store_ok_same_keys [OF ok new(3,4)])
    fix i r assume "record_of (store_in (mc_world (snd x))) i = Some r"
    then show "\<exists>r0. record_of (store_in (mc_world m)) i = Some r0 \<and> jb_id r = jb_id r0 \<and> jb_key r = jb_key r0"
      using other r' there by (cases "i = jb_id J") (auto simp: same_job_def)
  qed
  moreover have "jb_state r' = JsDone \<and> jb_outcome r' = Some out \<and> jb_child_pid r' = None" if "fst x = Ok out" for out
  proof -
    from l that have "recorded out new" by (simp add: life_def)
    from fold_replay_recorded [OF this same, of "record_of (store_in (mc_world m))"] r'(1) show ?thesis by (simp add: new(2))
  qed
  ultimately show ?thesis using other r' by (auto simp: job_left_def)
qed

lemma on_host_store [simp]:
  "bw_host (on_host f w) = f (bw_host w)" "bw_ports (on_host f w) = bw_ports w"
  by (simp_all add: on_host_def)

lemma host_flags [simp]:
  "ho_store (set_running r h) = ho_store h" "ho_store (register_cancel i h) = ho_store h" "ho_store (forget_cancel i h) = ho_store h"
  "ho_cfg (set_running r h) = ho_cfg h" "ho_cfg (register_cancel i h) = ho_cfg h" "ho_cfg (forget_cancel i h) = ho_cfg h"
  "ho_running (set_running r h) = r" "ho_running (register_cancel i h) = ho_running h" "ho_running (forget_cancel i h) = ho_running h"
  by (simp_all add: set_running_def register_cancel_def forget_cancel_def)

lemma job_left_same: "store_ok s \<Longrightarrow> same_jobs s s' \<Longrightarrow> record_of s (jb_id J) = Some J \<Longrightarrow> job_left J (Err e) s s'"
  by (simp add: job_left_def same_jobs_ok) (simp add: same_jobs_def)

lemma host_journal_keep:
  assumes "host_journal lib i h = (j, h')"
  shows "ho_store h' = ho_store h \<and> ho_cfg h' = ho_cfg h \<and> ho_running h' = ho_running h"
  using host_journal_store [of lib i h] host_journal_calm [of h lib i] unfolding assms by (simp add: calm_def)

lemma execute_leaves:
  assumes ok: "store_ok (store_in w)" and there: "record_of (store_in w) (jb_id job) = Some job"
    and run: "execute lib E job w = (x, w')"
  shows "job_left job (case x of ExecRan r \<Rightarrow> r | ExecNoJournal e \<Rightarrow> Err e) (store_in w) (store_in w') \<and>
    ho_running (bw_host w') = None \<and> ho_cfg (bw_host w') = ho_cfg (bw_host w)"
proof -
  let ?w = "on_host (set_running (Some (jb_id job)) \<circ> register_cancel (jb_id job)) w"
  obtain j h where j: "host_journal lib (jb_id job) (bw_host ?w) = (j, h)" by fastforce
  have h: "ho_store h = store_in w" "ho_cfg h = ho_cfg (bw_host w)"
    using host_journal_keep [OF j] by simp_all
  show ?thesis
  proof (cases j)
    case (Err e)
    with run j have "x = ExecNoJournal e" "w' = on_host (forget_cancel (jb_id job) \<circ> set_running None) (?w\<lparr>bw_host := h\<rparr>)"
      by (auto simp: execute_def Let_def)
    then show ?thesis using job_left_same [OF ok same_jobs_refl there] by (simp add: h)
  next
    case (Ok u)
    let ?c = "host_ctx lib E h (jb_id job) True" and ?m = "machine_of (?w\<lparr>bw_host := h\<rparr>)"
    obtain r m where r: "bench_run ?c job ?m = (r, m)" by fastforce
    with run j Ok have x: "x = ExecRan r" "w' = on_host (forget_cancel (jb_id job) \<circ> set_running None) (mc_world m)"
      by (auto simp: execute_def Let_def)
    have m: "store_in (mc_world ?m) = store_in w" by (simp add: machine_of_def h)
    have asks: "asks ?c ?m (snd (bench_run ?c job ?m))" by (rule bench_run_asks)
    from machine_leaves [OF asks bench_run_life] ok there have "job_left job r (store_in w) (store_in (mc_world m))"
      by (simp only: m r fst_conv snd_conv)
    moreover have "ho_cfg (bw_host (mc_world m)) = ho_cfg (bw_host (mc_world ?m))"
      using tracks_cfg [OF host_tracks [OF asks]] unfolding r snd_conv .
    then have "ho_cfg (bw_host (mc_world m)) = ho_cfg (bw_host w)" by (simp add: machine_of_def h)
    ultimately show ?thesis by (simp add: x)
  qed
qed

section \<open>The oldest job\<close>

definition older :: "job_record \<Rightarrow> job_record \<Rightarrow> bool" where
  "older a b = (jb_created_at_s a < jb_created_at_s b \<or> jb_created_at_s a = jb_created_at_s b \<and> job_id_str (jb_id a) \<le> job_id_str (jb_id b))"

lemma set_by_age [simp]: "set (by_age rs) = set rs" "length (by_age rs) = length rs"
  by (simp_all add: by_age_def)

lemma by_age_oldest:
  assumes "by_age rs = j # js" "b \<in> set rs"
  shows "older j b"
proof -
  let ?ys = "sort_key (job_id_str \<circ> jb_id) rs"
  have s: "sorted (map jb_created_at_s (by_age rs))" by (simp add: by_age_def)
  have b: "b \<in> set (by_age rs)" using assms(2) by simp
  with s assms(1) have le: "jb_created_at_s j \<le> jb_created_at_s b" by auto
  show ?thesis
  proof (cases "jb_created_at_s j = jb_created_at_s b")
    case False
    with le show ?thesis by (simp add: older_def)
  next
    case True
    let ?P = "\<lambda>y. jb_created_at_s y = jb_created_at_s j"
    have f: "filter ?P (by_age rs) = filter ?P ?ys" unfolding by_age_def by (rule sort_key_stable)
    have "sorted (map (job_id_str \<circ> jb_id) ?ys)" by (rule sorted_sort_key)
    then have "sorted (map (job_id_str \<circ> jb_id) (filter ?P ?ys))" by (rule sorted_filter)
    moreover have "filter ?P ?ys = j # filter ?P js" unfolding f [symmetric] assms(1) by simp
    moreover have "b \<in> set (filter ?P ?ys)" unfolding f [symmetric] using b True by simp
    ultimately show ?thesis using True by (auto simp: older_def)
  qed
qed

lemma store_list_Ok:
  assumes "store_list io s = Ok rs" "store_ok s"
  shows "set rs \<subseteq> {r. record_of s (jb_id r) = Some r}"
    and "(\<forall>i. io (FtReadRecord i) = None) \<Longrightarrow> set rs = {r. record_of s (jb_id r) = Some r}"
    and "distinct (map jb_id rs)"
proof -
  let ?f = "\<lambda>(i, _). result_ok (store_load io i s)"
  from assms(1) have rs: "rs = rev (by_age (List.map_filter ?f (sj_dirs s)))" by (auto simp: store_list_def split: option.splits)
  have id: "record_of s i = Some r \<Longrightarrow> jb_id r = i" for i r using assms(2) by (simp add: store_ok_def)
  have mem: "r \<in> set rs \<longleftrightarrow> (\<exists>i\<in>set (map fst (sj_dirs s)). record_of s i = Some r \<and> io (FtReadRecord i) = None)" for r
    unfolding rs by (force simp: set_map_filter store_load_Ok)
  show "set rs \<subseteq> {r. record_of s (jb_id r) = Some r}" using mem id by auto
  show "set rs = {r. record_of s (jb_id r) = Some r}" if "\<forall>i. io (FtReadRecord i) = None"
  proof -
    have "i \<in> set (map fst (sj_dirs s))" if "record_of s i = Some r" for i r
      using record_of_dir [OF that] by (simp only: dir_of_None not_not)
    then have "r \<in> set rs \<longleftrightarrow> record_of s (jb_id r) = Some r" for r unfolding mem using that id by metis
    then show ?thesis by blast
  qed
  have "distinct (map jb_id (List.map_filter ?f ds))" if "distinct (map fst ds)" for ds :: "(job_id \<times> job_dir) list"
    using that
  proof (induction ds)
    case (Cons d ds)
    obtain i x where d: "d = (i, x)" by fastforce
    have "jb_id r \<noteq> i" if "r \<in> set (List.map_filter ?f ds)" for r
      using that Cons.prems id by (force simp: set_map_filter store_load_Ok d)
    with Cons id show ?case by (fastforce simp: d store_load_Ok map_filter_simps split: option.splits)
  qed (simp add: map_filter_simps)
  then have dist: "distinct (map jb_id (List.map_filter ?f (sj_dirs s)))" using assms(2) by (simp add: store_ok_def)
  have mset: "mset (map jb_id rs) = mset (map jb_id (List.map_filter ?f (sj_dirs s)))" unfolding rs by (simp add: by_age_def)
  show "distinct (map jb_id rs)" using dist mset_eq_imp_distinct_iff [OF mset] by simp
qed

lemma next_job_oldest:
  assumes "next_job io h = Some j" "store_ok (ho_store h)"
  shows "record_of (ho_store h) (jb_id j) = Some j \<and> jb_state j = JsQueued \<and>
    (\<forall>b. record_of (ho_store h) (jb_id b) = Some b \<longrightarrow> jb_state b = JsQueued \<longrightarrow> (\<forall>i. io (FtReadRecord i) = None) \<longrightarrow> older j b)"
proof -
  from assms(1) obtain rs js where q: "store_list io (ho_store h) = Ok rs" "by_age (filter (\<lambda>j. jb_state j = JsQueued) rs) = j # js"
    by (auto simp: next_job_def queued_def result_bind_def split: result.splits list.splits)
  then have "j \<in> set (by_age (filter (\<lambda>j. jb_state j = JsQueued) rs))" by simp
  then have "j \<in> set rs" "jb_state j = JsQueued" by simp_all
  with store_list_Ok [OF q(1) assms(2)] by_age_oldest [OF q(2)] show ?thesis by auto
qed

section \<open>Retention\<close>

definition doomed :: "bench_config \<Rightarrow> 64 word \<Rightarrow> nat \<Rightarrow> job_record \<Rightarrow> bool" where
  "doomed cfg now k j =
     (unat (bc_retain_jobs cfg) \<le> k \<or>
      ucast (bc_retain_days cfg) * 86400 < (if jb_updated_at_s j \<le> now then now - jb_updated_at_s j else 0))"

lemma retain_jobs_leaves:
  assumes "store_ok s" "distinct (map jb_id js)" "\<forall>j\<in>set js. record_of s (jb_id j) = Some j \<and> is_terminal (jb_state j)"
    and io: "\<forall>k. io (FtRemoveIndex k) = None"
  shows "store_ok (retain_jobs io cfg now k js s) \<and>
    (\<forall>i. record_of (retain_jobs io cfg now k js s) i = record_of s i \<or>
      record_of (retain_jobs io cfg now k js s) i = None \<and> i \<in> jb_id ` set js) \<and>
    ((\<forall>i. io (FtRemoveJob i) = None) \<longrightarrow>
      (\<forall>n<length js. doomed cfg now (k + n) (js ! n) \<longrightarrow> record_of (retain_jobs io cfg now k js s) (jb_id (js ! n)) = None))"
  using assms(1-3)
proof (induction js arbitrary: s k)
  case (Cons j js)
  have rec: "record_of s (jb_id j) = Some j" and tm: "is_terminal (jb_state j)" using Cons.prems(3) by simp_all
  obtain x s1 where r: "store_remove io j s = (x, s1)" by fastforce
  define s2 where "s2 = (if doomed cfg now k j then s1 else s)"
  define t where "t = retain_jobs io cfg now (Suc k) js s2"
  have run: "retain_jobs io cfg now k (j # js) s = t"
    by (simp add: t_def s2_def doomed_def Let_def r)
  from io have io': "io (FtRemoveIndex (jb_key j)) = None" by blast
  note rm = store_ok_remove [OF Cons.prems(1) rec io' r]
  note r1 = conjunct1 [OF rm] spec [OF conjunct1 [OF conjunct2 [OF rm]]]
  obtain d where d: "dir_of s (jb_id j) = Some d" using record_of_dir [OF rec] by blast
  have okx: "is_ok x" if "\<forall>i. io (FtRemoveJob i) = None"
  proof -
    have "fst (store_remove io j s) = Ok ()" using tm that by (simp add: store_remove_def Let_def d)
    then show ?thesis by (simp add: r is_ok_def)
  qed
  have ok: "store_ok s2" using r1(1) Cons.prems(1) by (simp add: s2_def)
  have recs: "record_of s2 i = (if i = jb_id j \<and> is_ok x \<and> doomed cfg now k j then None else record_of s i)" for i
    by (simp add: s2_def r1(2))
  have dist: "distinct (map jb_id js)" "jb_id j \<notin> jb_id ` set js" using Cons.prems(2) by simp_all
  have present: "\<forall>j'\<in>set js. record_of s2 (jb_id j') = Some j' \<and> is_terminal (jb_state j')"
  proof
    fix j' assume j': "j' \<in> set js"
    with dist(2) have "jb_id j' \<noteq> jb_id j" by (metis imageI)
    then show "record_of s2 (jb_id j') = Some j' \<and> is_terminal (jb_state j')" using Cons.prems(3) j' by (simp add: recs)
  qed
  note ih0 = Cons.IH [OF ok dist(1) present, of "Suc k", folded t_def]
  note ih = conjunct1 [OF ih0] spec [OF conjunct1 [OF conjunct2 [OF ih0]]] conjunct2 [OF conjunct2 [OF ih0]]
  have gone: "record_of t (jb_id ((j # js) ! n)) = None"
    if all: "\<forall>i. io (FtRemoveJob i) = None" and n: "n < length (j # js)" "doomed cfg now (k + n) ((j # js) ! n)" for n
  proof (cases n)
    case 0
    with n okx [OF all] have "record_of s2 (jb_id j) = None" by (simp add: recs)
    with ih(2) [of "jb_id j"] show ?thesis using 0 by auto
  next
    case (Suc n')
    with n have "n' < length js" "doomed cfg now (Suc k + n') (js ! n')" by simp_all
    with mp [OF ih(3) all] have "record_of t (jb_id (js ! n')) = None" by simp
    with Suc show ?thesis by simp
  qed
  have keep: "record_of t i = record_of s i \<or> record_of t i = None \<and> i \<in> jb_id ` set (j # js)" for i
  proof -
    show ?thesis using ih(2) [of i] recs [of i] by (auto split: if_splits)
  qed
  show ?case unfolding run by (intro conjI allI impI keep ih(1)) (rule gone; assumption)
qed simp

text \<open>What is left of the jobs: only finished ones go, and, where nothing fails, all but as many as are kept.\<close>

definition retained :: "faults \<Rightarrow> bench_config \<Rightarrow> job_store \<Rightarrow> job_store \<Rightarrow> bool" where
  "retained io cfg s s' =
     (store_ok s' \<and>
      (\<forall>i. record_of s' i = record_of s i \<or> record_of s' i = None \<and> (\<exists>r. record_of s i = Some r \<and> is_terminal (jb_state r))) \<and>
      ((\<forall>f. io f = None) \<longrightarrow> card {i. \<exists>r. record_of s' i = Some r \<and> is_terminal (jb_state r)} \<le> unat (bc_retain_jobs cfg)))"

lemma retain_retains:
  assumes ok: "store_ok (ho_store h)" and io: "\<forall>k. io (FtRemoveIndex k) = None"
  shows "retained io (ho_cfg h) (ho_store h) (ho_store (snd (retain io now builds h))) \<or>
    snd (retain io now builds h) = h \<and> \<not> is_ok (fst (retain io now builds h))"
proof (cases "store_list io (ho_store h)")
  case (Err e)
  then show ?thesis by (simp add: retain_def is_ok_def)
next
  case (Ok rs)
  let ?fin = "newest_first jb_updated_at_s (filter (\<lambda>j. is_terminal (jb_state j)) rs)"
  let ?s = "retain_jobs io (ho_cfg h) now 0 ?fin (ho_store h)"
  have set: "set ?fin = {r \<in> set rs. is_terminal (jb_state r)}" by (auto simp: newest_first_def)
  have m: "mset (map jb_id ?fin) = mset (map jb_id (filter (\<lambda>j. is_terminal (jb_state j)) rs))" by (simp add: newest_first_def)
  have d: "distinct (map jb_id ?fin)"
    unfolding mset_eq_imp_distinct_iff [OF m] using store_list_Ok(3) [OF Ok ok] by (rule distinct_map_filter)
  have r: "\<forall>j\<in>set ?fin. record_of (ho_store h) (jb_id j) = Some j \<and> is_terminal (jb_state j)"
    using store_list_Ok(1) [OF Ok ok] by (auto simp: set)
  note leaves = retain_jobs_leaves [OF ok d r io, of "ho_cfg h" now 0]
  have bound: "card {i. \<exists>r. record_of ?s i = Some r \<and> is_terminal (jb_state r)} \<le> unat (bc_retain_jobs (ho_cfg h))"
    if all: "\<forall>f. io f = None"
  proof -
    let ?n = "unat (bc_retain_jobs (ho_cfg h))"
    have "i \<in> set (map jb_id (take ?n ?fin))" if i: "record_of ?s i = Some x" "is_terminal (jb_state x)" for i x
    proof -
      have rs: "set rs = {r. record_of (ho_store h) (jb_id r) = Some r}" using store_list_Ok(2) [OF Ok ok] all by simp
      have id: "jb_id x = i" using i(1) leaves by (auto simp: store_ok_def)
      from i(1) leaves have "record_of (ho_store h) i = Some x" by (metis option.distinct(1))
      with i(2) id have "x \<in> set ?fin" unfolding set rs by simp
      then obtain n where n: "n < length ?fin" "?fin ! n = x" by (auto simp: in_set_conv_nth)
      have "n < ?n"
      proof (rule ccontr)
        assume "\<not> n < ?n"
        then have "doomed (ho_cfg h) now (0 + n) (?fin ! n)" by (simp add: doomed_def)
        with leaves all n(1) have "record_of ?s (jb_id (?fin ! n)) = None" by blast
        with i(1) n(2) id show False by simp
      qed
      with n have "x \<in> set (take ?n ?fin)" by (auto simp: in_set_conv_nth intro!: exI [of _ n])
      with id show ?thesis by auto
    qed
    then have "card {i. \<exists>r. record_of ?s i = Some r \<and> is_terminal (jb_state r)} \<le> card (set (map jb_id (take ?n ?fin)))"
      by (intro card_mono) auto
    also have "\<dots> \<le> ?n" by (rule order_trans [OF card_length]) simp
    finally show ?thesis .
  qed
  have "record_of ?s i = record_of (ho_store h) i \<or>
      record_of ?s i = None \<and> (\<exists>r. record_of (ho_store h) i = Some r \<and> is_terminal (jb_state r))" for i
    using leaves r by (metis (no_types, lifting) imageE)
  with leaves bound have "retained io (ho_cfg h) (ho_store h) ?s" by (simp add: retained_def)
  then show ?thesis by (simp add: retain_def Ok Let_def)
qed

section \<open>What the worker guarantees\<close>


section \<open>Recovery\<close>

lemma orphan_leaves:
  assumes ok: "store_ok (store_in w)" and there: "record_of (store_in w) (jb_id job) = Some job"
    and run: "orphan_job lib E job why w = (x, w')"
  shows "\<exists>r. job_left job r (store_in w) (store_in w') \<and> (x = Ok () \<longrightarrow> (\<exists>out. r = Ok out))"
proof -
  obtain j h where j: "host_journal lib (jb_id job) (bw_host w) = (j, h)" by fastforce
  note h = host_journal_keep [OF j]
  show ?thesis
  proof (cases j)
    case (Err e)
    with run j have "x = Err e" "store_in w' = store_in w" by (auto simp: orphan_job_def Let_def h)
    then show ?thesis using job_left_same [OF ok same_jobs_refl there] by (intro exI [of _ "Err e"]) simp
  next
    case (Ok u)
    let ?c = "host_ctx lib E h (jb_id job) False" and ?m = "machine_of (w\<lparr>bw_host := h\<rparr>)"
    obtain r m where r: "bench_orphan ?c job why ?m = (r, m)" by fastforce
    with run j Ok have x: "x = (case r of Ok _ \<Rightarrow> Ok () | Err e \<Rightarrow> Err (''recording an orphaned job: '' @ e))" "w' = mc_world m"
      by (auto simp: orphan_job_def Let_def)
    have m: "store_in (mc_world ?m) = store_in w" by (simp add: machine_of_def h)
    have "adds ?m (bench_orphan ?c job why ?m) (life 5 job (\<lambda>n. \<forall>a\<in>set n. resumes job a))"
      unfolding bench_orphan_def by (rule orphan_life) simp
    from machine_leaves [OF bench_orphan_asks this] ok there have "job_left job r (store_in w) (store_in w')"
      by (simp only: m r x fst_conv snd_conv)
    with x(1) show ?thesis by (intro exI [of _ r]) (auto split: result.splits)
  qed
qed

lemma resume_leaves:
  assumes ok: "store_ok (store_in w)" and there: "record_of (store_in w) (jb_id job) = Some job"
    and run: "resume_job lib E job w = (x, w')"
  shows "\<exists>r. job_left job r (store_in w) (store_in w')"
proof -
  let ?w = "on_host (set_running (Some (jb_id job)) \<circ> register_cancel (jb_id job)) w"
  obtain j h where j: "host_journal lib (jb_id job) (bw_host ?w) = (j, h)" by fastforce
  have h: "ho_store h = store_in w" using host_journal_keep [OF j] by simp
  show ?thesis
  proof (cases j)
    case (Err e)
    with run j have "store_in w' = store_in w" by (auto simp: resume_job_def Let_def h)
    then show ?thesis using job_left_same [OF ok same_jobs_refl there] by metis
  next
    case (Ok u)
    let ?c = "host_ctx lib E h (jb_id job) True" and ?m = "machine_of (?w\<lparr>bw_host := h\<rparr>)"
    obtain r m where r: "resume_running ?c job ?m = (r, m)" by fastforce
    with run j Ok have w': "store_in w' = store_in (mc_world m)" by (auto simp: resume_job_def Let_def)
    have m: "store_in (mc_world ?m) = store_in w" by (simp add: machine_of_def h)
    have asks: "asks ?c ?m (snd (resume_running ?c job ?m))" by (rule resume_running_asks)
    from machine_leaves [OF asks resume_running_life] ok there have "job_left job r (store_in w) (store_in (mc_world m))"
      by (simp only: m r fst_conv snd_conv)
    then show ?thesis unfolding w' by blast
  qed
qed

text \<open>What recovery owes a job: what had not started or was over stays; the rest is over, or was found running and waited for.\<close>

definition resolved :: "'p run_env \<Rightarrow> job_record \<Rightarrow> job_record \<Rightarrow> bool" where
  "resolved E job r =
     (if jb_state job = JsQueued \<or> jb_state job = JsDone then r = job
      else same_job job r \<and> (jb_state r = JsDone \<or> jb_state job = JsRunning \<and> (\<exists>p. child_alive E job p)))"

lemma recover_job_leaves:
  assumes ok: "store_ok (store_in w)" and there: "record_of (store_in w) (jb_id job) = Some job"
    and run: "recover_job lib E job w = (Ok (), w')"
  shows "store_ok (store_in w') \<and> (\<forall>i. i \<noteq> jb_id job \<longrightarrow> record_of (store_in w') i = record_of (store_in w) i) \<and>
    (\<exists>r. record_of (store_in w') (jb_id job) = Some r \<and> resolved E job r)"
proof -
  have orphan: ?thesis if "orphan_job lib E job why w = (Ok (), w')" "jb_state job \<noteq> JsQueued" "jb_state job \<noteq> JsDone" for why
  proof -
    from orphan_leaves [OF ok there that(1)] obtain out where "job_left job (Ok out) (store_in w) (store_in w')" by blast
    with that(2,3) show ?thesis by (auto simp: job_left_def resolved_def)
  qed
  show ?thesis
  proof (cases "jb_state job")
    case JsQueued
    with run ok there show ?thesis by (auto simp: recover_job_def resolved_def)
  next
    case JsDone
    with run ok there show ?thesis by (auto simp: recover_job_def resolved_def)
  next
    case JsRunning
    show ?thesis
    proof (cases "child_alive E job (bw_ports w)")
      case True
      with run JsRunning have "resume_job lib E job w = (Ok (), w')" by (simp add: recover_job_def)
      from resume_leaves [OF ok there this] obtain r where "job_left job r (store_in w) (store_in w')" by blast
      with True JsRunning show ?thesis by (auto simp: job_left_def resolved_def)
    next
      case False
      with run JsRunning show ?thesis by (intro orphan) (simp_all add: recover_job_def)
    qed
  qed (use run in \<open>(intro orphan, simp_all add: recover_job_def)+\<close>)
qed

lemma recover_jobs_leaves:
  assumes "store_ok (store_in w)" "distinct (map jb_id jobs)" "\<forall>j\<in>set jobs. record_of (store_in w) (jb_id j) = Some j"
    and "recover_jobs lib E jobs w = (Ok (), w')"
  shows "store_ok (store_in w') \<and>
    (\<forall>i. i \<notin> jb_id ` set jobs \<longrightarrow> record_of (store_in w') i = record_of (store_in w) i) \<and>
    (\<forall>j\<in>set jobs. \<exists>r. record_of (store_in w') (jb_id j) = Some r \<and> resolved E j r)"
  using assms
proof (induction jobs arbitrary: w)
  case (Cons job jobs)
  from Cons.prems(4) obtain w1 where w1: "recover_job lib E job w = (Ok (), w1)" "recover_jobs lib E jobs w1 = (Ok (), w')"
    by (cases "recover_job lib E job w"; cases "fst (recover_job lib E job w)") auto
  have there: "record_of (store_in w) (jb_id job) = Some job" using Cons.prems(3) by simp
  note one = recover_job_leaves [OF Cons.prems(1) there w1(1)]
  note ok1 = conjunct1 [OF one] and other1 = mp [OF spec [OF conjunct1 [OF conjunct2 [OF one]]]] and own1 = conjunct2 [OF conjunct2 [OF one]]
  have d: "distinct (map jb_id jobs)" "jb_id job \<notin> jb_id ` set jobs" using Cons.prems(2) by simp_all
  have "\<forall>j\<in>set jobs. record_of (store_in w1) (jb_id j) = Some j"
  proof
    fix j assume j: "j \<in> set jobs"
    with d(2) have "jb_id j \<noteq> jb_id job" by (metis imageI)
    from other1 [OF this] Cons.prems(3) j show "record_of (store_in w1) (jb_id j) = Some j" by simp
  qed
  note rest = Cons.IH [OF ok1 d(1) this w1(2)]
  note ok2 = conjunct1 [OF rest] and other2 = mp [OF spec [OF conjunct1 [OF conjunct2 [OF rest]]]] and own2 = conjunct2 [OF conjunct2 [OF rest]]
  have "record_of (store_in w') i = record_of (store_in w) i" if "i \<notin> jb_id ` set (job # jobs)" for i
    using that other1 [of i] other2 [of i] by simp
  moreover have "\<exists>r. record_of (store_in w') (jb_id job) = Some r \<and> resolved E job r"
    using own1 other2 [OF d(2)] by simp
  ultimately show ?case using ok2 own2 by simp
qed auto


section \<open>Where recovery stops\<close>

text \<open>
  A job found alive is marked as running before its journal is opened. Where the journal cannot be
  read, recovery ends there: the mark stays, and with it every turn of the worker finds the box busy.
\<close>

lemma unreadable_journal_stops_recovery:
  assumes "jb_state job = JsRunning" "child_alive E job (bw_ports w)" "map_of (ho_journals (bw_host w)) (jb_id job) = None"
    and "journal_open (bl_dec lib) (jb_id job) (events_of (bw_host w) (jb_id job)) = Err e"
  shows "fst (recover_jobs lib E (job # jobs) w) = Err e"
    and "ho_running (bw_host (snd (recover_jobs lib E (job # jobs) w))) = Some (jb_id job)"
    and "same_jobs (store_in w) (store_in (snd (recover_jobs lib E (job # jobs) w)))"
proof -
  let ?h = "set_running (Some (jb_id job)) (register_cancel (jb_id job) (bw_host w))"
  have "host_journal lib (jb_id job) ?h = (Err e, ?h)"
    using assms(3,4) by (simp add: host_journal_def set_running_def register_cancel_def events_of_def)
  then have "recover_jobs lib E (job # jobs) w = (Err e, on_host (set_running (Some (jb_id job)) \<circ> register_cancel (jb_id job)) w)"
    using assms(1,2) by (simp add: recover_job_def resume_job_def Let_def on_host_def)
  then show "fst (recover_jobs lib E (job # jobs) w) = Err e"
    "ho_running (bw_host (snd (recover_jobs lib E (job # jobs) w))) = Some (jb_id job)"
    "same_jobs (store_in w) (store_in (snd (recover_jobs lib E (job # jobs) w)))" by simp_all
qed

lemma running_mark_blocks:
  assumes "ho_running (bw_host w) = Some i"
  shows "\<nexists>job x. fst (worker_turn lib E now builds w) = TurnRan job x"
    and "bw_host (snd (worker_turn lib E now builds w)) = bw_host w"
proof -
  have busy: "busy_judge (r\<lparr>rd_running_job := Some j\<rparr>) f m \<noteq> []" for r j f m by (simp add: busy_judge_free)
  show "\<nexists>job x. fst (worker_turn lib E now builds w) = TurnRan job x" "bw_host (snd (worker_turn lib E now builds w)) = bw_host w"
    using assms busy by (auto simp: worker_turn_def Let_def case_prod_beta split: option.splits)
qed

section \<open>An example\<close>

definition unpublished_reason :: string where
  "unpublished_reason =
     ''commit ab is not reachable from the trusted remote; push it first (or set allow_unpublished_shas on this node)''"

definition ex_run_env :: "unit run_env" where
  "ex_run_env = \<lparr>re_ports = (bench_ports.truncate ex_bench)\<lparr>bp_published := (\<lambda>_ w. (Ok False, w))\<rparr>, re_io = (\<lambda>_ _. None), re_write = (\<lambda>_. Written), re_cancelled = Pair False,
     re_getenv = (\<lambda>_. None),
     re_probe = Pair \<lparr>rd_engine_pids = [], rd_gpu_apps = [], rd_running_job = None, rd_free_fraction = Some (F64 False 9 1),
       rd_disk_free_bytes = Some (- 1), rd_leased = None\<rparr>,
     re_start_ticks = (\<lambda>_ _. None), re_process_id = 1\<rparr>"

definition ex_world :: "job_record \<Rightarrow> unit bench_world" where
  "ex_world r = \<lparr>bw_host = ex_host\<lparr>ho_store := \<lparr>sj_root = ''/c/jobs'',
     sj_dirs = [(jb_id r, \<lparr>jd_record = Some (Ok r), jd_events = None, jd_log = None, jd_artifacts = []\<rparr>)], sj_index = None\<rparr>\<rparr>,
     bw_ports = ()\<rparr>"

lemma ex_world_ok: "store_ok (store_in (ex_world r))" "record_of (store_in (ex_world r)) i = (if i = jb_id r then Some r else None)"
  by (auto simp: store_ok_def ex_world_def record_of_def dir_of_def result_ok_def)


definition ex_building :: job_record where
  "ex_building = ex_job\<lparr>jb_state := JsBuilding\<rparr>"


text \<open>
  The worker reads the queue, then looks at the box, then runs the record it read. A cancel that comes in
  between is answered as done, and the job runs all the same.
\<close>

definition cancel_outcome :: "job_record option \<Rightarrow> bool" where
  "cancel_outcome r = (case r of Some r \<Rightarrow> (case jb_outcome r of Some (OCancelled _) \<Rightarrow> True | _ \<Rightarrow> False) | None \<Rightarrow> False)"

lemma cancelled_yet_run:
  "let w = ex_world ex_job; job = the (next_job (\<lambda>_. None) (bw_host w));
       (rep :: unit bench_rep, h) = bench_cancel ex_lib ex_env (jb_id job) (bw_host w);
       (x, w') = execute ex_lib ex_run_env job (w\<lparr>bw_host := h\<rparr>) in
     rep = RepCancelled (jb_id job) JsDone \<and> cancel_outcome (record_of (ho_store h) (jb_id job)) \<and>
     x = ExecRan (Ok (OFailed JsPreparing unpublished_reason)) \<and>
     \<not> cancel_outcome (record_of (store_in w') (jb_id job))"
  by code_simp

end
