(* ===== verification/Secretfile.thy ===== *)
theory Secretfile
  imports Prelude
begin

text \<open>
  Files nobody else may read (\<open>metralectl-core/src/secretfile.rs\<close>, the unix half): \<open>write\<close> as the system calls
  it makes, with any number of callers in any number of processes interleaved and any process dying
  between two calls, and \<open>verify\<close>.

  A directory maps a name to a content and a mode. A call of \<open>write\<close> is the place it has come to; what the
  system answers is part of the event, so every error return of the source is an event. The symbolic link the source
  resolves first, and the sync of the directory at the end, are not state: the name is that of the file itself.

  The theorem: whatever happens, the file holds the whole of what it held at first or the whole of what some call was
  asked to write, and nobody else can read it or any of the files on the way to it.
\<close>

section \<open>The calls\<close>

type_synonym dir = "string \<rightharpoonup> string \<times> 32 word"

text \<open>How far a call has come: about to open its temporary file, to write after \<open>n\<close> bytes, to flush, to look at
  the mode of the file, to set that mode, to rename.\<close>

datatype write_at = AtOpen | AtWrite nat | AtSync | AtStat | AtChmod "32 word" | AtRename

record write_call =
  wc_pid :: nat
  wc_temp :: string
  wc_bytes :: string
  wc_at :: write_at

record secret_fs =
  sf_dir :: dir
  sf_seq :: "nat \<Rightarrow> nat"
  sf_calls :: "nat \<rightharpoonup> write_call"
  sf_begun :: "string list"

definition temp_name :: "string \<Rightarrow> nat \<Rightarrow> nat \<Rightarrow> string" where
  "temp_name name pid seq = ''.'' @ name @ ''.tmp'' @ show_nat pid @ ''.'' @ show_nat seq"

text \<open>Who is calling and what the system did: \<open>ok\<close> is whether the system call succeeded.\<close>

datatype secret_event =
    SfStart nat nat string
  | SfOpen nat bool
  | SfWrite nat nat bool
  | SfSync nat bool
  | SfStat nat
  | SfChmod nat bool
  | SfRename nat bool
  | SfCrash nat

definition PRIVATE_MODE :: "32 word" where
  "PRIVATE_MODE = 0x180"

definition step_to :: "nat \<Rightarrow> write_call \<Rightarrow> write_at \<Rightarrow> secret_fs \<Rightarrow> secret_fs" where
  "step_to t c p s = s\<lparr>sf_calls := (sf_calls s)(t \<mapsto> c\<lparr>wc_at := p\<rparr>)\<rparr>"

definition leave :: "nat \<Rightarrow> secret_fs \<Rightarrow> secret_fs" where
  "leave t s = s\<lparr>sf_calls := (sf_calls s)(t := None)\<rparr>"

definition set_file :: "string \<Rightarrow> (string \<times> 32 word) option \<Rightarrow> secret_fs \<Rightarrow> secret_fs" where
  "set_file n x s = s\<lparr>sf_dir := (sf_dir s)(n := x)\<rparr>"

definition at_call :: "nat \<Rightarrow> (write_call \<Rightarrow> secret_fs option) \<Rightarrow> secret_fs \<Rightarrow> secret_fs option" where
  "at_call t f s = Option.bind (sf_calls s t) f"

text \<open>One event; None where it cannot happen.\<close>

fun secret_do :: "string \<Rightarrow> secret_event \<Rightarrow> secret_fs \<Rightarrow> secret_fs option" where
  "secret_do name (SfStart t pid bytes) s =
     (if sf_calls s t \<noteq> None then None
      else Some (s\<lparr>sf_calls := (sf_calls s)(t \<mapsto>
               \<lparr>wc_pid = pid, wc_temp = temp_name name pid (sf_seq s pid), wc_bytes = bytes, wc_at = AtOpen\<rparr>),
             sf_seq := (sf_seq s)(pid := sf_seq s pid + 1), sf_begun := bytes # sf_begun s\<rparr>))"
| "secret_do name (SfOpen t ok) s = at_call t (\<lambda>c.
     if wc_at c \<noteq> AtOpen then None
     else if ok then Some (step_to t c (AtWrite 0) (set_file (wc_temp c)
       (Some ([], case sf_dir s (wc_temp c) of None \<Rightarrow> PRIVATE_MODE | Some f \<Rightarrow> snd f)) s))
     else Some (leave t s)) s"
| "secret_do name (SfWrite t n ok) s = at_call t (\<lambda>c.
     case (wc_at c, sf_dir s (wc_temp c)) of
       (AtWrite k, Some (_, m)) \<Rightarrow>
         if \<not> ok then Some (leave t s)
         else let k = min (k + n) (length (wc_bytes c)) in
           Some (step_to t c (if k = length (wc_bytes c) then AtSync else AtWrite k)
             (set_file (wc_temp c) (Some (take k (wc_bytes c), m)) s))
     | _ \<Rightarrow> None) s"
| "secret_do name (SfSync t ok) s = at_call t (\<lambda>c.
     if wc_at c \<noteq> AtSync then None else Some (if ok then step_to t c AtStat s else leave t s)) s"
| "secret_do name (SfStat t) s = at_call t (\<lambda>c.
     if wc_at c \<noteq> AtStat then None
     else Some (step_to t c (case sf_dir s name of Some (_, m) \<Rightarrow> AtChmod (and m 0xFFF) | None \<Rightarrow> AtRename) s)) s"
| "secret_do name (SfChmod t ok) s = at_call t (\<lambda>c.
     case (wc_at c, sf_dir s (wc_temp c)) of
       (AtChmod m, Some (b, _)) \<Rightarrow>
         Some (if ok then step_to t c AtRename (set_file (wc_temp c) (Some (b, m)) s) else leave t s)
     | _ \<Rightarrow> None) s"
| "secret_do name (SfRename t ok) s = at_call t (\<lambda>c.
     if wc_at c \<noteq> AtRename then None
     else Some (leave t (set_file (wc_temp c) None (if ok then set_file name (sf_dir s (wc_temp c)) s else s)))) s"
| "secret_do name (SfCrash pid) s =
     Some (s\<lparr>sf_calls := (\<lambda>t. case sf_calls s t of Some c \<Rightarrow> if wc_pid c = pid then None else Some c | None \<Rightarrow> None),
             sf_seq := (sf_seq s)(pid := 0)\<rparr>)"

inductive secret_step :: "string \<Rightarrow> secret_fs \<Rightarrow> secret_fs \<Rightarrow> bool" for name where
  "secret_do name e s = Some s' \<Longrightarrow> secret_step name s s'"

inductive_simps secret_step_simps: "secret_step name s s'"

text \<open>Where it starts: no call underway, and whatever is in the directory.\<close>

definition secret_init :: "dir \<Rightarrow> secret_fs \<Rightarrow> bool" where
  "secret_init d s = (sf_dir s = d \<and> sf_calls s = Map.empty \<and> sf_begun s = [])"

fun show_octal :: "nat \<Rightarrow> string" where
  "show_octal n = (if n < 8 then show_nat n else show_octal (n div 8) @ show_nat (n mod 8))"

declare show_octal.simps [simp del]

definition secret_verify :: "string \<Rightarrow> 32 word \<Rightarrow> (unit, string) result" where
  "secret_verify path mode =
     (if and mode 0x3F \<noteq> 0
      then Err (path @ '' is readable by other accounts (mode '' @ show_octal (unat (and mode 0x1FF))
        @ ''). Another user on this machine may already have it; rotate it with `metralectl agent token --rotate`.'')
      else Ok ())"

definition is_private :: "32 word \<Rightarrow> bool" where
  "is_private m = (and m 0x3F = 0)"

section \<open>The names of the temporary files\<close>

lemma show_nat_no_dot: "CHR ''.'' \<notin> set (show_nat n)"
proof
  assume "CHR ''.'' \<in> set (show_nat n)"
  then have "is_ascii_digit (CHR ''.'')" by (rule show_nat_digits)
  then show False by (simp add: is_ascii_digit_def byte_of_def)
qed

lemma append_dot_inj:
  "a @ CHR ''.'' # b = c @ CHR ''.'' # d \<Longrightarrow> CHR ''.'' \<notin> set a \<Longrightarrow> CHR ''.'' \<notin> set c \<Longrightarrow> a = c \<and> b = d"
  by (induction a arbitrary: c) (case_tac c; auto)+

lemma temp_name_inj: "temp_name name pid seq = temp_name name pid' seq' \<longleftrightarrow> pid = pid' \<and> seq = seq'"
  using append_dot_inj [OF _ show_nat_no_dot show_nat_no_dot, of pid "show_nat seq" pid' "show_nat seq'"] show_nat_inj
  by (auto simp: temp_name_def)

lemma temp_name_ne [simp]: "temp_name name pid seq \<noteq> name" "name \<noteq> temp_name name pid seq"
proof -
  have "length (temp_name name pid seq) > length name" by (simp add: temp_name_def)
  then show "temp_name name pid seq \<noteq> name" "name \<noteq> temp_name name pid seq" by auto
qed

section \<open>What always holds\<close>

text \<open>A call underway has a temporary file of its own, which holds as much as the call has written.\<close>

definition call_ok :: "string \<Rightarrow> secret_fs \<Rightarrow> write_call \<Rightarrow> bool" where
  "call_ok name s c =
     ((\<exists>k < sf_seq s (wc_pid c). wc_temp c = temp_name name (wc_pid c) k) \<and> wc_bytes c \<in> set (sf_begun s) \<and>
      (case wc_at c of
         AtOpen \<Rightarrow> True
       | AtWrite k \<Rightarrow> \<exists>m. sf_dir s (wc_temp c) = Some (take k (wc_bytes c), m)
       | _ \<Rightarrow> \<exists>m. sf_dir s (wc_temp c) = Some (wc_bytes c, m)))"

definition calls_ok :: "string \<Rightarrow> secret_fs \<Rightarrow> bool" where
  "calls_ok name s =
     (\<forall>t c. sf_calls s t = Some c \<longrightarrow> call_ok name s c \<and>
        (\<forall>u c'. sf_calls s u = Some c' \<longrightarrow> u \<noteq> t \<longrightarrow> wc_temp c' \<noteq> wc_temp c))"

definition secret_name :: "string \<Rightarrow> string \<Rightarrow> bool" where
  "secret_name name n = (n = name \<or> (\<exists>p k. n = temp_name name p k))"

definition whole :: "string \<Rightarrow> dir \<Rightarrow> secret_fs \<Rightarrow> bool" where
  "whole name d s =
     ((case sf_dir s name of
         None \<Rightarrow> d name = None
       | Some (b, _) \<Rightarrow> b \<in> set (sf_begun s) \<or> (\<exists>m. d name = Some (b, m))) \<and>
      (\<forall>n. \<not> secret_name name n \<longrightarrow> sf_dir s n = d n))"

definition all_private :: "string \<Rightarrow> secret_fs \<Rightarrow> bool" where
  "all_private name s =
     ((\<forall>n b m. sf_dir s n = Some (b, m) \<longrightarrow> secret_name name n \<longrightarrow> is_private m) \<and>
      (\<forall>t c m. sf_calls s t = Some c \<longrightarrow> wc_at c = AtChmod m \<longrightarrow> is_private m))"

definition secret_inv :: "string \<Rightarrow> dir \<Rightarrow> secret_fs \<Rightarrow> bool" where
  "secret_inv name d s = (calls_ok name s \<and> whole name d s)"

lemma call_temp: "call_ok name s c \<Longrightarrow> \<exists>k. wc_temp c = temp_name name (wc_pid c) k"
  by (auto simp: call_ok_def)

text \<open>What an event of one call does to the others: nothing, for its temporary file is its own.\<close>

lemma call_ok_other:
  assumes ok: "call_ok name s c'" and dir: "sf_dir s' (wc_temp c') = sf_dir s (wc_temp c')"
    and seq: "sf_seq s (wc_pid c') \<le> sf_seq s' (wc_pid c')" and begun: "set (sf_begun s) \<subseteq> set (sf_begun s')"
  shows "call_ok name s' c'"
proof -
  from ok seq have "\<exists>k < sf_seq s' (wc_pid c'). wc_temp c' = temp_name name (wc_pid c') k"
    unfolding call_ok_def by (meson order.strict_trans2)
  moreover from ok begun have "wc_bytes c' \<in> set (sf_begun s')" unfolding call_ok_def by blast
  ultimately show ?thesis using ok unfolding call_ok_def dir by simp
qed

lemma calls_ok_step:
  assumes ok: "calls_ok name s" and c: "sf_calls s t = Some c"
    and c': "sf_calls s' = (sf_calls s)(t := x)" "sf_seq s' = sf_seq s" "sf_begun s' = sf_begun s"
    and temp: "\<And>y. x = Some y \<Longrightarrow> wc_temp y = wc_temp c \<and> call_ok name s' y"
    and dir: "\<And>n. n \<noteq> wc_temp c \<Longrightarrow> n \<noteq> name \<Longrightarrow> sf_dir s' n = sf_dir s n"
  shows "calls_ok name s'"
  unfolding calls_ok_def
proof (intro allI impI)
  fix u c2 assume u: "sf_calls s' u = Some c2"
  have other: "sf_calls s v = Some c3 \<Longrightarrow> v \<noteq> t \<Longrightarrow> wc_temp c3 \<noteq> wc_temp c \<and> call_ok name s c3" for v c3
    using ok c by (auto simp: calls_ok_def)
  have "call_ok name s' c2"
  proof (cases "u = t")
    case True
    with u c'(1) temp show ?thesis by simp
  next
    case False
    with u c'(1) have "sf_calls s u = Some c2" by simp
    from other [OF this False] have k: "call_ok name s c2" "wc_temp c2 \<noteq> wc_temp c" by simp_all
    from call_temp [OF k(1)] have "wc_temp c2 \<noteq> name" by (metis temp_name_ne(1))
    with k show ?thesis by (auto intro: call_ok_other simp: dir c'(2,3))
  qed
  moreover have "wc_temp c3 \<noteq> wc_temp c2" if v: "sf_calls s' v = Some c3" "v \<noteq> u" for v c3
  proof (cases "u = t \<or> v = t")
    case True
    with u v c'(1) temp other [of v c3] other [of u c2] show ?thesis by auto
  next
    case False
    with u v c'(1) have "sf_calls s u = Some c2" "sf_calls s v = Some c3" by auto
    with ok v(2) show ?thesis unfolding calls_ok_def by blast
  qed
  ultimately show "call_ok name s' c2 \<and> (\<forall>v c3. sf_calls s' v = Some c3 \<longrightarrow> v \<noteq> u \<longrightarrow> wc_temp c3 \<noteq> wc_temp c2)"
    by blast
qed

lemmas secret_defs = at_call_def step_to_def leave_def set_file_def bind_eq_Some_conv

lemma calls_ok_do:
  assumes ok: "calls_ok name s" and run: "secret_do name e s = Some s'"
  shows "calls_ok name s'"
proof (cases e)
  case (SfStart t pid bytes)
  let ?c = "\<lparr>wc_pid = pid, wc_temp = temp_name name pid (sf_seq s pid), wc_bytes = bytes, wc_at = AtOpen\<rparr>"
  from run SfStart have free: "sf_calls s t = None"
    and s': "s' = s\<lparr>sf_calls := (sf_calls s)(t \<mapsto> ?c), sf_seq := (sf_seq s)(pid := sf_seq s pid + 1), sf_begun := bytes # sf_begun s\<rparr>"
    by (auto split: if_splits)
  have old: "call_ok name s c \<and> wc_temp c \<noteq> wc_temp ?c" if "sf_calls s u = Some c" for u c
  proof -
    from ok that have k: "call_ok name s c" by (simp add: calls_ok_def)
    then obtain k where "k < sf_seq s (wc_pid c)" "wc_temp c = temp_name name (wc_pid c) k" by (auto simp: call_ok_def)
    then have "wc_temp c \<noteq> wc_temp ?c" by (auto simp: temp_name_inj)
    with k show ?thesis by simp
  qed
  have "call_ok name s' ?c" by (auto simp: call_ok_def s')
  moreover have "call_ok name s' c" if "sf_calls s u = Some c" for u c
    by (rule call_ok_other [of name s]) (use old [OF that] in \<open>auto simp: s'\<close>)
  ultimately show ?thesis using ok old by (fastforce simp: calls_ok_def s' free)
next
  case (SfOpen t b)
  with run obtain c where c: "sf_calls s t = Some c" "wc_at c = AtOpen" by (auto simp: secret_defs split: if_splits)
  from ok c(1) have k: "call_ok name s c" by (simp add: calls_ok_def)
  show ?thesis
    by (rule calls_ok_step [OF ok c(1), where x = "if b then Some (c\<lparr>wc_at := AtWrite 0\<rparr>) else None"])
      (use run SfOpen c k in \<open>auto simp: secret_defs call_ok_def split: if_splits\<close>)
next
  case (SfWrite t n b)
  with run obtain c where ct: "sf_calls s t = Some c" by (auto simp: secret_defs)
  with run SfWrite obtain k x m where c: "sf_calls s t = Some c" "wc_at c = AtWrite k" "sf_dir s (wc_temp c) = Some (x, m)"
    by (cases "wc_at c"; cases "sf_dir s (wc_temp c)") (auto simp: secret_defs)
  from ok c(1) have k: "call_ok name s c" by (simp add: calls_ok_def)
  let ?k = "min (k + n) (length (wc_bytes c))"
  show ?thesis
    by (rule calls_ok_step [OF ok c(1), where x = "if b then Some (c\<lparr>wc_at := (if ?k = length (wc_bytes c) then AtSync else AtWrite ?k)\<rparr>) else None"])
      (use run SfWrite c k in \<open>auto simp: secret_defs call_ok_def Let_def split: if_splits\<close>)
next
  case (SfSync t b)
  with run obtain c where c: "sf_calls s t = Some c" "wc_at c = AtSync" by (auto simp: secret_defs split: if_splits)
  from ok c(1) have k: "call_ok name s c" by (simp add: calls_ok_def)
  show ?thesis
    by (rule calls_ok_step [OF ok c(1), where x = "if b then Some (c\<lparr>wc_at := AtStat\<rparr>) else None"])
      (use run SfSync c k in \<open>auto simp: secret_defs call_ok_def split: if_splits\<close>)
next
  case (SfStat t)
  with run obtain c where c: "sf_calls s t = Some c" "wc_at c = AtStat" by (auto simp: secret_defs split: if_splits)
  from ok c(1) have k: "call_ok name s c" by (simp add: calls_ok_def)
  show ?thesis
    by (rule calls_ok_step [OF ok c(1), where x = "Some (c\<lparr>wc_at := (case sf_dir s name of Some (_, m) \<Rightarrow> AtChmod (and m 0xFFF) | None \<Rightarrow> AtRename)\<rparr>)"])
      (use run SfStat c k in \<open>auto simp: secret_defs call_ok_def split: if_splits option.splits\<close>)
next
  case (SfChmod t b)
  with run obtain c where ct: "sf_calls s t = Some c" by (auto simp: secret_defs)
  with run SfChmod obtain m x where c: "sf_calls s t = Some c" "wc_at c = AtChmod m" "sf_dir s (wc_temp c) = Some x"
    by (cases "wc_at c"; cases "sf_dir s (wc_temp c)") (auto simp: secret_defs)
  from ok c(1) have k: "call_ok name s c" by (simp add: calls_ok_def)
  show ?thesis
    by (rule calls_ok_step [OF ok c(1), where x = "if b then Some (c\<lparr>wc_at := AtRename\<rparr>) else None"])
      (use run SfChmod c k in \<open>auto simp: secret_defs call_ok_def split: if_splits\<close>)
next
  case (SfRename t b)
  with run obtain c where c: "sf_calls s t = Some c" "wc_at c = AtRename" by (auto simp: secret_defs split: if_splits)
  show ?thesis
    by (rule calls_ok_step [OF ok c(1), where x = None])
      (use run SfRename c in \<open>auto simp: secret_defs split: if_splits\<close>)
next
  case (SfCrash pid)
  with run have s': "s' = s\<lparr>sf_calls := (\<lambda>t. case sf_calls s t of Some c \<Rightarrow> if wc_pid c = pid then None else Some c | None \<Rightarrow> None),
      sf_seq := (sf_seq s)(pid := 0)\<rparr>" by simp
  have old: "sf_calls s u = Some c \<and> wc_pid c \<noteq> pid" if "sf_calls s' u = Some c" for u c
    using that by (auto simp: s' split: option.splits if_splits)
  have "call_ok name s' c" if "sf_calls s' u = Some c" for u c
    by (rule call_ok_other [of name s]) (use old [OF that] ok in \<open>auto simp: s' calls_ok_def\<close>)
  with old ok show ?thesis unfolding calls_ok_def by blast
qed

text \<open>An event that does not rename leaves the file; a rename puts what a call had written whole.\<close>

lemma dir_after:
  assumes ok: "calls_ok name s" and run: "secret_do name e s = Some s'"
  shows "set (sf_begun s) \<subseteq> set (sf_begun s')"
    and "sf_dir s' name = sf_dir s name \<or> (\<exists>b m. sf_dir s' name = Some (b, m) \<and> b \<in> set (sf_begun s'))"
      and "\<not> secret_name name n \<Longrightarrow> sf_dir s' n = sf_dir s n"
proof -
  have temp: "wc_temp c \<noteq> name \<and> (\<exists>p k. wc_temp c = temp_name name p k)" if "sf_calls s t = Some c" for t c
  proof -
    from ok that have "call_ok name s c" by (simp add: calls_ok_def)
    from call_temp [OF this] show ?thesis by auto
  qed
  show "set (sf_begun s) \<subseteq> set (sf_begun s')"
  proof (cases e)
    case (SfWrite t k b)
    with run obtain c where c: "sf_calls s t = Some c" by (auto simp: secret_defs)
    with run SfWrite show ?thesis
      by (cases "wc_at c"; cases "sf_dir s (wc_temp c)") (auto simp: secret_defs Let_def split: if_splits)
  next
    case (SfChmod t b)
    with run obtain c where c: "sf_calls s t = Some c" by (auto simp: secret_defs)
    with run SfChmod show ?thesis
      by (cases "wc_at c"; cases "sf_dir s (wc_temp c)") (auto simp: secret_defs split: if_splits)
  qed (use run in \<open>auto simp: secret_defs split: if_splits\<close>)
  have same: "sf_dir s' n = sf_dir s n" if "\<forall>t b. e \<noteq> SfRename t b \<or> n \<noteq> name" "\<forall>p k. n \<noteq> temp_name name p k" for n
  proof (cases e)
    case (SfRename t b)
    with run obtain c where c: "sf_calls s t = Some c" by (auto simp: secret_defs)
    from temp [OF c] that have "n \<noteq> wc_temp c" by metis
    with run SfRename c that(1) show ?thesis by (auto simp: secret_defs split: if_splits)
  next
    case (SfOpen t b)
    with run obtain c where c: "sf_calls s t = Some c" by (auto simp: secret_defs)
    from temp [OF c] that have "n \<noteq> wc_temp c" by metis
    with run SfOpen c show ?thesis by (auto simp: secret_defs split: if_splits)
  next
    case (SfWrite t k b)
    with run obtain c where c: "sf_calls s t = Some c" by (auto simp: secret_defs)
    from temp [OF c] that have "n \<noteq> wc_temp c" by metis
    with run SfWrite c show ?thesis
      by (cases "wc_at c"; cases "sf_dir s (wc_temp c)") (auto simp: secret_defs Let_def split: if_splits)
  next
    case (SfChmod t b)
    with run obtain c where c: "sf_calls s t = Some c" by (auto simp: secret_defs)
    from temp [OF c] that have "n \<noteq> wc_temp c" by metis
    with run SfChmod c show ?thesis
      by (cases "wc_at c"; cases "sf_dir s (wc_temp c)") (auto simp: secret_defs split: if_splits)
  qed (use run in \<open>auto simp: secret_defs split: if_splits\<close>)
  then show "\<not> secret_name name n \<Longrightarrow> sf_dir s' n = sf_dir s n" by (auto simp: secret_name_def)
  show "sf_dir s' name = sf_dir s name \<or> (\<exists>b m. sf_dir s' name = Some (b, m) \<and> b \<in> set (sf_begun s'))"
  proof (cases "\<exists>t b. e = SfRename t b")
    case False
    with same [of name] show ?thesis by simp
  next
    case True
    then obtain t b where e: "e = SfRename t b" by blast
    with run obtain c where c: "sf_calls s t = Some c" "wc_at c = AtRename" by (auto simp: secret_defs split: if_splits)
    from ok c have "call_ok name s c" by (simp add: calls_ok_def)
    then obtain m where "sf_dir s (wc_temp c) = Some (wc_bytes c, m)" "wc_bytes c \<in> set (sf_begun s)" by (auto simp: call_ok_def c(2))
    with run e c temp [OF c(1)] show ?thesis by (auto simp: secret_defs split: if_splits)
  qed
qed

lemma whole_do:
  assumes "calls_ok name s" "whole name d s" "secret_do name e s = Some s'"
  shows "whole name d s'"
  using dir_after [OF assms(1,3)] assms(2) unfolding whole_def
  by (auto split: option.splits)

interpretation secret: invariant_system "secret_init d" "secret_step name" "secret_inv name d" for name d
proof unfold_locales
  fix s assume "secret_init d s"
  then show "secret_inv name d s"
    by (auto simp: secret_init_def secret_inv_def calls_ok_def whole_def split: option.splits)
next
  fix s t assume "secret_inv name d s" "secret_step name s t"
  then show "secret_inv name d t"
    unfolding secret_step_simps secret_inv_def using calls_ok_do whole_do by blast
qed

section \<open>Who can read it\<close>

lemma private_and [simp]: "is_private (and m 0xFFF) = is_private m"
  unfolding is_private_def by (simp add: and.assoc)

lemma private_new [simp]: "is_private PRIVATE_MODE"
  by (simp add: is_private_def PRIVATE_MODE_def)

lemma all_private_do:
  assumes ok: "calls_ok name s" and priv: "all_private name s" and run: "secret_do name e s = Some s'"
  shows "all_private name s'"
proof -
  have f: "is_private m" if "sf_dir s n = Some (b, m)" "secret_name name n" for n b m
    using priv that unfolding all_private_def by blast
  have at: "is_private m" if "sf_calls s t = Some c" "wc_at c = AtChmod m" for t c m
    using priv that unfolding all_private_def by blast
  have temp: "secret_name name (wc_temp c)" if "sf_calls s t = Some c" for t c
    using ok that call_temp unfolding calls_ok_def secret_name_def by blast
  have main: "secret_name name name" by (simp add: secret_name_def)
  have dir: "is_private m" if "sf_dir s' n = Some (b, m)" "secret_name name n" for n b m
  proof (cases e)
    case (SfOpen t x)
    with run obtain c where c: "sf_calls s t = Some c" by (auto simp: secret_defs)
    with run SfOpen that f temp [OF c] main show ?thesis by (auto simp: secret_defs split: if_splits option.splits)
  next
    case (SfWrite t k x)
    with run obtain c where c: "sf_calls s t = Some c" by (auto simp: secret_defs)
    with run SfWrite that f temp [OF c] main show ?thesis
      by (cases "wc_at c"; cases "sf_dir s (wc_temp c)") (auto simp: secret_defs Let_def split: if_splits)
  next
    case (SfChmod t x)
    with run obtain c where c: "sf_calls s t = Some c" by (auto simp: secret_defs)
    with run SfChmod that f temp [OF c] at [OF c] show ?thesis
      by (cases "wc_at c"; cases "sf_dir s (wc_temp c)") (auto simp: secret_defs split: if_splits)
  next
    case (SfRename t x)
    with run obtain c where c: "sf_calls s t = Some c" by (auto simp: secret_defs)
    with run SfRename that f temp [OF c] main show ?thesis by (auto simp: secret_defs split: if_splits)
  qed (use run that f in \<open>auto simp: secret_defs split: if_splits\<close>)
  have "is_private m" if "sf_calls s' t = Some c" "wc_at c = AtChmod m" for t c m
  proof (cases "\<exists>u. e = SfStat u")
    case True
    then obtain u where e: "e = SfStat u" by blast
    with run obtain c' where c': "sf_calls s u = Some c'" by (auto simp: secret_defs)
    with run e that f [OF _ main] at show ?thesis by (cases "u = t") (auto simp: secret_defs split: if_splits option.splits)
  next
    case False
    show ?thesis
    proof (cases e)
      case (SfWrite u k x)
      with run obtain c' where c': "sf_calls s u = Some c'" by (auto simp: secret_defs)
      with run SfWrite that at show ?thesis
        by (cases "wc_at c'"; cases "sf_dir s (wc_temp c')") (auto simp: secret_defs Let_def split: if_splits)
    next
      case (SfChmod u x)
      with run obtain c' where c': "sf_calls s u = Some c'" by (auto simp: secret_defs)
      with run SfChmod that at show ?thesis
        by (cases "wc_at c'"; cases "sf_dir s (wc_temp c')") (auto simp: secret_defs split: if_splits)
    qed (use run that at False in \<open>auto simp: secret_defs split: if_splits option.splits\<close>)
  qed
  with dir show ?thesis unfolding all_private_def by blast
qed

text \<open>
  C29. However many calls of \<open>write\<close> interleave, whatever fails and whoever dies: the file is there whenever it
  was, holding all of what it held or all of what some call was to write, and no file but it and its temporary ones is touched;
  and if others could read neither it nor a leftover to begin with, they never can read it or any file a call writes.
\<close>
theorem secret_file_whole_and_private:
  assumes "reachable (secret_init d) (secret_step name) s"
  shows "whole name d s \<and>
    ((\<forall>n b m. d n = Some (b, m) \<and> secret_name name n \<longrightarrow> is_private m) \<longrightarrow> all_private name s)"
proof
  from secret.reachable_inv [OF assms] show "whole name d s" by (simp add: secret_inv_def)
  show "(\<forall>n b m. d n = Some (b, m) \<and> secret_name name n \<longrightarrow> is_private m) \<longrightarrow> all_private name s"
  proof
    assume priv: "\<forall>n b m. d n = Some (b, m) \<and> secret_name name n \<longrightarrow> is_private m"
    from assms show "all_private name s"
    proof (induction rule: reachable.induct)
      case (reach_init s)
      with priv show ?case by (auto simp: secret_init_def all_private_def)
    next
      case (reach_step s t)
      from secret.reachable_inv [OF reach_step(1)] have "calls_ok name s" by (simp add: secret_inv_def)
      with reach_step show ?case unfolding secret_step_simps by (blast intro: all_private_do)
    qed
  qed
qed

section \<open>One call, undisturbed\<close>

fun secret_run :: "string \<Rightarrow> secret_event list \<Rightarrow> secret_fs \<Rightarrow> secret_fs option" where
  "secret_run name [] s = Some s"
| "secret_run name (e # es) s = Option.bind (secret_do name e s) (secret_run name es)"

lemma secret_run_reachable:
  "secret_run name es s = Some s' \<Longrightarrow> reachable (secret_init d) (secret_step name) s \<Longrightarrow> reachable (secret_init d) (secret_step name) s'"
  by (induction es arbitrary: s) (auto simp: bind_eq_Some_conv, metis reach_step secret_step.intros)

definition solo :: "nat \<Rightarrow> nat \<Rightarrow> string \<Rightarrow> bool \<Rightarrow> secret_event list" where
  "solo t pid bytes was_there =
     [SfStart t pid bytes, SfOpen t True, SfWrite t (length bytes) True, SfSync t True, SfStat t] @
     (if was_there then [SfChmod t True] else []) @ [SfRename t True]"

text \<open>It puts the bytes, and the mode stays what it was: a file others can read still is, and is still refused.\<close>

lemma solo_write:
  assumes "sf_calls s t = None" "sf_dir s (temp_name name pid (sf_seq s pid)) = None"
  shows "\<exists>s'. secret_run name (solo t pid bytes (sf_dir s name \<noteq> None)) s = Some s' \<and>
    sf_dir s' = (sf_dir s)(name \<mapsto> (bytes, case sf_dir s name of Some (_, m) \<Rightarrow> and m 0xFFF | None \<Rightarrow> PRIVATE_MODE)) \<and>
    sf_calls s' = sf_calls s"
  using assms
  by (cases "sf_dir s name")
    (auto simp: solo_def at_call_def step_to_def leave_def set_file_def Let_def fun_eq_iff)

lemma verify_is_private: "secret_verify path m = Ok () \<longleftrightarrow> is_private m"
  by (simp add: secret_verify_def is_private_def)

lemma widened_stays_refused: "is_ok (secret_verify path (and m 0xFFF)) = is_ok (secret_verify path m)"
  using private_and [of m] by (simp add: secret_verify_def is_private_def)

section \<open>An example\<close>

text \<open>Two calls of one process at once, the second dying with it after the first is through.\<close>

definition ex_dir :: dir where
  "ex_dir = [''agent.key'' \<mapsto> (''old'', 0x180)]"

definition ex_secret :: secret_fs where
  "ex_secret = \<lparr>sf_dir = ex_dir, sf_seq = (\<lambda>_. 0), sf_calls = Map.empty, sf_begun = []\<rparr>"

definition ex_events :: "secret_event list" where
  "ex_events = [SfStart 1 7 ''new'', SfStart 2 7 ''newer'', SfOpen 1 True, SfOpen 2 True, SfWrite 1 2 True,
     SfWrite 2 3 True, SfWrite 1 1 True, SfSync 1 True, SfStat 1, SfChmod 1 True, SfRename 1 True, SfCrash 7]"

lemma ex_run: "map_option (\<lambda>s. sf_dir s ''agent.key'') (secret_run ''agent.key'' ex_events ex_secret) = Some (Some (''new'', 0x180))"
  by code_simp

theorem secret_file_whole_and_private_witness:
  "\<exists>s. secret_run ''agent.key'' ex_events ex_secret = Some s \<and> sf_dir s ''agent.key'' = Some (''new'', 0x180) \<and>
     whole ''agent.key'' ex_dir s \<and> all_private ''agent.key'' s"
proof -
  from ex_run obtain s where s: "secret_run ''agent.key'' ex_events ex_secret = Some s" "sf_dir s ''agent.key'' = Some (''new'', 0x180)"
    by auto
  have "secret_init ex_dir ex_secret" by (simp add: secret_init_def ex_secret_def)
  then have "reachable (secret_init ex_dir) (secret_step ''agent.key'') ex_secret" by (rule reach_init)
  from secret_run_reachable [OF s(1) this] have r: "reachable (secret_init ex_dir) (secret_step ''agent.key'') s" .
  have "\<forall>n b m. ex_dir n = Some (b, m) \<and> secret_name ''agent.key'' n \<longrightarrow> is_private m"
    by (auto simp: ex_dir_def is_private_def split: if_splits)
  with secret_file_whole_and_private [OF r] s show ?thesis by blast
qed

end
