(* ===== verification/Identity.thy ===== *)
theory Identity
  imports Secretfile Protocol
begin

text \<open>
  Who this machine is and whom it trusts (\<open>metralectl-agent/src/identity.rs\<close>, \<open>fleet/pinning.rs\<close>): the fingerprint
  of a key, the checks that tie a key to a fingerprint, and the store of pins with the rights they carry.

  SHA-256, Ed25519 and hexadecimal are the record \<open>crypto\<close>. The pin file is what its text parses to: absent,
  unreadable, or the pins in the order of the file; a write either fails and leaves it, or replaces it whole, which is
  what \<open>Secretfile\<close> shows of the function that does it.

  The theorems: the operations on the file are those of a finite map, and a failed one changes nothing; a right a pin
  holds was given by a grant that nothing has taken back since, and pairing gives no right to run benchmarks. The lemma
  at the end shows what two processes can do to each other.
\<close>

section \<open>Keys\<close>

record 'k crypto =
  cr_digest :: "8 word list \<Rightarrow> 8 word list"
  cr_point :: "8 word list \<Rightarrow> 'k option"
  cr_bytes :: "'k \<Rightarrow> 8 word list"
  cr_verify :: "'k \<Rightarrow> string \<Rightarrow> 8 word list \<Rightarrow> bool"
  cr_unhex :: "string \<Rightarrow> 8 word list option"

definition fingerprint :: "'k crypto \<Rightarrow> 'k \<Rightarrow> node_id" where
  "fingerprint cr k = NodeId (cr_digest cr (cr_bytes cr k))"

datatype key_error =
    KeyNotHex | KeyNotThirtyTwo | KeyNotOnCurve | KeyMismatch | SignatureLength | SignatureBad

definition key_of_hex :: "'k crypto \<Rightarrow> string \<Rightarrow> ('k, key_error) result" where
  "key_of_hex cr s =
     (case cr_unhex cr s of
        None \<Rightarrow> Err KeyNotHex
      | Some bytes \<Rightarrow>
          if length bytes \<noteq> 32 then Err KeyNotThirtyTwo
          else (case cr_point cr bytes of None \<Rightarrow> Err KeyNotOnCurve | Some k \<Rightarrow> Ok k))"

definition verify_key_matches :: "'k crypto \<Rightarrow> node_id \<Rightarrow> string \<Rightarrow> (unit, key_error) result" where
  "verify_key_matches cr n s =
     result_bind (key_of_hex cr s) (\<lambda>k. if fingerprint cr k = n then Ok () else Err KeyMismatch)"

definition verify_from :: "'k crypto \<Rightarrow> node_id \<Rightarrow> string \<Rightarrow> string \<Rightarrow> 8 word list \<Rightarrow> (unit, key_error) result" where
  "verify_from cr n s msg sig =
     result_bind (key_of_hex cr s) (\<lambda>k.
       if fingerprint cr k \<noteq> n then Err KeyMismatch
       else if length sig \<noteq> 64 then Err SignatureLength
       else if cr_verify cr k msg sig then Ok () else Err SignatureBad)"

section \<open>Pins\<close>

record pin =
  pn_id :: node_id
  pn_public_key :: string
  pn_name :: display_name
  pn_paired_at :: "64 word"
  pn_last_address :: "string option"
  pn_controller :: bool
  pn_bench :: bool

type_synonym pin_file = "(pin list, string) result option"
type_synonym pins = "(node_id, pin) btree"

definition pins_load :: "pin_file \<Rightarrow> (pins, string) result" where
  "pins_load f = (case f of
     None \<Rightarrow> Ok []
   | Some (Err e) \<Rightarrow> Err e
   | Some (Ok ps) \<Rightarrow> Ok (bt_of_list (map (\<lambda>p. (pn_id p, p)) ps)))"

text \<open>The first argument is why the write fails, if it does.\<close>

definition pins_save :: "string option \<Rightarrow> pins \<Rightarrow> pin_file \<Rightarrow> (unit, string) result \<times> pin_file" where
  "pins_save fault m f = (case fault of Some e \<Rightarrow> (Err e, f) | None \<Rightarrow> (Ok (), Some (Ok (map snd m))))"

definition is_pinned :: "node_id \<Rightarrow> pin_file \<Rightarrow> (bool, string) result" where
  "is_pinned n f = result_bind (pins_load f) (\<lambda>m. Ok (bt_get m n \<noteq> None))"

definition pins_add :: "string option \<Rightarrow> pin \<Rightarrow> pin_file \<Rightarrow> (unit, string) result \<times> pin_file" where
  "pins_add fault p f =
     (case pins_load f of
        Err e \<Rightarrow> (Err e, f)
      | Ok m \<Rightarrow> pins_save fault (bt_insert (pn_id p) p m) f)"

definition pins_remove :: "string option \<Rightarrow> node_id \<Rightarrow> pin_file \<Rightarrow> (bool, string) result \<times> pin_file" where
  "pins_remove fault n f =
     (case pins_load f of
        Err e \<Rightarrow> (Err e, f)
      | Ok m \<Rightarrow>
          if bt_get m n = None then (Ok False, f)
          else (case pins_save fault (bt_remove n m) f of
            (Err e, f) \<Rightarrow> (Err e, f)
          | (Ok _, f) \<Rightarrow> (Ok True, f)))"

definition set_right :: "(pin \<Rightarrow> pin) \<Rightarrow> string option \<Rightarrow> node_id \<Rightarrow> pin_file \<Rightarrow> (bool, string) result \<times> pin_file" where
  "set_right grant fault n f =
     (case pins_load f of
        Err e \<Rightarrow> (Err e, f)
      | Ok m \<Rightarrow>
          (case bt_get m n of
             None \<Rightarrow> (Ok False, f)
           | Some p \<Rightarrow>
               (case pins_save fault (bt_insert n (grant p) m) f of
                  (Err e, f) \<Rightarrow> (Err e, f)
                | (Ok _, f) \<Rightarrow> (Ok True, f))))"

definition set_controller :: "string option \<Rightarrow> node_id \<Rightarrow> bool \<Rightarrow> pin_file \<Rightarrow> (bool, string) result \<times> pin_file" where
  "set_controller fault n granted = set_right (\<lambda>p. p\<lparr>pn_controller := granted\<rparr>) fault n"

definition set_bench :: "string option \<Rightarrow> node_id \<Rightarrow> bool \<Rightarrow> pin_file \<Rightarrow> (bool, string) result \<times> pin_file" where
  "set_bench fault n granted = set_right (\<lambda>p. p\<lparr>pn_bench := granted\<rparr>) fault n"

record pairing =
  pa_node :: node_id
  pa_public_key :: string
  pa_name :: display_name
  pa_now_unix :: "64 word"
  pa_last_address :: "string option"
  pa_controller :: bool

definition pin_of_pairing :: "pairing \<Rightarrow> pin" where
  "pin_of_pairing p =
     \<lparr>pn_id = pa_node p, pn_public_key = pa_public_key p, pn_name = pa_name p, pn_paired_at = pa_now_unix p,
      pn_last_address = pa_last_address p, pn_controller = pa_controller p, pn_bench = False\<rparr>"

definition record_pairing :: "string option \<Rightarrow> pairing \<Rightarrow> pin_file \<Rightarrow> (unit, string) result \<times> pin_file" where
  "record_pairing fault p = pins_add fault (pin_of_pairing p)"

definition remember_address :: "string option \<Rightarrow> node_id \<Rightarrow> string \<Rightarrow> pin_file \<Rightarrow> (unit, string) result \<times> pin_file" where
  "remember_address fault n addr f =
     (case pins_load f of
        Err e \<Rightarrow> (Err e, f)
      | Ok m \<Rightarrow>
          (case bt_get m n of
             None \<Rightarrow> (Ok (), f)
           | Some p \<Rightarrow>
               if pn_last_address p = Some addr then (Ok (), f)
               else pins_add fault (p\<lparr>pn_last_address := Some addr\<rparr>) f))"

section \<open>What the operations are: those of a map\<close>

datatype pin_op =
    PoPair pairing
  | PoRemove node_id
  | PoController node_id bool
  | PoBench node_id bool
  | PoRemember node_id string

definition done_unit :: "(unit, string) result \<times> pin_file \<Rightarrow> (bool, string) result \<times> pin_file" where
  "done_unit x = (case x of (Ok _, f) \<Rightarrow> (Ok True, f) | (Err e, f) \<Rightarrow> (Err e, f))"

fun pin_do :: "string option \<Rightarrow> pin_op \<Rightarrow> pin_file \<Rightarrow> (bool, string) result \<times> pin_file" where
  "pin_do fault (PoPair p) f = done_unit (record_pairing fault p f)"
| "pin_do fault (PoRemove n) f = pins_remove fault n f"
| "pin_do fault (PoController n b) f = set_controller fault n b f"
| "pin_do fault (PoBench n b) f = set_bench fault n b f"
| "pin_do fault (PoRemember n a) f = done_unit (remember_address fault n a f)"

text \<open>The same on a map from node ids, with what the operation answers.\<close>

fun pin_spec :: "pin_op \<Rightarrow> (node_id \<rightharpoonup> pin) \<Rightarrow> bool \<times> (node_id \<rightharpoonup> pin)" where
  "pin_spec (PoPair p) m = (True, m(pa_node p \<mapsto> pin_of_pairing p))"
| "pin_spec (PoRemove n) m = (m n \<noteq> None, m(n := None))"
| "pin_spec (PoController n b) m = (m n \<noteq> None, m(n := map_option (\<lambda>p. p\<lparr>pn_controller := b\<rparr>) (m n)))"
| "pin_spec (PoBench n b) m = (m n \<noteq> None, m(n := map_option (\<lambda>p. p\<lparr>pn_bench := b\<rparr>) (m n)))"
| "pin_spec (PoRemember n a) m = (True, m(n := map_option (\<lambda>p. p\<lparr>pn_last_address := Some a\<rparr>) (m n)))"

definition pins_of :: "pin_file \<Rightarrow> (node_id \<rightharpoonup> pin) option" where
  "pins_of f = (case pins_load f of Ok m \<Rightarrow> Some (bt_get m) | Err _ \<Rightarrow> None)"

lemma pins_load_ok:
  assumes "pins_load f = Ok m"
  shows "bt_ok m" "\<forall>e\<in>set m. pn_id (snd e) = fst e"
proof -
  show "bt_ok m" using assms by (auto simp: pins_load_def bt_ok_of_list bt.invar_empty split: option.splits result.splits)
  then show "\<forall>e\<in>set m. pn_id (snd e) = fst e"
    using assms bt_of_list_Some
    by (fastforce simp: pins_load_def bt_get_iff [symmetric] split: option.splits result.splits)
qed

text \<open>What is written is read back.\<close>

lemma bt_get_keyed:
  assumes "bt_ok m" "\<forall>e\<in>set m. pn_id (snd e) = fst e"
  shows "bt_get (bt_of_list (map (\<lambda>p. (pn_id p, p)) (map snd m))) = bt_get m"
proof
  fix k
  have eq: "map (\<lambda>p. (pn_id p, p)) (map snd m) = m" using assms(2) by (induction m) auto
  show "bt_get (bt_of_list (map (\<lambda>p. (pn_id p, p)) (map snd m))) k = bt_get m k"
    unfolding eq
  proof (cases "bt_get m k")
    case None
    then show "bt_get (bt_of_list m) k = bt_get m k" by (metis bt_of_list_None bt_get_None)
  next
    case (Some v)
    then have "k \<in> fst ` set m" by (metis bt_get_None option.distinct(1))
    then obtain w where w: "bt_get (bt_of_list m) k = Some w" by (metis bt_of_list_None not_Some_eq)
    from bt_of_list_Some [OF this] assms(1) have "bt_get m k = Some w" by (simp add: bt_get_iff)
    with w show "bt_get (bt_of_list m) k = bt_get m k" by simp
  qed
qed

lemma pins_save_Ok:
  "bt_ok m \<Longrightarrow> \<forall>e\<in>set m. pn_id (snd e) = fst e \<Longrightarrow> pins_save fault m f = (Ok (), f') \<Longrightarrow> pins_of f' = Some (bt_get m)"
  by (auto simp: pins_save_def pins_of_def pins_load_def bt_get_keyed simp del: map_map split: option.splits)

lemma keyed_insert: "\<forall>e\<in>set m. pn_id (snd e) = fst e \<Longrightarrow> \<forall>e\<in>set (bt_insert (pn_id p) p m). pn_id (snd e) = fst e"
  by (induction "pn_id p" p m rule: bt_insert.induct) auto

lemma keyed_remove: "\<forall>e\<in>set m. pn_id (snd e) = fst e \<Longrightarrow> \<forall>e\<in>set (bt_remove n m). pn_id (snd e) = fst e"
  by (simp add: bt_remove_def)

lemma save_inserted:
  assumes "pins_load f = Ok m" "pins_save fault (bt_insert (pn_id p) p m) f = (Ok (), f')"
  shows "pins_of f' = Some ((bt_get m)(pn_id p \<mapsto> p))"
  using pins_save_Ok [OF bt_ok_insert keyed_insert assms(2)] pins_load_ok [OF assms(1)] by (auto simp: fun_eq_iff)

lemma save_removed:
  assumes "pins_load f = Ok m" "pins_save fault (bt_remove n m) f = (Ok (), f')"
  shows "pins_of f' = Some ((bt_get m)(n := None))"
  using pins_save_Ok [OF bt_ok_remove keyed_remove assms(2)] pins_load_ok [OF assms(1)] by (auto simp: fun_eq_iff)

lemma pins_save_Err: "pins_save fault m f = (Err e, f') \<Longrightarrow> f' = f"
  by (auto simp: pins_save_def split: option.splits)

lemma get_pn_id: "pins_load f = Ok m \<Longrightarrow> bt_get m n = Some p \<Longrightarrow> pn_id p = n"
  using pins_load_ok(2) bt_get_in by fastforce

text \<open>What \<open>set_right\<close> and \<open>pins_add\<close> do, on the map.\<close>

lemma set_right_map:
  assumes run: "set_right g fault n f = (r, f')" and g: "\<And>p. pn_id (g p) = pn_id p"
  shows "case r of
     Err _ \<Rightarrow> f' = f
   | Ok b \<Rightarrow> \<exists>m. pins_of f = Some m \<and> b = (m n \<noteq> None) \<and> pins_of f' = Some (m(n := map_option g (m n)))"
proof (cases "pins_load f")
  case (Err e)
  with run show ?thesis by (auto simp: set_right_def)
next
  case (Ok m)
  then have m: "pins_of f = Some (bt_get m)" by (simp add: pins_of_def)
  show ?thesis
  proof (cases "bt_get m n")
    case None
    then have "(bt_get m)(n := None) = bt_get m" by auto
    with run Ok m None show ?thesis by (auto simp: set_right_def)
  next
    case (Some p)
    have n: "pn_id (g p) = n" using get_pn_id [OF Ok Some] g by simp
    obtain r2 f2 where s: "pins_save fault (bt_insert n (g p) m) f = (r2, f2)" by fastforce
    show ?thesis
    proof (cases r2)
      case (Err e)
      with run Ok Some s show ?thesis by (auto simp: set_right_def dest: pins_save_Err)
    next
      case Ok2: (Ok u)
      with s save_inserted [OF Ok, of fault "g p" f2] n have "pins_of f2 = Some ((bt_get m)(n \<mapsto> g p))" by simp
      with run Ok Some s Ok2 m show ?thesis by (auto simp: set_right_def)
    qed
  qed
qed

lemma pins_add_map:
  assumes run: "pins_add fault p f = (r, f')"
  shows "case r of
     Err _ \<Rightarrow> f' = f
   | Ok _ \<Rightarrow> \<exists>m. pins_of f = Some m \<and> pins_of f' = Some (m(pn_id p \<mapsto> p))"
  using run save_inserted [of f _ fault p f']
  by (cases "pins_load f"; cases r) (auto simp: pins_add_def pins_of_def dest: pins_save_Err)

lemma pins_remove_map:
  assumes run: "pins_remove fault n f = (r, f')"
  shows "case r of
     Err _ \<Rightarrow> f' = f
   | Ok b \<Rightarrow> \<exists>m. pins_of f = Some m \<and> b = (m n \<noteq> None) \<and> pins_of f' = Some (m(n := None))"
proof (cases "pins_load f")
  case (Ok m)
  have "bt_get m n = None \<Longrightarrow> (bt_get m)(n := None) = bt_get m" by auto
  then show ?thesis
    using run Ok save_removed [OF Ok, of fault n] pins_save_Err [of fault "bt_remove n m" f]
    by (cases "pins_save fault (bt_remove n m) f"; cases "fst (pins_save fault (bt_remove n m) f)")
      (auto simp: pins_remove_def pins_of_def split: if_splits)
qed (use run in \<open>auto simp: pins_remove_def\<close>)

lemma done_unit_cases: "done_unit (r, f) = (case r of Ok _ \<Rightarrow> (Ok True, f) | Err e \<Rightarrow> (Err e, f))"
  by (simp add: done_unit_def split: result.splits)

lemma remember_map:
  assumes run: "remember_address fault n a f = (r, f')"
  shows "case r of
     Err _ \<Rightarrow> f' = f
   | Ok _ \<Rightarrow> \<exists>m. pins_of f = Some m \<and> pins_of f' = Some (m(n := map_option (\<lambda>p. p\<lparr>pn_last_address := Some a\<rparr>) (m n)))"
proof (cases "pins_load f")
  case (Ok m)
  then have m: "pins_of f = Some (bt_get m)" by (simp add: pins_of_def)
  show ?thesis
  proof (cases "bt_get m n")
    case None
    then have "(bt_get m)(n := None) = bt_get m" by auto
    with run Ok m None show ?thesis by (auto simp: remember_address_def)
  next
    case (Some p)
    show ?thesis
    proof (cases "pn_last_address p = Some a")
      case True
      then have "p\<lparr>pn_last_address := Some a\<rparr> = p" by simp
      with Some have "(bt_get m)(n \<mapsto> p\<lparr>pn_last_address := Some a\<rparr>) = bt_get m" by auto
      with run Ok m Some True show ?thesis by (auto simp: remember_address_def)
    next
      case False
      with run Ok Some have add: "pins_add fault (p\<lparr>pn_last_address := Some a\<rparr>) f = (r, f')"
        by (simp add: remember_address_def)
      from pins_add_map [OF this] get_pn_id [OF Ok Some] m Some show ?thesis by (cases r) auto
    qed
  qed
qed (use run in \<open>auto simp: remember_address_def\<close>)

lemma pin_do_map:
  assumes run: "pin_do fault op f = (r, f')"
  shows "case r of
     Err _ \<Rightarrow> f' = f
   | Ok b \<Rightarrow> \<exists>m. pins_of f = Some m \<and> b = fst (pin_spec op m) \<and> pins_of f' = Some (snd (pin_spec op m))"
proof (cases op)
  case (PoPair p)
  obtain r2 f2 where s: "pins_add fault (pin_of_pairing p) f = (r2, f2)" by fastforce
  from pins_add_map [OF s] run PoPair s show ?thesis
    by (cases r2) (auto simp: record_pairing_def done_unit_cases pin_of_pairing_def)
next
  case (PoRemove n)
  with pins_remove_map [of fault n f r f'] run show ?thesis by (cases r) simp_all
next
  case (PoController n b)
  with set_right_map [of "\<lambda>p. p\<lparr>pn_controller := b\<rparr>" fault n f r f'] run show ?thesis
    by (cases r) (simp_all add: set_controller_def)
next
  case (PoBench n b)
  with set_right_map [of "\<lambda>p. p\<lparr>pn_bench := b\<rparr>" fault n f r f'] run show ?thesis
    by (cases r) (simp_all add: set_bench_def)
next
  case (PoRemember n a)
  obtain r2 f2 where s: "remember_address fault n a f = (r2, f2)" by fastforce
  from remember_map [OF s] run PoRemember s show ?thesis by (cases r2) (auto simp: done_unit_cases)
qed

text \<open>
  C30. The operations on the pin file are those of the map it stands for: one that returns gives what the map gives
  and leaves the file of the changed map; one that fails leaves the file as it was.
\<close>
theorem pin_store_is_a_map:
  assumes run: "pin_do fault op f = (r, f')"
  shows "case r of
     Err _ \<Rightarrow> f' = f
   | Ok b \<Rightarrow> \<exists>m. pins_of f = Some m \<and> b = fst (pin_spec op m) \<and> pins_of f' = Some (snd (pin_spec op m))"
  by (rule pin_do_map [OF run])

section \<open>Where a right comes from\<close>

text \<open>Operations one after another: those that returned, and the file at the end.\<close>

fun pin_run :: "(string option \<times> pin_op) list \<Rightarrow> pin_file \<Rightarrow> pin_op list \<times> pin_file" where
  "pin_run [] f = ([], f)"
| "pin_run ((fault, op) # ops) f =
     (let (r, f) = pin_do fault op f; (log, f) = pin_run ops f in ((if is_ok r then op # log else log), f))"

fun gives_bench :: "node_id \<Rightarrow> pin_op \<Rightarrow> bool" where
  "gives_bench n (PoBench k b) = (k = n \<and> b)"
| "gives_bench n _ = False"

fun takes_bench :: "node_id \<Rightarrow> pin_op \<Rightarrow> bool" where
  "takes_bench n (PoPair p) = (pa_node p = n)"
| "takes_bench n (PoRemove k) = (k = n)"
| "takes_bench n (PoBench k b) = (k = n \<and> \<not> b)"
| "takes_bench n _ = False"

fun gives_control :: "node_id \<Rightarrow> pin_op \<Rightarrow> bool" where
  "gives_control n (PoController k b) = (k = n \<and> b)"
| "gives_control n (PoPair p) = (pa_node p = n \<and> pa_controller p)"
| "gives_control n _ = False"

fun takes_control :: "node_id \<Rightarrow> pin_op \<Rightarrow> bool" where
  "takes_control n (PoPair p) = (pa_node p = n \<and> \<not> pa_controller p)"
| "takes_control n (PoRemove k) = (k = n)"
| "takes_control n (PoController k b) = (k = n \<and> \<not> b)"
| "takes_control n _ = False"

definition held :: "(pin \<Rightarrow> bool) \<Rightarrow> node_id \<Rightarrow> (node_id \<rightharpoonup> pin) \<Rightarrow> bool" where
  "held right n m = (case m n of Some p \<Rightarrow> right p | None \<Rightarrow> False)"

text \<open>Given and not taken since, or there before and never taken.\<close>

definition granted :: "(pin_op \<Rightarrow> bool) \<Rightarrow> (pin_op \<Rightarrow> bool) \<Rightarrow> bool \<Rightarrow> pin_op list \<Rightarrow> bool" where
  "granted gives takes before log =
     ((\<exists>pre op post. log = pre @ op # post \<and> gives op \<and> (\<forall>x\<in>set post. \<not> takes x)) \<or>
      before \<and> (\<forall>x\<in>set log. \<not> takes x))"

lemma granted_Cons:
  "granted gives takes (gives op \<or> before \<and> \<not> takes op) log \<Longrightarrow> granted gives takes before (op # log)"
proof (cases "\<exists>pre g post. log = pre @ g # post \<and> gives g \<and> (\<forall>x\<in>set post. \<not> takes x)")
  case True
  then obtain pre g post where "op # log = (op # pre) @ g # post" "gives g" "\<forall>x\<in>set post. \<not> takes x" by auto
  then show ?thesis unfolding granted_def by blast
next
  case False
  assume "granted gives takes (gives op \<or> before \<and> \<not> takes op) log"
  with False have "(gives op \<or> before \<and> \<not> takes op) \<and> (\<forall>x\<in>set log. \<not> takes x)" unfolding granted_def by blast
  then show ?thesis unfolding granted_def by (metis append_Nil set_ConsD)
qed

lemma held_spec:
  "held pn_bench n (snd (pin_spec op m)) \<Longrightarrow> gives_bench n op \<or> held pn_bench n m \<and> \<not> takes_bench n op"
  "held pn_controller n (snd (pin_spec op m)) \<Longrightarrow> gives_control n op \<or> held pn_controller n m \<and> \<not> takes_control n op"
  by (cases op; auto simp: held_def pin_of_pairing_def split: option.splits if_splits)+

lemma pin_do_failed: "pin_do fault op f = (Err e, f') \<Longrightarrow> f' = f"
  using pin_do_map [of fault op f "Err e" f'] by simp

lemma run_granted:
  assumes "pin_run ops f = (log, f')" "pins_of f = Some m" "pins_of f' = Some m'"
    and step: "\<And>op m. held right n (snd (pin_spec op m)) \<Longrightarrow> gives op \<or> held right n m \<and> \<not> takes op"
    and "held right n m'"
  shows "granted gives takes (held right n m) log"
  using assms(1-3,5)
proof (induction ops arbitrary: f m log)
  case Nil
  then show ?case by (simp add: granted_def)
next
  case (Cons x ops)
  obtain fault op where x: "x = (fault, op)" by (cases x)
  obtain r g where r: "pin_do fault op f = (r, g)" by fastforce
  obtain log2 h where l: "pin_run ops g = (log2, h)" by fastforce
  from Cons.prems(1) x r l have h: "h = f'" and log: "log = (if is_ok r then op # log2 else log2)" by simp_all
  note IH = Cons.IH [OF l [unfolded h] _ Cons.prems(3,4)]
  show ?case
  proof (cases r)
    case (Err e)
    with pin_do_failed r have "g = f" by blast
    with IH [OF Cons.prems(2) [folded this]] Err log show ?thesis by simp
  next
    case (Ok b)
    with pin_do_map [OF r] Cons.prems(2) have "pins_of g = Some (snd (pin_spec op m))" by auto
    from IH [OF this] have "granted gives takes (held right n (snd (pin_spec op m))) log2" .
    then have "granted gives takes (gives op \<or> held right n m \<and> \<not> takes op) log2"
      using step [of op m] unfolding granted_def by blast
    from granted_Cons [OF this] Ok log show ?thesis by simp
  qed
qed

lemma run_readable:
  "pin_run ops f = (log, f') \<Longrightarrow> pins_of f = None \<longleftrightarrow> pins_of f' = None"
proof (induction ops arbitrary: f log)
  case (Cons x ops)
  obtain fault op where x: "x = (fault, op)" by (cases x)
  obtain r g where r: "pin_do fault op f = (r, g)" by fastforce
  obtain log2 h where l: "pin_run ops g = (log2, h)" by fastforce
  from Cons.prems x r l have h: "h = f'" by simp
  have "pins_of f = None \<longleftrightarrow> pins_of g = None" using pin_do_map [OF r] by (cases r) auto
  with Cons.IH [OF l [unfolded h]] show ?case by simp
qed simp

text \<open>
  C31. A right a pin holds was given by an operation that returned and that none after it has undone, or it was
  there from the start and none has undone it. Pairing, and pairing again, takes the right to run benchmarks away.
\<close>
theorem rights_come_from_grants:
  assumes run: "pin_run ops f = (log, f')" and m': "pins_of f' = Some m'" and p: "m' n = Some p"
  shows "\<exists>m. pins_of f = Some m \<and>
    (pn_bench p \<longrightarrow> granted (gives_bench n) (takes_bench n) (held pn_bench n m) log) \<and>
    (pn_controller p \<longrightarrow> granted (gives_control n) (takes_control n) (held pn_controller n m) log)"
proof -
  from run_readable [OF run] m' obtain m where m: "pins_of f = Some m" by auto
  have "held pn_bench n m' = pn_bench p" "held pn_controller n m' = pn_controller p" using p by (simp_all add: held_def)
  with run_granted [OF run m m' held_spec(1)] run_granted [OF run m m' held_spec(2)] m show ?thesis by simp
qed

section \<open>Keys and fingerprints\<close>

lemma verify_key_matches_Ok:
  "verify_key_matches cr n s = Ok () \<longleftrightarrow> (\<exists>k. key_of_hex cr s = Ok k \<and> fingerprint cr k = n)"
  by (auto simp: verify_key_matches_def result_bind_eq_Ok split: if_splits)

text \<open>A signature is accepted only under the key that is behind the id, and under no other where the digest tells keys
  apart.\<close>

lemma verify_from_Ok:
  "verify_from cr n s msg sig = Ok () \<longleftrightarrow>
     (\<exists>k. key_of_hex cr s = Ok k \<and> fingerprint cr k = n \<and> length sig = 64 \<and> cr_verify cr k msg sig)"
  by (auto simp: verify_from_def result_bind_eq_Ok split: if_splits)

lemma one_key_per_id:
  assumes "\<And>k k'. cr_digest cr (cr_bytes cr k) = cr_digest cr (cr_bytes cr k') \<Longrightarrow> k = k'"
    and "verify_key_matches cr n pinned = Ok ()" "verify_from cr n s msg sig = Ok ()"
  shows "key_of_hex cr s = key_of_hex cr pinned"
  using assms unfolding verify_key_matches_Ok verify_from_Ok fingerprint_def by fastforce

section \<open>Two processes\<close>

text \<open>
  A write is whole, but reading the file and writing it back are two steps. The agent has read the file to note
  an address; the operator removes the pin; the agent writes what it read, and the pin is back with its rights.
\<close>

definition ex_pin :: pin where
  "ex_pin = \<lparr>pn_id = NodeId [2], pn_public_key = ''aa'', pn_name = DisplayName ''spark'', pn_paired_at = 1,
     pn_last_address = None, pn_controller = True, pn_bench = True\<rparr>"

lemma removed_pin_written_back:
  "let f = Some (Ok [ex_pin]);
       read = pins_load f;
       (removed, f1) = pins_remove None (NodeId [2]) f;
       (_, f2) = (case read of
          Ok m \<Rightarrow> pins_save None (bt_insert (NodeId [2]) (ex_pin\<lparr>pn_last_address := Some ''10.0.0.2''\<rparr>) m) f1
        | Err e \<Rightarrow> (Err e, f1)) in
     removed = Ok True \<and> is_pinned (NodeId [2]) f1 = Ok False \<and> is_pinned (NodeId [2]) f2 = Ok True"
  by code_simp

section \<open>An example\<close>

definition ex_pairing :: pairing where
  "ex_pairing = \<lparr>pa_node = NodeId [2], pa_public_key = ''aa'', pa_name = DisplayName ''spark'', pa_now_unix = 1,
     pa_last_address = None, pa_controller = True\<rparr>"

definition ex_pin_ops :: "(string option \<times> pin_op) list" where
  "ex_pin_ops = [(None, PoPair ex_pairing), (None, PoBench (NodeId [2]) True), (Some ''disk full'', PoBench (NodeId [2]) False)]"

theorem pin_store_is_a_map_witness:
  "\<exists>f' m. pin_do None (PoPair ex_pairing) None = (Ok True, f') \<and> pins_of None = Some m \<and>
     pins_of f' = Some (snd (pin_spec (PoPair ex_pairing) m))"
proof -
  have "fst (pin_do None (PoPair ex_pairing) None) = Ok True" by code_simp
  then obtain f' where f': "pin_do None (PoPair ex_pairing) None = (Ok True, f')" by (metis prod.collapse)
  from pin_store_is_a_map [OF this] f' show ?thesis by auto
qed

theorem rights_come_from_grants_witness:
  "\<exists>f' m' p. pin_run ex_pin_ops None = ([PoPair ex_pairing, PoBench (NodeId [2]) True], f') \<and> pins_of f' = Some m' \<and>
     m' (NodeId [2]) = Some p \<and> pn_bench p \<and>
     granted (gives_bench (NodeId [2])) (takes_bench (NodeId [2])) False [PoPair ex_pairing, PoBench (NodeId [2]) True]"
proof -
  have "fst (pin_run ex_pin_ops None) = [PoPair ex_pairing, PoBench (NodeId [2]) True]"
    "map_option pn_bench (Option.bind (result_ok (pins_load (snd (pin_run ex_pin_ops None)))) (\<lambda>m. bt_get m (NodeId [2]))) = Some True"
    by code_simp+
  then obtain f' m p where run: "pin_run ex_pin_ops None = ([PoPair ex_pairing, PoBench (NodeId [2]) True], f')"
    "pins_load f' = Ok m" "bt_get m (NodeId [2]) = Some p" "pn_bench p"
    by (cases "pin_run ex_pin_ops None") (auto simp: bind_eq_Some_conv)
  then have m: "pins_of f' = Some (bt_get m)" by (simp add: pins_of_def)
  have none: "pins_of None = Some m2 \<Longrightarrow> \<not> held pn_bench n m2" for m2 n
    by (auto simp: pins_of_def pins_load_def held_def bt_get_def)
  from rights_come_from_grants [OF run(1) m run(3)] run none m show ?thesis by auto
qed

end
