(* ===== verification/Fleet.thy ===== *)
theory Fleet
  imports Identity Net
begin

text \<open>
  What an agent knows of the machines around it (\<open>metralectl-agent/src/fleet.rs\<close>, \<open>fleet/vouched.rs\<close>,
  \<open>fleet/routing.rs\<close>, \<open>fleet_digest\<close> of \<open>peer/link.rs\<close>): the tables of beacons, of reports and of
  claims, how each is written, bounded and pruned, the digest that is told to others, and the route a request takes.

  A clock reading is an integer of nanoseconds; vitals and alerts, which nothing here looks into, are type variables.
  The mutexes are never poisoned: nothing panics while it holds one. The pin file is part of the state, for other
  processes write it too.

  The theorems: what beacons and digests can fill is bounded, whatever arrives; a route leads to a machine this
  agent has pinned or through the best of those that answer and vouch, at an address from its own reports or pins,
  and no beacon and no claimed address has a part in it; the digest is a function of pins and reports alone.
\<close>

section \<open>The tables\<close>

definition unreachable_after :: int where
  "unreachable_after = 120 * 1000000000"

definition MAX_SIGHTINGS :: nat where "MAX_SIGHTINGS = 256"
definition MAX_VOUCHED :: nat where "MAX_VOUCHED = 64"

record beacon =
  bn_id :: node_id
  bn_name :: display_name
  bn_peer_port :: "16 word"
  bn_addresses :: "ip_addr list"
  bn_can_launch :: bool
  bn_accelerator :: string

record seen =
  sn_beacon :: beacon
  sn_at :: int

record 'v vouched_peer =
  vp_node :: node_id
  vp_name :: display_name
  vp_can_launch :: bool
  vp_accelerator :: string
  vp_os :: string
  vp_addresses :: "node_address list"
  vp_link :: link_class
  vp_reachable :: bool
  vp_vitals :: "'v option"
  vp_vitals_age_s :: "64 word option"

record 'v peer_report =
  rp_node :: node_id
  rp_name :: string
  rp_can_launch :: bool
  rp_accelerator :: string
  rp_os :: string
  rp_vitals :: "'v option"
  rp_link :: link_class
  rp_addresses :: "node_address list"
  rp_vouched :: "'v vouched_peer list option"
  rp_version_max :: "32 word"

type_synonym 'v claims = "(node_id, (node_id, 'v vouched_peer \<times> int) btree) btree"

record ('v, 'a) local_fleet =
  fl_id :: node_id
  fl_pins :: pin_file
  fl_local_addresses :: "node_address list"
  fl_launchability :: launchability
  fl_accelerator :: string
  fl_name :: display_name
  fl_os :: string
  fl_version :: string
  fl_vitals :: "'v option"
  fl_running_source :: "string option option"
  fl_seen :: "(node_id, seen) btree"
  fl_alerts :: "(node_id, 'a list) btree"
  fl_running :: "string option"
  fl_reports :: "(node_id, 'v peer_report \<times> int) btree"
  fl_claims :: "'v claims"

section \<open>Writing them\<close>

definition fl_pinned :: "node_id \<Rightarrow> ('v, 'a) local_fleet \<Rightarrow> bool" where
  "fl_pinned n f = (case pins_load (fl_pins f) of Ok m \<Rightarrow> bt_get m n \<noteq> None | Err _ \<Rightarrow> False)"

definition fl_observe :: "int \<Rightarrow> beacon \<Rightarrow> ('v, 'a) local_fleet \<Rightarrow> ('v, 'a) local_fleet" where
  "fl_observe now b f =
     (if bn_id b = fl_id f then f
      else if bt_get (fl_seen f) (bn_id b) = None \<and> MAX_SIGHTINGS \<le> length (fl_seen f) \<and> \<not> fl_pinned (bn_id b) f then f
      else f\<lparr>fl_seen := bt_insert (bn_id b) \<lparr>sn_beacon = b, sn_at = now\<rparr> (fl_seen f)\<rparr>)"

definition fl_record_report :: "int \<Rightarrow> 'v peer_report \<Rightarrow> ('v, 'a) local_fleet \<Rightarrow> ('v, 'a) local_fleet" where
  "fl_record_report now r f = f\<lparr>fl_reports := bt_insert (rp_node r) (r, now) (fl_reports f)\<rparr>"

definition fl_clear_report :: "node_id \<Rightarrow> ('v, 'a) local_fleet \<Rightarrow> ('v, 'a) local_fleet" where
  "fl_clear_report n f = f\<lparr>fl_reports := bt_remove n (fl_reports f)\<rparr>"

definition fl_set_running :: "string option \<Rightarrow> ('v, 'a) local_fleet \<Rightarrow> ('v, 'a) local_fleet" where
  "fl_set_running r f = f\<lparr>fl_running := r\<rparr>"

text \<open>The new value where it differs from the one held, and nothing where there is no source.\<close>

definition fl_refresh_running :: "('v, 'a) local_fleet \<Rightarrow> string option option \<times> ('v, 'a) local_fleet" where
  "fl_refresh_running f =
     (case fl_running_source f of
        None \<Rightarrow> (None, f)
      | Some found \<Rightarrow> if fl_running f = found then (None, f) else (Some found, f\<lparr>fl_running := found\<rparr>))"

definition fl_set_alerts :: "node_id \<Rightarrow> 'a list \<Rightarrow> ('v, 'a) local_fleet \<Rightarrow> ('v, 'a) local_fleet" where
  "fl_set_alerts n alerts f =
     f\<lparr>fl_alerts := (if alerts = [] then bt_remove n (fl_alerts f) else bt_insert n alerts (fl_alerts f))\<rparr>"

definition addr_prefix :: "string \<Rightarrow> string option" where
  "addr_prefix a = (if CHR ''.'' \<in> set a then Some (rev (tl (dropWhile (\<lambda>c. c \<noteq> CHR ''.'') (rev a)))) else None)"

definition classify_peer_address :: "string \<Rightarrow> ('v, 'a) local_fleet \<Rightarrow> link_class" where
  "classify_peer_address addr f =
     (case find (\<lambda>a. addr_prefix (na_addr a) = addr_prefix addr) (fl_local_addresses f) of
        Some a \<Rightarrow> na_class a | None \<Rightarrow> Unverified)"

subsection \<open>Claims\<close>

definition drop_voucher :: "node_id \<Rightarrow> 'v claims \<Rightarrow> 'v claims" where
  "drop_voucher via cs = map (\<lambda>(t, m). (t, bt_remove via m)) cs"

definition drop_empty :: "'v claims \<Rightarrow> 'v claims" where
  "drop_empty cs = filter (\<lambda>e. snd e \<noteq> []) cs"

definition add_claim :: "node_id \<Rightarrow> int \<Rightarrow> 'v vouched_peer \<Rightarrow> 'v claims \<Rightarrow> 'v claims" where
  "add_claim via now e cs =
     bt_insert (vp_node e) (bt_insert via (e, now) (case bt_get cs (vp_node e) of Some m \<Rightarrow> m | None \<Rightarrow> [])) cs"

definition fl_record_vouches :: "int \<Rightarrow> node_id \<Rightarrow> 'v vouched_peer list \<Rightarrow> ('v, 'a) local_fleet \<Rightarrow> ('v, 'a) local_fleet" where
  "fl_record_vouches now via digest f =
     (if MAX_VOUCHED < length digest then f
      else f\<lparr>fl_claims := drop_empty
             (fold (\<lambda>e cs. if vp_node e = fl_id f \<or> vp_node e = via then cs else add_claim via now e cs)
               digest (drop_voucher via (fl_claims f)))\<rparr>)"

definition fl_clear_vouches :: "node_id \<Rightarrow> ('v, 'a) local_fleet \<Rightarrow> ('v, 'a) local_fleet" where
  "fl_clear_vouches via f = f\<lparr>fl_claims := drop_empty (drop_voucher via (fl_claims f))\<rparr>"

definition fl_prune_vouches :: "int \<Rightarrow> ('v, 'a) local_fleet \<Rightarrow> ('v, 'a) local_fleet" where
  "fl_prune_vouches now f =
     f\<lparr>fl_claims := drop_empty (map (\<lambda>(t, m). (t, filter (\<lambda>(_, _, at). now - at < unreachable_after) m)) (fl_claims f))\<rparr>"

definition fl_prune :: "int \<Rightarrow> ('v, 'a) local_fleet \<Rightarrow> ('v, 'a) local_fleet" where
  "fl_prune now f =
     (case pins_load (fl_pins f) of
        Err _ \<Rightarrow> fl_prune_vouches now f
      | Ok pinned \<Rightarrow>
          fl_prune_vouches now
            (f\<lparr>fl_seen := filter (\<lambda>(n, s). bt_get pinned n \<noteq> None \<or> now - sn_at s < unreachable_after) (fl_seen f)\<rparr>))"

subsection \<open>Trust\<close>

text \<open>A ceremony a human has accepted, and taking it back.\<close>

record pair_outcome =
  po_node :: node_id
  po_public_key :: string
  po_name :: string
  po_address :: string
  po_verification :: string

definition fl_trust :: "string option \<Rightarrow> 64 word \<Rightarrow> pair_outcome \<Rightarrow> bool \<Rightarrow> ('v, 'a) local_fleet \<Rightarrow> (unit, string) result \<times> ('v, 'a) local_fleet" where
  "fl_trust fault now_unix out allow_control f =
     (let (r, pins) = record_pairing fault \<lparr>pa_node = po_node out, pa_public_key = po_public_key out,
            pa_name = display_name_new (po_name out), pa_now_unix = now_unix,
            pa_last_address = Some (po_address out), pa_controller = allow_control\<rparr> (fl_pins f) in
      (r, f\<lparr>fl_pins := pins\<rparr>))"

definition fl_unpair :: "string option \<Rightarrow> node_id \<Rightarrow> ('v, 'a) local_fleet \<Rightarrow> (bool, string) result \<times> ('v, 'a) local_fleet" where
  "fl_unpair fault n f =
     (let f = fl_clear_vouches n f; (r, pins) = pins_remove fault n (fl_pins f) in (r, f\<lparr>fl_pins := pins\<rparr>))"

section \<open>Routes\<close>

text \<open>The best so far of those the loop has passed: strictly better wins, so the first of a rank stays.\<close>

definition eligible :: "node_id \<times> 'v vouched_peer \<times> int \<Rightarrow> ('v, 'a) local_fleet \<Rightarrow> nat option" where
  "eligible e f =
     (if vp_reachable (fst (snd e)) then map_option (\<lambda>(r, _). link_rank (rp_link r)) (bt_get (fl_reports f) (fst e)) else None)"

definition better :: "('v, 'a) local_fleet \<Rightarrow> node_id \<times> 'v vouched_peer \<times> int \<Rightarrow> (nat \<times> node_id) option \<Rightarrow> (nat \<times> node_id) option" where
  "better f e best =
     (case eligible e f of
        None \<Rightarrow> best
      | Some rank \<Rightarrow>
          (case best of None \<Rightarrow> Some (rank, fst e) | Some (r, _) \<Rightarrow> if r < rank then Some (rank, fst e) else best))"

definition choose_voucher :: "node_id \<Rightarrow> ('v, 'a) local_fleet \<Rightarrow> node_id option" where
  "choose_voucher target f =
     Option.bind (bt_get (fl_claims f) target) (\<lambda>by_voucher. map_option snd (fold (better f) by_voucher None))"

definition vouch_of :: "node_id \<Rightarrow> ('v, 'a) local_fleet \<Rightarrow> (node_id \<times> 'v vouched_peer) option" where
  "vouch_of target f =
     Option.bind (bt_get (fl_claims f) target) (\<lambda>by_voucher.
     Option.bind (case choose_voucher target f of Some v \<Rightarrow> Some v
                  | None \<Rightarrow> (case by_voucher of [] \<Rightarrow> None | (v, _) # _ \<Rightarrow> Some v)) (\<lambda>voucher.
       map_option (\<lambda>(claim, _). (voucher, claim)) (bt_get by_voucher voucher)))"

datatype control_route = RouteDirect ip_addr "16 word" | RouteVia node_id ip_addr "16 word"

definition control_address :: "node_id \<Rightarrow> ('v, 'a) local_fleet \<Rightarrow> string option" where
  "control_address n f =
     (case Option.bind (bt_get (fl_reports f) n) (\<lambda>(r, _).
             map_option na_addr (max_by_key link_key (rp_addresses r))) of
        Some a \<Rightarrow> Some a
      | None \<Rightarrow> Option.bind (result_ok (pins_load (fl_pins f))) (\<lambda>m. Option.bind (bt_get m n) pn_last_address))"

definition peer_version_max :: "node_id \<Rightarrow> ('v, 'a) local_fleet \<Rightarrow> 32 word option" where
  "peer_version_max n f = map_option (\<lambda>(r, _). rp_version_max r) (bt_get (fl_reports f) n)"

definition require_control_capable :: "node_id \<Rightarrow> node_id \<Rightarrow> ('v, 'a) local_fleet \<Rightarrow> (unit, agent_error) result" where
  "require_control_capable target hop f =
     (case peer_version_max hop f of
        Some v \<Rightarrow>
          if v < 2
          then Err (NotRoutable target (node_id_short hop @ '' speaks peer protocol '' @ show_nat (unat v)
            @ '', which has no control frames; upgrade it''))
          else Ok ()
      | None \<Rightarrow> Ok ())"

definition plan_control_route :: "node_id \<Rightarrow> 16 word \<Rightarrow> ('v, 'a) local_fleet \<Rightarrow> (control_route, agent_error) result" where
  "plan_control_route target port f =
     (case pins_load (fl_pins f) of
        Err e \<Rightarrow> Err (NotRoutable target (''this agent's pin store could not be read: '' @ e))
      | Ok pins \<Rightarrow>
          if bt_get pins target \<noteq> None
          then result_bind (require_control_capable target target f) (\<lambda>_.
            case Option.bind (control_address target f) ip_parse of
              Some ip \<Rightarrow> Ok (RouteDirect ip port)
            | None \<Rightarrow> Err (NotRoutable target (''it is paired with this machine but has no known address yet; ''
                @ ''wait for it to be seen, or re-add it with `metralectl peer add`'')))
          else (case choose_voucher target f of
            Some relay \<Rightarrow>
              result_bind (require_control_capable target relay f) (\<lambda>_.
                case Option.bind (control_address relay f) ip_parse of
                  Some ip \<Rightarrow> Ok (RouteVia relay ip port)
                | None \<Rightarrow> Err (NotRoutable target (node_id_short relay @ '', which vouches for it, has no known address'')))
          | None \<Rightarrow>
              Err (NotRoutable target (case vouch_of target f of
                Some (voucher, _) \<Rightarrow> ''not paired with this machine, and '' @ node_id_short voucher
                  @ '', which vouches for it, is not answering''
              | None \<Rightarrow> ''not paired with this machine, and no reachable peer vouches for it; pair with it directly''))))"

section \<open>The digest\<close>

definition elapsed_s :: "int \<Rightarrow> int \<Rightarrow> 64 word" where
  "elapsed_s now at = of_int (max 0 (now - at) div 1000000000)"

definition vouch_for :: "int \<Rightarrow> node_id \<Rightarrow> pin \<Rightarrow> ('v peer_report \<times> int) option \<Rightarrow> 'v vouched_peer" where
  "vouch_for now n pin rep =
     (case rep of
        None \<Rightarrow> \<lparr>vp_node = n, vp_name = pn_name pin, vp_can_launch = False, vp_accelerator = [], vp_os = [],
                 vp_addresses = [], vp_link = Unverified, vp_reachable = False, vp_vitals = None, vp_vitals_age_s = None\<rparr>
      | Some (r, at) \<Rightarrow>
          \<lparr>vp_node = n, vp_name = display_name_new (rp_name r), vp_can_launch = rp_can_launch r,
           vp_accelerator = rp_accelerator r, vp_os = rp_os r, vp_addresses = rp_addresses r, vp_link = rp_link r,
           vp_reachable = True, vp_vitals = rp_vitals r,
           vp_vitals_age_s = map_option (\<lambda>_. elapsed_s now at) (rp_vitals r)\<rparr>)"

definition fleet_digest :: "int \<Rightarrow> ('v, 'a) local_fleet \<Rightarrow> ('v vouched_peer list, string) result" where
  "fleet_digest now f =
     result_bind (pins_load (fl_pins f)) (\<lambda>pinned.
       Ok (map (\<lambda>(n, pin). vouch_for now n pin (bt_get (fl_reports f) n)) (take MAX_VOUCHED pinned)))"

section \<open>Claims, by target and voucher\<close>

definition claim :: "'v claims \<Rightarrow> node_id \<Rightarrow> node_id \<Rightarrow> ('v vouched_peer \<times> int) option" where
  "claim cs t v = Option.bind (bt_get cs t) (\<lambda>m. bt_get m v)"

lemma bt_get_map_snd: "bt_get (map (\<lambda>(t, m). (t, g m)) cs) t = map_option g (bt_get cs t)"
  unfolding bt_get_def by (induction cs) auto

lemma claim_drop_voucher [simp]: "claim (drop_voucher via cs) t v = (if v = via then None else claim cs t v)"
  by (cases "bt_get cs t") (auto simp: claim_def drop_voucher_def bt_get_map_snd)

lemma bt_get_filter_keys:
  "distinct (map fst m) \<Longrightarrow> bt_get (filter P m) k = (case bt_get m k of Some v \<Rightarrow> if P (k, v) then Some v else None | None \<Rightarrow> None)"
  unfolding bt_get_def by (induction m) (force split: option.splits dest: map_of_SomeD)+

lemma claim_drop_empty [simp]: "bt_ok cs \<Longrightarrow> claim (drop_empty cs) t v = claim cs t v"
  by (cases "bt_get cs t") (auto simp: claim_def drop_empty_def bt_get_filter_keys bt_ok_distinct)

lemma claim_add [simp]:
  "claim (add_claim via now e cs) t v = (if t = vp_node e \<and> v = via then Some (e, now) else claim cs t v)"
  by (auto simp: claim_def add_claim_def split: option.splits)

lemma claim_fold:
  "claim (fold (\<lambda>e cs. if bad e then cs else add_claim via now e cs) digest cs) t v =
     (if v = via then (case find (\<lambda>e. \<not> bad e \<and> vp_node e = t) (rev digest) of Some e \<Rightarrow> Some (e, now) | None \<Rightarrow> claim cs t v)
      else claim cs t v)"
proof (induction digest rule: rev_induct)
  case (snoc e digest)
  then show ?case by (cases "find (\<lambda>e. \<not> bad e \<and> vp_node e = t) (rev digest)") auto
qed simp

lemma bt_ok_map_snd: "bt_ok (map (\<lambda>(t, m). (t, g m)) cs) = bt_ok cs"
proof -
  have "map fst (map (\<lambda>(t, m). (t, g m)) cs) = map fst cs" by (induction cs) auto
  then show ?thesis by (simp only: bt_ok_def)
qed

lemma bt_ok_filter: "bt_ok m \<Longrightarrow> bt_ok (filter P m)"
  unfolding bt_ok_def by (induction m) auto

definition claims_ok :: "node_id \<Rightarrow> 'v claims \<Rightarrow> bool" where
  "claims_ok me cs =
     (bt_ok cs \<and> (\<forall>t m. bt_get cs t = Some m \<longrightarrow> bt_ok m) \<and>
      (\<forall>t v c. claim cs t v = Some c \<longrightarrow> t \<noteq> me \<and> t \<noteq> v \<and> vp_node (fst c) = t))"

definition no_empty :: "'v claims \<Rightarrow> bool" where
  "no_empty cs = (\<forall>t. bt_get cs t \<noteq> Some [])"

definition claimed_by :: "node_id \<Rightarrow> 'v claims \<Rightarrow> node_id set" where
  "claimed_by v cs = {t. claim cs t v \<noteq> None}"

lemma claims_ok_drop_voucher: "claims_ok me cs \<Longrightarrow> claims_ok me (drop_voucher via cs)"
  unfolding claims_ok_def claim_drop_voucher
  by (auto simp: drop_voucher_def bt_ok_map_snd bt_get_map_snd intro: bt_ok_remove split: if_splits)

lemma claims_ok_drop_empty: "claims_ok me cs \<Longrightarrow> claims_ok me (drop_empty cs) \<and> no_empty (drop_empty cs)"
  unfolding claims_ok_def no_empty_def
  by (auto simp: drop_empty_def [of cs] bt_ok_filter bt_get_filter_keys bt_ok_distinct claim_drop_empty [unfolded drop_empty_def]
      split: option.splits if_splits)

lemma claims_ok_add:
  assumes "claims_ok me cs" "vp_node e \<noteq> me" "vp_node e \<noteq> via"
  shows "claims_ok me (add_claim via now e cs)"
proof -
  have "bt_ok m" if "bt_get (add_claim via now e cs) t = Some m" for t m
    using assms(1) that
    by (auto simp: claims_ok_def add_claim_def bt_ok_insert bt_ok_def [of "[x]" for x] split: if_splits option.splits)
  then show ?thesis using assms unfolding claims_ok_def claim_add
    by (auto simp: add_claim_def bt_ok_insert split: if_splits)
qed

lemma claims_ok_fold:
  "claims_ok me cs \<Longrightarrow> claims_ok me (fold (\<lambda>e cs. if vp_node e = me \<or> vp_node e = via then cs else add_claim via now e cs) digest cs)"
  by (induction digest arbitrary: cs) (auto intro: claims_ok_add)

lemma claim_prune:
  "claims_ok me cs \<Longrightarrow> claim (map (\<lambda>(t, m). (t, filter (\<lambda>(_, _, at). now - at < unreachable_after) m)) cs) t v =
     (case claim cs t v of Some (e, at) \<Rightarrow> if now - at < unreachable_after then Some (e, at) else None | None \<Rightarrow> None)"
  by (cases "bt_get cs t")
    (auto simp: claim_def claims_ok_def bt_get_map_snd bt_get_filter_keys bt_ok_distinct split: option.splits)

lemma claims_ok_prune:
  assumes ok: "claims_ok me cs"
  shows "claims_ok me (map (\<lambda>(t, m). (t, filter (\<lambda>(_, _, at). now - at < unreachable_after) m)) cs)" (is "claims_ok me ?cs")
proof -
  have old: "claim cs t v = Some c" if "claim ?cs t v = Some c" for t v c
    using that unfolding claim_prune [OF ok] by (auto split: option.splits if_splits)
  have sound: "t \<noteq> me \<and> t \<noteq> v \<and> vp_node (fst c) = t" if "claim cs t v = Some c" for t v c
    using ok that unfolding claims_ok_def by blast
  have tables: "bt_ok ?cs \<and> (\<forall>t m. bt_get ?cs t = Some m \<longrightarrow> bt_ok m)"
    using ok by (auto simp: claims_ok_def bt_ok_map_snd bt_get_map_snd bt_ok_filter)
  show ?thesis unfolding claims_ok_def using tables old sound by blast
qed

section \<open>What the tables can hold\<close>

text \<open>
  What happens to the tables: a beacon is heard, a peer answers or falls silent, a digest arrives, housekeeping runs,
  a human pairs or unpairs, something else is set, and another process replaces the pin file.
\<close>

datatype ('v, 'a) fleet_event =
    FvBeacon int beacon
  | FvReport int "'v peer_report"
  | FvSilent node_id
  | FvVouches int node_id "'v vouched_peer list"
  | FvPrune int
  | FvTrust "string option" "64 word" pair_outcome bool
  | FvUnpair "string option" node_id
  | FvAlerts node_id "'a list"
  | FvRunning "string option"
  | FvRefresh
  | FvPinFile pin_file

fun fleet_do :: "('v, 'a) fleet_event \<Rightarrow> ('v, 'a) local_fleet \<Rightarrow> ('v, 'a) local_fleet" where
  "fleet_do (FvBeacon now b) f = fl_observe now b f"
| "fleet_do (FvReport now r) f = fl_record_report now r f"
| "fleet_do (FvSilent n) f = fl_clear_report n f"
| "fleet_do (FvVouches now via digest) f = fl_record_vouches now via digest f"
| "fleet_do (FvPrune now) f = fl_prune now f"
| "fleet_do (FvTrust fault now out control) f = snd (fl_trust fault now out control f)"
| "fleet_do (FvUnpair fault n) f = snd (fl_unpair fault n f)"
| "fleet_do (FvAlerts n alerts) f = fl_set_alerts n alerts f"
| "fleet_do (FvRunning r) f = fl_set_running r f"
| "fleet_do FvRefresh f = snd (fl_refresh_running f)"
| "fleet_do (FvPinFile pins) f = f\<lparr>fl_pins := pins\<rparr>"

definition fleet_run :: "('v, 'a) fleet_event list \<Rightarrow> ('v, 'a) local_fleet \<Rightarrow> ('v, 'a) local_fleet" where
  "fleet_run evs f = fold fleet_do evs f"

definition seen_keys :: "('v, 'a) local_fleet \<Rightarrow> node_id set" where
  "seen_keys f = fst ` set (fl_seen f)"

definition fleet_ok :: "node_id set \<Rightarrow> ('v, 'a) local_fleet \<Rightarrow> bool" where
  "fleet_ok P f =
     (bt_ok (fl_seen f) \<and> fl_id f \<notin> seen_keys f \<and> card (seen_keys f - P) \<le> 256 \<and>
      claims_ok (fl_id f) (fl_claims f) \<and> no_empty (fl_claims f) \<and>
      (\<forall>v. finite (claimed_by v (fl_claims f)) \<and> card (claimed_by v (fl_claims f)) \<le> 64))"

lemma fleet_ok_other:
  "\<lbrakk>fleet_ok P f; fl_id f' = fl_id f; fl_seen f' = fl_seen f; fl_claims f' = fl_claims f\<rbrakk> \<Longrightarrow> fleet_ok P f'"
  by (simp add: fleet_ok_def seen_keys_def)

lemma fleet_ok_claims:
  assumes "fleet_ok P f" "claims_ok (fl_id f) cs" "no_empty cs"
    and "\<And>v. finite (claimed_by v cs) \<and> card (claimed_by v cs) \<le> 64"
  shows "fleet_ok P (f\<lparr>fl_claims := cs\<rparr>)"
  using assms by (simp add: fleet_ok_def seen_keys_def)

lemma fleet_ok_observe:
  assumes ok: "fleet_ok P f" and pins: "\<And>n. fl_pinned n f \<Longrightarrow> n \<in> P"
  shows "fleet_ok P (fl_observe now b f)"
proof (cases "bn_id b = fl_id f \<or> bt_get (fl_seen f) (bn_id b) = None \<and> MAX_SIGHTINGS \<le> length (fl_seen f) \<and> \<not> fl_pinned (bn_id b) f")
  case True
  then show ?thesis using ok by (auto simp: fl_observe_def)
next
  case False
  then have new: "fl_observe now b f = f\<lparr>fl_seen := bt_insert (bn_id b) \<lparr>sn_beacon = b, sn_at = now\<rparr> (fl_seen f)\<rparr>"
    by (auto simp: fl_observe_def)
  have keys: "seen_keys (fl_observe now b f) = insert (bn_id b) (seen_keys f)"
    unfolding new seen_keys_def using bt_insert_keys [of "bn_id b" _ "fl_seen f"] by simp
  have fin: "finite (seen_keys f)" by (simp add: seen_keys_def)
  consider "bn_id b \<in> seen_keys f" | "length (fl_seen f) < 256" | "bn_id b \<in> P"
    using False pins by (auto simp: MAX_SIGHTINGS_def bt_get_None seen_keys_def)
  then have "card (insert (bn_id b) (seen_keys f) - P) \<le> 256"
  proof cases
    case 1
    then show ?thesis using ok by (simp add: fleet_ok_def insert_absorb)
  next
    case 2
    have "card (seen_keys f) \<le> length (fl_seen f)"
      unfolding seen_keys_def set_map [symmetric] using card_length [of "map fst (fl_seen f)"] by simp
    moreover have "card (insert (bn_id b) (seen_keys f) - P) \<le> card (insert (bn_id b) (seen_keys f))"
      using fin by (intro card_mono) auto
    moreover have "card (insert (bn_id b) (seen_keys f)) \<le> Suc (card (seen_keys f))" by (simp add: card_insert_if fin)
    ultimately show ?thesis using 2 by linarith
  next
    case 3
    then show ?thesis using ok by (simp add: fleet_ok_def insert_Diff_if)
  qed
  then show ?thesis using ok False unfolding fleet_ok_def keys by (auto simp: new bt_ok_insert)
qed

lemma fleet_ok_vouches:
  assumes ok: "fleet_ok P f"
  shows "fleet_ok P (fl_record_vouches now via digest f)"
proof (cases "MAX_VOUCHED < length digest")
  case True
  then show ?thesis using ok by (simp add: fl_record_vouches_def)
next
  case False
  define bad where "bad = (\<lambda>e :: 'a vouched_peer. vp_node e = fl_id f \<or> vp_node e = via)"
  define cs where "cs = fold (\<lambda>e cs. if bad e then cs else add_claim via now e cs) digest (drop_voucher via (fl_claims f))"
  have ok_cs: "claims_ok (fl_id f) cs"
    unfolding cs_def bad_def using ok by (intro claims_ok_fold claims_ok_drop_voucher) (simp add: fleet_ok_def)
  then have bt: "bt_ok cs" by (simp add: claims_ok_def)
  have new: "claim (drop_empty cs) t v =
      (if v = via then map_option (\<lambda>e. (e, now)) (find (\<lambda>e. \<not> bad e \<and> vp_node e = t) (rev digest)) else claim (fl_claims f) t v)" for t v
  proof -
    have "claim cs t v = (if v = via then map_option (\<lambda>e. (e, now)) (find (\<lambda>e. \<not> bad e \<and> vp_node e = t) (rev digest)) else claim (fl_claims f) t v)"
      unfolding cs_def claim_fold by (simp split: option.split)
    then show ?thesis by (simp only: claim_drop_empty [OF bt])
  qed
  have "finite (claimed_by v (drop_empty cs)) \<and> card (claimed_by v (drop_empty cs)) \<le> 64" for v
  proof (cases "v = via")
    case True
    have sub: "claimed_by via (drop_empty cs) \<subseteq> vp_node ` set digest"
    proof
      fix t
      assume "t \<in> claimed_by via (drop_empty cs)"
      then obtain e where "find (\<lambda>e. \<not> bad e \<and> vp_node e = t) (rev digest) = Some e"
        unfolding claimed_by_def new by auto
      then show "t \<in> vp_node ` set digest" by (auto dest: find_Some_in)
    qed
    then have "card (claimed_by via (drop_empty cs)) \<le> card (vp_node ` set digest)" by (intro card_mono) auto
    also have "\<dots> \<le> length digest" using card_image_le [of "set digest" vp_node] card_length [of digest] by simp
    also have "\<dots> \<le> 64" using False by (simp add: MAX_VOUCHED_def)
    finally show ?thesis using True finite_subset [OF sub] by simp
  next
    case False
    then have "claimed_by v (drop_empty cs) = claimed_by v (fl_claims f)" by (simp add: claimed_by_def new)
    then show ?thesis using ok by (simp add: fleet_ok_def)
  qed
  from fleet_ok_claims [OF ok _ _ this] claims_ok_drop_empty [OF ok_cs]
  have "fleet_ok P (f\<lparr>fl_claims := drop_empty cs\<rparr>)" by blast
  then show ?thesis using False by (simp add: fl_record_vouches_def cs_def bad_def)
qed

lemma fleet_ok_fewer:
  assumes ok: "fleet_ok P f" and cs: "claims_ok (fl_id f) cs"
    and fewer: "\<And>t v. claim cs t v \<noteq> None \<Longrightarrow> claim (fl_claims f) t v \<noteq> None"
  shows "fleet_ok P (f\<lparr>fl_claims := drop_empty cs\<rparr>)"
proof -
  have bt: "bt_ok cs" using cs by (simp add: claims_ok_def)
  have "finite (claimed_by v (drop_empty cs)) \<and> card (claimed_by v (drop_empty cs)) \<le> 64" for v
  proof -
    have sub: "claimed_by v (drop_empty cs) \<subseteq> claimed_by v (fl_claims f)"
      unfolding claimed_by_def claim_drop_empty [OF bt] using fewer by blast
    have "finite (claimed_by v (fl_claims f)) \<and> card (claimed_by v (fl_claims f)) \<le> 64"
      using ok by (simp add: fleet_ok_def)
    then show ?thesis using finite_subset [OF sub] card_mono [OF _ sub] by linarith
  qed
  then show ?thesis using claims_ok_drop_empty [OF cs] by (intro fleet_ok_claims [OF ok]) blast+
qed

lemma fleet_ok_clear_vouches:
  assumes "fleet_ok P f"
  shows "fleet_ok P (fl_clear_vouches via f)"
  unfolding fl_clear_vouches_def
  using assms by (intro fleet_ok_fewer claims_ok_drop_voucher) (auto simp: fleet_ok_def split: if_splits)

lemma fleet_ok_prune_vouches:
  assumes ok: "fleet_ok P f"
  shows "fleet_ok P (fl_prune_vouches now f)"
proof -
  have cs: "claims_ok (fl_id f) (fl_claims f)" using ok by (simp add: fleet_ok_def)
  show ?thesis unfolding fl_prune_vouches_def
    by (intro fleet_ok_fewer [OF ok] claims_ok_prune cs) (auto simp: claim_prune [OF cs] split: option.splits)
qed

lemma fleet_ok_prune:
  assumes ok: "fleet_ok P f"
  shows "fleet_ok P (fl_prune now f)"
proof -
  have "fleet_ok P (f\<lparr>fl_seen := filter keep (fl_seen f)\<rparr>)" for keep
  proof -
    have "fst ` set (filter keep (fl_seen f)) \<subseteq> seen_keys f" by (auto simp: seen_keys_def)
    moreover from this have "card (fst ` set (filter keep (fl_seen f)) - P) \<le> card (seen_keys f - P)"
      by (intro card_mono) (auto simp: seen_keys_def)
    ultimately show ?thesis using ok by (auto simp: fleet_ok_def seen_keys_def bt_ok_filter)
  qed
  then show ?thesis using ok by (auto simp: fl_prune_def intro: fleet_ok_prune_vouches split: result.splits)
qed

lemma fleet_ok_do:
  assumes ok: "fleet_ok P f" and pins: "\<And>n. fl_pinned n f \<Longrightarrow> n \<in> P"
  shows "fleet_ok P (fleet_do ev f)"
proof (cases ev)
  case (FvUnpair fault n)
  have "fleet_ok P (fl_clear_vouches n f)" by (rule fleet_ok_clear_vouches [OF ok])
  then show ?thesis by (auto simp: FvUnpair fl_unpair_def Let_def split: prod.splits intro: fleet_ok_other)
next
  case (FvRefresh)
  then show ?thesis by (auto simp: fl_refresh_running_def split: option.splits intro: fleet_ok_other [OF ok])
next
  case (FvTrust fault now out control)
  then show ?thesis by (auto simp: fl_trust_def Let_def split: prod.splits intro: fleet_ok_other [OF ok])
qed (auto intro: fleet_ok_observe fleet_ok_vouches fleet_ok_prune fleet_ok_other ok pins
     simp: fl_record_report_def fl_clear_report_def fl_set_alerts_def fl_set_running_def)

lemma fleet_ok_run:
  assumes "fleet_ok P f" "\<And>k n. k \<le> length evs \<Longrightarrow> fl_pinned n (fleet_run (take k evs) f) \<Longrightarrow> n \<in> P"
  shows "fleet_ok P (fleet_run evs f)"
  using assms(2)
proof (induction evs rule: rev_induct)
  case Nil
  then show ?case using assms(1) by (simp add: fleet_run_def)
next
  case (snoc ev evs)
  have "fleet_ok P (fleet_run evs f)"
  proof (rule snoc.IH)
    fix k n
    assume "k \<le> length evs" "fl_pinned n (fleet_run (take k evs) f)"
    then show "n \<in> P" using snoc.prems [of k n] by simp
  qed
  then have "fleet_ok P (fleet_do ev (fleet_run evs f))"
    using snoc.prems [of "length evs"] by (intro fleet_ok_do) auto
  then show ?case by (simp add: fleet_run_def)
qed

definition ever_pinned :: "('v, 'a) fleet_event list \<Rightarrow> ('v, 'a) local_fleet \<Rightarrow> node_id set" where
  "ever_pinned evs f = {n. \<exists>k. k \<le> length evs \<and> fl_pinned n (fleet_run (take k evs) f)}"

text \<open>
  C33. Whatever beacons are shouted and whatever digests arrive, in any order with all else that happens to the fleet,
  the tables stay small and are never about this machine: of machines that were at no time pinned at most 256 are
  remembered, one voucher can claim at most 64 machines, no machine is held to vouch for itself or for this one, and
  a claim is filed under the machine it names.
\<close>

theorem fleet_tables_bounded:
  assumes "fl_seen f = []" "fl_claims f = []"
  shows "card (seen_keys (fleet_run evs f) - ever_pinned evs f) \<le> 256 \<and>
    fl_id (fleet_run evs f) \<notin> seen_keys (fleet_run evs f) \<and>
    card (claimed_by v (fl_claims (fleet_run evs f))) \<le> 64 \<and>
    (claim (fl_claims (fleet_run evs f)) t v = Some (e, at) \<longrightarrow> t \<noteq> fl_id (fleet_run evs f) \<and> t \<noteq> v \<and> vp_node e = t)"
proof -
  have "fleet_ok (ever_pinned evs f) f"
    using assms bt_ok_of_list [of "[]"] by (simp add: bt_ok_def fleet_ok_def seen_keys_def claims_ok_def no_empty_def claimed_by_def claim_def)
  then have run: "fleet_ok (ever_pinned evs f) (fleet_run evs f)" by (rule fleet_ok_run) (auto simp: ever_pinned_def)
  then have "t \<noteq> fl_id (fleet_run evs f) \<and> t \<noteq> v \<and> vp_node e = t" if "claim (fl_claims (fleet_run evs f)) t v = Some (e, at)"
    using that unfolding fleet_ok_def claims_ok_def by (metis fst_conv)
  with run show ?thesis unfolding fleet_ok_def by blast
qed

section \<open>Where a request goes\<close>

definition voucher_rank :: "('v, 'a) local_fleet \<Rightarrow> node_id \<Rightarrow> node_id \<Rightarrow> nat option" where
  "voucher_rank f target v = Option.bind (claim (fl_claims f) target v) (\<lambda>c. eligible (v, c) f)"

definition best_voucher :: "('v, 'a) local_fleet \<Rightarrow> node_id \<Rightarrow> node_id \<Rightarrow> bool" where
  "best_voucher f target v =
     (\<exists>r. voucher_rank f target v = Some r \<and>
        (\<forall>w r'. voucher_rank f target w = Some r' \<longrightarrow> r' < r \<or> r' = r \<and> v \<le> w))"

lemma fold_better:
  "sorted_wrt (<) (map fst es) \<Longrightarrow>
     (case fold (better f) es None of
        None \<Rightarrow> \<forall>e\<in>set es. eligible e f = None
      | Some (r, v) \<Rightarrow> (\<exists>e\<in>set es. fst e = v \<and> eligible e f = Some r) \<and>
          (\<forall>e\<in>set es. \<forall>r'. eligible e f = Some r' \<longrightarrow> r' < r \<or> r' = r \<and> v \<le> fst e))"
proof (induction es rule: rev_induct)
  case (snoc e es)
  have lt: "\<And>x. x \<in> set es \<Longrightarrow> fst x < fst e" using snoc.prems by (auto simp: sorted_wrt_append)
  have IH: "case fold (better f) es None of None \<Rightarrow> \<forall>e\<in>set es. eligible e f = None
      | Some (r, v) \<Rightarrow> (\<exists>e\<in>set es. fst e = v \<and> eligible e f = Some r) \<and>
          (\<forall>e\<in>set es. \<forall>r'. eligible e f = Some r' \<longrightarrow> r' < r \<or> r' = r \<and> v \<le> fst e)"
    using snoc by (simp add: sorted_wrt_append)
  show ?case
  proof (cases "eligible e f")
    case None
    then have "fold (better f) (es @ [e]) None = fold (better f) es None" by (simp add: better_def)
    then show ?thesis using IH None by (simp split: option.splits prod.splits)
  next
    case (Some rank)
    show ?thesis
    proof (cases "fold (better f) es None")
      case None
      then have "fold (better f) (es @ [e]) None = Some (rank, fst e)" by (simp add: better_def Some)
      then show ?thesis using IH Some None by simp
    next
      case best: (Some b)
      obtain r v where b: "b = (r, v)" by (cases b)
      from IH best b obtain x where x: "x \<in> set es" "fst x = v" "eligible x f = Some r"
        and le: "\<And>y r'. y \<in> set es \<Longrightarrow> eligible y f = Some r' \<Longrightarrow> r' < r \<or> r' = r \<and> v \<le> fst y" by auto
      show ?thesis
      proof (cases "r < rank")
        case True
        then have "fold (better f) (es @ [e]) None = Some (rank, fst e)" by (simp add: better_def Some best b)
        moreover have "r' < rank \<or> r' = rank \<and> fst e \<le> fst y" if y: "y \<in> set (es @ [e])" "eligible y f = Some r'" for y r'
        proof (cases "y = e")
          case True
          then show ?thesis using y Some by simp
        next
          case False
          then show ?thesis using le [of y r'] y \<open>r < rank\<close> by auto
        qed
        ultimately show ?thesis using Some by simp
      next
        case False
        then have "fold (better f) (es @ [e]) None = Some (r, v)" by (simp add: better_def Some best b)
        moreover have "r' < r \<or> r' = r \<and> v \<le> fst y" if y: "y \<in> set (es @ [e])" "eligible y f = Some r'" for y r'
        proof (cases "y = e")
          case True
          then show ?thesis using y Some lt [OF x(1)] x(2) \<open>\<not> r < rank\<close> by auto
        next
          case False
          then show ?thesis using le [of y r'] y by auto
        qed
        ultimately show ?thesis using x by auto
      qed
    qed
  qed
qed simp

lemma voucher_rank_iff:
  assumes "claims_ok me (fl_claims f)" "bt_get (fl_claims f) target = Some m"
  shows "voucher_rank f target v = Some r \<longleftrightarrow> (\<exists>e\<in>set m. fst e = v \<and> eligible e f = Some r)"
proof -
  have "bt_ok m" using assms by (simp add: claims_ok_def)
  note iff = bt_get_iff [OF this]
  show ?thesis
  proof
    assume "voucher_rank f target v = Some r"
    then obtain c where "bt_get m v = Some c" "eligible (v, c) f = Some r"
      using assms(2) by (auto simp: voucher_rank_def claim_def bind_eq_Some_conv)
    then show "\<exists>e\<in>set m. fst e = v \<and> eligible e f = Some r" unfolding iff by force
  next
    assume "\<exists>e\<in>set m. fst e = v \<and> eligible e f = Some r"
    then obtain c where "(v, c) \<in> set m" "eligible (v, c) f = Some r" by auto
    then show "voucher_rank f target v = Some r"
      unfolding iff [symmetric] using assms(2) by (simp add: voucher_rank_def claim_def)
  qed
qed

lemma choose_voucher_best:
  assumes ok: "claims_ok me (fl_claims f)"
  shows "case choose_voucher target f of Some v \<Rightarrow> best_voucher f target v | None \<Rightarrow> \<forall>v. voucher_rank f target v = None"
proof (cases "bt_get (fl_claims f) target")
  case None
  then show ?thesis by (simp add: choose_voucher_def voucher_rank_def claim_def)
next
  case (Some m)
  note iff = voucher_rank_iff [OF ok Some]
  have "sorted_wrt (<) (map fst m)" using ok Some by (simp add: claims_ok_def bt_ok_def)
  note best = fold_better [OF this, of f]
  show ?thesis
  proof (cases "fold (better f) m None")
    case None
    then have "\<forall>v r. voucher_rank f target v \<noteq> Some r" using best iff by auto
    then show ?thesis using None Some by (simp add: choose_voucher_def)
  next
    case best': (Some b)
    obtain r v where b: "b = (r, v)" by (cases b)
    with best best' have have_r: "\<exists>e\<in>set m. fst e = v \<and> eligible e f = Some r"
      and le: "\<And>e r'. e \<in> set m \<Longrightarrow> eligible e f = Some r' \<Longrightarrow> r' < r \<or> r' = r \<and> v \<le> fst e" by simp_all
    have "best_voucher f target v"
      unfolding best_voucher_def
    proof (intro exI conjI allI impI)
      show "voucher_rank f target v = Some r" unfolding iff by (rule have_r)
      fix w r'
      assume "voucher_rank f target w = Some r'"
      then show "r' < r \<or> r' = r \<and> v \<le> w" unfolding iff using le by blast
    qed
    then show ?thesis using best' Some b by (simp add: choose_voucher_def)
  qed
qed

text \<open>The claims, with the addresses in them replaced.\<close>

definition relocate :: "('v vouched_peer \<Rightarrow> node_address list) \<Rightarrow> 'v claims \<Rightarrow> 'v claims" where
  "relocate g cs = map (\<lambda>(t, m). (t, map (\<lambda>(v, e, at). (v, e\<lparr>vp_addresses := g e\<rparr>, at)) m)) cs"

definition speaks_control :: "node_id \<Rightarrow> ('v, 'a) local_fleet \<Rightarrow> bool" where
  "speaks_control hop f = (case peer_version_max hop f of Some v \<Rightarrow> 2 \<le> v | None \<Rightarrow> True)"

lemma choose_voucher_relocated: "choose_voucher target (f\<lparr>fl_seen := s, fl_claims := relocate g (fl_claims f)\<rparr>) = choose_voucher target f"
proof -
  let ?f = "f\<lparr>fl_seen := s, fl_claims := relocate g (fl_claims f)\<rparr>" and ?h = "\<lambda>(v, e, at). (v, e\<lparr>vp_addresses := g e\<rparr>, at)"
  have "better ?f (?h e) = better f e" for e
    by (rule ext) (cases e; simp add: better_def eligible_def split: option.split prod.split)
  then have "fold (better ?f) (map ?h m) None = fold (better f) m None" for m by (simp add: fold_map comp_def)
  then show ?thesis by (cases "bt_get (fl_claims f) target") (simp_all add: choose_voucher_def relocate_def bt_get_map_snd)
qed

lemma require_control_Ok: "require_control_capable target hop f = Ok u \<longleftrightarrow> speaks_control hop f"
  by (auto simp: require_control_capable_def speaks_control_def not_less split: option.splits)

lemma control_address_relocated [simp]:
  "control_address n (f\<lparr>fl_seen := s, fl_claims := cs\<rparr>) = control_address n f"
  "require_control_capable target n (f\<lparr>fl_seen := s, fl_claims := cs\<rparr>) = require_control_capable target n f"
  by (simp_all add: control_address_def require_control_capable_def peer_version_max_def split: option.split)

text \<open>
  C32. A control request goes to a machine this agent has pinned, or, where the target is not pinned, to the one that
  vouches for it as reachable, that answers this agent itself and has the best link of all that do, the smallest id
  among equals; never to a hop that is known to speak no control frames. The address dialled comes from this agent's
  own report of the hop or from its pin: what beacons say, and the addresses that vouchers claim, change nothing.
\<close>

theorem control_goes_by_trust:
  assumes ok: "claims_ok me (fl_claims f)" and route: "plan_control_route target port f = Ok route"
  shows "plan_control_route target port (f\<lparr>fl_seen := s, fl_claims := relocate g (fl_claims f)\<rparr>) = Ok route \<and>
    (case route of
       RouteDirect ip p \<Rightarrow> fl_pinned target f \<and> speaks_control target f \<and> p = port \<and>
         Option.bind (control_address target f) ip_parse = Some ip
     | RouteVia relay ip p \<Rightarrow> \<not> fl_pinned target f \<and> best_voucher f target relay \<and> speaks_control relay f \<and> p = port \<and>
         Option.bind (control_address relay f) ip_parse = Some ip)"
proof (cases "pins_load (fl_pins f)")
  case (Err e)
  then show ?thesis using route by (simp add: plan_control_route_def)
next
  case (Ok pins)
  show ?thesis
  proof (cases "bt_get pins target")
    case None
    then obtain relay where relay: "choose_voucher target f = Some relay"
      using route Ok by (auto simp: plan_control_route_def split: option.splits)
    have "best_voucher f target relay" using choose_voucher_best [OF ok, of target] relay by simp
    then show ?thesis using route None Ok relay choose_voucher_relocated [where f = f and g = g and s = s and target = target]
      by (auto simp: plan_control_route_def fl_pinned_def result_bind_eq_Ok require_control_Ok split: option.splits)
  next
    case (Some p)
    then show ?thesis using route Ok
      by (auto simp: plan_control_route_def fl_pinned_def result_bind_eq_Ok require_control_Ok split: option.splits)
  qed
qed

section \<open>One hop\<close>

lemma digest_eq:
  assumes "fleet_digest now f = Ok digest"
  obtains m where "pins_load (fl_pins f) = Ok m"
    "digest = map (\<lambda>(n, pin). vouch_for now n pin (bt_get (fl_reports f) n)) (take 64 m)"
  using assms that by (auto simp: fleet_digest_def result_bind_eq_Ok MAX_VOUCHED_def)

lemma vp_node_vouch_for [simp]: "vp_node (vouch_for now n pin r) = n"
  by (simp add: vouch_for_def split: option.split)

lemma find_vouch_for:
  "distinct (map fst m) \<Longrightarrow>
     find (\<lambda>e. ok e \<and> vp_node e = t) (rev (map (\<lambda>(n, pin). vouch_for now n pin (r n)) m)) =
       Option.bind (map_of m t) (\<lambda>pin. if ok (vouch_for now t pin (r t)) then Some (vouch_for now t pin (r t)) else None)"
proof (induction m)
  case (Cons e m)
  obtain n pin where e: "e = (n, pin)" by (cases e)
  have find_app: "find P (xs @ ys) = (case find P xs of Some x \<Rightarrow> Some x | None \<Rightarrow> find P ys)" for P and xs ys :: "'a vouched_peer list"
    by (induction xs) auto
  have "map_of m n = None" using Cons.prems e by (auto simp: map_of_eq_None_iff)
  then show ?case using Cons by (auto simp: e find_app split: option.splits)
qed simp

lemma claim_recorded:
  assumes ok: "claims_ok (fl_id f) (fl_claims f)" and short: "length digest \<le> 64"
  shows "claim (fl_claims (fl_record_vouches now via digest f)) t v =
    (if v = via then map_option (\<lambda>e. (e, now)) (find (\<lambda>e. \<not> (vp_node e = fl_id f \<or> vp_node e = via) \<and> vp_node e = t) (rev digest))
     else claim (fl_claims f) t v)"
proof -
  define bad where "bad = (\<lambda>e :: 'a vouched_peer. vp_node e = fl_id f \<or> vp_node e = via)"
  define cs where "cs = fold (\<lambda>e cs. if bad e then cs else add_claim via now e cs) digest (drop_voucher via (fl_claims f))"
  have "claims_ok (fl_id f) cs"
    unfolding cs_def bad_def by (intro claims_ok_fold claims_ok_drop_voucher ok)
  then have bt: "bt_ok cs" by (simp add: claims_ok_def)
  have "fl_claims (fl_record_vouches now via digest f) = drop_empty cs"
    using short by (simp add: fl_record_vouches_def cs_def bad_def MAX_VOUCHED_def)
  moreover have "claim cs t v = (if v = via then map_option (\<lambda>e. (e, now)) (find (\<lambda>e. \<not> bad e \<and> vp_node e = t) (rev digest)) else claim (fl_claims f) t v)"
    unfolding cs_def claim_fold by (simp split: option.split)
  ultimately show ?thesis by (simp add: claim_drop_empty [OF bt] bad_def)
qed

text \<open>
  C34. What one agent tells another of the machines around it goes one hop. The digest depends on pins and reports
  alone, so what the agent was told by others, and what it merely heard shouted, is not passed on; it has at most 64
  entries. The agent that takes it in then holds, under that voucher, a claim for each machine in it but the two at
  the ends, as the voucher sees that machine, and no older claim of the voucher's; what others vouch for is untouched.
\<close>

theorem vouching_goes_one_hop:
  assumes ok: "claims_ok (fl_id b) (fl_claims b)" and digest: "fleet_digest now a = Ok digest"
  shows "fleet_digest now (a\<lparr>fl_seen := s, fl_claims := cs\<rparr>) = Ok digest \<and> length digest \<le> 64 \<and>
    claim (fl_claims (fl_record_vouches later (fl_id a) digest b)) t v =
      (if v \<noteq> fl_id a then claim (fl_claims b) t v
       else if t = fl_id a \<or> t = fl_id b then None
       else case pins_load (fl_pins a) of
         Ok pins \<Rightarrow> map_option (\<lambda>pin. (vouch_for now t pin (bt_get (fl_reports a) t), later)) (bt_get (take 64 pins) t)
       | Err _ \<Rightarrow> None)"
proof -
  from digest obtain m where m: "pins_load (fl_pins a) = Ok m"
    and d: "digest = map (\<lambda>(n, pin). vouch_for now n pin (bt_get (fl_reports a) n)) (take 64 m)" by (rule digest_eq)
  have short: "length digest \<le> 64" by (simp add: d)
  have "distinct (map fst (take 64 m))"
    using bt_ok_distinct [OF pins_load_ok(1) [OF m]] by (simp add: take_map [symmetric])
  note found = find_vouch_for [OF this, of "\<lambda>e. \<not> (vp_node e = fl_id b \<or> vp_node e = fl_id a)" t now "\<lambda>n. bt_get (fl_reports a) n", folded d]
  have "claim (fl_claims (fl_record_vouches later (fl_id a) digest b)) t v =
      (if v \<noteq> fl_id a then claim (fl_claims b) t v
       else if t = fl_id a \<or> t = fl_id b then None
       else map_option (\<lambda>pin. (vouch_for now t pin (bt_get (fl_reports a) t), later)) (bt_get (take 64 m) t))"
    unfolding claim_recorded [OF ok short] found by (cases "map_of (take 64 m) t") (auto simp: bt_get_def)
  moreover have "fleet_digest now (a\<lparr>fl_seen := s, fl_claims := cs\<rparr>) = fleet_digest now a" by (simp add: fleet_digest_def)
  ultimately show ?thesis using short m digest by simp
qed

section \<open>An example\<close>

definition ex_self :: "nat \<Rightarrow> pin list \<Rightarrow> (unit, unit) local_fleet" where
  "ex_self k pins = \<lparr>fl_id = NodeId [of_nat k], fl_pins = Some (Ok pins), fl_local_addresses = [],
     fl_launchability = launchability_yes, fl_accelerator = ''GB10'', fl_name = DisplayName ''a'', fl_os = ''linux'',
     fl_version = ''0'', fl_vitals = None, fl_running_source = None, fl_seen = [], fl_alerts = [], fl_running = None,
     fl_reports = [], fl_claims = []\<rparr>"

definition ex_report :: "unit peer_report" where
  "ex_report = \<lparr>rp_node = NodeId [2], rp_name = ''spark'', rp_can_launch = True, rp_accelerator = ''GB10'', rp_os = ''linux'',
     rp_vitals = None, rp_link = Roce, rp_addresses = [], rp_vouched = None, rp_version_max = 2\<rparr>"

definition ex_beacon :: beacon where
  "ex_beacon = \<lparr>bn_id = NodeId [4], bn_name = DisplayName ''loud'', bn_peer_port = 1, bn_addresses = [], bn_can_launch = True,
     bn_accelerator = []\<rparr>"

text \<open>Machine 1 has pinned 2 and machine 2 has pinned 3; 2 answers 1, and tells it of 3.\<close>

definition ex_teller :: "(unit, unit) local_fleet" where
  "ex_teller = (ex_self 2 [ex_pin\<lparr>pn_id := NodeId [3]\<rparr>])\<lparr>fl_reports := [(NodeId [3], ex_report\<lparr>rp_node := NodeId [3]\<rparr>, 0)]\<rparr>"

definition ex_told :: "unit vouched_peer list" where
  "ex_told = (case fleet_digest 5 ex_teller of Ok d \<Rightarrow> d | Err _ \<Rightarrow> [])"

definition ex_fleet_events :: "(unit, unit) fleet_event list" where
  "ex_fleet_events = [FvBeacon 0 ex_beacon, FvReport 0 ex_report, FvVouches 7 (NodeId [2]) ex_told]"

definition ex_listener :: "(unit, unit) local_fleet" where
  "ex_listener = ex_self 1 [ex_pin\<lparr>pn_last_address := Some ''10.0.0.2''\<rparr>]"

lemma ex_fresh: "fl_seen ex_listener = []" "fl_claims ex_listener = []"
  by (simp_all add: ex_listener_def ex_self_def)

lemma ex_claims_ok: "claims_ok (fl_id (fleet_run ex_fleet_events ex_listener)) (fl_claims (fleet_run ex_fleet_events ex_listener))"
proof -
  have "fleet_ok UNIV ex_listener"
    using ex_fresh bt_ok_of_list [of "[]"]
    by (simp add: bt_ok_def fleet_ok_def seen_keys_def claims_ok_def no_empty_def claimed_by_def claim_def)
  then have "fleet_ok UNIV (fleet_run ex_fleet_events ex_listener)" by (rule fleet_ok_run) simp
  then show ?thesis by (simp add: fleet_ok_def)
qed

theorem fleet_tables_bounded_witness:
  "card (seen_keys (fleet_run ex_fleet_events ex_listener) - ever_pinned ex_fleet_events ex_listener) \<le> 256 \<and>
   card (claimed_by (NodeId [2]) (fl_claims (fleet_run ex_fleet_events ex_listener))) \<le> 64 \<and>
   claim (fl_claims (fleet_run ex_fleet_events ex_listener)) (NodeId [3]) (NodeId [2]) = Some (ex_told ! 0, 7) \<and>
   bt_get (fl_seen (fleet_run ex_fleet_events ex_listener)) (NodeId [4]) \<noteq> None"
proof -
  have "claim (fl_claims (fleet_run ex_fleet_events ex_listener)) (NodeId [3]) (NodeId [2]) = Some (ex_told ! 0, 7)"
    "bt_get (fl_seen (fleet_run ex_fleet_events ex_listener)) (NodeId [4]) \<noteq> None" by code_simp+
  with fleet_tables_bounded [OF ex_fresh, of ex_fleet_events "NodeId [2]"] show ?thesis by blast
qed

theorem control_goes_by_trust_witness:
  "plan_control_route (NodeId [3]) 7000 (fleet_run ex_fleet_events ex_listener) = Ok (RouteVia (NodeId [2]) (V4 0x0A000002) 7000) \<and>
   best_voucher (fleet_run ex_fleet_events ex_listener) (NodeId [3]) (NodeId [2])"
proof -
  have route: "plan_control_route (NodeId [3]) 7000 (fleet_run ex_fleet_events ex_listener) = Ok (RouteVia (NodeId [2]) (V4 0x0A000002) 7000)"
    by code_simp
  from control_goes_by_trust [OF ex_claims_ok route] route show ?thesis by simp
qed

theorem vouching_goes_one_hop_witness:
  "fleet_digest 5 ex_teller = Ok ex_told \<and>
   claim (fl_claims (fl_record_vouches 9 (fl_id ex_teller) ex_told (fleet_run ex_fleet_events ex_listener))) (NodeId [3]) (NodeId [2]) =
     Some (vouch_for 5 (NodeId [3]) (ex_pin\<lparr>pn_id := NodeId [3]\<rparr>) (bt_get (fl_reports ex_teller) (NodeId [3])), 9)"
proof -
  have digest: "fleet_digest 5 ex_teller = Ok ex_told" by code_simp
  have ends: "fl_id ex_teller = NodeId [2]" "fl_id (fleet_run ex_fleet_events ex_listener) = NodeId [1]"
    "pins_load (fl_pins ex_teller) = Ok [(NodeId [3], ex_pin\<lparr>pn_id := NodeId [3]\<rparr>)]" by code_simp+
  from vouching_goes_one_hop [OF ex_claims_ok digest, of _ _ 9 "NodeId [3]" "NodeId [2]"] digest
  show ?thesis unfolding ends by (simp add: bt_get_def)
qed

end
