(* ===== verification/Joining.thy ===== *)
theory Joining
  imports Identity Fingerprint
begin

text \<open>
  Admitting a machine (\<open>metralectl-agent/src/pairing.rs\<close>, \<open>joining.rs\<close>, \<open>serve_join\<close> of \<open>daemon/join.rs\<close>): the code a
  human reads out, the window that is open while it is good, the confirmation that both ends hold the same key on the
  same channel, and the tasks that serve strangers, all of them at once.

  The bytes the operating system supplies are an argument, and so are the digest and the group arithmetic of SPAKE2.
  The lock of the window is never poisoned. The ceremony between \<open>begin_attempt\<close> and \<open>consume\<close> is an event that ends
  well or not; what is said in it is the matter of \<open>Peer_Pair\<close>.

  The theorems: however the tasks interleave, an invitation hands out its code at most three times, only while it is
  the current one and not expired, and admits at most one machine; a confirmation verifies only against one made with
  the same key on the same channel by the other end. The lemma \<open>granted_by_another\<close> shows that a machine that entered
  with one code can be given the rights of another invitation.
\<close>

section \<open>Codes\<close>

definition CODE_DIGITS :: nat where "CODE_DIGITS = 8"
definition MAX_ATTEMPTS :: "8 word" where "MAX_ATTEMPTS = 3"

text \<open>The loop of \<open>PairingCode::generate\<close>, and None where the bytes at hand run out.\<close>

fun code_digits :: "8 word list \<Rightarrow> string \<Rightarrow> string option" where
  "code_digits bytes digits =
     (if CODE_DIGITS \<le> length digits then Some digits
      else case bytes of
        [] \<Rightarrow> None
      | b # bytes \<Rightarrow>
          code_digits bytes (if b < 250 then digits @ [char_of (48 + unat b mod 10)] else digits))"

declare code_digits.simps [simp del]

definition code_generate :: "8 word list \<Rightarrow> string option" where
  "code_generate bytes = code_digits bytes []"

definition code_grouped :: "string \<Rightarrow> string" where
  "code_grouped code = take (CODE_DIGITS div 2) code @ '' '' @ drop (CODE_DIGITS div 2) code"

definition looks_like_code :: "string \<Rightarrow> bool" where
  "looks_like_code s = (length s = CODE_DIGITS \<and> list_all is_ascii_digit s)"

section \<open>The window\<close>

definition JOIN_TTL :: int where "JOIN_TTL = 10 * 60 * 1000000000"

record invitation =
  iv_code :: string
  iv_opened :: int
  iv_attempts :: "8 word"
  iv_allow_control :: bool

definition iv_elapsed :: "int \<Rightarrow> invitation \<Rightarrow> int" where
  "iv_elapsed now p = max 0 (now - iv_opened p)"

definition window_mint :: "int \<Rightarrow> string \<Rightarrow> bool \<Rightarrow> invitation option \<Rightarrow> string \<times> invitation option" where
  "window_mint now code allow w =
     (code, Some \<lparr>iv_code = code, iv_opened = now, iv_attempts = 0, iv_allow_control = allow\<rparr>)"

definition window_revoke :: "invitation option \<Rightarrow> invitation option" where
  "window_revoke w = None"

definition window_is_open :: "int \<Rightarrow> invitation option \<Rightarrow> bool" where
  "window_is_open now w =
     (case w of Some p \<Rightarrow> iv_elapsed now p < JOIN_TTL \<and> iv_attempts p < MAX_ATTEMPTS | None \<Rightarrow> False)"

definition window_remaining :: "int \<Rightarrow> invitation option \<Rightarrow> int option" where
  "window_remaining now w =
     Option.bind w (\<lambda>p. if iv_elapsed now p \<le> JOIN_TTL then Some (JOIN_TTL - iv_elapsed now p) else None)"

definition begin_attempt :: "int \<Rightarrow> invitation option \<Rightarrow> string option \<times> invitation option" where
  "begin_attempt now w =
     (case w of
        None \<Rightarrow> (None, None)
      | Some p \<Rightarrow>
          if JOIN_TTL \<le> iv_elapsed now p then (None, None)
          else if MAX_ATTEMPTS \<le> iv_attempts p then (None, w)
          else (Some (iv_code p), Some (p\<lparr>iv_attempts := (if iv_attempts p = 255 then 255 else iv_attempts p + 1)\<rparr>)))"

definition window_consume :: "invitation option \<Rightarrow> bool option \<times> invitation option" where
  "window_consume w = (map_option iv_allow_control w, None)"

section \<open>Strangers being served\<close>

text \<open>
  A task is a connection that was given a code. The numbers of the invitations and the log are not state of the
  program: they say which invitation a code came from and what has happened.
\<close>

datatype join_entry =
    Minted nat string bool int
  | Revoked nat
  | Handed nat nat string int
  | Admitted nat nat node_id bool

record join_state =
  jn_window :: "invitation option"
  jn_tasks :: "nat \<rightharpoonup> string"
  jn_pins :: pin_file
  jn_minted :: nat
  jn_log :: "join_entry list"

text \<open>What a finished ceremony knows of the other machine.\<close>

record paired =
  pr_node :: node_id
  pr_public_key :: string
  pr_name :: string
  pr_verification :: string

datatype join_event =
    JnMint int string bool
  | JnRevoke
  | JnBegin nat int
  | JnFail nat
  | JnPaired nat "string option" "64 word" paired
  | JnPins pin_file

definition pairing_of :: "64 word \<Rightarrow> paired \<Rightarrow> bool \<Rightarrow> pairing" where
  "pairing_of now_unix p allow =
     \<lparr>pa_node = pr_node p, pa_public_key = pr_public_key p, pa_name = display_name_new (pr_name p),
      pa_now_unix = now_unix, pa_last_address = None, pa_controller = allow\<rparr>"

text \<open>The end of \<open>serve_join\<close>: the invitation is consumed and then the pin is written, which can fail.\<close>

definition join_admit :: "nat \<Rightarrow> string option \<Rightarrow> 64 word \<Rightarrow> paired \<Rightarrow> join_state \<Rightarrow> join_state" where
  "join_admit t fault now_unix p s =
     (let (consumed, w) = window_consume (jn_window s); s = s\<lparr>jn_window := w\<rparr> in
      case consumed of
        None \<Rightarrow> s
      | Some allow \<Rightarrow>
          (case record_pairing fault (pairing_of now_unix p allow) (jn_pins s) of
             (Err _, pins) \<Rightarrow> s\<lparr>jn_pins := pins\<rparr>
           | (Ok _, pins) \<Rightarrow>
               s\<lparr>jn_pins := pins, jn_log := Admitted t (jn_minted s) (pr_node p) allow # jn_log s\<rparr>))"

fun join_do :: "join_event \<Rightarrow> join_state \<Rightarrow> join_state option" where
  "join_do (JnMint now code allow) s =
     (let (code, w) = window_mint now code allow (jn_window s); n = jn_minted s + 1 in
      Some (s\<lparr>jn_window := w, jn_minted := n, jn_log := Minted n code allow now # jn_log s\<rparr>))"
| "join_do JnRevoke s = Some (s\<lparr>jn_window := window_revoke (jn_window s), jn_log := Revoked (jn_minted s) # jn_log s\<rparr>)"
| "join_do (JnBegin t now) s =
     (if jn_tasks s t \<noteq> None then None
      else let (code, w) = begin_attempt now (jn_window s) in
        Some (s\<lparr>jn_window := w, jn_tasks := (jn_tasks s)(t := code),
                jn_log := (case code of Some c \<Rightarrow> Handed t (jn_minted s) c now # jn_log s | None \<Rightarrow> jn_log s)\<rparr>))"
| "join_do (JnFail t) s = (if jn_tasks s t = None then None else Some (s\<lparr>jn_tasks := (jn_tasks s)(t := None)\<rparr>))"
| "join_do (JnPaired t fault now_unix p) s =
     (if jn_tasks s t = None then None else Some (join_admit t fault now_unix p (s\<lparr>jn_tasks := (jn_tasks s)(t := None)\<rparr>)))"
| "join_do (JnPins f) s = Some (s\<lparr>jn_pins := f\<rparr>)"

inductive join_step :: "join_state \<Rightarrow> join_state \<Rightarrow> bool" where
  "join_do e s = Some s' \<Longrightarrow> join_step s s'"

inductive_simps join_step_simps: "join_step s s'"

definition join_init :: "join_state \<Rightarrow> bool" where
  "join_init s = (jn_window s = None \<and> jn_tasks s = Map.empty \<and> jn_minted s = 0 \<and> jn_log s = [])"

section \<open>Codes, proved\<close>

lemma code_digits_shape:
  "code_digits bytes ds = Some code \<Longrightarrow> length ds \<le> CODE_DIGITS \<Longrightarrow> list_all is_ascii_digit ds \<Longrightarrow> looks_like_code code"
proof (induction bytes arbitrary: ds)
  case Nil
  then show ?case by (auto simp: code_digits.simps [of "[]"] looks_like_code_def split: if_splits)
next
  case (Cons b bytes)
  show ?case
  proof (cases "CODE_DIGITS \<le> length ds")
    case True
    then show ?thesis using Cons.prems by (auto simp: code_digits.simps [of "b # bytes"] looks_like_code_def)
  next
    case False
    have "is_ascii_digit (char_of (48 + unat b mod 10))" by (simp add: is_ascii_digit_def byte_of_char_of)
    then show ?thesis using False Cons by (auto simp: code_digits.simps [of "b # bytes"] split: if_splits)
  qed
qed

lemma generated_looks_like_code: "code_generate bytes = Some code \<Longrightarrow> looks_like_code code"
  unfolding code_generate_def by (rule code_digits_shape) auto

section \<open>Every code is as likely as another\<close>

lemma finite_list_all2: "(\<And>y. finite {x. P x y}) \<Longrightarrow> finite {xs. list_all2 P xs ys}"
proof (induction ys)
  case (Cons y ys)
  have "{xs. list_all2 P xs (y # ys)} = (\<lambda>(x, xs). x # xs) ` ({x. P x y} \<times> {xs. list_all2 P xs ys})"
    by (auto simp: list_all2_Cons2)
  then show ?case using Cons by simp
qed simp

lemma card_list_all2:
  assumes "\<And>y. finite {x. P x y}" "\<And>y. y \<in> set ys \<Longrightarrow> card {x. P x y} = n"
  shows "card {xs. list_all2 P xs ys} = n ^ length ys"
  using assms(2)
proof (induction ys)
  case (Cons y ys)
  have "{xs. list_all2 P xs (y # ys)} = (\<lambda>(x, xs). x # xs) ` ({x. P x y} \<times> {xs. list_all2 P xs ys})"
    by (auto simp: list_all2_Cons2)
  moreover have "inj_on (\<lambda>(x, xs). x # xs) ({x. P x y} \<times> {xs. list_all2 P xs ys})" by (auto simp: inj_on_def)
  ultimately have "card {xs. list_all2 P xs (y # ys)} = card ({x. P x y} \<times> {xs. list_all2 P xs ys})"
    by (simp add: card_image)
  then show ?case using Cons by (simp add: card_cartesian_product)
qed simp

text \<open>The bytes from which a digit is made.\<close>

definition makes_digit :: "8 word \<Rightarrow> char \<Rightarrow> bool" where
  "makes_digit b c = (b < 250 \<and> char_of (48 + unat b mod 10) = c)"

lemma code_digits_steps:
  "list_all2 makes_digit bytes (drop (length ds) code) \<Longrightarrow> length code = CODE_DIGITS \<Longrightarrow> ds = take (length ds) code \<Longrightarrow>
     length ds \<le> CODE_DIGITS \<Longrightarrow> code_digits bytes ds = Some code"
proof (induction bytes arbitrary: ds)
  case Nil
  then show ?case by (simp add: code_digits.simps [of "[]"])
next
  case (Cons b bytes)
  then have lt: "length ds < length code" by (cases "length ds < length code") auto
  then have dr: "drop (length ds) code = code ! length ds # drop (Suc (length ds)) code" by (simp add: Cons_nth_drop_Suc)
  with Cons.prems(1) have b: "makes_digit b (code ! length ds)" and rest: "list_all2 makes_digit bytes (drop (Suc (length ds)) code)" by auto
  have tk: "take (Suc (length ds)) code = ds @ [code ! length ds]"
    using take_Suc_conv_app_nth [OF lt] Cons.prems(3) by simp
  have "code_digits bytes (ds @ [code ! length ds]) = Some code"
    using Cons.IH [of "ds @ [code ! length ds]"] rest tk lt Cons.prems(2) by simp
  then show ?case using b lt Cons.prems(2) by (simp add: code_digits.simps [of "b # bytes"] makes_digit_def)
qed

lemma card_makes_digit:
  assumes "is_ascii_digit c"
  shows "card {b. makes_digit b c} = 25"
proof -
  define d where "d = byte_of c - 48"
  have d: "d < 10" "c = char_of (48 + d)" using assms by (auto simp: d_def is_ascii_digit_def byte_of_def)
  have digit: "char_of (48 + unat b mod 10) = c \<longleftrightarrow> unat b mod 10 = d" for b :: "8 word"
  proof -
    have "48 + unat b mod 10 < 256" "48 + d < 256" using d(1) by simp_all
    then show ?thesis unfolding d(2) by (metis add_left_cancel byte_of_char_of)
  qed
  have inj: "inj_on unat {b :: 8 word. makes_digit b c}" by (simp add: inj_on_def word_unat_eq_iff)
  have "unat ` {b :: 8 word. makes_digit b c} = (\<lambda>k. 10 * k + d) ` {..<25}"
  proof (intro set_eqI iffI)
    fix n
    assume "n \<in> unat ` {b :: 8 word. makes_digit b c}"
    then obtain b :: "8 word" where b: "n = unat b" "b < 250" "unat b mod 10 = d"
      unfolding makes_digit_def digit by auto
    then have "n < 250" by (simp add: word_less_nat_alt)
    then have "n = 10 * (n div 10) + d" "n div 10 < 25" using b(1,3) by auto
    then show "n \<in> (\<lambda>k. 10 * k + d) ` {..<25}" by blast
  next
    fix n
    assume "n \<in> (\<lambda>k. 10 * k + d) ` {..<25}"
    then obtain k where k: "k < 25" "n = 10 * k + d" by auto
    then have n: "n < 250" "n mod 10 = d" using d(1) by auto
    then have u: "unat (of_nat n :: 8 word) = n" by (simp add: unat_of_nat)
    then have "makes_digit (of_nat n) c" unfolding makes_digit_def digit using n by (simp add: word_less_nat_alt)
    then show "n \<in> unat ` {b :: 8 word. makes_digit b c}" using u by (metis image_eqI mem_Collect_eq)
  qed
  moreover have "card ((\<lambda>k. 10 * k + d) ` {..<25 :: nat}) = 25" by (subst card_image) (auto simp: inj_on_def)
  ultimately show ?thesis using card_image [OF inj] by simp
qed

text \<open>
  Of the byte sequences in which nothing is rejected, equally many make each code, so that no code is likelier than
  another. Reducing modulo 10 without rejection would not have it.
\<close>

lemma codes_equally_likely:
  assumes code: "looks_like_code code"
  shows "card {bytes. length bytes = 8 \<and> list_all (\<lambda>b. b < 250) bytes \<and> code_generate bytes = Some code} = 25 ^ 8"
proof -
  have len: "length code = 8" and dig: "\<And>c. c \<in> set code \<Longrightarrow> is_ascii_digit c"
    using code by (auto simp: looks_like_code_def CODE_DIGITS_def list_all_iff)
  have gen: "code_generate bytes = Some code'" if "list_all2 makes_digit bytes code'" "length code' = 8" for bytes code'
    unfolding code_generate_def using that by (intro code_digits_steps) (simp_all add: CODE_DIGITS_def)
  have "{bytes. length bytes = 8 \<and> list_all (\<lambda>b. b < 250) bytes \<and> code_generate bytes = Some code} = {bytes. list_all2 makes_digit bytes code}"
  proof (intro set_eqI iffI; clarify)
    fix bytes :: "8 word list"
    assume b: "length bytes = 8" "list_all (\<lambda>b. b < 250) bytes" "code_generate bytes = Some code"
    let ?c = "map (\<lambda>b. char_of (48 + unat b mod 10)) bytes"
    have "list_all2 makes_digit bytes ?c"
      using b(2) by (auto simp: list_all2_conv_all_nth list_all_length makes_digit_def)
    with gen [OF this] b show "list_all2 makes_digit bytes code" by simp
  next
    fix bytes :: "8 word list"
    assume b: "list_all2 makes_digit bytes code"
    then have "length bytes = 8" "list_all (\<lambda>b. b < 250) bytes"
      using len by (auto simp: list_all2_conv_all_nth list_all_length makes_digit_def)
    with gen [OF b len] show "length bytes = 8 \<and> list_all (\<lambda>b. b < 250) bytes \<and> code_generate bytes = Some code" by simp
  qed
  moreover have "card {bytes. list_all2 makes_digit bytes code} = 25 ^ length code"
    using dig by (intro card_list_all2) (auto simp: card_makes_digit)
  ultimately show ?thesis by (simp add: len)
qed

section \<open>What an invitation can do, proved\<close>

fun is_handed :: "nat \<Rightarrow> join_entry \<Rightarrow> bool" where
  "is_handed i (Handed _ j _ _) = (j = i)"
| "is_handed i _ = False"

fun is_admitted :: "nat \<Rightarrow> join_entry \<Rightarrow> bool" where
  "is_admitted i (Admitted _ j _ _) = (j = i)"
| "is_admitted i _ = False"

fun entry_of :: "join_entry \<Rightarrow> nat" where
  "entry_of (Minted i _ _ _) = i"
| "entry_of (Revoked i) = i"
| "entry_of (Handed _ i _ _) = i"
| "entry_of (Admitted _ i _ _) = i"

definition handed :: "nat \<Rightarrow> join_entry list \<Rightarrow> nat" where
  "handed i log = length (filter (is_handed i) log)"

definition admitted :: "nat \<Rightarrow> join_entry list \<Rightarrow> nat" where
  "admitted i log = length (filter (is_admitted i) log)"

text \<open>Why an entry may stand before those that were there.\<close>

fun join_justified :: "join_entry \<Rightarrow> join_entry list \<Rightarrow> bool" where
  "join_justified (Handed t i code at) log =
     ((\<exists>allow t0. Minted i code allow t0 \<in> set log \<and> at - t0 < JOIN_TTL) \<and> Revoked i \<notin> set log \<and>
      admitted i log = 0 \<and> (\<forall>e\<in>set log. entry_of e \<le> i))"
| "join_justified (Admitted t i n allow) log =
     ((\<exists>code t0. Minted i code allow t0 \<in> set log) \<and> Revoked i \<notin> set log \<and>
      (\<exists>j code at. Handed t j code at \<in> set log \<and> j \<le> i))"
| "join_justified e log = (\<forall>e'\<in>set log. entry_of e' \<le> entry_of e)"

fun all_justified :: "join_entry list \<Rightarrow> bool" where
  "all_justified [] = True"
| "all_justified (e # log) = (join_justified e log \<and> all_justified log)"

definition join_inv :: "join_state \<Rightarrow> bool" where
  "join_inv s =
     (all_justified (jn_log s) \<and> (\<forall>e\<in>set (jn_log s). entry_of e \<le> jn_minted s) \<and>
      (\<forall>p. jn_window s = Some p \<longrightarrow>
         handed (jn_minted s) (jn_log s) = unat (iv_attempts p) \<and> iv_attempts p \<le> 3 \<and> admitted (jn_minted s) (jn_log s) = 0 \<and>
         Revoked (jn_minted s) \<notin> set (jn_log s) \<and>
         Minted (jn_minted s) (iv_code p) (iv_allow_control p) (iv_opened p) \<in> set (jn_log s)) \<and>
      (\<forall>i. handed i (jn_log s) \<le> 3 \<and> admitted i (jn_log s) \<le> 1) \<and>
      (\<forall>t code. jn_tasks s t = Some code \<longrightarrow> (\<exists>i at. Handed t i code at \<in> set (jn_log s))))"

lemma handed_Cons [simp]: "handed i (e # log) = (if is_handed i e then 1 else 0) + handed i log"
  and admitted_Cons [simp]: "admitted i (e # log) = (if is_admitted i e then 1 else 0) + admitted i log"
  and handed_Nil [simp]: "handed i [] = 0" and admitted_Nil [simp]: "admitted i [] = 0"
  by (simp_all add: handed_def admitted_def)

lemma not_yet: "\<forall>e\<in>set log. entry_of e \<le> n \<Longrightarrow> n < i \<Longrightarrow> handed i log = 0 \<and> admitted i log = 0"
  by (induction log) (auto elim!: is_handed.elims is_admitted.elims)

lemma join_inv_init: "join_init s \<Longrightarrow> join_inv s"
  by (simp add: join_init_def join_inv_def)

lemma join_inv_mint:
  assumes "join_inv s"
  shows "join_inv (s\<lparr>jn_window := Some \<lparr>iv_code = code, iv_opened = now, iv_attempts = 0, iv_allow_control = allow\<rparr>,
    jn_minted := jn_minted s + 1, jn_log := Minted (jn_minted s + 1) code allow now # jn_log s\<rparr>)"
proof -
  have old: "\<And>e. e \<in> set (jn_log s) \<Longrightarrow> entry_of e \<le> jn_minted s" using assms by (simp add: join_inv_def)
  then have "handed (jn_minted s + 1) (jn_log s) = 0 \<and> admitted (jn_minted s + 1) (jn_log s) = 0" by (intro not_yet) auto
  moreover have "Revoked (jn_minted s + 1) \<notin> set (jn_log s)" using old by fastforce
  moreover have "\<And>e. e \<in> set (jn_log s) \<Longrightarrow> entry_of e \<le> jn_minted s + 1" using old by fastforce
  ultimately show ?thesis using assms unfolding join_inv_def by auto
qed

lemma join_inv_revoke:
  "join_inv s \<Longrightarrow> join_inv (s\<lparr>jn_window := None, jn_log := Revoked (jn_minted s) # jn_log s\<rparr>)"
  unfolding join_inv_def by auto

lemma join_inv_close: "join_inv s \<Longrightarrow> join_inv (s\<lparr>jn_window := None\<rparr>)"
  unfolding join_inv_def by auto

lemma join_inv_task_gone: "join_inv s \<Longrightarrow> join_inv (s\<lparr>jn_tasks := (jn_tasks s)(t := None)\<rparr>)"
  unfolding join_inv_def by auto

lemma join_inv_begin:
  assumes inv: "join_inv s" and w: "jn_window s = Some p" and "max 0 (now - iv_opened p) < JOIN_TTL" "iv_attempts p < 3"
  shows "join_inv (s\<lparr>jn_window := Some (p\<lparr>iv_attempts := iv_attempts p + 1\<rparr>), jn_tasks := (jn_tasks s)(t \<mapsto> iv_code p),
    jn_log := Handed t (jn_minted s) (iv_code p) now # jn_log s\<rparr>)"
proof -
  have n: "unat (iv_attempts p) < 3" "unat (iv_attempts p + 1) = Suc (unat (iv_attempts p))"
    using assms(4) by (simp_all add: word_less_nat_alt unat_word_ariths(1))
  then have "iv_attempts p + 1 \<le> 3" by (simp add: word_le_nat_alt)
  moreover have "handed (jn_minted s) (jn_log s) = unat (iv_attempts p)" using inv w by (simp add: join_inv_def)
  ultimately show ?thesis using assms n unfolding join_inv_def by auto
qed

lemma join_inv_admitted:
  assumes inv: "join_inv s" and w: "jn_window s = Some p" and t: "jn_tasks s t = Some code"
  shows "join_inv (s\<lparr>jn_tasks := (jn_tasks s)(t := None), jn_window := None, jn_pins := f,
    jn_log := Admitted t (jn_minted s) n (iv_allow_control p) # jn_log s\<rparr>)"
proof -
  obtain j at where "Handed t j code at \<in> set (jn_log s)" using inv t unfolding join_inv_def by blast
  moreover from this have "j \<le> jn_minted s" using inv unfolding join_inv_def by fastforce
  ultimately show ?thesis using inv w unfolding join_inv_def by auto
qed

lemma join_inv_pins: "join_inv s \<Longrightarrow> join_inv (s\<lparr>jn_pins := f\<rparr>)"
  unfolding join_inv_def by simp

lemma join_inv_do:
  assumes inv: "join_inv s" and do: "join_do e s = Some s'"
  shows "join_inv s'"
proof (cases e)
  case (JnMint now code allow)
  then show ?thesis using do join_inv_mint [OF inv, where code = code and now = now and allow = allow] by (auto simp: window_mint_def)
next
  case JnRevoke
  then show ?thesis using do join_inv_revoke [OF inv] by (simp add: window_revoke_def)
next
  case (JnBegin t now)
  then have t: "jn_tasks s t = None" using do by (simp split: if_splits)
  then have keep: "s\<lparr>jn_window := w, jn_tasks := (jn_tasks s)(t := None)\<rparr> = s\<lparr>jn_window := w\<rparr>" for w
    by (metis fun_upd_triv join_state.surjective join_state.update_convs(1,2))
  show ?thesis
  proof (cases "jn_window s")
    case None
    then show ?thesis using do JnBegin t inv keep [of None] join_inv_close [OF inv] by (simp add: begin_attempt_def)
  next
    case (Some p)
    show ?thesis
    proof (cases "JOIN_TTL \<le> iv_elapsed now p")
      case True
      then show ?thesis using do JnBegin t Some keep [of None] join_inv_close [OF inv] by (simp add: begin_attempt_def)
    next
      case open1: False
      show ?thesis
      proof (cases "iv_attempts p < 3")
        case True
        then have few: "iv_attempts p \<noteq> 255" "\<not> 3 \<le> iv_attempts p" by auto
        have "max 0 (now - iv_opened p) < JOIN_TTL" using open1 unfolding iv_elapsed_def by linarith
        from join_inv_begin [OF inv Some this True, of t] do few show ?thesis
          by (simp add: JnBegin t Some open1 begin_attempt_def MAX_ATTEMPTS_def)
      next
        case False
        have "s\<lparr>jn_window := Some p\<rparr> = s" using Some by (metis join_state.surjective join_state.update_convs(1))
        then have "s' = s" using do keep [of "Some p"] False
          by (auto simp: JnBegin t Some open1 begin_attempt_def MAX_ATTEMPTS_def not_less)
        then show ?thesis using inv by simp
      qed
    qed
  qed
next
  case (JnFail t)
  then show ?thesis using do join_inv_task_gone [OF inv, of t] by (auto split: if_splits)
next
  case (JnPaired t fault now_unix p)
  then obtain code where t: "jn_tasks s t = Some code"
    and s': "s' = join_admit t fault now_unix p (s\<lparr>jn_tasks := (jn_tasks s)(t := None)\<rparr>)" using do by (auto split: if_splits)
  note gone = join_inv_close [OF join_inv_task_gone [OF inv, of t]]
  show ?thesis
  proof (cases "jn_window s")
    case None
    then show ?thesis using s' gone by (simp add: join_admit_def window_consume_def)
  next
    case (Some iv)
    obtain r f where r: "record_pairing fault (pairing_of now_unix p (iv_allow_control iv)) (jn_pins s) = (r, f)" by fastforce
    show ?thesis
    proof (cases r)
      case (Err e)
      then show ?thesis using s' Some r join_inv_pins [OF gone, of f] by (simp add: join_admit_def window_consume_def)
    next
      case (Ok u)
      then show ?thesis using s' Some r join_inv_admitted [OF inv Some t, where f = f and n = "pr_node p"]
        by (simp add: join_admit_def window_consume_def)
    qed
  qed
next
  case (JnPins f)
  then show ?thesis using do join_inv_pins [OF inv, of f] by auto
qed

interpretation join: invariant_system join_init join_step join_inv
  by unfold_locales (auto simp: join_inv_init join_step_simps intro: join_inv_do)


text \<open>
  What \<open>consume\<close> gives is the grant of the invitation that is in the window now, not of the one whose code the
  machine used: here an invitation without control is replaced, while a machine that has its code is being served, by
  one with control, whose code nobody was ever given; the machine that comes in on the first is granted control.
\<close>

definition join_start :: join_state where
  "join_start = \<lparr>jn_window = None, jn_tasks = (\<lambda>_. None), jn_pins = None, jn_minted = 0, jn_log = []\<rparr>"

fun join_run :: "join_event list \<Rightarrow> join_state \<Rightarrow> join_state option" where
  "join_run [] s = Some s"
| "join_run (e # es) s = Option.bind (join_do e s) (join_run es)"

definition ex_paired :: paired where
  "ex_paired = \<lparr>pr_node = NodeId [2], pr_public_key = ''aa'', pr_name = ''spark'', pr_verification = []\<rparr>"

definition ex_switched :: "join_event list" where
  "ex_switched = [JnMint 0 ''11111111'' False, JnBegin 1 5, JnMint 6 ''22222222'' True, JnPaired 1 None 1000 ex_paired]"

lemma granted_by_another:
  "case join_run ex_switched join_start of
     Some s \<Rightarrow> jn_log s = [Admitted 1 2 (NodeId [2]) True, Minted 2 ''22222222'' True 6, Handed 1 1 ''11111111'' 5,
         Minted 1 ''11111111'' False 0] \<and>
       (case pins_load (jn_pins s) of Ok m \<Rightarrow> map_option pn_controller (bt_get m (NodeId [2])) = Some True | Err _ \<Rightarrow> False)
   | None \<Rightarrow> False"
  by code_simp

lemma join_run_reachable:
  "join_run es s = Some s' \<Longrightarrow> reachable join_init join_step s \<Longrightarrow> reachable join_init join_step s'"
proof (induction es arbitrary: s)
  case (Cons e es)
  then obtain m where "join_do e s = Some m" "join_run es m = Some s'" by (auto simp: bind_eq_Some_conv)
  then show ?case using Cons reach_step join_step.intros by metis
qed simp


section \<open>Key confirmation\<close>

definition EXPORTER_LABEL :: string where "EXPORTER_LABEL = ''metralectl pairing channel binding v1''"

record confirmation =
  cf_key :: string
  cf_binding :: string
  cf_local :: node_id
  cf_remote :: node_id

text \<open>The identity both ends give to SPAKE2: the two ids in order, whoever dialled.\<close>

definition spake_identity :: "node_id \<Rightarrow> node_id \<Rightarrow> string" where
  "spake_identity a b =
     (let (lo, hi) = (if a \<le> b then (a, b) else (b, a)) in node_id_to_string lo @ '':'' @ node_id_to_string hi)"

definition mac_input :: "confirmation \<Rightarrow> node_id \<Rightarrow> node_id \<Rightarrow> string" where
  "mac_input c sender receiver =
     ''metralectl key confirmation v1'' @ cf_key c @ len_bytes (length (cf_binding c)) @ cf_binding c
       @ map (\<lambda>b. char_of (unat b)) (node_bytes sender) @ map (\<lambda>b. char_of (unat b)) (node_bytes receiver)"

definition confirm_mine :: "(string \<Rightarrow> 8 word list) \<Rightarrow> confirmation \<Rightarrow> 8 word list" where
  "confirm_mine h c = h (mac_input c (cf_local c) (cf_remote c))"

definition confirm_theirs :: "(string \<Rightarrow> 8 word list) \<Rightarrow> confirmation \<Rightarrow> 8 word list" where
  "confirm_theirs h c = h (mac_input c (cf_remote c) (cf_local c))"

definition confirm_verify :: "(string \<Rightarrow> 8 word list) \<Rightarrow> confirmation \<Rightarrow> 8 word list \<Rightarrow> (unit, string) result" where
  "confirm_verify h c received =
     (if length received = length (confirm_theirs h c) \<and> confirm_theirs h c = received then Ok ()
      else Err ''key confirmation failed: wrong code, or something is relaying this connection'')"

definition verification_words :: "(string \<Rightarrow> 8 word list) \<Rightarrow> confirmation \<Rightarrow> string" where
  "verification_words h c =
     (let d = h (''metralectl verification v1'' @ cf_key c) in
      hex_byte (d ! 0) @ hex_byte (d ! 1) @ ''-'' @ hex_byte (d ! 2) @ hex_byte (d ! 3))"

lemma spake_identity_symmetric: "spake_identity a b = spake_identity b a"
  by (auto simp: spake_identity_def Let_def)

lemma node_chars_inj:
  "map (\<lambda>b. char_of (unat b)) (node_bytes a) = map (\<lambda>b. char_of (unat b)) (node_bytes b) \<longleftrightarrow> a = b"
proof -
  have "inj (\<lambda>b :: 8 word. char_of (unat b) :: char)"
  proof (rule injI)
    fix x y :: "8 word"
    assume "char_of (unat x) = (char_of (unat y) :: char)"
    then have "unat x mod 256 = unat y mod 256" by (metis of_char_of)
    moreover have "unat x < 256" "unat y < 256" using unsigned_less [of x] unsigned_less [of y] by simp_all
    ultimately show "x = y" by (simp add: word_unat_eq_iff)
  qed
  then show ?thesis by (simp add: inj_map_eq_map node_id.expand) (metis node_id.expand)
qed

lemma fields_inj:
  assumes "l @ ka @ na @ ba @ xa @ ya = l @ kb @ nb @ bb @ xb @ yb"
    and "length ka = length kb" "length na = length nb" "length xa = length xb" "length ya = length yb"
  shows "ka = kb \<and> ba = bb \<and> xa = xb \<and> ya = yb"
proof -
  have "length (l @ ka @ na @ ba @ xa @ ya) = length (l @ kb @ nb @ bb @ xb @ yb)" using assms(1) by (rule arg_cong)
  then have "length ba = length bb" using assms(2-) by simp
  then show ?thesis using assms by simp
qed

lemma mac_input_inj:
  assumes "mac_input a sa ra = mac_input b sb rb" "length (cf_key a) = length (cf_key b)"
    and "length (node_bytes sa) = length (node_bytes sb)" "length (node_bytes ra) = length (node_bytes rb)"
  shows "cf_key a = cf_key b \<and> cf_binding a = cf_binding b \<and> sa = sb \<and> ra = rb"
  using fields_inj [OF assms(1) [unfolded mac_input_def] assms(2)] assms(3,4) node_chars_inj by simp

text \<open>
  C36. A confirmation verifies against what the other end sends exactly when both hold the same key on the same
  channel and each names the other: one that is relayed between two channels, or sent back to its sender, is refused.
  The digest is any function that tells these two inputs apart.
\<close>

theorem confirmation_binds_channel:
  assumes ids: "node_id_ok (cf_local a)" "node_id_ok (cf_remote a)" "node_id_ok (cf_local b)" "node_id_ok (cf_remote b)"
    and keys: "length (cf_key a) = length (cf_key b)"
    and digest: "h (mac_input a (cf_local a) (cf_remote a)) = h (mac_input b (cf_remote b) (cf_local b)) \<Longrightarrow>
      mac_input a (cf_local a) (cf_remote a) = mac_input b (cf_remote b) (cf_local b)"
  shows "confirm_verify h b (confirm_mine h a) = Ok () \<longleftrightarrow>
    cf_key a = cf_key b \<and> cf_binding a = cf_binding b \<and> cf_local a = cf_remote b \<and> cf_remote a = cf_local b"
proof
  assume "confirm_verify h b (confirm_mine h a) = Ok ()"
  then have "confirm_theirs h b = confirm_mine h a" unfolding confirm_verify_def by (metis result.distinct(1))
  then have "h (mac_input a (cf_local a) (cf_remote a)) = h (mac_input b (cf_remote b) (cf_local b))"
    by (simp only: confirm_mine_def confirm_theirs_def)
  then have eq: "mac_input a (cf_local a) (cf_remote a) = mac_input b (cf_remote b) (cf_local b)" by (rule digest)
  show "cf_key a = cf_key b \<and> cf_binding a = cf_binding b \<and> cf_local a = cf_remote b \<and> cf_remote a = cf_local b"
    by (rule mac_input_inj [OF eq keys]) (simp_all add: ids [unfolded node_id_ok_def])
next
  assume "cf_key a = cf_key b \<and> cf_binding a = cf_binding b \<and> cf_local a = cf_remote b \<and> cf_remote a = cf_local b"
  then have "mac_input a (cf_local a) (cf_remote a) = mac_input b (cf_remote b) (cf_local b)" unfolding mac_input_def by argo
  then show "confirm_verify h b (confirm_mine h a) = Ok ()"
    unfolding confirm_verify_def confirm_mine_def confirm_theirs_def by (simp only: if_True simp_thms)
qed

definition ex_confirmation :: "nat \<Rightarrow> nat \<Rightarrow> confirmation" where
  "ex_confirmation l r = \<lparr>cf_key = ''key'', cf_binding = ''channel'', cf_local = NodeId (replicate 32 (of_nat l)),
     cf_remote = NodeId (replicate 32 (of_nat r))\<rparr>"

text \<open>A digest that is the input itself, as bytes, tells all inputs apart.\<close>

theorem confirmation_binds_channel_witness:
  "confirm_verify (map (\<lambda>c. of_nat (of_char c))) (ex_confirmation 2 1) (confirm_mine (map (\<lambda>c. of_nat (of_char c))) (ex_confirmation 1 2)) = Ok () \<and>
   confirm_verify (map (\<lambda>c. of_nat (of_char c))) (ex_confirmation 1 2) (confirm_mine (map (\<lambda>c. of_nat (of_char c))) (ex_confirmation 1 2)) \<noteq> Ok ()"
proof -
  have "inj (\<lambda>c :: char. of_nat (of_char c) :: 8 word)"
  proof (rule injI)
    fix x y :: char
    assume "of_nat (of_char x) = (of_nat (of_char y) :: 8 word)"
    then have "unat (of_nat (of_char x) :: 8 word) = unat (of_nat (of_char y) :: 8 word)" by simp
    then have "of_char x = (of_char y :: nat)" by (simp add: unat_of_nat)
    then show "x = y" by simp
  qed
  note inj = inj_map_eq_map [OF this]
  have ok: "node_id_ok (cf_local (ex_confirmation l r))" "node_id_ok (cf_remote (ex_confirmation l r))"
    "length (cf_key (ex_confirmation l r)) = length (cf_key (ex_confirmation l' r'))" for l r l' r'
    by (simp_all add: ex_confirmation_def node_id_ok_def)
  have ids: "cf_local (ex_confirmation 1 2) \<noteq> cf_remote (ex_confirmation 1 2)"
    "cf_local (ex_confirmation 1 2) = cf_remote (ex_confirmation 2 1)" "cf_remote (ex_confirmation 1 2) = cf_local (ex_confirmation 2 1)"
    "cf_key (ex_confirmation 1 2) = cf_key (ex_confirmation 2 1)" "cf_binding (ex_confirmation 1 2) = cf_binding (ex_confirmation 2 1)"
    by (simp_all add: ex_confirmation_def)
  have iff: "confirm_verify (map (\<lambda>c. of_nat (of_char c))) (ex_confirmation l' r') (confirm_mine (map (\<lambda>c. of_nat (of_char c))) (ex_confirmation l r)) = Ok () \<longleftrightarrow>
      cf_key (ex_confirmation l r) = cf_key (ex_confirmation l' r') \<and> cf_binding (ex_confirmation l r) = cf_binding (ex_confirmation l' r') \<and>
      cf_local (ex_confirmation l r) = cf_remote (ex_confirmation l' r') \<and> cf_remote (ex_confirmation l r) = cf_local (ex_confirmation l' r')" for l r l' r'
    by (rule confirmation_binds_channel [OF ok(1,2,1,2) ok(3)]) (erule inj [THEN iffD1])
  show ?thesis unfolding iff using ids by blast
qed

end
