(* ===== verification/Wire.thy ===== *)
theory Wire
  imports Fleet Joining Cluster_Driver Bench_Host
begin

text \<open>
  What one agent says to another and how it crosses the channel (\<open>metralectl-agent/src/peer/wire.rs\<close>), the exchange of
  hellos on both ends (\<open>peer/link.rs\<close>) and the wait for an answer among vitals (\<open>peer/cluster.rs\<close>).

  JSON is a pair of functions that are each other's inverse where a theorem says so. A stream is the bytes that will
  be read from it before it ends; an end, an error and a timeout are not told apart. Bytes are characters.

  The theorem: of a stream of frames that is cut anywhere exactly the frames that are there as a whole are read, in
  order, and nothing else is.
\<close>

section \<open>Frames\<close>

definition MAX_FRAME :: nat where "MAX_FRAME = 2 ^ 20"

record 'v peer_hello =
  he_version :: "32 word"
  he_name :: string
  he_can_launch :: bool
  he_accelerator :: string
  he_os :: string
  he_addresses :: "node_address list"
  he_version_max :: "32 word option"
  he_vouched :: "'v vouched_peer list option"

datatype bench_req =
    BqNodeInfo
  | BqSubmit submission
  | BqStatus "job_id option"
  | BqCancel job_id
  | BqAttach job_id "64 word"
  | BqArtifactList job_id
  | BqArtifactChunk job_id string "64 word" "32 word"

datatype ('v, 'r, 'i) peer_frame =
    PfHello "'v peer_hello"
  | PfPairStart string
  | PfPairAnswer string
  | PfPairConfirm string
  | PfPairRefused string
  | PfPairAccepted string
  | PfPreviewRank rank_assignment
  | PfRankPreviewed string "string list"
  | PfRankRefused string
  | PfPrepare rank_assignment string
  | PfPrepared string prepare_reply
  | PfCommit string
  | PfCommitted string string
  | PfAborted string
  | PfAbort string
  | PfIsRankAlive string
  | PfRankLiveness string bool
  | PfStopRank string
  | PfRankStopped string
  | PfVitals 'v
  | PfControlTo node_id control_req "control_trace option"
  | PfControl control_req "control_trace option"
  | PfControlReply "'r control_rep" "control_trace option"
  | PfBench bench_req
  | PfBenchReply "'i bench_rep"
  | PfBenchEvent "event_kind journal_event"

definition PEER_PROTOCOL_VERSION :: "32 word" where "PEER_PROTOCOL_VERSION = 1"
definition PEER_PROTOCOL_MAX :: "32 word" where "PEER_PROTOCOL_MAX = 3"

section \<open>On the stream\<close>

record 'f codec =
  cd_encode :: "'f \<Rightarrow> string option"
  cd_decode :: "string \<Rightarrow> 'f option"

definition write_frame :: "'f codec \<Rightarrow> 'f \<Rightarrow> string \<Rightarrow> (string, string) result" where
  "write_frame cd f out =
     (case cd_encode cd f of
        None \<Rightarrow> Err ''serialising a peer frame''
      | Some body \<Rightarrow>
          if 2 ^ 32 \<le> length body then Err ''frame is absurdly large''
          else if MAX_FRAME < length body then Err (''refusing to send a '' @ show_nat (length body) @ ''-byte frame'')
          else Ok (out @ len_bytes (length body) @ body))"

definition be_nat :: "string \<Rightarrow> nat" where
  "be_nat s = foldl (\<lambda>n c. 256 * n + byte_of c) 0 s"

definition read_frame :: "'f codec \<Rightarrow> string \<Rightarrow> ('f \<times> string, string) result" where
  "read_frame cd s =
     (if length s < 4 then Err ''reading a peer frame length''
      else
        let n = be_nat (take 4 s); s = drop 4 s in
        if MAX_FRAME < n then Err (''peer announced a '' @ show_nat n @ ''-byte frame; the limit is '' @ show_nat MAX_FRAME)
        else if length s < n then Err ''reading a peer frame body''
        else (case cd_decode cd (take n s) of
          None \<Rightarrow> Err ''decoding a peer frame''
        | Some f \<Rightarrow> Ok (f, drop n s)))"

lemma read_frame_shorter: "read_frame cd s = Ok (f, s') \<Longrightarrow> length s' < length s"
  by (auto simp: read_frame_def Let_def split: if_splits option.splits)

text \<open>Reading until it fails.\<close>

function read_frames :: "'f codec \<Rightarrow> string \<Rightarrow> 'f list \<times> string" where
  "read_frames cd s =
     (case read_frame cd s of
        Err e \<Rightarrow> ([], e)
      | Ok (f, s) \<Rightarrow> let (fs, e) = read_frames cd s in (f # fs, e))"
  by pat_completeness auto
termination
  by (relation "measure (\<lambda>(_, s). length s)") (auto dest: read_frame_shorter)

declare read_frames.simps [simp del]

fun write_frames :: "'f codec \<Rightarrow> 'f list \<Rightarrow> string \<Rightarrow> (string, string) result" where
  "write_frames cd [] out = Ok out"
| "write_frames cd (f # fs) out = result_bind (write_frame cd f out) (write_frames cd fs)"

lemma be_nat_len_bytes:
  assumes n: "n < 2 ^ 32"
  shows "be_nat (len_bytes n) = n"
proof -
  have b: "byte_of (char_of k) = k mod 256" for k :: nat by (simp add: byte_of_def)
  have top: "n div 16777216 < 256" using n by simp
  have "256 * (n div 16777216) + n div 65536 mod 256 = n div 65536"
    using mult_div_mod_eq [of 256 "n div 65536"] by (simp add: div_mult2_eq [symmetric])
  moreover have "256 * (n div 65536) + n div 256 mod 256 = n div 256"
    using mult_div_mod_eq [of 256 "n div 256"] by (simp add: div_mult2_eq [symmetric])
  moreover have "256 * (n div 256) + n mod 256 = n" by (rule mult_div_mod_eq)
  ultimately show ?thesis using n top by (simp add: be_nat_def len_bytes_def Let_def b)
qed

definition decodes :: "'f codec \<Rightarrow> 'f \<Rightarrow> bool" where
  "decodes cd f = (\<forall>body. cd_encode cd f = Some body \<longrightarrow> cd_decode cd body = Some f)"

lemma write_frame_Ok:
  "write_frame cd f out = Ok s \<longleftrightarrow>
     (\<exists>body. cd_encode cd f = Some body \<and> length body \<le> MAX_FRAME \<and> s = out @ len_bytes (length body) @ body)"
  by (auto simp: write_frame_def MAX_FRAME_def split: option.splits)

lemma read_written:
  assumes "cd_encode cd f = Some body" "length body \<le> MAX_FRAME" "decodes cd f"
  shows "read_frame cd (len_bytes (length body) @ body @ s) = Ok (f, s)"
proof -
  have "be_nat (len_bytes (length body)) = length body" using assms(2) by (intro be_nat_len_bytes) (simp add: MAX_FRAME_def)
  then show ?thesis using assms by (simp add: read_frame_def Let_def decodes_def)
qed

lemma read_cut:
  assumes "length body \<le> MAX_FRAME" "n < 4 + length body"
  shows "\<exists>e. read_frame cd (take n (len_bytes (length body) @ body @ s)) = Err e"
proof (cases "n < 4")
  case True
  then show ?thesis by (simp add: read_frame_def)
next
  case False
  have "be_nat (len_bytes (length body)) = length body" using assms(1) by (intro be_nat_len_bytes) (simp add: MAX_FRAME_def)
  moreover have "n - 4 < length body" using assms(2) False by linarith
  ultimately show ?thesis using assms False by (simp add: read_frame_def Let_def)
qed

text \<open>The bytes of one frame.\<close>

definition on_wire :: "'f codec \<Rightarrow> 'f \<Rightarrow> string" where
  "on_wire cd f = (case cd_encode cd f of Some body \<Rightarrow> len_bytes (length body) @ body | None \<Rightarrow> [])"

definition sendable :: "'f codec \<Rightarrow> 'f \<Rightarrow> bool" where
  "sendable cd f = (case cd_encode cd f of Some body \<Rightarrow> length body \<le> MAX_FRAME | None \<Rightarrow> False)"

lemma write_frames_Ok:
  "write_frames cd fs out = Ok s \<longleftrightarrow> list_all (sendable cd) fs \<and> s = out @ concat (map (on_wire cd) fs)"
proof (induction fs arbitrary: out)
  case (Cons f fs)
  have "write_frame cd f out = Ok m \<longleftrightarrow> sendable cd f \<and> m = out @ on_wire cd f" for m
    by (auto simp: write_frame_Ok sendable_def on_wire_def split: option.splits)
  then show ?case using Cons by (auto simp: result_bind_eq_Ok)
qed auto

lemma read_frames_cut:
  assumes "list_all (sendable cd) fs" "\<forall>f\<in>set fs. decodes cd f"
  shows "\<exists>k e. read_frames cd (take n (concat (map (on_wire cd) fs))) = (take k fs, e) \<and>
    length (concat (map (on_wire cd) (take k fs))) \<le> n \<and>
    (k < length fs \<longrightarrow> n < length (concat (map (on_wire cd) (take (Suc k) fs))))"
  using assms
proof (induction fs arbitrary: n)
  case Nil
  have "read_frame cd [] = Err ''reading a peer frame length''" by (simp add: read_frame_def)
  then show ?case by (simp add: read_frames.simps [of cd "[]"])
next
  case (Cons f fs)
  obtain body where body: "cd_encode cd f = Some body" "length body \<le> MAX_FRAME" using Cons.prems(1)
    by (auto simp: sendable_def split: option.splits)
  have wire: "on_wire cd f = len_bytes (length body) @ body" by (simp add: on_wire_def body)
  let ?rest = "concat (map (on_wire cd) fs)"
  show ?case
  proof (cases "n < 4 + length body")
    case True
    with read_cut [OF body(2)] obtain e where "read_frame cd (take n (len_bytes (length body) @ body @ ?rest)) = Err e" by blast
    then have "read_frame cd (take n (concat (map (on_wire cd) (f # fs)))) = Err e" by (simp add: wire)
    then have "read_frames cd (take n (concat (map (on_wire cd) (f # fs)))) = (take 0 (f # fs), e)"
      by (subst read_frames.simps) (simp only: result.case take_0)
    then show ?thesis using True wire by (intro exI [of _ 0]) auto
  next
    case False
    then obtain m where n: "n = 4 + length body + m" using le_Suc_ex not_less by blast
    then have split: "take n (concat (map (on_wire cd) (f # fs))) = len_bytes (length body) @ body @ take m ?rest" by (simp add: wire)
    obtain k e where IH: "read_frames cd (take m ?rest) = (take k fs, e)"
      "length (concat (map (on_wire cd) (take k fs))) \<le> m"
      "k < length fs \<longrightarrow> m < length (concat (map (on_wire cd) (take (Suc k) fs)))"
      using Cons.IH [of m] Cons.prems by simp blast
    have "read_frames cd (take n (concat (map (on_wire cd) (f # fs)))) = (take (Suc k) (f # fs), e)"
      unfolding split using read_written [OF body, of "take m ?rest"] Cons.prems(2) IH(1)
      by (simp add: read_frames.simps [of cd "len_bytes (length body) @ body @ take m ?rest"])
    then show ?thesis using IH(2,3) n wire by (intro exI [of _ "Suc k"] exI [of _ e]) simp
  qed
qed

text \<open>
  C37. Frames that one end writes are read at the other in order, each once, whatever is in them; where the stream is
  cut, exactly those are read whose last byte has arrived, and no frame that was not sent is ever made of the rest.
\<close>

theorem frames_arrive_whole:
  assumes "write_frames cd fs [] = Ok s" and "\<And>f. f \<in> set fs \<Longrightarrow> decodes cd f"
  shows "\<exists>k. fst (read_frames cd (take n s)) = take k fs \<and> (length s \<le> n \<longrightarrow> take k fs = fs) \<and>
    (\<forall>m t. write_frames cd (take m fs) [] = Ok t \<longrightarrow> length t \<le> n \<longrightarrow> length (take m fs) \<le> k)"
proof -
  from assms(1) have ok: "list_all (sendable cd) fs" "s = concat (map (on_wire cd) fs)" by (simp_all add: write_frames_Ok)
  obtain k e where k: "read_frames cd (take n s) = (take k fs, e)"
    and cut: "k < length fs \<longrightarrow> n < length (concat (map (on_wire cd) (take (Suc k) fs)))"
    using read_frames_cut [OF ok(1), of n] assms(2) unfolding ok(2) by blast
  have more: "length (concat (map (on_wire cd) (take a fs))) \<le> length (concat (map (on_wire cd) (take b fs)))" if "a \<le> b" for a b
  proof -
    have "take b fs = take a fs @ take (b - a) (drop a fs)" using that by (metis le_add_diff_inverse take_add)
    then show ?thesis by simp
  qed
  have "length (take m fs) \<le> k" if "write_frames cd (take m fs) [] = Ok t" "length t \<le> n" for m t
  proof (rule ccontr)
    assume "\<not> length (take m fs) \<le> k"
    then have "k < length fs" "Suc k \<le> m" by auto
    then show False using cut more [of "Suc k" m] that by (simp add: write_frames_Ok)
  qed
  moreover have "take k fs = fs" if "length s \<le> n"
  proof (cases "k < length fs")
    case True
    then show ?thesis using cut that more [of "Suc k" "length fs"] ok(2) by simp
  qed simp
  ultimately show ?thesis using k by auto
qed

definition ex_codec :: "string codec" where
  "ex_codec = \<lparr>cd_encode = Some, cd_decode = Some\<rparr>"

theorem frames_arrive_whole_witness:
  "\<exists>s k. write_frames ex_codec [''hello'', ''control''] [] = Ok s \<and> fst (read_frames ex_codec s) = [''hello'', ''control''] \<and>
     fst (read_frames ex_codec (take 12 s)) = take k [''hello'', ''control''] \<and> 1 \<le> k"
proof -
  obtain s where s: "write_frames ex_codec [''hello'', ''control''] [] = Ok s" "length s = 20"
    by (simp add: ex_codec_def write_frame_def MAX_FRAME_def)
  obtain t where t: "write_frames ex_codec [''hello''] [] = Ok t" "length t = 9"
    by (simp add: ex_codec_def write_frame_def MAX_FRAME_def)
  have dec: "decodes ex_codec f" for f by (simp add: decodes_def ex_codec_def)
  from frames_arrive_whole [OF s(1) dec, of 12] obtain k where k: "fst (read_frames ex_codec (take 12 s)) = take k [''hello'', ''control'']"
    "\<And>m t. write_frames ex_codec (take m [''hello'', ''control'']) [] = Ok t \<Longrightarrow> length t \<le> 12 \<Longrightarrow> length (take m [''hello'', ''control'']) \<le> k" by blast
  from frames_arrive_whole [OF s(1) dec, of 20] have all: "fst (read_frames ex_codec s) = [''hello'', ''control'']" using s(2) by auto
  have "1 \<le> k" using k(2) [of 1 t] t by simp
  then show ?thesis using s(1) k(1) all by blast
qed

end
