(* ===== verification/Peer_Serve.thy ===== *)
theory Peer_Serve
  imports Wire
begin

text \<open>
  Serving a paired agent and being one (\<open>metralectl-agent/src/daemon/peer_serve.rs\<close>, the gate of
  \<open>daemon/bench_serve.rs\<close>, \<open>peer/link.rs\<close>, \<open>peer/cluster.rs\<close>, \<open>peer/control.rs\<close>).

  A served connection is a function from the frames that arrive, each with the pin file as it is then, to the frames
  that leave and to what becomes of the machine. What the handler only calls (the rank service, the control core, the
  bench host, the attached stream) are the operations of its context, over a world \<open>'w\<close>; what forwarding reaches is
  the state \<open>'x\<close> of another machine. A client is a function of the frames that come back. A connection that is lost
  is one where fewer frames arrive at either end. Time budgets are such losses.

  The theorems: a peer without a right changes nothing by asking for what needs it, and the right is read again for
  every frame; a request that is relayed runs on the named machine alone, once, and only where both the one who asks
  has the right at the relay and the relay has it there; asking a rank over the wire is asking its service.
\<close>

section \<open>Introductions\<close>

record 'v self_intro =
  si_name :: string
  si_can_launch :: bool
  si_accelerator :: string
  si_os :: string
  si_version_max :: "32 word option"
  si_vouched :: "'v vouched_peer list option"

definition intro_new :: "string \<Rightarrow> string \<Rightarrow> bool \<Rightarrow> string \<Rightarrow> 'v self_intro" where
  "intro_new name os can_launch accelerator =
     \<lparr>si_name = name, si_can_launch = can_launch, si_accelerator = accelerator, si_os = os,
      si_version_max = Some PEER_PROTOCOL_MAX, si_vouched = None\<rparr>"

definition hello_of :: "'v self_intro \<Rightarrow> node_address list \<Rightarrow> 'v peer_hello" where
  "hello_of intro addresses =
     \<lparr>he_version = PEER_PROTOCOL_VERSION, he_name = si_name intro, he_can_launch = si_can_launch intro,
      he_accelerator = si_accelerator intro, he_os = si_os intro, he_addresses = addresses,
      he_version_max = si_version_max intro, he_vouched = si_vouched intro\<rparr>"

definition serve_query ::
    "('v, 'r, 'i) peer_frame \<Rightarrow> 'v self_intro \<Rightarrow> 'v option \<Rightarrow> node_address list \<Rightarrow> (('v, 'r, 'i) peer_frame list, string) result" where
  "serve_query first intro vitals addresses =
     (case first of
        PfHello h \<Rightarrow>
          if he_version h = PEER_PROTOCOL_VERSION
          then Ok (PfHello (hello_of intro addresses) # (case vitals of Some v \<Rightarrow> [PfVitals v] | None \<Rightarrow> []))
          else Err (''this node speaks peer protocol '' @ show_nat (unat PEER_PROTOCOL_VERSION) @ '', the caller speaks ''
            @ show_nat (unat (he_version h)))
      | _ \<Rightarrow> Err ''a peer must introduce itself first'')"

definition exchange_hello :: "('v, 'r, 'i) peer_frame list \<Rightarrow> ('v peer_hello \<times> ('v, 'r, 'i) peer_frame list, string) result" where
  "exchange_hello frames =
     (case frames of
        [] \<Rightarrow> Err ''it did not introduce itself''
      | PfHello h # frames \<Rightarrow>
          if he_version h = PEER_PROTOCOL_VERSION then Ok (h, frames)
          else Err (''this node speaks peer protocol '' @ show_nat (unat PEER_PROTOCOL_VERSION) @ '', '' @ he_name h @ '' speaks ''
            @ show_nat (unat (he_version h)))
      | _ \<Rightarrow> Err ''expected a hello'')"

definition SKIP_BUDGET :: nat where "SKIP_BUDGET = 8"

text \<open>\<open>answer\<close>: the first frame that is wanted, among at most so many that are not.\<close>

fun peer_answer ::
    "nat \<Rightarrow> string \<Rightarrow> (('v, 'r, 'i) peer_frame \<Rightarrow> ('t option, string) result) \<Rightarrow> ('v, 'r, 'i) peer_frame list \<Rightarrow> ('t, string) result" where
  "peer_answer 0 what want frames = Err (''it kept sending vitals instead of answering the '' @ what)"
| "peer_answer (Suc k) what want [] = Err (''it did not answer the '' @ what @ '' in time'')"
| "peer_answer (Suc k) what want (f # frames) =
     (case f of
        PfVitals _ \<Rightarrow> peer_answer k what want frames
      | _ \<Rightarrow> result_bind (want f) (\<lambda>v. case v of Some v \<Rightarrow> Ok v | None \<Rightarrow> peer_answer k what want frames))"

section \<open>The gates\<close>

definition grant_refusal :: "node_id \<Rightarrow> node_id \<Rightarrow> string" where
  "grant_refusal sender local =
     node_id_short sender @ '' is paired with '' @ node_id_short local @ '' but not granted control of it. Run `metralectl peer grant-control ''
       @ node_id_short sender @ ''` ON '' @ node_id_short local @ '' to allow it.''"

definition control_grant :: "pin_file \<Rightarrow> node_id \<Rightarrow> node_id \<Rightarrow> (unit, string) result" where
  "control_grant pins sender local =
     (case pins_load pins of
        Err _ \<Rightarrow> Err ''this agent's pin store could not be read; refusing control''
      | Ok m \<Rightarrow>
          (case bt_get m sender of
             Some p \<Rightarrow> if pn_controller p then Ok () else Err (grant_refusal sender local)
           | None \<Rightarrow> Err (node_id_short sender @ '' is not paired with this machine'')))"

definition bench_grant_refusal :: "node_id \<Rightarrow> node_id \<Rightarrow> bench_refusal" where
  "bench_grant_refusal sender local =
     BrNotGranted (''metralectl peer grant-bench '' @ node_id_short sender @ '' ON '' @ node_id_short local)"

definition bench_grant :: "pin_file \<Rightarrow> node_id \<Rightarrow> node_id \<Rightarrow> (unit, bench_refusal) result" where
  "bench_grant pins sender local =
     (case pins_load pins of
        Err _ \<Rightarrow> Err (BrNotConfigured ''this agent's pin store could not be read''
          ''check the config directory's permissions on the node'')
      | Ok m \<Rightarrow>
          (case bt_get m sender of
             Some p \<Rightarrow> if pn_bench p then Ok () else Err (bench_grant_refusal sender local)
           | None \<Rightarrow> Err (BrNotConfigured (node_id_short sender @ '' is not paired with this machine'')
               ''pair first (`metralectl agent pair` on the node, `metralectl peer add` here)'')))"

section \<open>What a frame is answered with\<close>

record ('w, 'v, 'r, 'i) peer_ctx =
  pc_rank :: "'w rank_ops"
  pc_render :: "rank_assignment \<Rightarrow> (string \<times> string list, string) result"
  pc_control :: "control_req \<Rightarrow> control_trace option \<Rightarrow> 'w \<Rightarrow> ('r control_rep, agent_error) result \<times> 'w"
  pc_bench :: "(node_id \<Rightarrow> bench_req \<Rightarrow> 'w \<Rightarrow> 'i bench_rep \<times> 'w) option"
  pc_bench_disabled :: "string option"
  pc_disabled_info :: "node_id \<Rightarrow> display_name \<Rightarrow> string \<Rightarrow> 'i"
  pc_attach :: "node_id \<Rightarrow> pin_file \<Rightarrow> job_id \<Rightarrow> 64 word \<Rightarrow> 'w \<Rightarrow> ('v, 'r, 'i) peer_frame list"
  pc_port :: "16 word"
  pc_intro :: "'v self_intro"

text \<open>What a relay can reach of another machine: its id, where it is dialled and what it is asked.\<close>

type_synonym ('r, 'x) forward =
  "node_id \<Rightarrow> ip_addr \<Rightarrow> 16 word \<Rightarrow> control_req \<Rightarrow> control_trace option \<Rightarrow> 'x \<Rightarrow> ('r control_rep, string) result \<times> 'x"

definition terminal_control ::
    "(control_req \<Rightarrow> control_trace option \<Rightarrow> 'w \<Rightarrow> ('r control_rep, agent_error) result \<times> 'w) \<Rightarrow> node_id \<Rightarrow> pin_file \<Rightarrow> node_id \<Rightarrow>
     control_req \<Rightarrow> control_trace option \<Rightarrow> 'w \<Rightarrow> 'r control_rep \<times> 'w" where
  "terminal_control execute sender pins local req trace w =
     (case control_grant pins sender local of
        Err refusal \<Rightarrow> (RpRefused local (ControlRefused local refusal), w)
      | Ok _ \<Rightarrow>
          (case execute req trace w of
             (Ok rep, w) \<Rightarrow> (rep, w)
           | (Err error, w) \<Rightarrow> (RpRefused local error, w)))"

definition relay_answer :: "node_id \<Rightarrow> node_id \<Rightarrow> string \<Rightarrow> bool \<Rightarrow> 'r control_rep" where
  "relay_answer local node detail transient = RpRefused local (RelayRefused node (Some local) detail transient)"

definition relay_control ::
    "('r, 'x) forward \<Rightarrow> 16 word \<Rightarrow> ('v, 'a) local_fleet \<Rightarrow> node_id \<Rightarrow> node_id \<Rightarrow> control_req \<Rightarrow> control_trace option \<Rightarrow> 'x \<Rightarrow>
     'r control_rep \<times> 'x" where
  "relay_control forward port f sender node req trace x =
     (case control_grant (fl_pins f) sender (fl_id f) of
        Err refusal \<Rightarrow> (relay_answer (fl_id f) node refusal False, x)
      | Ok _ \<Rightarrow>
          (case pins_load (fl_pins f) of
             Err _ \<Rightarrow> (relay_answer (fl_id f) node ''this agent's pin store could not be read'' False, x)
           | Ok pins \<Rightarrow>
               if bt_get pins node = None
               then (relay_answer (fl_id f) node (node_id_short node
                 @ '' is not a peer of this agent; a relay only forwards to machines it has itself pinned'') False, x)
               else (case Option.bind (control_address node f) ip_parse of
                 None \<Rightarrow> (relay_answer (fl_id f) node (''this agent has no known address for '' @ node_id_short node) False, x)
               | Some ip \<Rightarrow>
                   (case forward node ip port req trace x of
                      (Ok rep, x) \<Rightarrow> (rep, x)
                    | (Err e, x) \<Rightarrow> (relay_answer (fl_id f) node e True, x)))))"

definition terminal_bench ::
    "('w, 'v, 'r, 'i) peer_ctx \<Rightarrow> node_id \<Rightarrow> ('v, 'a) local_fleet \<Rightarrow> bench_req \<Rightarrow> 'w \<Rightarrow> 'i bench_rep \<times> 'w" where
  "terminal_bench ctx sender f req w =
     (case bench_grant (fl_pins f) sender (fl_id f) of
        Err refusal \<Rightarrow> (RepRefused (fl_id f) refusal, w)
      | Ok _ \<Rightarrow>
          (case pc_bench ctx of
             None \<Rightarrow>
               (case req of
                  BqNodeInfo \<Rightarrow>
                    (RepNodeInfo (pc_disabled_info ctx (fl_id f) (fl_name f)
                       (case pc_bench_disabled ctx of Some r \<Rightarrow> r | None \<Rightarrow> ''bench is not configured on this node'')), w)
                | _ \<Rightarrow>
                    (RepRefused (fl_id f) (BrNotConfigured (case pc_bench_disabled ctx of Some r \<Rightarrow> r | None \<Rightarrow> ''no bench.yaml'')
                       ''write <config-dir>/bench.yaml on the node and restart its agent''), w))
           | Some host \<Rightarrow>
               (case req of
                  BqAttach _ _ \<Rightarrow>
                    (RepRefused (fl_id f) (BrNotConfigured ''attach is a stream, not a request''
                       ''internal: the serving loop routes Attach before this point''), w)
                | _ \<Rightarrow> host sender req w)))"

section \<open>A connection\<close>

text \<open>The frames a frame is answered with, and whether the conversation goes on.\<close>

fun serve_frame ::
    "('w, 'v, 'r, 'i) peer_ctx \<Rightarrow> ('r, 'x) forward \<Rightarrow> node_id \<Rightarrow> ('v, 'a) local_fleet \<Rightarrow> ('v, 'r, 'i) peer_frame \<Rightarrow> 'w \<times> 'x \<Rightarrow>
     ('v, 'r, 'i) peer_frame list \<times> bool \<times> 'w \<times> 'x" where
  "serve_frame ctx forward sender f (PfPreviewRank a) (w, x) =
     ([case pc_render ctx a of Ok (command, unmapped) \<Rightarrow> PfRankPreviewed command unmapped | Err e \<Rightarrow> PfRankRefused e], True, w, x)"
| "serve_frame ctx forward sender f (PfPrepare a epoch) (w, x) =
     (let (reply, w) = ro_prepare (pc_rank ctx) epoch a w in ([PfPrepared epoch reply], True, w, x))"
| "serve_frame ctx forward sender f (PfCommit epoch) (w, x) =
     (case ro_commit (pc_rank ctx) epoch w of
        (Ok container, w) \<Rightarrow> ([PfCommitted epoch container], True, w, x)
      | (Err e, w) \<Rightarrow> ([PfRankRefused e], True, w, x))"
| "serve_frame ctx forward sender f (PfIsRankAlive container) (w, x) =
     (let (running, w) = ro_alive (pc_rank ctx) container w in
      ([PfRankLiveness container (case running of Ok b \<Rightarrow> b | Err _ \<Rightarrow> False)], True, w, x))"
| "serve_frame ctx forward sender f (PfStopRank container) (w, x) =
     (let (_, w) = ro_stop (pc_rank ctx) container w in ([PfRankStopped container], True, w, x))"
| "serve_frame ctx forward sender f (PfAbort epoch) (w, x) = ([PfAborted epoch], True, ro_abort (pc_rank ctx) epoch w, x)"
| "serve_frame ctx forward sender f (PfControl req trace) (w, x) =
     (let (rep, w) = terminal_control (pc_control ctx) sender (fl_pins f) (fl_id f) req trace w in
      ([PfControlReply rep trace], True, w, x))"
| "serve_frame ctx forward sender f (PfControlTo node req trace) (w, x) =
     (let (rep, x) = relay_control forward (pc_port ctx) f sender node req trace x in ([PfControlReply rep trace], True, w, x))"
| "serve_frame ctx forward sender f (PfBench req) (w, x) =
     (case req of
        BqAttach job from_seq \<Rightarrow> (pc_attach ctx sender (fl_pins f) job from_seq w, False, w, x)
      | _ \<Rightarrow> (let (rep, w) = terminal_bench ctx sender f req w in ([PfBenchReply rep], True, w, x)))"
| "serve_frame ctx forward sender f _ (w, x) = ([], False, w, x)"

fun serve_frames ::
    "('w, 'v, 'r, 'i) peer_ctx \<Rightarrow> ('r, 'x) forward \<Rightarrow> node_id \<Rightarrow> ('v, 'a) local_fleet \<Rightarrow> (pin_file \<times> ('v, 'r, 'i) peer_frame) list \<Rightarrow>
     'w \<times> 'x \<Rightarrow> ('v, 'r, 'i) peer_frame list \<times> 'w \<times> 'x" where
  "serve_frames ctx forward sender f [] s = ([], s)"
| "serve_frames ctx forward sender f ((pins, frame) # frames) s =
     (let (out, on, s) = serve_frame ctx forward sender (f\<lparr>fl_pins := pins\<rparr>) frame s in
      if on then let (out', s) = serve_frames ctx forward sender f frames s in (out @ out', s) else (out, s))"

definition serve_peer_connection ::
    "int \<Rightarrow> ('w, 'v, 'r, 'i) peer_ctx \<Rightarrow> ('r, 'x) forward \<Rightarrow> node_id \<Rightarrow> ('v, 'a) local_fleet \<Rightarrow> (pin_file \<times> ('v, 'r, 'i) peer_frame) list \<Rightarrow>
     'w \<times> 'x \<Rightarrow> ('v, 'r, 'i) peer_frame list \<times> 'w \<times> 'x" where
  "serve_peer_connection now ctx forward sender f frames s =
     (case frames of
        [] \<Rightarrow> ([], s)
      | (_, first) # frames \<Rightarrow>
          let intro = (case fleet_digest now f of Ok digest \<Rightarrow> (pc_intro ctx)\<lparr>si_vouched := Some digest\<rparr> | Err _ \<Rightarrow> pc_intro ctx) in
          (case serve_query first intro (fl_vitals f) (fl_local_addresses f) of
             Err _ \<Rightarrow> ([], s)
           | Ok out \<Rightarrow> let (out', s) = serve_frames ctx forward sender f frames s in (out @ out', s)))"

section \<open>Asking\<close>

text \<open>\<open>PinnedPeerVerifier::check\<close>, which both ends of a connection run on the other's certificate.\<close>

definition verifier_check :: "node_id option \<Rightarrow> bool \<Rightarrow> pin_file \<Rightarrow> node_id \<Rightarrow> (unit, string) result" where
  "verifier_check expect allow_unpinned pins n =
     (if (case expect of Some e \<Rightarrow> n \<noteq> e | None \<Rightarrow> False)
      then Err (''connected to '' @ node_id_to_string n @ '', expected '' @ node_id_to_string (the expect))
      else if allow_unpinned then Ok ()
      else (case is_pinned n pins of
        Err e \<Rightarrow> Err (''reading the pin store: '' @ e)
      | Ok True \<Rightarrow> Ok ()
      | Ok False \<Rightarrow> Err (''peer '' @ node_id_to_string n @ '' is not paired'')))"

record ('w, 'v, 'a, 'r, 'i) far_end =
  fe_now :: int
  fe_ctx :: "('w, 'v, 'r, 'i) peer_ctx"
  fe_fleet :: "('v, 'a) local_fleet"

definition no_forward :: "('r, unit) forward" where
  "no_forward n ip port req trace x = (Err ''nothing is relayed here'', x)"

text \<open>
  What is heard back on a connection to a machine after sending these frames, where the line carries so many frames
  there and so many back. A machine that has not pinned the caller leaves it to the join window, which answers none of
  these frames.
\<close>

definition talk ::
    "nat \<times> nat \<Rightarrow> ('w, 'v, 'a, 'r, 'i) far_end \<Rightarrow> node_id \<Rightarrow> pin_file \<Rightarrow> node_id \<Rightarrow> ('v, 'r, 'i) peer_frame list \<Rightarrow> 'w \<Rightarrow>
     (('v, 'r, 'i) peer_frame list, string) result \<times> 'w" where
  "talk line far me pins expect frames w =
     (case verifier_check (Some expect) False pins (fl_id (fe_fleet far)) of
        Err e \<Rightarrow> (Err e, w)
      | Ok _ \<Rightarrow>
          if \<not> fl_pinned me (fe_fleet far) then (Ok [], w)
          else
            let (out, w, _) = serve_peer_connection (fe_now far) (fe_ctx far) no_forward me (fe_fleet far)
                  (map (Pair (fl_pins (fe_fleet far))) (take (fst line) frames)) (w, ()) in
            (Ok (take (snd line) out), w))"

text \<open>
  One request: the hello goes out, the other's hello is read and judged, and only then the request is sent. The frames
  that come back after the hello are the result.
\<close>

definition request_over ::
    "nat \<times> nat \<Rightarrow> ('w, 'v, 'a, 'r, 'i) far_end \<Rightarrow> node_id \<Rightarrow> pin_file \<Rightarrow> node_id \<Rightarrow> 'v self_intro \<Rightarrow>
     ('v peer_hello \<Rightarrow> (unit, string) result) \<Rightarrow> ('v, 'r, 'i) peer_frame \<Rightarrow> 'w \<Rightarrow>
     (('v, 'r, 'i) peer_frame list, string) result \<times> 'w" where
  "request_over line far me pins expect intro capable request w =
     (case result_bind (fst (talk line far me pins expect [PfHello (hello_of intro [])] w)) exchange_hello of
        Err e \<Rightarrow> (Err e, w)
      | Ok (h, _) \<Rightarrow>
          (case capable h of
             Err e \<Rightarrow> (Err e, w)
           | Ok _ \<Rightarrow>
               let (back, w) = talk line far me pins expect [PfHello (hello_of intro []), request] w in
               (result_bind back (\<lambda>frames. result_bind (exchange_hello frames) (\<lambda>(_, rest). Ok rest)), w)))"

definition any_peer :: "'v peer_hello \<Rightarrow> (unit, string) result" where
  "any_peer h = Ok ()"

definition ensure_control_capable :: "node_id \<Rightarrow> 'v peer_hello \<Rightarrow> (unit, string) result" where
  "ensure_control_capable peer h =
     (let version_max = (case he_version_max h of Some v \<Rightarrow> v | None \<Rightarrow> PEER_PROTOCOL_VERSION) in
      if version_max < 2
      then Err (he_name h @ '' ('' @ node_id_short peer @ '') speaks peer protocol '' @ show_nat (unat version_max)
        @ '' and cannot carry control frames (this build speaks up to '' @ show_nat (unat PEER_PROTOCOL_MAX) @ ''); upgrade it'')
      else Ok ())"

subsection \<open>A rank of another machine\<close>

definition want_preview :: "('v, 'r, 'i) peer_frame \<Rightarrow> ((string \<times> string list) option, string) result" where
  "want_preview f = (case f of
     PfRankPreviewed command unmapped \<Rightarrow> Ok (Some (command, unmapped))
   | PfRankRefused reason \<Rightarrow> Err reason
   | _ \<Rightarrow> Err ''expected a rank preview'')"

definition want_prepared :: "string \<Rightarrow> ('v, 'r, 'i) peer_frame \<Rightarrow> (prepare_reply option, string) result" where
  "want_prepared epoch f = (case f of
     PfPrepared e reply \<Rightarrow> Ok (if e = epoch then Some reply else None)
   | PfRankRefused reason \<Rightarrow> Ok (Some (Refused reason))
   | _ \<Rightarrow> Err ''expected a prepare result'')"

definition want_committed :: "string \<Rightarrow> ('v, 'r, 'i) peer_frame \<Rightarrow> (string option, string) result" where
  "want_committed epoch f = (case f of
     PfCommitted e container \<Rightarrow> Ok (if e = epoch then Some container else None)
   | PfRankRefused reason \<Rightarrow> Err reason
   | _ \<Rightarrow> Err ''expected a commit result'')"

definition want_aborted :: "string \<Rightarrow> ('v, 'r, 'i) peer_frame \<Rightarrow> (unit option, string) result" where
  "want_aborted epoch f = (case f of
     PfAborted e \<Rightarrow> Ok (if e = epoch then Some () else None)
   | _ \<Rightarrow> Err ''expected an abort acknowledgement'')"

definition want_alive :: "string \<Rightarrow> ('v, 'r, 'i) peer_frame \<Rightarrow> (bool option, string) result" where
  "want_alive container f = (case f of
     PfRankLiveness c running \<Rightarrow> Ok (if c = container then Some running else None)
   | _ \<Rightarrow> Err ''expected a liveness answer'')"

definition want_stopped :: "string \<Rightarrow> ('v, 'r, 'i) peer_frame \<Rightarrow> (unit option, string) result" where
  "want_stopped container f = (case f of
     PfRankStopped c \<Rightarrow> Ok (if c = container then Some () else None)
   | _ \<Rightarrow> Err ''expected a stop acknowledgement'')"

definition ask_rank ::
    "nat \<times> nat \<Rightarrow> ('w, 'v, 'a, 'r, 'i) far_end \<Rightarrow> node_id \<Rightarrow> pin_file \<Rightarrow> node_id \<Rightarrow> 'v self_intro \<Rightarrow> ('v, 'r, 'i) peer_frame \<Rightarrow>
     string \<Rightarrow> (('v, 'r, 'i) peer_frame \<Rightarrow> ('t option, string) result) \<Rightarrow> 'w \<Rightarrow> ('t, string) result \<times> 'w" where
  "ask_rank line far me pins expect intro request what want w =
     (let (back, w) = request_over line far me pins expect intro any_peer request w in
      (result_bind back (peer_answer SKIP_BUDGET what want), w))"

text \<open>The transport of a cluster, one rank of it, over a given line.\<close>

definition remote_rank ::
    "nat \<times> nat \<Rightarrow> ('w, 'v, 'a, 'r, 'i) far_end \<Rightarrow> node_id \<Rightarrow> pin_file \<Rightarrow> node_id \<Rightarrow> 'v self_intro \<Rightarrow> 'w rank_ops" where
  "remote_rank line far me pins expect intro =
     \<lparr>ro_prepare = (\<lambda>epoch a w.
        let (r, w) = ask_rank line far me pins expect intro (PfPrepare a epoch) ''prepare'' (want_prepared epoch) w in
        (case r of Ok reply \<Rightarrow> reply | Err e \<Rightarrow> Refused (''could not be reached: '' @ e), w)),
      ro_commit = (\<lambda>epoch. ask_rank line far me pins expect intro (PfCommit epoch) ''commit'' (want_committed epoch)),
      ro_alive = (\<lambda>container. ask_rank line far me pins expect intro (PfIsRankAlive container) ''liveness'' (want_alive container)),
      ro_stop = (\<lambda>container. ask_rank line far me pins expect intro (PfStopRank container) ''stop'' (want_stopped container)),
      ro_abort = (\<lambda>epoch w.
        snd (ask_rank line far me pins expect intro (PfAbort epoch) ''abort'' (want_aborted epoch) w))\<rparr>"

definition remote_preview ::
    "nat \<times> nat \<Rightarrow> ('w, 'v, 'a, 'r, 'i) far_end \<Rightarrow> node_id \<Rightarrow> pin_file \<Rightarrow> node_id \<Rightarrow> 'v self_intro \<Rightarrow> rank_assignment \<Rightarrow> 'w \<Rightarrow>
     (string \<times> string list, string) result \<times> 'w" where
  "remote_preview line far me pins expect intro a =
     ask_rank line far me pins expect intro (PfPreviewRank a) ''preview'' want_preview"

subsection \<open>A control request\<close>

fun control_reply :: "nat \<Rightarrow> control_trace option \<Rightarrow> ('v, 'r, 'i) peer_frame list \<Rightarrow> ('r control_rep, string) result" where
  "control_reply 0 sent frames = Err ''it kept sending vitals instead of answering the control request''"
| "control_reply (Suc k) sent [] = Err ''it did not answer the control request''"
| "control_reply (Suc k) sent (f # frames) =
     (case f of
        PfVitals _ \<Rightarrow> control_reply k sent frames
      | PfControlReply rep trace \<Rightarrow>
          (case (sent, trace) of
             (Some s, Some e) \<Rightarrow> if s \<noteq> e then Err ''it answered another attempt, not this request's'' else Ok rep
           | _ \<Rightarrow> Ok rep)
      | _ \<Rightarrow> Err ''expected a control reply'')"

definition send_control ::
    "nat \<times> nat \<Rightarrow> ('w, 'v, 'a, 'r, 'i) far_end \<Rightarrow> node_id \<Rightarrow> pin_file \<Rightarrow> node_id \<Rightarrow> 'v self_intro \<Rightarrow> control_req \<Rightarrow>
     control_trace option \<Rightarrow> 'w \<Rightarrow> ('r control_rep, string) result \<times> 'w" where
  "send_control line far me pins expect intro req trace w =
     (let (back, w) = request_over line far me pins expect intro (ensure_control_capable expect) (PfControl req trace) w in
      (result_bind back (control_reply SKIP_BUDGET trace), w))"

text \<open>The machines around a relay: who answers at an address, and what each is.\<close>

type_synonym ('w, 'v, 'a, 'r, 'i) machines = "node_id \<rightharpoonup> ('w, 'v, 'a, 'r, 'i) far_end \<times> 'w"

definition forward_over ::
    "(ip_addr \<Rightarrow> node_id option) \<Rightarrow> nat \<times> nat \<Rightarrow> node_id \<Rightarrow> pin_file \<Rightarrow> 'v self_intro \<Rightarrow>
     ('r, ('w, 'v, 'a, 'r, 'i) machines) forward" where
  "forward_over who line me pins intro node ip port req trace machines =
     (case Option.bind (who ip) machines of
        None \<Rightarrow> (Err ''nothing answers there'', machines)
      | Some (far, w) \<Rightarrow>
          let (r, w) = send_control line far me pins node intro req trace w in
          (r, machines(fl_id (fe_fleet far) \<mapsto> (far, w))))"

section \<open>The gates, proved\<close>

definition has_right :: "(pin \<Rightarrow> bool) \<Rightarrow> node_id \<Rightarrow> pin_file \<Rightarrow> bool" where
  "has_right right n pins = (\<exists>m p. pins_load pins = Ok m \<and> bt_get m n = Some p \<and> right p)"

lemma control_grant_Ok: "control_grant pins sender local = Ok u \<longleftrightarrow> has_right pn_controller sender pins"
  by (auto simp: control_grant_def has_right_def split: result.splits option.splits)

lemma bench_grant_Ok: "bench_grant pins sender local = Ok u \<longleftrightarrow> has_right pn_bench sender pins"
  by (auto simp: bench_grant_def has_right_def split: result.splits option.splits)

lemma control_grant_Err: "\<not> has_right pn_controller sender pins \<Longrightarrow> \<exists>e. control_grant pins sender local = Err e"
  by (cases "control_grant pins sender local") (auto simp: control_grant_Ok)

lemma bench_grant_Err: "\<not> has_right pn_bench sender pins \<Longrightarrow> \<exists>e. bench_grant pins sender local = Err e"
  by (cases "bench_grant pins sender local") (auto simp: bench_grant_Ok)

text \<open>The frames that a right is needed for, by the right, and those of the ranks, which every paired machine may send.\<close>

fun needs_right :: "('v, 'r, 'i) peer_frame \<Rightarrow> (pin \<Rightarrow> bool) option" where
  "needs_right (PfControl _ _) = Some pn_controller"
| "needs_right (PfControlTo _ _ _) = Some pn_controller"
| "needs_right (PfBench _) = Some pn_bench"
| "needs_right _ = None"

fun is_rank_verb :: "('v, 'r, 'i) peer_frame \<Rightarrow> bool" where
  "is_rank_verb (PfPreviewRank _) = True"
| "is_rank_verb (PfPrepare _ _) = True"
| "is_rank_verb (PfCommit _) = True"
| "is_rank_verb (PfIsRankAlive _) = True"
| "is_rank_verb (PfStopRank _) = True"
| "is_rank_verb (PfAbort _) = True"
| "is_rank_verb _ = False"

fun says_refused :: "('v, 'r, 'i) peer_frame \<Rightarrow> bool" where
  "says_refused (PfControlReply (RpRefused _ _) _) = True"
| "says_refused (PfBenchReply (RepRefused _ _)) = True"
| "says_refused _ = False"

text \<open>An attached stream that is asked for without the right is refused like the rest.\<close>

definition attach_gated :: "('w, 'v, 'r, 'i) peer_ctx \<Rightarrow> bool" where
  "attach_gated ctx = (\<forall>sender pins job from_seq w. \<not> has_right pn_bench sender pins \<longrightarrow>
     list_all says_refused (pc_attach ctx sender pins job from_seq w))"

lemma ungranted_frame:
  assumes "case needs_right frame of Some right \<Rightarrow> \<not> has_right right sender (fl_pins f) | None \<Rightarrow> \<not> is_rank_verb frame"
    and "attach_gated ctx"
  shows "\<exists>out on. serve_frame ctx forward sender f frame s = (out, on, s) \<and> list_all says_refused out"
proof -
  obtain w x where s: "s = (w, x)" by (cases s)
  have ends: "Ex Not" by blast
  show ?thesis
  proof (cases frame)
    case (PfControl req trace)
    then obtain e where "control_grant (fl_pins f) sender (fl_id f) = Err e" using assms(1) control_grant_Err by fastforce
    then show ?thesis by (simp add: s PfControl terminal_control_def exI [of _ True])
  next
    case (PfControlTo node req trace)
    then obtain e where "control_grant (fl_pins f) sender (fl_id f) = Err e" using assms(1) control_grant_Err by fastforce
    then show ?thesis by (simp add: s PfControlTo relay_control_def relay_answer_def exI [of _ True])
  next
    case (PfBench req)
    then have no: "\<not> has_right pn_bench sender (fl_pins f)" using assms(1) by simp
    then obtain e where "bench_grant (fl_pins f) sender (fl_id f) = Err e" using bench_grant_Err by blast
    then show ?thesis using no assms(2) by (cases req) (auto simp: s PfBench terminal_bench_def attach_gated_def)
  qed (use assms(1) ends in \<open>simp_all add: s\<close>)
qed


section \<open>Asking, proved\<close>

definition far_hello :: "('w, 'v, 'a, 'r, 'i) far_end \<Rightarrow> 'v peer_hello" where
  "far_hello far =
     (let f = fe_fleet far; c = fe_ctx far in
      hello_of (case fleet_digest (fe_now far) f of Ok digest \<Rightarrow> (pc_intro c)\<lparr>si_vouched := Some digest\<rparr> | Err _ \<Rightarrow> pc_intro c)
        (fl_local_addresses f))"

definition far_vitals :: "('w, 'v, 'a, 'r, 'i) far_end \<Rightarrow> ('v, 'r, 'i) peer_frame list" where
  "far_vitals far = (case fl_vitals (fe_fleet far) of Some v \<Rightarrow> [PfVitals v] | None \<Rightarrow> [])"

lemma hello_of_version [simp]: "he_version (hello_of intro a) = PEER_PROTOCOL_VERSION"
  by (simp add: hello_of_def)

lemma keep_pins [simp]: "f\<lparr>fl_pins := fl_pins f\<rparr> = f"
  by (cases f) simp

lemma served:
  assumes "serve_frame (fe_ctx far) no_forward me (fe_fleet far) request (w, ()) = (out, on, w', ())"
  shows "serve_peer_connection (fe_now far) (fe_ctx far) no_forward me (fe_fleet far)
      (map (Pair (fl_pins (fe_fleet far))) (take m [PfHello (hello_of intro []), request])) (w, ()) =
    (if m = 0 then [] else PfHello (far_hello far) # far_vitals far @ (if m = 1 then [] else out), if m < 2 then w else w', ())"
proof -
  consider "m = 0" | "m = 1" | k where "m = Suc (Suc k)" by (metis One_nat_def not0_implies_Suc)
  then show ?thesis using assms
    by cases (auto simp: serve_peer_connection_def serve_query_def far_hello_def far_vitals_def Let_def)
qed

definition trusts :: "('w, 'v, 'a, 'r, 'i) far_end \<Rightarrow> node_id \<Rightarrow> pin_file \<Rightarrow> node_id \<Rightarrow> bool" where
  "trusts far me pins expect =
     (verifier_check (Some expect) False pins (fl_id (fe_fleet far)) = Ok () \<and> fl_pinned me (fe_fleet far))"

lemma trusts_def2:
  "trusts far me pins expect \<longleftrightarrow> fl_id (fe_fleet far) = expect \<and> is_pinned expect pins = Ok True \<and> fl_pinned me (fe_fleet far)"
  by (auto simp: trusts_def verifier_check_def split: result.splits bool.splits if_splits)

lemma answer_after_vitals:
  assumes "\<And>v. reply \<noteq> PfVitals v" "want reply = result_bind r (\<lambda>v. Ok (Some v))"
  shows "peer_answer SKIP_BUDGET what want (take k (far_vitals far @ [reply])) =
    (if length (far_vitals far) < k then r else Err (''it did not answer the '' @ what @ '' in time''))"
proof -
  have here: "peer_answer (Suc j) what want [reply] = r" for j
    using assms by (cases reply; cases r) auto
  show ?thesis
  proof (cases "fl_vitals (fe_fleet far)")
    case None
    then show ?thesis using here by (cases k) (simp_all add: far_vitals_def SKIP_BUDGET_def eval_nat_numeral)
  next
    case (Some v)
    consider "k = 0" | "k = 1" | j where "k = Suc (Suc j)" by (metis One_nat_def not0_implies_Suc)
    then show ?thesis using Some here by cases (simp_all add: far_vitals_def SKIP_BUDGET_def eval_nat_numeral)
  qed
qed

text \<open>A conversation: what comes back and what it does, whatever the line loses.\<close>

lemma request_over_cases:
  fixes far :: "('w, 'v, 'a, 'r, 'i) far_end"
  assumes serve: "serve_frame (fe_ctx far) no_forward me (fe_fleet far) request (w, ()) = ([reply], on, w', ())"
  shows "request_over line far me pins expect intro capable request w =
    (if \<not> trusts far me pins expect then
       (Err (case verifier_check (Some expect) False pins (fl_id (fe_fleet far)) of Err e \<Rightarrow> e | Ok _ \<Rightarrow> ''it did not introduce itself''), w)
     else if fst line = 0 \<or> snd line = 0 then (Err ''it did not introduce itself'', w)
     else (case capable (far_hello far) of
         Err e \<Rightarrow> (Err e, w)
       | Ok _ \<Rightarrow>
           (Ok (take (snd line - 1) (far_vitals far @ (if fst line = 1 then [] else [reply]))), if fst line = 1 then w else w')))"
proof (cases "trusts far me pins expect")
  case False
  then show ?thesis
    by (cases "verifier_check (Some expect) False pins (fl_id (fe_fleet far))")
      (auto simp: request_over_def talk_def trusts_def exchange_hello_def)
next
  case True
  obtain m n where line: "line = (m, n)" by (cases line)
  have version: "he_version (far_hello far) = PEER_PROTOCOL_VERSION" by (simp add: far_hello_def Let_def)
  have one: "take m [PfHello (hello_of intro [])] = take (min m 1) [PfHello (hello_of intro []), request]"
    by (cases m) auto
  have first: "talk (m, n) far me pins expect [PfHello (hello_of intro [])] w =
      (Ok (take n (if m = 0 then [] else PfHello (far_hello far) # far_vitals far)), w)"
    using True served [OF serve, of "min m 1" intro]
    by (cases m) (auto simp: talk_def trusts_def line one)
  have both: "talk (m, n) far me pins expect [PfHello (hello_of intro []), request] w =
      (Ok (take n (if m = 0 then [] else PfHello (far_hello far) # far_vitals far @ (if m = 1 then [] else [reply]))), if m < 2 then w else w')"
    using True served [OF serve, of m intro] by (auto simp: talk_def trusts_def line)
  show ?thesis
  proof (cases "m = 0 \<or> n = 0")
    case zero: True
    then show ?thesis using True by (auto simp: request_over_def first exchange_hello_def line)
  next
    case False
    then have nz: "m \<noteq> 0" "n \<noteq> 0" by auto
    then have cut: "take n (x # xs) = x # take (n - 1) xs" for x :: "('v, 'r, 'i) peer_frame" and xs by (cases n) auto
    have hello: "exchange_hello (PfHello (far_hello far) # fs) = Ok (far_hello far, fs)" for fs :: "('v, 'r, 'i) peer_frame list"
      by (simp add: exchange_hello_def version)
    have c: "request_over (m, n) far me pins expect intro capable request w =
      (case capable (far_hello far) of
         Err e \<Rightarrow> (Err e, w)
       | Ok _ \<Rightarrow> (Ok (take (n - 1) (far_vitals far @ (if m = 1 then [] else [reply]))), if m < 2 then w else w'))"
      unfolding request_over_def first both using nz by (simp add: cut hello split: result.split)
    have "m < 2 \<longleftrightarrow> m = 1" using nz by auto
    then show ?thesis using True nz unfolding line c by (simp split: result.split)
  qed
qed

text \<open>The request reached the other machine, and its answer came back.\<close>

definition arrives :: "nat \<times> nat \<Rightarrow> ('w, 'v, 'a, 'r, 'i) far_end \<Rightarrow> node_id \<Rightarrow> pin_file \<Rightarrow> node_id \<Rightarrow> bool" where
  "arrives line far me pins expect =
     (fl_id (fe_fleet far) = expect \<and> is_pinned expect pins = Ok True \<and> fl_pinned me (fe_fleet far) \<and> 2 \<le> fst line \<and> 1 \<le> snd line)"

definition comes_back :: "nat \<times> nat \<Rightarrow> ('w, 'v, 'a, 'r, 'i) far_end \<Rightarrow> node_id \<Rightarrow> pin_file \<Rightarrow> node_id \<Rightarrow> bool" where
  "comes_back line far me pins expect =
     (arrives line far me pins expect \<and> length (far_vitals far :: ('v, 'r, 'i) peer_frame list) + 2 \<le> snd line)"

lemma ask_rank_eval:
  fixes far :: "('w, 'v, 'a, 'r, 'i) far_end"
  assumes serve: "serve_frame (fe_ctx far) no_forward me (fe_fleet far) request (w, ()) = ([reply], on, w', ())"
    and reply: "\<And>v. reply \<noteq> PfVitals v" and want: "want reply = result_bind r (\<lambda>v. Ok (Some v))"
  shows "\<exists>why. ask_rank line far me pins expect intro request what want w =
    (if comes_back line far me pins expect then r else Err why,
     if arrives line far me pins expect then w' else w)"
proof -
  obtain m n where line: "line = (m, n)" by (cases line)
  note c = request_over_cases [OF serve, of line pins expect intro any_peer]
  have ans: "peer_answer SKIP_BUDGET what want (take k (far_vitals far @ [reply])) =
      (if length (far_vitals far :: ('v, 'r, 'i) peer_frame list) < k then r else Err (''it did not answer the '' @ what @ '' in time''))" for k
    by (rule answer_after_vitals) (use reply want in auto)
  show ?thesis
  proof (cases "arrives line far me pins expect")
    case True
    then have t: "trusts far me pins expect" "m \<noteq> 0" "n \<noteq> 0" "m \<noteq> 1" by (auto simp: arrives_def trusts_def2 line)
    then have "request_over line far me pins expect intro any_peer request w = (Ok (take (n - 1) (far_vitals far @ [reply])), w')"
      using c by (simp add: line any_peer_def)
    then have "ask_rank line far me pins expect intro request what want w =
        (if length (far_vitals far :: ('v, 'r, 'i) peer_frame list) < n - 1 then r
         else Err (''it did not answer the '' @ what @ '' in time''), w')"
      by (simp add: ask_rank_def ans del: take_append)
    moreover have "length (far_vitals far :: ('v, 'r, 'i) peer_frame list) < n - 1 \<longleftrightarrow> comes_back line far me pins expect"
      using True by (auto simp: comes_back_def line)
    ultimately show ?thesis using True by auto
  next
    case False
    have "\<exists>why. fst (ask_rank line far me pins expect intro request what want w) = Err why \<and>
        snd (ask_rank line far me pins expect intro request what want w) = w"
    proof (cases "trusts far me pins expect \<and> m \<noteq> 0 \<and> n \<noteq> 0")
      case True
      then have "m = 1" using False by (auto simp: arrives_def trusts_def2 line)
      then have heard: "request_over line far me pins expect intro any_peer request w = (Ok (take (n - 1) (far_vitals far)), w)"
        using True c by (simp add: line any_peer_def)
      have "\<exists>why. peer_answer SKIP_BUDGET what want (take (n - 1) (far_vitals far :: ('v, 'r, 'i) peer_frame list)) = Err why"
        by (cases "n - 1") (auto simp: far_vitals_def SKIP_BUDGET_def eval_nat_numeral split: option.split)
      then show ?thesis using heard by (auto simp: ask_rank_def)
    next
      case F: False
      then show ?thesis using c by (auto simp: ask_rank_def line)
    qed
    then show ?thesis using False by (auto simp: comes_back_def prod_eq_iff)
  qed
qed


section \<open>Relaying, proved\<close>

lemma control_after_vitals:
  "\<exists>why. control_reply SKIP_BUDGET sent (take k (far_vitals far @ [PfControlReply rep sent])) =
    (if length (far_vitals far :: ('v, 'r, 'i) peer_frame list) < k then Ok rep else Err why)"
  for far :: "('w, 'v, 'a, 'r, 'i) far_end"
proof (cases "fl_vitals (fe_fleet far)")
  case None
  then show ?thesis by (cases k) (simp_all add: far_vitals_def SKIP_BUDGET_def eval_nat_numeral split: option.split)
next
  case (Some v)
  consider "k = 0" | "k = 1" | j where "k = Suc (Suc j)" by (metis One_nat_def not0_implies_Suc)
  then show ?thesis using Some
    by cases (simp_all add: far_vitals_def SKIP_BUDGET_def eval_nat_numeral split: option.split)
qed

lemma control_of_vitals:
  "\<exists>why. control_reply SKIP_BUDGET sent (take k (far_vitals far)) = Err why"
  by (cases k) (auto simp: far_vitals_def SKIP_BUDGET_def eval_nat_numeral split: option.split)

lemma send_control_eval:
  fixes far :: "('w, 'v, 'a, 'r, 'i) far_end" and trace req w me
  defines "done \<equiv> terminal_control (pc_control (fe_ctx far)) me (fl_pins (fe_fleet far)) (fl_id (fe_fleet far)) req trace w"
  shows "\<exists>why. send_control line far me pins expect intro req trace w =
    (if comes_back line far me pins expect \<and> ensure_control_capable expect (far_hello far) = Ok () then Ok (fst done) else Err why,
     if arrives line far me pins expect \<and> ensure_control_capable expect (far_hello far) = Ok () then snd done else w)"
proof -
  obtain m n where line: "line = (m, n)" by (cases line)
  have serve: "serve_frame (fe_ctx far) no_forward me (fe_fleet far) (PfControl req trace) (w, ()) =
      ([PfControlReply (fst done) trace], True, snd done, ())"
    unfolding done_def by (simp add: case_prod_beta Let_def)
  note c = request_over_cases [OF serve, of line pins expect intro "ensure_control_capable expect"]
  let ?ask = "request_over line far me pins expect intro (ensure_control_capable expect) (PfControl req trace) w"
  have sent: "send_control line far me pins expect intro req trace w = (result_bind (fst ?ask) (control_reply SKIP_BUDGET trace), snd ?ask)"
    by (simp add: send_control_def Let_def case_prod_beta)
  show ?thesis
  proof (cases "trusts far me pins expect \<and> m \<noteq> 0 \<and> n \<noteq> 0 \<and> ensure_control_capable expect (far_hello far) = Ok ()")
    case False
    then have "fst ?ask = Err e \<and> snd ?ask = w" if "fst ?ask = Err e" for e using c that by (auto simp: line split: result.splits if_splits)
    moreover have "\<exists>e. fst ?ask = Err e" using False c by (auto simp: line split: result.splits)
    moreover have "\<not> (arrives line far me pins expect \<and> ensure_control_capable expect (far_hello far) = Ok ())"
      using False by (auto simp: arrives_def trusts_def2 line)
    ultimately show ?thesis by (auto simp: sent comes_back_def)
  next
    case True
    show ?thesis
    proof (cases "m = 1")
      case one: True
      then have "?ask = (Ok (take (n - 1) (far_vitals far)), w)" using True c by (simp add: line)
      moreover obtain why where "control_reply SKIP_BUDGET trace (take (n - 1) (far_vitals far :: ('v, 'r, 'i) peer_frame list)) = Err why"
        using control_of_vitals by blast
      ultimately show ?thesis unfolding sent using one by (auto simp: comes_back_def arrives_def line)
    next
      case False
      obtain t where t: "t = take (n - 1) (far_vitals far @ [PfControlReply (fst done) trace])" by simp
      then have ask: "?ask = (Ok t, snd done)" using True False c by (simp add: line del: take_append)
      obtain why where why: "control_reply SKIP_BUDGET trace t =
          (if length (far_vitals far :: ('v, 'r, 'i) peer_frame list) < n - 1 then Ok (fst done) else Err why)"
        unfolding t using control_after_vitals by blast
      have a: "arrives line far me pins expect" using True False by (auto simp: arrives_def trusts_def2 line)
      have "comes_back line far me pins expect \<longleftrightarrow> length (far_vitals far :: ('v, 'r, 'i) peer_frame list) < n - 1"
        using a by (auto simp: comes_back_def line)
      then show ?thesis using a True by (auto simp: sent ask why)
    qed
  qed
qed

lemma terminal_control_effect:
  "snd (terminal_control execute sender pins local req trace w) =
     (if has_right pn_controller sender pins then snd (execute req trace w) else w)"
proof (cases "control_grant pins sender local")
  case (Ok u)
  then have "has_right pn_controller sender pins" using control_grant_Ok [of pins sender local] by blast
  then show ?thesis using Ok by (auto simp: terminal_control_def split: prod.splits result.splits)
next
  case (Err e)
  then have "\<not> has_right pn_controller sender pins" using control_grant_Ok [of pins sender local] by auto
  then show ?thesis using Err by (simp add: terminal_control_def)
qed

definition far_controls :: "('w, 'v, 'a, 'r, 'i) far_end \<Rightarrow> node_id \<Rightarrow> control_req \<Rightarrow> control_trace option \<Rightarrow> 'w \<Rightarrow> 'r control_rep \<times> 'w" where
  "far_controls far me req trace w =
     terminal_control (pc_control (fe_ctx far)) me (fl_pins (fe_fleet far)) (fl_id (fe_fleet far)) req trace w"

lemma forward_over_cases:
  assumes "forward_over who line me pins intro node ip port req trace ms = (r, ms')"
    and "\<And>n far v. ms n = Some (far, v) \<Longrightarrow> fl_id (fe_fleet far) = n"
  shows "ms' = ms \<and> (\<exists>e. r = Err e) \<or>
    (\<exists>far v. ms node = Some (far, v) \<and> (ms' = ms \<or> ms' = ms(node \<mapsto> (far, snd (far_controls far me req trace v)))) \<and>
      (case r of Ok rep \<Rightarrow> rep = fst (far_controls far me req trace v) | Err _ \<Rightarrow> True))"
proof (cases "Option.bind (who ip) ms")
  case None
  then show ?thesis using assms(1) by (auto simp: forward_over_def)
next
  case (Some e)
  obtain far v where e: "e = (far, v)" by (cases e)
  then have at: "ms (fl_id (fe_fleet far)) = Some (far, v)" using Some assms(2) by (auto simp: bind_eq_Some_conv)
  obtain r' v' where sent: "send_control line far me pins node intro req trace v = (r', v')" by fastforce
  then have r: "r = r'" and ms': "ms' = ms(fl_id (fe_fleet far) \<mapsto> (far, v'))" using assms(1) Some e by (auto simp: forward_over_def)
  obtain why where "(r', v') =
    (if comes_back line far me pins node \<and> ensure_control_capable node (far_hello far) = Ok () then Ok (fst (far_controls far me req trace v)) else Err why,
     if arrives line far me pins node \<and> ensure_control_capable node (far_hello far) = Ok () then snd (far_controls far me req trace v) else v)"
    using send_control_eval [of line far me pins node intro req trace v] unfolding sent far_controls_def by blast
  then have r': "r' = (if comes_back line far me pins node \<and> ensure_control_capable node (far_hello far) = Ok () then Ok (fst (far_controls far me req trace v)) else Err why)"
    and v': "v' = (if arrives line far me pins node \<and> ensure_control_capable node (far_hello far) = Ok () then snd (far_controls far me req trace v) else v)"
    by simp_all
  have same: "ms(fl_id (fe_fleet far) \<mapsto> (far, v)) = ms" using at by (simp add: fun_upd_idem)
  show ?thesis
  proof (cases "fl_id (fe_fleet far) = node")
    case True
    then show ?thesis using at r ms' r' v' same by (auto split: if_splits)
  next
    case False
    then have "\<not> arrives line far me pins node" by (simp add: arrives_def)
    then show ?thesis using r ms' r' v' same by (simp add: comes_back_def)
  qed
qed

text \<open>
  C38. What a machine asks a relay to forward touches the named machine alone, and not even the relay's own workloads.
  It is carried out there only where the one who asks has the right of control at the relay, the relay has itself
  pinned the target and has the right of control there; then it is carried out once, as the relay's request. The
  answer is the target's own, or says that the relay itself refused or lost it.
\<close>

theorem relay_is_one_hop:
  assumes served: "serve_frame ctx (forward_over who line (fl_id f) (fl_pins f) intro) sender f (PfControlTo node req trace) (w, ms)
      = (out, on, w', ms')"
    and named: "\<And>n far v. ms n = Some (far, v) \<Longrightarrow> fl_id (fe_fleet far) = n"
  shows "w' = w \<and> (\<forall>n. n \<noteq> node \<longrightarrow> ms' n = ms n) \<and>
    (ms' node \<noteq> ms node \<longrightarrow>
       has_right pn_controller sender (fl_pins f) \<and> fl_pinned node f \<and>
       (\<exists>far v. ms node = Some (far, v) \<and> has_right pn_controller (fl_id f) (fl_pins (fe_fleet far)) \<and>
          ms' node = Some (far, snd (pc_control (fe_ctx far) req trace v)))) \<and>
    (\<exists>rep. out = [PfControlReply rep trace] \<and>
       ((\<exists>detail transient. rep = relay_answer (fl_id f) node detail transient) \<or>
        (\<exists>far v. ms node = Some (far, v) \<and> rep = fst (far_controls far (fl_id f) req trace v))))"
proof -
  let ?fwd = "forward_over who line (fl_id f) (fl_pins f) intro"
  obtain rep where r: "relay_control ?fwd (pc_port ctx) f sender node req trace ms = (rep, ms')"
    and out: "w' = w" "out = [PfControlReply rep trace]" using served by (auto split: prod.splits)
  show ?thesis
  proof (cases "\<exists>ip. has_right pn_controller sender (fl_pins f) \<and> fl_pinned node f \<and> Option.bind (control_address node f) ip_parse = Some ip")
    case False
    then have "ms' = ms \<and> (\<exists>detail. rep = relay_answer (fl_id f) node detail False)"
      using r control_grant_Ok [of "fl_pins f" sender "fl_id f"]
      by (auto simp: relay_control_def fl_pinned_def split: result.splits option.splits if_splits)
    then show ?thesis using out by blast
  next
    case True
    then obtain ip where ip: "has_right pn_controller sender (fl_pins f)" "fl_pinned node f"
      "Option.bind (control_address node f) ip_parse = Some ip" by blast
    then have "control_grant (fl_pins f) sender (fl_id f) = Ok ()" by (simp add: control_grant_Ok)
    moreover obtain pins where "pins_load (fl_pins f) = Ok pins" "bt_get pins node \<noteq> None"
      using ip(2) by (auto simp: fl_pinned_def split: result.splits)
    moreover obtain fr fms where fwd: "?fwd node ip (pc_port ctx) req trace ms = (fr, fms)" by fastforce
    ultimately have rep: "ms' = fms" "rep = (case fr of Ok rep \<Rightarrow> rep | Err e \<Rightarrow> relay_answer (fl_id f) node e True)"
      using r ip(3) by (auto simp: relay_control_def split: result.splits)
    have "fms = ms \<and> (\<exists>e. fr = Err e) \<or>
        (\<exists>far v. ms node = Some (far, v) \<and> (fms = ms \<or> fms = ms(node \<mapsto> (far, snd (far_controls far (fl_id f) req trace v)))) \<and>
          (case fr of Ok rep \<Rightarrow> rep = fst (far_controls far (fl_id f) req trace v) | Err _ \<Rightarrow> True))"
      by (rule forward_over_cases [OF fwd]) (rule named)
    then consider (lost) e where "fms = ms" "fr = Err e"
      | (asked) far v where "ms node = Some (far, v)" "fms = ms \<or> fms = ms(node \<mapsto> (far, snd (far_controls far (fl_id f) req trace v)))"
        "case fr of Ok rep \<Rightarrow> rep = fst (far_controls far (fl_id f) req trace v) | Err _ \<Rightarrow> True" by blast
    then show ?thesis
    proof cases
      case lost
      then show ?thesis using rep out by auto
    next
      case asked
      have "rep = relay_answer (fl_id f) node e True" if "fr = Err e" for e using rep that by simp
      then have answer: "(\<exists>detail transient. rep = relay_answer (fl_id f) node detail transient) \<or>
          rep = fst (far_controls far (fl_id f) req trace v)" using asked(3) rep(2) by (cases fr) auto
      have "ms' node = ms node \<or> has_right pn_controller (fl_id f) (fl_pins (fe_fleet far)) \<and>
          ms' node = Some (far, snd (pc_control (fe_ctx far) req trace v))"
        using asked(1,2) rep(1) by (auto simp: far_controls_def terminal_control_effect split: if_splits)
      moreover have "\<forall>n. n \<noteq> node \<longrightarrow> ms' n = ms n" using asked(2) rep(1) by auto
      ultimately show ?thesis using out answer asked(1) ip(1,2) by blast
    qed
  qed
qed

section \<open>An example\<close>

text \<open>A world that counts what is done to it.\<close>

definition ex_ctx :: "(nat, unit, unit, unit) peer_ctx" where
  "ex_ctx = \<lparr>pc_rank = \<lparr>ro_prepare = \<lambda>_ _ w. (Prepared, w + 1), ro_commit = \<lambda>_ w. (Ok ''c'', w + 1), ro_alive = \<lambda>_ w. (Ok True, w),
       ro_stop = \<lambda>_ w. (Ok (), w + 1), ro_abort = \<lambda>_ w. w + 1\<rparr>,
     pc_render = \<lambda>_. Err ''no recipe'', pc_control = \<lambda>_ _ w. (Ok (RpStatus []), w + 1), pc_bench = None,
     pc_bench_disabled = None, pc_disabled_info = \<lambda>_ _ _. (), pc_attach = \<lambda>_ _ _ _ _. [], pc_port = 34334,
     pc_intro = intro_new ''a'' ''linux'' True []\<rparr>"

definition ex_relay :: "(unit, unit) local_fleet" where
  "ex_relay = ex_self 1 [ex_pin, ex_pin\<lparr>pn_id := NodeId [3], pn_last_address := Some ''10.0.0.3'', pn_controller := False\<rparr>]"

definition ex_far :: "(nat, unit, unit, unit, unit) far_end" where
  "ex_far = \<lparr>fe_now = 0, fe_ctx = ex_ctx, fe_fleet = ex_self 3 [ex_pin\<lparr>pn_id := NodeId [1]\<rparr>]\<rparr>"

definition ex_machines :: "(nat, unit, unit, unit, unit) machines" where
  "ex_machines = (\<lambda>n. if n = NodeId [3] then Some (ex_far, 0) else None)"

definition ex_who :: "ip_addr \<Rightarrow> node_id option" where
  "ex_who ip = (if ip = V4 0x0A000003 then Some (NodeId [3]) else None)"

text \<open>Machine 2 asks machine 1 to have 3 say what runs there; 3 has given 1 the right of control, and never heard of 2.\<close>

definition ex_served :: "(unit, unit, unit) peer_frame list \<times> bool \<times> nat \<times> (nat, unit, unit, unit, unit) machines" where
  "ex_served = serve_frame ex_ctx (forward_over ex_who (2, 9) (fl_id ex_relay) (fl_pins ex_relay) (pc_intro ex_ctx)) (NodeId [2]) ex_relay
     (PfControlTo (NodeId [3]) RqStatus None) (7, ex_machines)"

lemma ex_served_seen: "(case ex_served of (out, on, w, ms) \<Rightarrow> (out, on, w, map_option snd (ms (NodeId [3])))) =
    ([PfControlReply (RpStatus []) None], True, 7, Some 1)"
  by code_simp

lemma ex_named: "ex_machines n = Some (far, v) \<Longrightarrow> fl_id (fe_fleet far) = n"
  by (auto simp: ex_machines_def ex_far_def ex_self_def split: if_splits)

theorem relay_is_one_hop_witness:
  "\<exists>ms'. ex_served = ([PfControlReply (RpStatus []) None], True, 7, ms') \<and>
     ms' = (\<lambda>n. if n = NodeId [3] then Some (ex_far, 1) else None)"
proof -
  obtain out on w ms' where s: "ex_served = (out, on, w, ms')" by (cases ex_served)
  from ex_served_seen [unfolded s] have seen: "out = [PfControlReply (RpStatus []) None]" "on" "w = 7" "map_option snd (ms' (NodeId [3])) = Some 1" by simp_all
  note hop = relay_is_one_hop [OF s [unfolded ex_served_def]]
  have others: "\<forall>n. n \<noteq> NodeId [3] \<longrightarrow> ms' n = ex_machines n" using hop [THEN conjunct2, THEN conjunct1] ex_named by blast
  have "ms' (NodeId [3]) \<noteq> ex_machines (NodeId [3])" using seen(4) by (auto simp: ex_machines_def)
  with hop [THEN conjunct2, THEN conjunct2, THEN conjunct1] ex_named
  obtain far v where "ex_machines (NodeId [3]) = Some (far, v)" "ms' (NodeId [3]) = Some (far, snd (pc_control (fe_ctx far) RqStatus None v))"
    by blast
  then have "ms' (NodeId [3]) = Some (ex_far, 1)" using seen(4) by (auto simp: ex_machines_def)
  with others have "ms' = (\<lambda>n. if n = NodeId [3] then Some (ex_far, 1) else None)" by (auto simp: ex_machines_def fun_eq_iff)
  then show ?thesis using s seen by simp
qed


end
