(* ===== verification/Spec2Isabelle.thy ===== *)
theory Spec2Isabelle
  imports Retry Rank Converge Release Logs Cluster_Driver Bench_Runner Peer_Serve
begin

text \<open>
  A verification library of the metralectl control plane.
\<close>

end
